(* ===== verification/Prelude.thy ===== *)
theory Prelude
  imports Main "HOL-Library.Word" "HOL-Library.Monad_Syntax" "HOL-Library.Multiset"
begin

text \<open>
  Shared vocabulary of the development: the machine integer types, the kernel's error codes,
  the arithmetic of the dev profile (an overflow or a failed assertion aborts the kernel, which
  the models write as \<open>None\<close>), bounds-checked reads and writes of byte slices, the
  big-endian codecs of the network code, and the few \<open>Vec\<close> operations of the standard
  library that the sources use and HOL's list library does not have.
\<close>

unbundle bit_operations_syntax

named_theorems checked_simps \<open>unfolding rules of the checked arithmetic and slice accesses\<close>

type_synonym u8 = "8 word"
type_synonym u16 = "16 word"
type_synonym u32 = "32 word"
type_synonym u64 = "64 word"

section \<open>Kernel errors\<close>

datatype KernelErrorCode =
    Unknown
  | InodeNotPresent
  | InvalidString
  | FileSystemInconsistency
  | InternalFSError
  | NotMounted
  | NoEntry
  | UnsupportedFilesystem
  | InsufficientPermissions
  | UnsupportedOperation
  | InvalidPointer
  | AlreadyMapped
  | NotMapped
  | InsufficientResources
  | InvalidArgument
  | InvalidOperation
  | Timeout
  | IllegalValue
  | InvalidProcessFile
  | OutOfMemory

text \<open>\<open>Result<T, KernelError>\<close>; line and file of the error are not kept.\<close>

type_synonym 'a kresult = "KernelErrorCode + 'a"

lemma kunit_not_Inr [simp]: "(a :: unit kresult) \<noteq> Inr () \<longleftrightarrow> (\<exists>e. a = Inl e)"
  by (cases a) auto

section \<open>Checked and saturating arithmetic on bounded naturals\<close>

definition checked_add :: "nat \<Rightarrow> nat \<Rightarrow> nat \<Rightarrow> nat option" where
  [checked_simps]: "checked_add w a b = (if a + b < 2 ^ w then Some (a + b) else None)"

definition checked_sub :: "nat \<Rightarrow> nat \<Rightarrow> nat option" where
  [checked_simps]: "checked_sub a b = (if b \<le> a then Some (a - b) else None)"

definition checked_mul :: "nat \<Rightarrow> nat \<Rightarrow> nat \<Rightarrow> nat option" where
  [checked_simps]: "checked_mul w a b = (if a * b < 2 ^ w then Some (a * b) else None)"

definition saturating_add :: "nat \<Rightarrow> nat \<Rightarrow> nat \<Rightarrow> nat" where
  "saturating_add w a b = min (a + b) (2 ^ w - 1)"

definition div_ceil :: "nat \<Rightarrow> nat \<Rightarrow> nat" where
  "div_ceil a b = (a + b - 1) div b"

definition panic_unless :: "bool \<Rightarrow> unit option" where
  [checked_simps]: "panic_unless b = (if b then Some () else None)"

lemma checked_add_Some [simp]:
  "checked_add w a b = Some c \<longleftrightarrow> c = a + b \<and> a + b < 2 ^ w"
  by (auto simp: checked_simps)

lemma checked_sub_Some [simp]:
  "checked_sub a b = Some c \<longleftrightarrow> c = a - b \<and> b \<le> a"
  by (auto simp: checked_simps)

lemma checked_mul_Some [simp]:
  "checked_mul w a b = Some c \<longleftrightarrow> c = a * b \<and> a * b < 2 ^ w"
  by (auto simp: checked_simps)

lemma panic_unless_Some [simp]: "panic_unless b = Some u \<longleftrightarrow> b"
  by (auto simp: checked_simps)

lemma panic_unless_True [simp]: "panic_unless True = Some ()"
  and panic_unless_False [simp]: "panic_unless False = None"
  by (simp_all add: checked_simps)

lemma div_ceil_0 [simp]: "0 < b \<Longrightarrow> div_ceil 0 b = 0"
  by (simp add: div_ceil_def)

lemma div_ceil_mult_ge: "0 < b \<Longrightarrow> a \<le> div_ceil a b * b"
proof -
  assume b: "0 < b"
  have "a + b - 1 = (a + b - 1) div b * b + (a + b - 1) mod b" by simp
  moreover have "(a + b - 1) mod b < b" using b by simp
  ultimately show ?thesis unfolding div_ceil_def using b by linarith
qed

lemma div_ceil_mult_less: "0 < b \<Longrightarrow> div_ceil a b * b < a + b"
proof -
  assume b: "0 < b"
  have "(a + b - 1) div b * b \<le> a + b - 1" by simp
  then show ?thesis unfolding div_ceil_def using b by linarith
qed

lemma div_ceil_mono: "a \<le> a' \<Longrightarrow> div_ceil a b \<le> div_ceil a' b"
  unfolding div_ceil_def by (intro div_le_mono) simp

section \<open>Slices\<close>

text \<open>\<open>xs[i]\<close>, \<open>&xs[i..j]\<close> and \<open>xs[i..i + ys.len()].copy_from_slice(ys)\<close>: out of range
  aborts.\<close>

definition index_at :: "'a list \<Rightarrow> nat \<Rightarrow> 'a option" where
  "index_at xs i = (if i < length xs then Some (xs ! i) else None)"

definition slice_range :: "'a list \<Rightarrow> nat \<Rightarrow> nat \<Rightarrow> 'a list option" where
  "slice_range xs i j = (if i \<le> j \<and> j \<le> length xs then Some (take (j - i) (drop i xs)) else None)"

definition write_at :: "'a list \<Rightarrow> nat \<Rightarrow> 'a list \<Rightarrow> 'a list option" where
  "write_at xs i ys =
     (if i + length ys \<le> length xs
      then Some (take i xs @ ys @ drop (i + length ys) xs) else None)"

lemma index_at_Some [simp]: "index_at xs i = Some v \<longleftrightarrow> i < length xs \<and> v = xs ! i"
  by (auto simp: index_at_def)

lemma slice_range_length: "slice_range xs i j = Some ys \<Longrightarrow> length ys = j - i"
  by (auto simp: slice_range_def split: if_splits)

lemma write_at_length: "write_at xs i ys = Some zs \<Longrightarrow> length zs = length xs"
  by (auto simp: write_at_def split: if_splits)

lemma write_at_read:
  "write_at xs i ys = Some zs \<Longrightarrow> slice_range zs i (i + length ys) = Some ys"
  by (auto simp: write_at_def slice_range_def split: if_splits)

lemma write_at_nth:
  "write_at xs i ys = Some zs \<Longrightarrow> k < length xs \<Longrightarrow>
   zs ! k = (if i \<le> k \<and> k < i + length ys then ys ! (k - i) else xs ! k)"
  by (auto simp: write_at_def nth_append min_def split: if_splits)

section \<open>Big-endian codecs\<close>

definition u16_from_be :: "u8 \<Rightarrow> u8 \<Rightarrow> u16" where
  "u16_from_be a b = push_bit 8 (ucast a) OR ucast b"

definition u16_to_be :: "u16 \<Rightarrow> u8 list" where
  "u16_to_be x = [ucast (drop_bit 8 x), ucast x]"

definition u32_from_be :: "u8 \<Rightarrow> u8 \<Rightarrow> u8 \<Rightarrow> u8 \<Rightarrow> u32" where
  "u32_from_be a b c d =
     push_bit 24 (ucast a) OR push_bit 16 (ucast b) OR push_bit 8 (ucast c) OR ucast d"

definition u32_to_be :: "u32 \<Rightarrow> u8 list" where
  "u32_to_be x = [ucast (drop_bit 24 x), ucast (drop_bit 16 x), ucast (drop_bit 8 x), ucast x]"

lemma length_u16_to_be [simp]: "length (u16_to_be x) = 2"
  by (simp add: u16_to_be_def)

lemma length_u32_to_be [simp]: "length (u32_to_be x) = 4"
  by (simp add: u32_to_be_def)

lemma u16_be_roundtrip [simp]:
  "u16_from_be (ucast (drop_bit 8 x)) (ucast x) = (x :: u16)"
  unfolding u16_from_be_def
  by (rule bit_word_eqI) (auto simp: bit_simps)

lemma u16_be_nth [simp]: "u16_from_be (u16_to_be x ! 0) (u16_to_be x ! Suc 0) = x"
  by (simp add: u16_to_be_def)

lemma u32_be_roundtrip [simp]:
  "u32_from_be (ucast (drop_bit 24 x)) (ucast (drop_bit 16 x)) (ucast (drop_bit 8 x)) (ucast x)
   = (x :: u32)"
  unfolding u32_from_be_def
proof (rule bit_word_eqI)
  fix n assume "n < LENGTH(32)"
  then have n: "n < 32" by simp
  consider "n < 8" | "8 \<le> n" "n < 16" | "16 \<le> n" "n < 24" | "24 \<le> n" using n by linarith
  then show "bit (push_bit 24 (ucast (ucast (drop_bit 24 x) :: u8)) OR
      push_bit 16 (ucast (ucast (drop_bit 16 x) :: u8)) OR
      push_bit 8 (ucast (ucast (drop_bit 8 x) :: u8)) OR ucast (ucast x :: u8) :: u32) n = bit x n"
    using n by cases (auto simp: bit_simps)
qed

lemma unat_u8_less [simp]: "unat (a :: u8) < 256"
  using unsigned_less [of a, where ?'a = nat] by simp

lemma unat_u16_less [simp]: "unat (a :: u16) < 65536"
  using unsigned_less [of a, where ?'a = nat] by simp

lemma unat_u16_from_be: "unat (u16_from_be a b) = unat a * 256 + unat b"
proof -
  have "push_bit 8 (ucast a :: u16) AND ucast b = 0"
    by (rule bit_word_eqI) (auto simp: bit_simps dest: bit_imp_le_length)
  then have "u16_from_be a b = push_bit 8 (ucast a) + ucast b"
    unfolding u16_from_be_def by (simp add: disjunctive_add_eq_or)
  then have "unat (u16_from_be a b) = (unat a * 256 + unat b) mod 65536"
    by (simp add: unat_word_ariths push_bit_eq_mult unsigned_ucast_eq take_bit_eq_mod mod_simps)
  moreover have "unat a * 256 + unat b < 65536"
    using unat_u8_less [of a] unat_u8_less [of b] by linarith
  ultimately show ?thesis by simp
qed

section \<open>Vectors\<close>

text \<open>\<open>Vec::swap_remove(i)\<close>: the last element takes the place of the removed one.\<close>

definition swap_remove :: "'a list \<Rightarrow> nat \<Rightarrow> 'a list" where
  "swap_remove xs i = butlast (xs[i := last xs])"

text \<open>\<open>iter().position(p)\<close>.\<close>

fun position :: "('a \<Rightarrow> bool) \<Rightarrow> 'a list \<Rightarrow> nat option" where
  "position p [] = None"
| "position p (x # xs) = (if p x then Some 0 else map_option Suc (position p xs))"

lemma position_Some:
  "position p xs = Some i \<Longrightarrow> i < length xs \<and> p (xs ! i) \<and> (\<forall>j<i. \<not> p (xs ! j))"
proof (induction xs arbitrary: i)
  case (Cons x xs)
  show ?case
  proof (cases "p x")
    case True
    with Cons.prems show ?thesis by simp
  next
    case False
    with Cons.prems obtain j where "position p xs = Some j" "i = Suc j" by auto
    with Cons.IH [of j] False show ?thesis by (auto simp: nth_Cons split: nat.splits)
  qed
qed simp

lemma position_None: "position p xs = None \<longleftrightarrow> (\<forall>x\<in>set xs. \<not> p x)"
  by (induction xs) auto

lemma mset_swap_remove:
  assumes "i < length xs"
  shows "mset (xs) = add_mset (xs ! i) (mset (swap_remove xs i))"
proof -
  have ne: "xs \<noteq> []" using assms by auto
  show ?thesis
  proof (cases "i = length xs - 1")
    case True
    with ne have "xs[i := last xs] = xs" by (simp add: last_conv_nth)
    with True ne show ?thesis
      by (metis append_butlast_last_id last_conv_nth mset.simps mset_append
          swap_remove_def union_mset_add_mset_right add_mset_add_single)
  next
    case False
    with assms have i: "i < length (butlast xs)" by simp
    have xs: "xs = butlast xs @ [last xs]" using ne by simp
    have "swap_remove xs i = (butlast xs)[i := last xs]"
      unfolding swap_remove_def using i
      by (subst (1) xs) (simp add: list_update_append1 del: append_butlast_last_id)
    then have "mset (swap_remove xs i) = add_mset (last xs) (mset (butlast xs) - {#butlast xs ! i#})"
      using i by (simp add: mset_update)
    moreover have "butlast xs ! i = xs ! i" using i by (simp add: nth_butlast)
    moreover have "mset xs = add_mset (last xs) (mset (butlast xs))"
      by (subst xs) simp
    moreover have "xs ! i \<in># mset (butlast xs)"
      using i by (metis nth_butlast nth_mem set_mset_mset)
    ultimately show ?thesis by simp
  qed
qed

lemma set_swap_remove_subset: "i < length xs \<Longrightarrow> set (swap_remove xs i) \<subseteq> set xs"
  by (metis mset_swap_remove set_mset_mset set_mset_add_mset_insert subset_insertI)

lemma length_swap_remove: "i < length xs \<Longrightarrow> length (swap_remove xs i) = length xs - 1"
  by (simp add: swap_remove_def)

lemma distinct_swap_remove:
  assumes "distinct xs" and "i < length xs"
  shows "distinct (swap_remove xs i)" and "set (swap_remove xs i) = set xs - {xs ! i}"
proof -
  have m: "mset xs = add_mset (xs ! i) (mset (swap_remove xs i))"
    using assms(2) by (rule mset_swap_remove)
  then have "mset (xs ! i # swap_remove xs i) = mset xs" by simp
  then have d: "distinct (xs ! i # swap_remove xs i)"
    using assms(1) by (metis mset_eq_imp_distinct_iff)
  then show "distinct (swap_remove xs i)" by simp
  from m have "set xs = insert (xs ! i) (set (swap_remove xs i))"
    by (metis set_mset_add_mset_insert set_mset_mset)
  with d show "set (swap_remove xs i) = set xs - {xs ! i}" by auto
qed

lemma unat_u64_of_nat: "n < 2 ^ 64 \<Longrightarrow> unat (word_of_nat n :: u64) = n"
  by (simp add: unsigned_of_nat take_bit_nat_eq_self)

end
