(* ===== verification/DataQueue.thy ===== *)
theory DataQueue
  imports Prelude
begin

text \<open>
  The bounded linked queue of \<open>std/src/queue.rs\<close>. Boxes live in an explicit heap, because
  \<open>push\<close> and \<open>append\<close> write through the raw \<open>last_node\<close> pointer into a node that the
  chain from \<open>first_node\<close> owns. An operation is \<open>None\<close> when it does not return: a
  dangling pointer is dereferenced, or a \<open>while\<close> loop runs for ever. The first case is ruled
  out for every queue that represents a list (\<open>queue_rep\<close>), so for those \<open>None\<close> means
  divergence.
\<close>

section \<open>State\<close>

record 'a DataQueueNode =
  next_node :: "nat option"
  node_data :: 'a

text \<open>The heap: the boxes that are alive, and the address the next \<open>Box::new\<close> returns.\<close>

record 'a node_heap =
  cells :: "nat \<rightharpoonup> 'a DataQueueNode"
  brk :: nat

record DataQueueHead =
  first_node :: "nat option"
  last_node :: "nat option"
  max_nodes :: nat
  curr_nodes :: nat

definition box_new :: "'a DataQueueNode \<Rightarrow> 'a node_heap \<Rightarrow> nat \<times> 'a node_heap" where
  "box_new n h = (brk h, h\<lparr>cells := (cells h)(brk h \<mapsto> n), brk := Suc (brk h)\<rparr>)"

section \<open>Operations\<close>

definition queue_new :: "nat \<Rightarrow> DataQueueHead" where
  "queue_new m = \<lparr>first_node = None, last_node = None, max_nodes = m, curr_nodes = 0\<rparr>"

definition get_first ::
  "'a node_heap \<Rightarrow> DataQueueHead \<Rightarrow> ('a option \<times> 'a node_heap \<times> DataQueueHead) option" where
  "get_first h q =
     (case first_node q of
        None \<Rightarrow> Some (None, h, q)
      | Some p \<Rightarrow>
          (case cells h p of
             None \<Rightarrow> None
           | Some node \<Rightarrow>
               (let q1 = q\<lparr>first_node := next_node node\<rparr>;
                    q2 = (if first_node q1 = None then q1\<lparr>last_node := None\<rparr> else q1)
                in Some (Some (node_data node), h\<lparr>cells := (cells h)(p := None)\<rparr>, q2))))"

text \<open>The loop \<open>while self.curr_nodes >= self.max_nodes { let _ = self.get_first(); }\<close> of
  \<open>push\<close>.\<close>

partial_function (option) push_drop_oldest ::
  "'a node_heap \<Rightarrow> DataQueueHead \<Rightarrow> ('a node_heap \<times> DataQueueHead) option" where
  "push_drop_oldest h q =
     (if max_nodes q \<le> curr_nodes q
      then get_first h q \<bind> (\<lambda>(_, h', q'). push_drop_oldest h' q')
      else Some (h, q))"

definition queue_push ::
  "'a node_heap \<Rightarrow> DataQueueHead \<Rightarrow> 'a \<Rightarrow> ('a node_heap \<times> DataQueueHead) option" where
  "queue_push h q d =
     (let (p, h0) = box_new \<lparr>next_node = None, node_data = d\<rparr> h
      in push_drop_oldest h0 q \<bind> (\<lambda>(h1, q1).
           (case last_node q1 of
              None \<Rightarrow> Some (h1, q1\<lparr>first_node := Some p, last_node := Some p, curr_nodes := 1\<rparr>)
            | Some l \<Rightarrow>
                (case cells h1 l of
                   None \<Rightarrow> None
                 | Some node \<Rightarrow>
                     Some (h1\<lparr>cells := (cells h1)(l \<mapsto> node\<lparr>next_node := Some p\<rparr>)\<rparr>,
                           q1\<lparr>last_node := Some p, curr_nodes := curr_nodes q1 + 1\<rparr>)))))"

text \<open>The two loops of \<open>append\<close>.\<close>

partial_function (option) append_drop_oldest ::
  "nat \<Rightarrow> 'a node_heap \<Rightarrow> DataQueueHead \<Rightarrow> ('a node_heap \<times> DataQueueHead) option" where
  "append_drop_oldest other_nodes h q =
     (if max_nodes q < curr_nodes q + other_nodes \<and> 0 < curr_nodes q
      then get_first h q \<bind> (\<lambda>(_, h', q'). append_drop_oldest other_nodes h' q')
      else Some (h, q))"

partial_function (option) append_shrink ::
  "nat \<Rightarrow> 'a node_heap \<Rightarrow> DataQueueHead \<Rightarrow> ('a node_heap \<times> DataQueueHead) option" where
  "append_shrink m h q =
     (if m < curr_nodes q
      then get_first h q \<bind> (\<lambda>(_, h', q'). append_shrink m h' q')
      else Some (h, q))"

definition queue_append ::
  "'a node_heap \<Rightarrow> DataQueueHead \<Rightarrow> DataQueueHead \<Rightarrow> ('a node_heap \<times> DataQueueHead) option" where
  "queue_append h q other =
     (if curr_nodes other = 0 then Some (h, q)
      else append_drop_oldest (curr_nodes other) h q \<bind> (\<lambda>(h1, q1).
        (if first_node q1 = None
         then append_shrink (max_nodes q) h1 (other\<lparr>max_nodes := max_nodes q\<rparr>)
         else
           (case last_node q1 of
              None \<Rightarrow> None
            | Some l \<Rightarrow>
                (case cells h1 l of
                   None \<Rightarrow> None
                 | Some node \<Rightarrow>
                     Some (h1\<lparr>cells := (cells h1)(l \<mapsto> node\<lparr>next_node := first_node other\<rparr>)\<rparr>,
                           q1\<lparr>last_node := last_node other,
                              curr_nodes := curr_nodes q1 + curr_nodes other\<rparr>))))))"

definition queue_len :: "DataQueueHead \<Rightarrow> nat" where
  "queue_len q = curr_nodes q"

definition queue_is_empty :: "DataQueueHead \<Rightarrow> bool" where
  "queue_is_empty q \<longleftrightarrow> curr_nodes q = 0"

definition take_queue :: "DataQueueHead \<Rightarrow> DataQueueHead \<times> DataQueueHead" where
  "take_queue q =
     (q, \<lparr>first_node = None, last_node = None, max_nodes = max_nodes q, curr_nodes = 0\<rparr>)"

section \<open>Representation\<close>

text \<open>The cells from \<open>p\<close> on are at the addresses \<open>as\<close> and hold \<open>xs\<close>.\<close>

fun chain :: "(nat \<rightharpoonup> 'a DataQueueNode) \<Rightarrow> nat option \<Rightarrow> nat list \<Rightarrow> 'a list \<Rightarrow> bool" where
  "chain c None [] [] = True"
| "chain c (Some p) (a # as) (x # xs) =
     (p = a \<and> (case c p of None \<Rightarrow> False
               | Some node \<Rightarrow> node_data node = x \<and> chain c (next_node node) as xs))"
| "chain c _ _ _ = False"

definition heap_ok :: "'a node_heap \<Rightarrow> bool" where
  "heap_ok h \<longleftrightarrow> dom (cells h) \<subseteq> {..<brk h}"

definition queue_at :: "'a node_heap \<Rightarrow> DataQueueHead \<Rightarrow> nat list \<Rightarrow> 'a list \<Rightarrow> bool" where
  "queue_at h q as xs \<longleftrightarrow>
     heap_ok h \<and> chain (cells h) (first_node q) as xs \<and> distinct as \<and>
     last_node q = (if as = [] then None else Some (last as))"

definition queue_rep :: "'a node_heap \<Rightarrow> DataQueueHead \<Rightarrow> 'a list \<Rightarrow> bool" where
  "queue_rep h q xs \<longleftrightarrow> (\<exists>as. queue_at h q as xs)"

lemma chain_length: "chain c p as xs \<Longrightarrow> length as = length xs"
  by (induction c p as xs rule: chain.induct) (auto split: option.splits)

lemma chain_dom: "chain c p as xs \<Longrightarrow> set as \<subseteq> dom c"
  by (induction c p as xs rule: chain.induct) (auto split: option.splits)

lemma chain_Nil [simp]: "chain c p [] xs \<longleftrightarrow> p = None \<and> xs = []"
  by (cases p; cases xs) auto

lemma chain_None [simp]: "chain c None as xs \<longleftrightarrow> as = [] \<and> xs = []"
  by (cases as; cases xs) auto

lemma chain_nil_data: "chain c p as [] \<longleftrightarrow> p = None \<and> as = []"
  by (cases p; cases as) auto

lemma chain_Cons:
  "chain c p (a # as) xs \<longleftrightarrow>
     (\<exists>node x ys. p = Some a \<and> xs = x # ys \<and> c a = Some node \<and> node_data node = x \<and>
       chain c (next_node node) as ys)"
  by (cases p; cases xs) (auto split: option.splits)

lemma chain_cong:
  "\<forall>a\<in>set as. c a = c' a \<Longrightarrow> chain c p as xs = chain c' p as xs"
  by (induction c p as xs rule: chain.induct) (auto split: option.splits)

lemma chain_upd [simp]: "a \<notin> set as \<Longrightarrow> chain (c(a := v)) p as xs = chain c p as xs"
  by (rule chain_cong) auto

lemma chain_append:
  assumes "chain c p as xs" and "as \<noteq> []" and "distinct as" and "c (last as) = Some node"
    and "chain c q bs ys" and "set as \<inter> set bs = {}"
  shows "chain (c(last as \<mapsto> node\<lparr>next_node := q\<rparr>)) p (as @ bs) (xs @ ys)"
  using assms
proof (induction as arbitrary: p xs)
  case (Cons a as)
  from Cons.prems(1) obtain n xs' where
    p: "p = Some a" and xs: "xs = node_data n # xs'" and ca: "c a = Some n"
    and ch: "chain c (next_node n) as xs'"
    by (auto simp: chain_Cons)
  show ?case
  proof (cases "as = []")
    case True
    have "chain (c(a \<mapsto> node\<lparr>next_node := q\<rparr>)) q bs ys"
      using Cons.prems(5,6) by simp
    then show ?thesis using True Cons.prems ch p xs ca by (auto simp: chain_Cons fun_upd_def)
  next
    case False
    with Cons.prems have l: "last (a # as) = last as" "last as \<noteq> a" by auto
    have "chain (c(last as \<mapsto> node\<lparr>next_node := q\<rparr>)) (next_node n) (as @ bs) (xs' @ ys)"
      by (rule Cons.IH) (use Cons.prems False ch l in auto)
    with l False p xs ca show ?thesis by (simp add: chain_Cons fun_upd_def)
  qed
qed simp

lemma queue_rep_new: "heap_ok h \<Longrightarrow> queue_rep h (queue_new m) []"
  by (auto simp: queue_rep_def queue_at_def queue_new_def)

section \<open>Behaviour of the operations\<close>

lemma get_first_counts:
  "get_first h q = Some (r, h', q') \<Longrightarrow> max_nodes q' = max_nodes q \<and> curr_nodes q' = curr_nodes q"
  by (auto simp: get_first_def Let_def split: option.splits if_splits)

lemma get_first_Nil: "queue_rep h q [] \<Longrightarrow> get_first h q = Some (None, h, q)"
  by (auto simp: queue_rep_def queue_at_def get_first_def chain_nil_data)

lemma get_first_Cons:
  assumes "queue_rep h q (x # xs)"
  shows "\<exists>h' q'. get_first h q = Some (Some x, h', q') \<and> queue_rep h' q' xs"
proof -
  from assms obtain as where q: "queue_at h q as (x # xs)" by (auto simp: queue_rep_def)
  then obtain a as' where as: "as = a # as'"
    by (cases as) (auto simp: queue_at_def)
  from q as obtain node where
    f: "first_node q = Some a" and c: "cells h a = Some node" and d: "node_data node = x"
    and ch: "chain (cells h) (next_node node) as' xs" and dis: "distinct (a # as')"
    by (auto simp: queue_at_def chain_Cons)
  let ?h' = "h\<lparr>cells := (cells h)(a := None)\<rparr>"
  let ?q1 = "q\<lparr>first_node := next_node node\<rparr>"
  let ?q2 = "if next_node node = None then ?q1\<lparr>last_node := None\<rparr> else ?q1"
  have "chain (cells ?h') (next_node node) as' xs" using ch dis by simp
  with q as dis have "queue_at ?h' ?q2 as' xs"
    by (cases "next_node node") (auto simp: queue_at_def heap_ok_def)
  moreover have "get_first h q = Some (Some x, ?h', ?q2)"
    using f c d by (auto simp: get_first_def Let_def)
  ultimately show ?thesis by (auto simp: queue_rep_def)
qed

lemma get_first_rep:
  assumes "queue_rep h q xs"
  obtains r h' q' where "get_first h q = Some (r, h', q')" "queue_rep h' q' (tl xs)"
  using assms get_first_Nil [of h q] get_first_Cons [of h q] by (cases xs) force+

lemma push_drop_oldest_room:
  "curr_nodes q < max_nodes q \<Longrightarrow> push_drop_oldest h q = Some (h, q)"
  by (subst push_drop_oldest.simps) simp

lemma push_drop_oldest_result:
  assumes ret: "push_drop_oldest h q = Some r"
  shows "curr_nodes q < max_nodes q"
proof (rule push_drop_oldest.raw_induct
    [where P = "\<lambda>h q r. curr_nodes q < max_nodes q", OF _ ret])
  fix f :: "'a node_heap \<Rightarrow> DataQueueHead \<Rightarrow> ('a node_heap \<times> DataQueueHead) option"
    and h q r
  assume IH: "\<And>h q r. f h q = Some r \<Longrightarrow> curr_nodes q < max_nodes q"
    and eq: "(if max_nodes q \<le> curr_nodes q
       then get_first h q \<bind> (\<lambda>(_, h', q'). f h' q') else Some (h, q)) = Some r"
  show "curr_nodes q < max_nodes q"
  proof (rule ccontr)
    assume "\<not> curr_nodes q < max_nodes q"
    with eq obtain v h' q' where g: "get_first h q = Some (v, h', q')" and "f h' q' = Some r"
      by (auto split: Option.bind_splits)
    then have "curr_nodes q' < max_nodes q'" by (blast intro: IH)
    with get_first_counts [OF g] \<open>\<not> curr_nodes q < max_nodes q\<close> show False by simp
  qed
qed

lemma queue_push_room:
  assumes "queue_rep h q xs" and room: "curr_nodes q < max_nodes q"
  shows "\<exists>h' q'. queue_push h q d = Some (h', q') \<and> queue_rep h' q' (xs @ [d]) \<and>
    max_nodes q' = max_nodes q \<and> curr_nodes q' = (if xs = [] then 1 else curr_nodes q + 1)"
proof -
  from assms(1) obtain as where q: "queue_at h q as xs" by (auto simp: queue_rep_def)
  then have ch: "chain (cells h) (first_node q) as xs" and ok: "heap_ok h" and dis: "distinct as"
    and l: "last_node q = (if as = [] then None else Some (last as))"
    by (auto simp: queue_at_def)
  let ?n = "\<lparr>next_node = None, node_data = d\<rparr>"
  let ?h0 = "h\<lparr>cells := (cells h)(brk h \<mapsto> ?n), brk := Suc (brk h)\<rparr>"
  have old: "set as \<subseteq> {..<brk h}" using chain_dom [OF ch] ok by (auto simp: heap_ok_def)
  have fresh: "brk h \<notin> set as" using old by auto
  have ok0: "heap_ok ?h0" using ok by (auto simp: heap_ok_def)
  have ch0: "chain (cells ?h0) (first_node q) as xs"
    using ch fresh by simp
  show ?thesis
  proof (cases "as = []")
    case True
    with ch l have "xs = []" "last_node q = None" by auto
    moreover have "queue_at ?h0 (q\<lparr>first_node := Some (brk h), last_node := Some (brk h),
        curr_nodes := 1\<rparr>) [brk h] [d]"
      using ok0 by (auto simp: queue_at_def)
    ultimately show ?thesis
      using room by (auto simp: queue_push_def box_new_def push_drop_oldest_room queue_rep_def)
  next
    case False
    then have lq: "last_node q = Some (last as)" using l by simp
    have "xs \<noteq> []" using False chain_length [OF ch] by auto
    from False chain_dom [OF ch0] obtain node where node: "cells ?h0 (last as) = Some node"
      by (metis domD last_in_set subsetD)
    let ?h1 = "?h0\<lparr>cells := (cells ?h0)(last as \<mapsto> node\<lparr>next_node := Some (brk h)\<rparr>)\<rparr>"
    let ?q1 = "q\<lparr>last_node := Some (brk h), curr_nodes := curr_nodes q + 1\<rparr>"
    have "chain (cells ?h1) (first_node q) (as @ [brk h]) (xs @ [d])"
      using chain_append [OF ch0 False dis node, of "Some (brk h)" "[brk h]" "[d]"] fresh
      by (simp add: fun_upd_def)
    moreover have "heap_ok ?h1" using ok0 old last_in_set [OF False] by (auto simp: heap_ok_def)
    ultimately have "queue_at ?h1 ?q1 (as @ [brk h]) (xs @ [d])"
      using dis old by (auto simp: queue_at_def)
    moreover have "queue_push h q d = Some (?h1, ?q1)"
      using room lq node by (simp add: queue_push_def box_new_def push_drop_oldest_room)
    ultimately show ?thesis using \<open>xs \<noteq> []\<close> by (auto simp: queue_rep_def)
  qed
qed

lemma push_drop_oldest_full: "max_nodes q \<le> curr_nodes q \<Longrightarrow> push_drop_oldest h q = None"
  using push_drop_oldest_result [of h q] by (cases "push_drop_oldest h q") auto

lemma queue_push_full: "max_nodes q \<le> curr_nodes q \<Longrightarrow> queue_push h q d = None"
  by (simp add: queue_push_def box_new_def push_drop_oldest_full)

lemma append_drop_oldest_result:
  assumes ret: "append_drop_oldest n h q = Some r"
  shows "curr_nodes q + n \<le> max_nodes q \<or> curr_nodes q = 0"
proof (rule append_drop_oldest.raw_induct
    [where P = "\<lambda>n h q r. curr_nodes q + n \<le> max_nodes q \<or> curr_nodes q = 0", OF _ ret])
  fix f :: "nat \<Rightarrow> 'a node_heap \<Rightarrow> DataQueueHead \<Rightarrow> ('a node_heap \<times> DataQueueHead) option"
    and n h q r
  assume IH: "\<And>n h q r. f n h q = Some r \<Longrightarrow> curr_nodes q + n \<le> max_nodes q \<or> curr_nodes q = 0"
    and eq: "(if max_nodes q < curr_nodes q + n \<and> 0 < curr_nodes q
       then get_first h q \<bind> (\<lambda>(_, h', q'). f n h' q') else Some (h, q)) = Some r"
  show "curr_nodes q + n \<le> max_nodes q \<or> curr_nodes q = 0"
  proof (rule ccontr)
    assume nok: "\<not> (curr_nodes q + n \<le> max_nodes q \<or> curr_nodes q = 0)"
    with eq obtain v h' q' where g: "get_first h q = Some (v, h', q')" and r: "f n h' q' = Some r"
      by (auto split: Option.bind_splits)
    with IH [OF r] get_first_counts [OF g] nok show False by simp
  qed
qed

lemma append_drop_oldest_room:
  "curr_nodes q + n \<le> max_nodes q \<Longrightarrow> append_drop_oldest n h q = Some (h, q)"
  by (subst append_drop_oldest.simps) simp

lemma append_drop_oldest_full:
  "max_nodes q < curr_nodes q + n \<Longrightarrow> 0 < curr_nodes q \<Longrightarrow> append_drop_oldest n h q = None"
  using append_drop_oldest_result [of n h q] by (cases "append_drop_oldest n h q") auto

section \<open>The queue interface and its clients\<close>

text \<open>The loop \<open>while let Some(x) = queue.get_first() { f(x); }\<close> of the queue's clients
  (\<open>net::process_packets\<close>, \<open>net::append_raw_net_queue\<close>), over any implementation of
  \<open>get_first\<close>. The callback works on a state \<open>'s\<close> that does not own the queue's boxes.\<close>

partial_function (option) drain_queue ::
  "('h \<Rightarrow> 'q \<Rightarrow> ('a option \<times> 'h \<times> 'q) option) \<Rightarrow> ('a \<Rightarrow> 's \<Rightarrow> 's) \<Rightarrow> 'h \<Rightarrow> 'q \<Rightarrow> 's \<Rightarrow> 's option" where
  "drain_queue pop f h q s =
     pop h q \<bind> (\<lambda>(r, h', q').
       (case r of None \<Rightarrow> Some s | Some x \<Rightarrow> drain_queue pop f h' q' (f x s)))"

locale fifo_queue =
  fixes rep :: "'h \<Rightarrow> 'q \<Rightarrow> 'a list \<Rightarrow> bool"
    and room :: "'q \<Rightarrow> bool"
    and push :: "'h \<Rightarrow> 'q \<Rightarrow> 'a \<Rightarrow> ('h \<times> 'q) option"
    and pop :: "'h \<Rightarrow> 'q \<Rightarrow> ('a option \<times> 'h \<times> 'q) option"
  assumes push_law:
      "rep h q xs \<Longrightarrow> room q \<Longrightarrow> \<exists>h' q'. push h q x = Some (h', q') \<and> rep h' q' (xs @ [x])"
    and pop_Nil_law: "rep h q [] \<Longrightarrow> pop h q = Some (None, h, q)"
    and pop_Cons_law:
      "rep h q (x # xs) \<Longrightarrow> \<exists>h' q'. pop h q = Some (Some x, h', q') \<and> rep h' q' xs"
begin

lemma drain_all: "rep h q xs \<Longrightarrow> drain_queue pop f h q s = Some (fold f xs s)"
proof (induction xs arbitrary: h q s)
  case Nil
  then show ?case by (subst drain_queue.simps) (simp add: pop_Nil_law)
next
  case (Cons x xs)
  from pop_Cons_law [OF Cons.prems] obtain h' q'
    where "pop h q = Some (Some x, h', q')" and "rep h' q' xs" by blast
  with Cons.IH show ?case by (subst drain_queue.simps) simp
qed

lemma push_then_drain:
  assumes "rep h q xs" and "room q"
  shows "push h q x \<bind> (\<lambda>(h', q'). drain_queue pop f h' q' s) = Some (f x (fold f xs s))"
  using push_law [OF assms, of x] drain_all by fastforce

end

interpretation dq: fifo_queue queue_rep "\<lambda>q. curr_nodes q < max_nodes q" queue_push get_first
proof (unfold_locales, goal_cases)
  case (1 h q xs x)
  then show ?case using queue_push_room [of h q xs x] by blast
qed (simp_all add: get_first_Nil get_first_Cons)

section \<open>Runs of operations\<close>

text \<open>Sequences of \<open>push\<close> and \<open>get_first\<close> calls, with the values the latter return, and the
  contract they implement: a list, and a counter that only the push into an empty queue resets.\<close>

datatype 'a queue_op = Push 'a | GetFirst

fun queue_run :: "'a node_heap \<Rightarrow> DataQueueHead \<Rightarrow> 'a queue_op list \<Rightarrow> 'a option list option" where
  "queue_run h q [] = Some []"
| "queue_run h q (Push d # ops) = queue_push h q d \<bind> (\<lambda>(h', q'). queue_run h' q' ops)"
| "queue_run h q (GetFirst # ops) =
     get_first h q \<bind> (\<lambda>(r, h', q'). map_option (Cons r) (queue_run h' q' ops))"

fun spec_run :: "nat \<Rightarrow> nat \<Rightarrow> 'a list \<Rightarrow> 'a queue_op list \<Rightarrow> 'a option list option" where
  "spec_run m n xs [] = Some []"
| "spec_run m n xs (Push d # ops) =
     (if m \<le> n then None else spec_run m (if xs = [] then 1 else n + 1) (xs @ [d]) ops)"
| "spec_run m n [] (GetFirst # ops) = map_option (Cons None) (spec_run m n [] ops)"
| "spec_run m n (x # xs) (GetFirst # ops) = map_option (Cons (Some x)) (spec_run m n xs ops)"

lemma queue_run_spec:
  "queue_rep h q xs \<Longrightarrow> queue_run h q ops = spec_run (max_nodes q) (curr_nodes q) xs ops"
proof (induction ops arbitrary: h q xs)
  case (Cons op ops)
  show ?case
  proof (cases op)
    case (Push d)
    show ?thesis
    proof (cases "max_nodes q \<le> curr_nodes q")
      case False
      then obtain h' q' where "queue_push h q d = Some (h', q')" "queue_rep h' q' (xs @ [d])"
        "max_nodes q' = max_nodes q" "curr_nodes q' = (if xs = [] then 1 else curr_nodes q + 1)"
        using queue_push_room [OF Cons.prems, of d] by auto
      with Cons.IH [of h' q' "xs @ [d]"] Push False show ?thesis by simp
    qed (simp add: Push queue_push_full)
  next
    case GetFirst
    show ?thesis
    proof (cases xs)
      case Nil
      with Cons.IH [OF Cons.prems] Cons.prems GetFirst show ?thesis by (simp add: get_first_Nil)
    next
      case (Cons x ys)
      then obtain h' q' where g: "get_first h q = Some (Some x, h', q')" and "queue_rep h' q' ys"
        using get_first_Cons [of h q x ys] Cons.prems by blast
      with Cons.IH [of h' q' ys] get_first_counts [OF g] GetFirst Cons show ?thesis by simp
    qed
  qed
qed simp

text \<open>The loop of \<open>push\<close> cut after \<open>k\<close> rounds.\<close>

primrec push_rounds ::
  "nat \<Rightarrow> 'a node_heap \<Rightarrow> DataQueueHead \<Rightarrow> ('a node_heap \<times> DataQueueHead) option" where
  "push_rounds 0 h q = Some (h, q)"
| "push_rounds (Suc k) h q = get_first h q \<bind> (\<lambda>(_, h', q'). push_rounds k h' q')"

lemma push_rounds_rep:
  "queue_rep h q xs \<Longrightarrow> \<exists>h' q'. push_rounds k h q = Some (h', q') \<and> queue_rep h' q' (drop k xs) \<and>
     max_nodes q' = max_nodes q \<and> curr_nodes q' = curr_nodes q"
proof (induction k arbitrary: h q xs)
  case (Suc k)
  from get_first_rep [OF Suc.prems] obtain r h1 q1
    where g: "get_first h q = Some (r, h1, q1)" and "queue_rep h1 q1 (tl xs)" .
  with Suc.IH [of h1 q1 "tl xs"] get_first_counts [OF g] show ?case
    by (auto simp: drop_Suc)
qed auto

lemma spec_run_pushes:
  "xs \<noteq> [] \<Longrightarrow> n + length ds \<le> m \<Longrightarrow>
     spec_run m n xs (map Push ds @ ops) = spec_run m (n + length ds) (xs @ ds) ops"
  by (induction ds arbitrary: n xs) auto

lemma spec_run_gets_full:
  "m \<le> n \<Longrightarrow> spec_run m n xs (replicate k GetFirst @ Push d # ops) = None"
  by (induction k arbitrary: xs) (simp, case_tac xs, auto)

section \<open>Properties\<close>

text \<open>C19: every sequence of \<open>push\<close> and \<open>get_first\<close> calls on a new queue behaves as the list
  contract says: the values come out in the order they went in, the raw \<open>last_node\<close> pointer is
  never dangling, and the run does not return exactly when a \<open>push\<close> finds the counter at
  \<open>max_nodes\<close>.\<close>

theorem queue_refines_list:
  assumes "heap_ok h"
  shows "queue_run h (queue_new m) ops = spec_run m 0 [] ops"
  using queue_run_spec [OF queue_rep_new [OF assms], of m ops] by (simp add: queue_new_def)

lemma queue_refines_list_witness:
  "queue_run \<lparr>cells = Map.empty, brk = 0\<rparr> (queue_new 4)
     [Push (1::nat), Push 2, GetFirst, Push 3, GetFirst, GetFirst, GetFirst] =
   Some [Some 1, Some 2, Some 3, None]"
  by (subst queue_refines_list) (simp_all add: heap_ok_def)

text \<open>C31: a \<open>push\<close> into a queue whose counter is at \<open>max_nodes\<close> never returns: its loop,
  meant to drop the oldest packets, runs for every number of rounds (it stays memory safe) and its
  condition is still true after each, since \<open>get_first\<close> does not decrement \<open>curr_nodes\<close>.\<close>

theorem push_at_capacity_diverges:
  assumes "queue_rep h q xs" and "max_nodes q \<le> curr_nodes q"
  shows "queue_push h q d = None \<and>
    (\<forall>k. \<exists>h' q'. push_rounds k h q = Some (h', q') \<and> queue_rep h' q' (drop k xs) \<and>
       max_nodes q' \<le> curr_nodes q')"
proof -
  have "\<exists>h' q'. push_rounds k h q = Some (h', q') \<and> queue_rep h' q' (drop k xs) \<and>
       max_nodes q' \<le> curr_nodes q'" for k
    using push_rounds_rep [OF assms(1), of k] assms(2) by auto
  then show ?thesis by (intro conjI allI queue_push_full [OF assms(2)])
qed

lemma push_at_capacity_diverges_witness:
  "queue_push \<lparr>cells = [0 \<mapsto> \<lparr>next_node = None, node_data = 7::nat\<rparr>], brk = 1\<rparr>
     \<lparr>first_node = Some 0, last_node = Some 0, max_nodes = 1, curr_nodes = 1\<rparr> 8 = None"
proof -
  have "queue_at \<lparr>cells = [0 \<mapsto> \<lparr>next_node = None, node_data = 7::nat\<rparr>], brk = 1\<rparr>
     \<lparr>first_node = Some 0, last_node = Some 0, max_nodes = 1, curr_nodes = 1\<rparr> [0] [7]"
    by (simp add: queue_at_def heap_ok_def)
  then show ?thesis
    by (intro push_at_capacity_diverges [THEN conjunct1]) (auto simp: queue_rep_def)
qed

text \<open>once a queue has taken \<open>max_nodes\<close> values, taking values out does not make room:
  whatever number of \<open>get_first\<close> calls follows, the next \<open>push\<close> does not return, even though the
  queue may then be empty.\<close>

theorem full_queue_never_recovers:
  assumes "heap_ok h" and "0 < m" and "length ds = m"
  shows "queue_run h (queue_new m) (map Push ds @ replicate k GetFirst @ [Push d]) = None"
proof -
  from assms obtain d0 ds' where ds: "ds = d0 # ds'" by (cases ds) auto
  have "spec_run m 0 [] (map Push ds @ replicate k GetFirst @ [Push d]) =
      spec_run m m ds (replicate k GetFirst @ [Push d])"
    using spec_run_pushes [of "[d0]" 1 ds' m] ds assms(2,3) by simp
  then show ?thesis
    using queue_run_spec [OF queue_rep_new [OF assms(1)], of m]
    by (simp add: queue_new_def spec_run_gets_full)
qed

text \<open>\<open>append\<close> joins two queues. With room for both it concatenates the two lists, keeps
  the receiver's bound and adds the counters; without room, and the receiver's counter not zero,
  it does not return.\<close>

theorem queue_append_correct:
  assumes "queue_at h q as xs" and "queue_at h other bs ys" and "set as \<inter> set bs = {}"
    and "xs \<noteq> []" and "ys \<noteq> []" and "0 < curr_nodes other" and "0 < curr_nodes q"
  shows "if curr_nodes q + curr_nodes other \<le> max_nodes q
    then \<exists>h' q'. queue_append h q other = Some (h', q') \<and> queue_at h' q' (as @ bs) (xs @ ys) \<and>
           max_nodes q' = max_nodes q \<and> curr_nodes q' = curr_nodes q + curr_nodes other
    else queue_append h q other = None"
proof (cases "curr_nodes q + curr_nodes other \<le> max_nodes q")
  case False
  then show ?thesis using assms by (simp add: queue_append_def append_drop_oldest_full)
next
  case True
  have ch: "chain (cells h) (first_node q) as xs" and chb: "chain (cells h) (first_node other) bs ys"
    and ok: "heap_ok h" and dis: "distinct as" "distinct bs"
    and lo: "last_node other = (if bs = [] then None else Some (last bs))"
    using assms by (auto simp: queue_at_def)
  have ne: "as \<noteq> []" "bs \<noteq> []" using ch chb assms(4,5) by auto
  have "first_node q \<noteq> None" using ch ne(1) by (cases "first_node q") auto
  have lq: "last_node q = Some (last as)" using assms(1) ne by (simp add: queue_at_def)
  from ne(1) chain_dom [OF ch] obtain node where node: "cells h (last as) = Some node"
    by (metis domD last_in_set subsetD)
  let ?h1 = "h\<lparr>cells := (cells h)(last as \<mapsto> node\<lparr>next_node := first_node other\<rparr>)\<rparr>"
  let ?q1 = "q\<lparr>last_node := last_node other, curr_nodes := curr_nodes q + curr_nodes other\<rparr>"
  have "queue_append h q other = Some (?h1, ?q1)"
    using True assms(6) \<open>first_node q \<noteq> None\<close> lq node
    by (auto simp: queue_append_def append_drop_oldest_room)
  moreover have "chain (cells ?h1) (first_node q) (as @ bs) (xs @ ys)"
    using chain_append [OF ch ne(1) dis(1) node chb assms(3)] by simp
  moreover have "heap_ok ?h1" using ok node by (auto simp: heap_ok_def)
  ultimately show ?thesis using True dis assms(3) lo ne by (auto simp: queue_at_def)
qed

text \<open>the drain loop of the packet processor handles every packet of the queue once, in
  the order of arrival, and ends.\<close>

theorem drain_in_order:
  assumes "queue_rep h q xs"
  shows "drain_queue get_first f h q s = Some (fold f xs s)"
  using assms by (rule dq.drain_all)

end
