(* ===== verification/Addresses.thy ===== *)
theory Addresses
  imports Prelude
begin

text \<open>
  Addresses and physical ranges (\<open>memory/addresses\<close>), the helpers of \<open>memory/mod.rs\<close>, and
  the boot loader's memory map entries. Addresses whose bits matter are 64-bit words, addresses
  that are only compared and added are naturals with the overflow checks of the dev profile.
\<close>

section \<open>The higher half direct map\<close>

record Hhdm =
  HHDM_ADDR :: nat
  HHDM_LEN :: nat

definition is_in_hhdm :: "Hhdm \<Rightarrow> nat \<Rightarrow> bool option" where
  "is_in_hhdm m addr =
     checked_add 64 (HHDM_ADDR m) (HHDM_LEN m) \<bind> (\<lambda>end'.
       Some (HHDM_ADDR m \<le> addr \<and> addr < end'))"

definition is_phys_in_hhdm :: "Hhdm \<Rightarrow> nat \<Rightarrow> bool option" where
  "is_phys_in_hhdm m addr =
     checked_add 64 addr (HHDM_ADDR m) \<bind> (\<lambda>virt.
     checked_add 64 (HHDM_ADDR m) (HHDM_LEN m) \<bind> (\<lambda>end'.
       Some (HHDM_ADDR m \<le> virt \<and> virt < end')))"

text \<open>\<open>From<PhysAddr> for VirtAddr\<close>.\<close>

definition phys_to_virt :: "Hhdm \<Rightarrow> nat \<Rightarrow> nat option" where
  "phys_to_virt m addr =
     is_phys_in_hhdm m addr \<bind> (\<lambda>b.
     panic_unless b \<bind> (\<lambda>_. checked_add 64 addr (HHDM_ADDR m)))"

text \<open>\<open>translate_virt_phys_addr\<close>: \<open>load\<close> reads the 64-bit word at a physical address
  through the direct map. The outer option is a panic, the inner one the function's result.\<close>

primrec translate_levels ::
  "(nat \<Rightarrow> u64 option) \<Rightarrow> u64 \<Rightarrow> nat \<Rightarrow> u64 \<Rightarrow> u64 \<Rightarrow> (u64 \<times> u64) option option" where
  "translate_levels load addr 0 page_addr final_mask = Some (Some (page_addr, final_mask))"
| "translate_levels load addr (Suc level') page_addr final_mask =
     (let level = Suc level';
          offset = drop_bit (level * 9) addr AND 0xFF8;
          final_mask = drop_bit 9 final_mask
      in load (unat page_addr + unat offset) \<bind> (\<lambda>page_entry.
         if page_entry AND 1 = 0 then Some None
         else
           (let page_addr = page_entry AND 0xFFFFFFFFFF000
            in if page_entry AND 0x80 \<noteq> 0 then Some (Some (page_addr, final_mask))
               else translate_levels load addr level' page_addr final_mask)))"

definition translate_virt_phys_addr ::
  "Hhdm \<Rightarrow> (nat \<Rightarrow> u64 option) \<Rightarrow> u64 \<Rightarrow> u64 option \<Rightarrow> u64 \<Rightarrow> nat option option" where
  "translate_virt_phys_addr m load current_root root addr =
     is_in_hhdm m (unat addr) \<bind> (\<lambda>b.
       if b then checked_sub (unat addr) (HHDM_ADDR m) \<bind> (\<lambda>p. Some (Some p))
       else
         translate_levels load addr 4 (case root of Some r \<Rightarrow> r | None \<Rightarrow> current_root)
           0xFFFFFFFFFFFF \<bind> (\<lambda>r.
         (case r of
            None \<Rightarrow> Some None
          | Some (page_addr, final_mask) \<Rightarrow>
              checked_add 64 (unat page_addr) (unat (addr AND final_mask)) \<bind> (\<lambda>p. Some (Some p)))))"

section \<open>Canonical addresses\<close>

definition is_userspace_ptr :: "u64 \<Rightarrow> bool" where
  "is_userspace_ptr addr \<longleftrightarrow> addr < 0x0000800000000000"

definition extend_addr :: "u64 \<Rightarrow> u64" where
  "extend_addr addr =
     (if addr AND push_bit 47 1 \<noteq> 0 then addr OR 0xFFFF000000000000 else addr)"

definition trim_addr_extension :: "u64 \<Rightarrow> u64" where
  "trim_addr_extension addr = addr AND 0x0000FFFFFFFFFFFF"

text \<open>The guards of \<open>safe_memcpy_from_user\<close> and \<open>safe_memcpy_to_user\<close>; \<open>probe\<close> is the
  assembly routine \<open>probe_memcpy\<close>.\<close>

definition user_range_ok :: "nat \<Rightarrow> nat \<Rightarrow> bool option" where
  "user_range_ok ptr len =
     checked_add 64 ptr len \<bind> (\<lambda>e.
     checked_sub e 1 \<bind> (\<lambda>last'.
       Some (is_userspace_ptr (word_of_nat ptr) \<and> is_userspace_ptr (word_of_nat last'))))"

definition safe_memcpy_kernel :: "(nat \<Rightarrow> nat \<Rightarrow> nat \<Rightarrow> bool) \<Rightarrow> nat \<Rightarrow> nat \<Rightarrow> nat \<Rightarrow> bool" where
  "safe_memcpy_kernel probe dst src len = probe dst src len"

definition safe_memcpy_from_user ::
  "(nat \<Rightarrow> nat \<Rightarrow> nat \<Rightarrow> bool) \<Rightarrow> nat \<Rightarrow> nat \<Rightarrow> nat \<Rightarrow> bool option" where
  "safe_memcpy_from_user probe dst src len =
     user_range_ok src len \<bind> (\<lambda>ok. Some (ok \<and> safe_memcpy_kernel probe dst src len))"

definition safe_memcpy_to_user ::
  "(nat \<Rightarrow> nat \<Rightarrow> nat \<Rightarrow> bool) \<Rightarrow> nat \<Rightarrow> nat \<Rightarrow> nat \<Rightarrow> bool option" where
  "safe_memcpy_to_user probe dst src len =
     user_range_ok dst len \<bind> (\<lambda>ok. Some (ok \<and> safe_memcpy_kernel probe dst src len))"

section \<open>Physical ranges\<close>

record PhysRange =
  start :: nat
  n_pages :: nat

definition get_addresses :: "PhysRange \<Rightarrow> nat list" where
  "get_addresses r = map (\<lambda>i. start r + i * 4096) [0..<n_pages r]"

text \<open>\<open>OwnedPhysRange::shrink_to\<close>: the new range, and the two ranges that are dropped.\<close>

definition shrink_to :: "PhysRange \<Rightarrow> PhysRange \<Rightarrow> (PhysRange \<times> PhysRange list) option" where
  "shrink_to self new_range =
     (let old_range = self in
      panic_unless (start self \<le> start new_range) \<bind> (\<lambda>_.
      checked_mul 64 (n_pages new_range) 4096 \<bind> (\<lambda>new_len.
      checked_add 64 (start new_range) new_len \<bind> (\<lambda>new_end.
      checked_mul 64 (n_pages self) 4096 \<bind> (\<lambda>old_len.
      checked_add 64 (start self) old_len \<bind> (\<lambda>old_end.
      panic_unless (new_end \<le> old_end) \<bind> (\<lambda>_.
      let self = new_range in
      checked_sub (start new_range) (start self) \<bind> (\<lambda>diff.
      let range_before = \<lparr>start = start self, n_pages = diff div 4096\<rparr> in
      checked_sub (n_pages old_range) (n_pages new_range) \<bind> (\<lambda>d.
      checked_sub d (n_pages range_before) \<bind> (\<lambda>after.
      let range_after = \<lparr>start = new_end, n_pages = after\<rparr> in
      Some (self, [range_before, range_after])))))))))))"

definition break_into_individual :: "PhysRange \<Rightarrow> nat list" where
  "break_into_individual r = get_addresses r"

section \<open>Helpers of the memory module\<close>

text \<open>\<open>u64::ilog2\<close>, which panics on zero.\<close>

fun floor_log2 :: "nat \<Rightarrow> nat" where
  "floor_log2 n = (if n < 2 then 0 else Suc (floor_log2 (n div 2)))"

declare floor_log2.simps [simp del]

definition ilog2 :: "nat \<Rightarrow> nat option" where
  "ilog2 n = (if n = 0 then None else Some (floor_log2 n))"

definition log2_rounded_up :: "nat \<Rightarrow> nat option" where
  "log2_rounded_up num =
     (if num = 1 then Some 0
      else checked_mul 64 num 2 \<bind> (\<lambda>d. checked_sub d 1 \<bind> ilog2))"

record MemoryMapEntry =
  base :: nat
  region_length :: nat
  entry_type :: nat

definition is_usable :: "MemoryMapEntry \<Rightarrow> bool" where
  "is_usable e \<longleftrightarrow> entry_type e = 0"

definition can_be_usable :: "MemoryMapEntry \<Rightarrow> bool" where
  "can_be_usable e \<longleftrightarrow> is_usable e \<or> entry_type e = 5"

definition get_hhdm_map_len :: "MemoryMapEntry list \<Rightarrow> nat option" where
  "get_hhdm_map_len entries =
     fold (\<lambda>e res. res \<bind> (\<lambda>acc. map_option (max acc) (checked_add 64 (base e) (region_length e))))
       (filter (\<lambda>e. entry_type e \<noteq> 1 \<and> entry_type e \<noteq> 4) entries) (Some 0)"

text \<open>\<open>physical_allocator::find_max_ram_address\<close>.\<close>

definition find_max_ram_address :: "MemoryMapEntry list \<Rightarrow> nat option" where
  "find_max_ram_address regions =
     fold (\<lambda>r res. res \<bind> (\<lambda>highest.
       if can_be_usable r then checked_add 64 (base r) (region_length r) else Some highest)) regions (Some 0)"

section \<open>Lemmas\<close>

lemma floor_log2_bounds: "0 < n \<Longrightarrow> 2 ^ floor_log2 n \<le> n \<and> n < 2 ^ Suc (floor_log2 n)"
proof (induction n rule: floor_log2.induct)
  case (1 n)
  show ?case
  proof (cases "n < 2")
    case True
    with 1(2) show ?thesis by (simp add: floor_log2.simps)
  next
    case False
    with 1 have "2 ^ floor_log2 (n div 2) \<le> n div 2" "n div 2 < 2 ^ Suc (floor_log2 (n div 2))"
      by auto
    moreover have "floor_log2 n = Suc (floor_log2 (n div 2))"
      using False by (subst floor_log2.simps) simp
    ultimately show ?thesis by simp linarith
  qed
qed

lemma floor_log2_unique: "2 ^ k \<le> n \<Longrightarrow> n < 2 ^ Suc k \<Longrightarrow> floor_log2 n = k"
proof -
  assume a: "2 ^ k \<le> n" "n < 2 ^ Suc k"
  then have "0 < n" by (metis gr0I le_zero_eq power_not_zero zero_neq_numeral)
  from floor_log2_bounds [OF this] a have "2 ^ floor_log2 n < (2::nat) ^ Suc k"
    "2 ^ k < (2::nat) ^ Suc (floor_log2 n)" by linarith+
  then have "floor_log2 n < Suc k" "k < Suc (floor_log2 n)"
    by (simp_all only: power_strict_increasing_iff [of "2::nat"] one_less_numeral_iff semiring_norm)
  then show ?thesis by simp
qed

lemma log2_rounded_up_bounds:
  assumes "0 < n" and "n < 2 ^ 63"
  shows "\<exists>r. log2_rounded_up n = Some r \<and> n \<le> 2 ^ r \<and> (r = 0 \<or> 2 ^ (r - 1) < n) \<and> r < 64"
proof (cases "n = 1")
  case False
  let ?r = "floor_log2 (n * 2 - 1)"
  have b: "2 ^ ?r \<le> n * 2 - 1" "n * 2 - 1 < 2 ^ Suc ?r"
    using floor_log2_bounds [of "n * 2 - 1"] assms(1) by auto
  have "log2_rounded_up n = Some ?r"
    using False assms by (simp add: log2_rounded_up_def checked_simps ilog2_def)
  moreover have "n \<le> 2 ^ ?r" using b(2) by simp
  moreover have "?r = 0 \<or> 2 ^ (?r - 1) < n" using b(1) assms(1) by (cases ?r) auto
  moreover have "(2::nat) ^ ?r < 2 ^ 64" using b(1) assms by simp
  then have "?r < 64" by (rule power_less_imp_less_exp [of "2::nat", rotated]) simp
  ultimately show ?thesis by blast
qed (auto simp: log2_rounded_up_def)

lemma extend_addr_bit:
  "bit (extend_addr a) n = (bit a n \<or> (48 \<le> n \<and> n < 64 \<and> bit a 47))"
proof -
  have m: "(0xFFFF000000000000 :: u64) = push_bit 48 (mask 16)" by (simp add: mask_eq_exp_minus_1)
  have c: "(a AND push_bit 47 1 \<noteq> 0) = bit a 47"
    using and_exp_eq_0_iff_not_bit [of a 47] by simp
  show ?thesis
    unfolding extend_addr_def c m by (cases "n < 64") (auto simp: bit_simps dest: bit_imp_le_length)
qed

lemma trim_addr_bit: "bit (trim_addr_extension a) n = (n < 48 \<and> bit a n)"
proof -
  have m: "(0x0000FFFFFFFFFFFF :: u64) = mask 48" by (simp add: mask_eq_exp_minus_1)
  show ?thesis unfolding trim_addr_extension_def m by (auto simp: bit_simps dest: bit_imp_le_length)
qed

lemma is_userspace_ptr_bits: "is_userspace_ptr a \<longleftrightarrow> (\<forall>n\<ge>47. \<not> bit a n)"
proof -
  have "is_userspace_ptr a \<longleftrightarrow> unat a < 2 ^ 47"
    by (simp add: is_userspace_ptr_def word_less_nat_alt)
  also have "\<dots> \<longleftrightarrow> take_bit 47 a = a"
    by (simp add: word_unat_eq_iff unsigned_take_bit_eq take_bit_nat_eq_self_iff)
  also have "\<dots> \<longleftrightarrow> (\<forall>n\<ge>47. \<not> bit a n)"
    using bit_imp_le_length [of a] by (auto simp: bit_eq_iff bit_simps not_le [symmetric])
  finally show ?thesis .
qed

lemma get_addresses_set:
  "a \<in> set (get_addresses r) \<longleftrightarrow> (\<exists>i<n_pages r. a = start r + i * 4096)"
  by (auto simp: get_addresses_def)

lemma user_range_ok_True:
  assumes "user_range_ok p len = Some True" and "p < 2 ^ 64" and "p \<le> a" and "a < p + len"
  shows "a < 2 ^ 47"
proof -
  from assms(1) have l: "p + len < 2 ^ 64" "1 \<le> p + len"
    and u: "is_userspace_ptr (word_of_nat (p + len - 1))"
    by (auto simp: user_range_ok_def checked_simps split: if_splits)
  have "unat (word_of_nat (p + len - 1) :: u64) = p + len - 1"
    by (rule unat_u64_of_nat) (use l in linarith)
  with u have "p + len - 1 < 2 ^ 47"
    by (simp add: is_userspace_ptr_def word_less_nat_alt)
  with assms(3,4) show ?thesis by linarith
qed

section \<open>Properties\<close>

text \<open>an address obtained from a physical address through the direct map translates
  back to that physical address, whatever the page tables hold.\<close>

theorem phys_virt_roundtrip:
  assumes "phys_to_virt m p = Some v"
  shows "translate_virt_phys_addr m load cr root (word_of_nat v) = Some (Some p)"
proof -
  from assms have v: "v = p + HHDM_ADDR m" "v < 2 ^ 64" "v < HHDM_ADDR m + HHDM_LEN m"
    "HHDM_ADDR m + HHDM_LEN m < 2 ^ 64"
    by (auto simp: phys_to_virt_def is_phys_in_hhdm_def checked_simps panic_unless_def
        split: if_splits Option.bind_splits)
  have "unat (word_of_nat v :: u64) = v" using v(2) by (simp add: unat_u64_of_nat)
  then show ?thesis using v by (simp add: translate_virt_phys_addr_def is_in_hhdm_def checked_simps)
qed

text \<open>sign extension and its inverse. Trimming forgets the extension, extending a trimmed
  canonical address restores it, and addresses of user space are fixed by both.\<close>

theorem canonical_addresses:
  "trim_addr_extension (extend_addr a) = trim_addr_extension a \<and>
   ((\<forall>n\<in>{48..63}. bit a n = bit a 47) \<longrightarrow> extend_addr (trim_addr_extension a) = a) \<and>
   (is_userspace_ptr a \<longrightarrow> extend_addr a = a \<and> trim_addr_extension a = a)"
proof (intro conjI impI)
  show "trim_addr_extension (extend_addr a) = trim_addr_extension a"
    by (rule bit_word_eqI) (auto simp: trim_addr_bit extend_addr_bit)
next
  assume "\<forall>n\<in>{48..63}. bit a n = bit a 47"
  then show "extend_addr (trim_addr_extension a) = a"
    by (intro bit_word_eqI) (auto simp: trim_addr_bit extend_addr_bit)
next
  assume "is_userspace_ptr a"
  then have u: "\<not> bit a n" if "47 \<le> n" for n using that by (simp add: is_userspace_ptr_bits)
  show "extend_addr a = a" by (rule bit_word_eqI) (auto simp: extend_addr_bit u)
  show "trim_addr_extension a = a"
    by (rule bit_word_eqI) (use u in \<open>auto simp: trim_addr_bit not_le [symmetric]\<close>)
qed

text \<open>a copy from user space goes ahead only when every byte of the source lies in the
  lower half of the address space.\<close>

theorem copy_from_user_reads_user_memory:
  assumes "safe_memcpy_from_user probe dst src len = Some True" and "src < 2 ^ 64"
  shows "\<forall>a. src \<le> a \<and> a < src + len \<longrightarrow> a < 2 ^ 47"
proof -
  from assms(1) have "user_range_ok src len = Some True"
    by (cases "user_range_ok src len") (auto simp: safe_memcpy_from_user_def)
  with assms(2) show ?thesis using user_range_ok_True by blast
qed

text \<open>\<open>shrink_to\<close> releases the pages outside the new range exactly when the start does
  not move. The front range is computed after \<open>self\<close> was overwritten, so when the start moves
  up the pages in front leak and pages behind the old end are released instead.\<close>

theorem shrink_to_releases_rest_iff:
  assumes "start new = start old + d * 4096" and "d + n_pages new \<le> n_pages old"
    and "start old + n_pages old * 4096 < 2 ^ 64"
  shows "\<exists>before after. shrink_to old new = Some (new, [before, after]) \<and>
    (set (get_addresses before) \<union> set (get_addresses after) =
       set (get_addresses old) - set (get_addresses new) \<longleftrightarrow> d = 0)"
proof -
  let ?before = "\<lparr>start = start new, n_pages = 0\<rparr>"
  let ?after = "\<lparr>start = start new + n_pages new * 4096, n_pages = n_pages old - n_pages new\<rparr>"
  have "n_pages new * 4096 \<le> n_pages old * 4096" "(d + n_pages new) * 4096 \<le> n_pages old * 4096"
    using assms(2) by (simp_all only: mult_le_mono1)
  then have "shrink_to old new = Some (new, [?before, ?after])"
    using assms by (simp add: shrink_to_def checked_simps Let_def)
  moreover have "set (get_addresses ?before) = {}" by (simp add: get_addresses_def)
  moreover have "set (get_addresses ?after) = set (get_addresses old) - set (get_addresses new) \<longleftrightarrow> d = 0"
  proof (cases "d = 0")
    case True
    have "a \<in> set (get_addresses ?after) \<longleftrightarrow> a \<in> set (get_addresses old) - set (get_addresses new)" for a
    proof
      assume "a \<in> set (get_addresses ?after)"
      then obtain i where "i < n_pages old - n_pages new" "a = start old + (n_pages new + i) * 4096"
        using True assms(1) by (auto simp: get_addresses_set algebra_simps)
      then show "a \<in> set (get_addresses old) - set (get_addresses new)"
        using True assms(1) by (auto simp: get_addresses_set intro!: exI [of _ "n_pages new + i"])
    next
      assume "a \<in> set (get_addresses old) - set (get_addresses new)"
      then obtain i where "i < n_pages old" "a = start old + i * 4096" "\<not> i < n_pages new"
        using True assms(1) by (auto simp: get_addresses_set)
      then show "a \<in> set (get_addresses ?after)"
        using True assms(1)
        by (auto simp: get_addresses_set algebra_simps intro!: exI [of _ "i - n_pages new"])
    qed
    with True show ?thesis by blast
  next
    case False
    then have "start old \<in> set (get_addresses old) - set (get_addresses new)"
      using assms(1,2) by (auto simp: get_addresses_set intro!: exI [of _ 0])
    moreover have "start old \<notin> set (get_addresses ?after)"
      using False assms(1) by (auto simp: get_addresses_set)
    ultimately show ?thesis using False by blast
  qed
  ultimately show ?thesis by (metis Un_empty_left)
qed

text \<open>\<open>log2_rounded_up\<close> is the rounded-up binary logarithm: the least exponent whose
  power of two holds \<open>n\<close> pages.\<close>

theorem log2_rounded_up_correct:
  assumes "0 < n" and "n < 2 ^ 63"
  shows "\<exists>r. log2_rounded_up n = Some r \<and> (\<forall>k. n \<le> 2 ^ k \<longleftrightarrow> r \<le> k)"
proof -
  from log2_rounded_up_bounds [OF assms] obtain r where r: "log2_rounded_up n = Some r"
    "n \<le> 2 ^ r" "r = 0 \<or> 2 ^ (r - 1) < n" by blast
  have "n \<le> 2 ^ k \<longleftrightarrow> r \<le> k" for k
  proof
    assume "n \<le> 2 ^ k"
    with r(3) have "r = 0 \<or> (2::nat) ^ (r - 1) < 2 ^ k" by linarith
    then have "r = 0 \<or> r - 1 < k" using power_less_imp_less_exp [of "2::nat" "r - 1" k] by auto
    then show "r \<le> k" by auto
  next
    assume "r \<le> k"
    then have "(2::nat) ^ r \<le> 2 ^ k" by (simp add: power_increasing)
    with r(2) show "n \<le> 2 ^ k" by linarith
  qed
  with r(1) show ?thesis by blast
qed

end
