(* ===== verification/BitStore.thy ===== *)
theory BitStore
  imports Prelude
begin

text \<open>
  Arrays of bits packed into bytes, lowest bit first. The physical allocators keep their page
  maps in this form. The locale \<open>bit_array\<close> states what the allocators rely on; it is
  interpreted here on the byte accesses and, in the theories of the allocators, on their own
  \<open>get_at_index\<close> and \<open>set_at_index\<close>.
\<close>

section \<open>Byte accesses\<close>

text \<open>The expressions \<open>num & (1 << (index & 0b111)) > 0\<close>, \<open>num |= 1 << (index & 0b111)\<close> and
  \<open>num &= !(1 << (index & 0b111))\<close>; an access outside the array is \<open>None\<close>.\<close>

definition byte_get :: "u8 list \<Rightarrow> nat \<Rightarrow> bool option" where
  "byte_get bs i =
     map_option (\<lambda>num. 0 < num AND push_bit (i mod 8) 1) (index_at bs (i div 8))"

definition byte_set :: "u8 list \<Rightarrow> nat \<Rightarrow> bool \<Rightarrow> u8 list option" where
  "byte_set bs i a =
     map_option (\<lambda>num. bs[i div 8 :=
         (if a then num OR push_bit (i mod 8) 1 else num AND NOT (push_bit (i mod 8) 1))])
       (index_at bs (i div 8))"

definition byte_view :: "u8 list \<Rightarrow> nat \<Rightarrow> bool" where
  "byte_view bs i = bit (bs ! (i div 8)) (i mod 8)"

lemma and_bit_pos: "(0 < (w :: u8) AND push_bit n 1) = bit w n"
  using and_exp_eq_0_iff_not_bit [of w n] by (simp add: word_greater_zero_iff)

lemma byte_get_view: "i < 8 * length bs \<Longrightarrow> byte_get bs i = Some (byte_view bs i)"
  unfolding byte_get_def byte_view_def and_bit_pos
  by (simp add: index_at_def less_mult_imp_div_less mult.commute)

lemma byte_set_view:
  assumes "i < 8 * length bs"
  shows "\<exists>bs'. byte_set bs i a = Some bs' \<and> length bs' = length bs \<and>
    byte_view bs' = (byte_view bs)(i := a)"
proof -
  have k: "i div 8 < length bs" using assms by (simp add: less_mult_imp_div_less mult.commute)
  let ?w = "if a then bs ! (i div 8) OR push_bit (i mod 8) 1
            else bs ! (i div 8) AND NOT (push_bit (i mod 8) 1)"
  have bitw: "bit ?w n = (if n = i mod 8 then a else bit (bs ! (i div 8)) n)" if "n < 8" for n
    using that by (auto simp: bit_simps)
  have "byte_view (bs[i div 8 := ?w]) j = ((byte_view bs)(i := a)) j" for j
  proof (cases "j div 8 = i div 8")
    case True
    then have "j = i \<longleftrightarrow> j mod 8 = i mod 8" by (metis div_mult_mod_eq)
    then show ?thesis using True k bitw [of "j mod 8"] by (simp add: byte_view_def)
  qed (auto simp: byte_view_def)
  then have "byte_view (bs[i div 8 := ?w]) = (byte_view bs)(i := a)" by (rule ext)
  then show ?thesis using k unfolding byte_set_def index_at_def by simp
qed

section \<open>The interface\<close>

text \<open>Setting a list of positions one after the other.\<close>

primrec set_all :: "('s \<Rightarrow> nat \<Rightarrow> bool \<Rightarrow> 's option) \<Rightarrow> bool \<Rightarrow> nat list \<Rightarrow> 's \<Rightarrow> 's option" where
  "set_all st a [] s = Some s"
| "set_all st a (i # is) s = st s i a \<bind> set_all st a is"

locale bit_array =
  fixes get :: "'s \<Rightarrow> nat \<Rightarrow> bool option"
    and set_bit :: "'s \<Rightarrow> nat \<Rightarrow> bool \<Rightarrow> 's option"
    and view :: "'s \<Rightarrow> nat \<Rightarrow> bool"
    and bound :: "'s \<Rightarrow> nat"
  assumes get_law: "i < bound s \<Longrightarrow> get s i = Some (view s i)"
    and set_law: "i < bound s \<Longrightarrow>
      \<exists>s'. set_bit s i a = Some s' \<and> view s' = (view s)(i := a) \<and> bound s' = bound s"
begin

lemma get_after_set:
  assumes "i < bound s" and "j < bound s"
  shows "set_bit s i a \<bind> (\<lambda>s'. get s' j) = (if i = j then Some a else get s j)"
  using set_law [OF assms(1), of a] assms by (auto simp: get_law)

lemma set_all_view:
  assumes "\<forall>i\<in>set is. i < bound s"
  shows "\<exists>s'. set_all set_bit a is s = Some s' \<and> bound s' = bound s \<and>
    view s' = (\<lambda>j. if j \<in> set is then a else view s j)"
  using assms
proof (induction "is" arbitrary: s)
  case (Cons i "is")
  from set_law [of i s a] Cons.prems obtain s1 where s1: "set_bit s i a = Some s1"
    "view s1 = (view s)(i := a)" "bound s1 = bound s" by auto
  with Cons.IH [of s1] Cons.prems obtain s' where s':
    "set_all set_bit a is s1 = Some s'" "bound s' = bound s"
    "view s' = (\<lambda>j. if j \<in> set is then a else view s1 j)" by auto
  have "view s' = (\<lambda>j. if j \<in> set (i # is) then a else view s j)"
    using s1(2) s'(3) by auto
  with s1 s' show ?case by simp
qed auto

end

interpretation byte_bits: bit_array byte_get byte_set byte_view "\<lambda>bs. 8 * length bs"
proof (unfold_locales, goal_cases)
  case (2 i s a)
  then show ?case using byte_set_view [of i s a] by auto
qed (rule byte_get_view)

end
