(* ===== verification/BuddyAllocator.thy ===== *)
theory BuddyAllocator
  imports Addresses BitStore
begin

text \<open>
  The physical frame allocator (\<open>memory/physical_allocator/buddy_allocator.rs\<close>): a complete
  binary tree of bits, packed into bytes. Node 1 is the root, node \<open>i\<close> has the children
  \<open>2 * i\<close> and \<open>2 * i + 1\<close>, and the second half of the array are the leaves, one per page frame.
  A set bit means allocated. The bytes behind \<open>tree_allocator\<close> are the field
  \<open>tree_bytes\<close>; an access outside them is \<open>None\<close>, like a panic.
\<close>

section \<open>State and bit accesses\<close>

record BuddyAllocator =
  buddy_n_pages :: nat
  binary_tree_size :: nat
  allocated_pages :: nat
  tree_bytes :: "u8 list"

definition get_at_index :: "BuddyAllocator \<Rightarrow> nat \<Rightarrow> bool option" where
  "get_at_index b index = byte_get (tree_bytes b) index"

definition set_at_index :: "BuddyAllocator \<Rightarrow> nat \<Rightarrow> bool \<Rightarrow> BuddyAllocator option" where
  "set_at_index b index allocated =
     map_option (\<lambda>t. b\<lparr>tree_bytes := t\<rparr>) (byte_set (tree_bytes b) index allocated)"

text \<open>\<open>self.get_at_index(index << 1) && self.get_at_index((index << 1) + 1)\<close>; the second
  operand is read only when the first is true.\<close>

definition both_children :: "BuddyAllocator \<Rightarrow> nat \<Rightarrow> bool option" where
  "both_children b index =
     get_at_index b (2 * index) \<bind> (\<lambda>l. if l then get_at_index b (2 * index + 1) else Some False)"

section \<open>Marking\<close>

fun update_from_lower :: "BuddyAllocator \<Rightarrow> nat \<Rightarrow> BuddyAllocator option" where
  "update_from_lower b index =
     (if index = 0 then Some b
      else both_children b index \<bind> (\<lambda>all_allocated.
           set_at_index b index all_allocated \<bind> (\<lambda>b'.
           update_from_lower b' (index div 2))))"

declare update_from_lower.simps [simp del]

partial_function (option) update_from_higher ::
  "BuddyAllocator \<Rightarrow> nat \<Rightarrow> bool \<Rightarrow> BuddyAllocator option" where
  "update_from_higher b index allocated =
     (if buddy_n_pages b + binary_tree_size b div 2 \<le> index then Some b
      else set_at_index b index allocated \<bind> (\<lambda>b1.
           update_from_higher b1 (2 * index) allocated \<bind> (\<lambda>b2.
           update_from_higher b2 (2 * index + 1) allocated)))"

definition mark_index :: "BuddyAllocator \<Rightarrow> nat \<Rightarrow> bool \<Rightarrow> BuddyAllocator option" where
  "mark_index b index allocated =
     set_at_index b index allocated \<bind> (\<lambda>b1.
     update_from_lower b1 (index div 2) \<bind> (\<lambda>b2.
     update_from_higher b2 (2 * index) allocated))"

definition mark_addr :: "BuddyAllocator \<Rightarrow> nat \<Rightarrow> bool \<Rightarrow> BuddyAllocator option" where
  "mark_addr b addr allocated =
     panic_unless (addr mod 4096 = 0) \<bind> (\<lambda>_.
     mark_index b (addr div 4096 + binary_tree_size b div 2) allocated)"

text \<open>The loop \<open>for i in index..index + n_pages { self.mark_index(i, true); }\<close> over the list of
  its indexes.\<close>

primrec mark_each :: "nat list \<Rightarrow> bool \<Rightarrow> BuddyAllocator \<Rightarrow> BuddyAllocator option" where
  "mark_each [] allocated b = Some b"
| "mark_each (i # is) allocated b = mark_index b i allocated \<bind> mark_each is allocated"

text \<open>The loop of \<open>update_all\<close> over \<open>(1..binary_tree_size / 2).rev()\<close>.\<close>

primrec update_nodes :: "nat list \<Rightarrow> BuddyAllocator \<Rightarrow> BuddyAllocator option" where
  "update_nodes [] b = Some b"
| "update_nodes (i # is) b =
     both_children b i \<bind> (\<lambda>v. set_at_index b i v \<bind> update_nodes is)"

definition update_all :: "BuddyAllocator \<Rightarrow> BuddyAllocator option" where
  "update_all b = update_nodes (rev [1..<binary_tree_size b div 2]) b"

section \<open>Searching\<close>

partial_function (option) find_empty_frame_recursively_high ::
  "BuddyAllocator \<Rightarrow> nat \<Rightarrow> nat option" where
  "find_empty_frame_recursively_high b curr_index =
     (if binary_tree_size b div 2 \<le> curr_index then Some curr_index
      else get_at_index b curr_index \<bind> (\<lambda>full.
           panic_unless (\<not> full) \<bind> (\<lambda>_.
           get_at_index b (curr_index * 2 + 1) \<bind> (\<lambda>r.
           if \<not> r then find_empty_frame_recursively_high b (curr_index * 2 + 1)
           else find_empty_frame_recursively_high b (curr_index * 2)))))"

definition find_empty_frame_high :: "BuddyAllocator \<Rightarrow> nat option" where
  "find_empty_frame_high b =
     get_at_index b 1 \<bind> (\<lambda>full.
     panic_unless (\<not> full) \<bind> (\<lambda>_. find_empty_frame_recursively_high b 1))"

partial_function (option) find_empty_frame_recursively_low ::
  "BuddyAllocator \<Rightarrow> nat \<Rightarrow> nat option" where
  "find_empty_frame_recursively_low b curr_index =
     (if binary_tree_size b div 2 \<le> curr_index then Some curr_index
      else get_at_index b curr_index \<bind> (\<lambda>full.
           panic_unless (\<not> full) \<bind> (\<lambda>_.
           get_at_index b (curr_index * 2) \<bind> (\<lambda>l.
           if \<not> l then find_empty_frame_recursively_low b (curr_index * 2)
           else find_empty_frame_recursively_low b (curr_index * 2 + 1)))))"

definition find_empty_frame_low :: "BuddyAllocator \<Rightarrow> nat option" where
  "find_empty_frame_low b =
     get_at_index b 1 \<bind> (\<lambda>full.
     panic_unless (\<not> full) \<bind> (\<lambda>_. find_empty_frame_recursively_low b 1))"

partial_function (option) check_all_empty :: "BuddyAllocator \<Rightarrow> nat \<Rightarrow> bool option" where
  "check_all_empty b node_index =
     (if binary_tree_size b div 2 \<le> node_index then map_option Not (get_at_index b node_index)
      else get_at_index b node_index \<bind> (\<lambda>full.
           if full then Some False
           else check_all_empty b (node_index * 2) \<bind> (\<lambda>l.
                if l then check_all_empty b (node_index * 2 + 1) else Some False)))"

partial_function (option) get_last_level_index :: "BuddyAllocator \<Rightarrow> nat \<Rightarrow> nat option" where
  "get_last_level_index b node_index =
     (if node_index < binary_tree_size b div 2 then get_last_level_index b (node_index * 2)
      else Some node_index)"

text \<open>The outer option is a panic, the inner one the \<open>Option<u64>\<close> of the source.\<close>

partial_function (option) find_contigious_empty_recursively_high ::
  "BuddyAllocator \<Rightarrow> nat \<Rightarrow> nat \<Rightarrow> nat option option" where
  "find_contigious_empty_recursively_high b curr_index order =
     (if binary_tree_size b div 2 ^ (order + 1) \<le> curr_index
      then check_all_empty b curr_index \<bind> (\<lambda>e.
           if e then get_last_level_index b curr_index \<bind> (\<lambda>i. Some (Some i)) else Some None)
      else get_at_index b (curr_index * 2 + 1) \<bind> (\<lambda>r.
           if \<not> r
           then find_contigious_empty_recursively_high b (curr_index * 2 + 1) order \<bind> (\<lambda>res.
                if res \<noteq> None then Some res
                else find_contigious_empty_recursively_high b (curr_index * 2) order)
           else find_contigious_empty_recursively_high b (curr_index * 2) order))"

definition find_contigious_empty_high :: "BuddyAllocator \<Rightarrow> nat \<Rightarrow> nat option" where
  "find_contigious_empty_high b n =
     (if n = 0 then Some (binary_tree_size b div 2)
      else log2_rounded_up n \<bind> (\<lambda>order.
           find_contigious_empty_recursively_high b 1 order \<bind> (\<lambda>r. r)))"

section \<open>Allocating and releasing\<close>

definition allocate_frame :: "BuddyAllocator \<Rightarrow> (nat \<times> BuddyAllocator) option" where
  "allocate_frame b =
     panic_unless (allocated_pages b \<noteq> binary_tree_size b div 2) \<bind> (\<lambda>_.
     let b1 = b\<lparr>allocated_pages := allocated_pages b + 1\<rparr> in
     find_empty_frame_high b1 \<bind> (\<lambda>index.
     mark_index b1 index True \<bind> (\<lambda>b2.
     checked_sub index (binary_tree_size b2 div 2) \<bind> (\<lambda>page.
     checked_mul 64 page 4096 \<bind> (\<lambda>address. Some (address, b2))))))"

definition allocate_frame_low :: "BuddyAllocator \<Rightarrow> (nat \<times> BuddyAllocator) option" where
  "allocate_frame_low b =
     panic_unless (allocated_pages b \<noteq> binary_tree_size b div 2) \<bind> (\<lambda>_.
     let b1 = b\<lparr>allocated_pages := allocated_pages b + 1\<rparr> in
     find_empty_frame_low b1 \<bind> (\<lambda>index.
     mark_index b1 index True \<bind> (\<lambda>b2.
     checked_sub index (binary_tree_size b2 div 2) \<bind> (\<lambda>page.
     checked_mul 64 page 4096 \<bind> (\<lambda>address. Some (address, b2))))))"

definition allocate_contiguius :: "BuddyAllocator \<Rightarrow> nat \<Rightarrow> (nat \<times> BuddyAllocator) option" where
  "allocate_contiguius b n =
     find_contigious_empty_high b n \<bind> (\<lambda>index.
     mark_each [index..<index + n] True b \<bind> (\<lambda>b1.
     let b2 = b1\<lparr>allocated_pages := allocated_pages b1 + n\<rparr> in
     checked_sub index (binary_tree_size b2 div 2) \<bind> (\<lambda>page.
     checked_mul 64 page 4096 \<bind> (\<lambda>address.
     panic_unless (address \<le> buddy_n_pages b2 * 4096) \<bind> (\<lambda>_. Some (address, b2))))))"

definition deallocate_frame :: "BuddyAllocator \<Rightarrow> nat \<Rightarrow> BuddyAllocator option" where
  "deallocate_frame b addr =
     mark_addr b addr False \<bind> (\<lambda>b1.
     checked_sub (allocated_pages b1) 1 \<bind> (\<lambda>n. Some (b1\<lparr>allocated_pages := n\<rparr>)))"

text \<open>The module functions on the locked allocator: \<open>deallocate\<close>, \<open>stat\<close>,
  \<open>allocate_contiguous\<close>.\<close>

primrec deallocate_frames :: "nat list \<Rightarrow> BuddyAllocator \<Rightarrow> BuddyAllocator option" where
  "deallocate_frames [] b = Some b"
| "deallocate_frames (a # as) b = deallocate_frame b a \<bind> deallocate_frames as"

definition deallocate :: "BuddyAllocator \<Rightarrow> PhysRange \<Rightarrow> BuddyAllocator option" where
  "deallocate b r =
     (if n_pages r = 0 \<or> start r = 0 then Some b
      else deallocate_frames (map (\<lambda>i. start r + i * 4096) [0..<n_pages r]) b)"

record PhysicalAllocatorStats =
  stat_total_pages :: nat
  stat_free_pages :: nat
  stat_allocated_pages :: nat

definition stat :: "BuddyAllocator \<Rightarrow> PhysicalAllocatorStats option" where
  "stat b =
     checked_sub (buddy_n_pages b) (allocated_pages b) \<bind> (\<lambda>free.
       Some \<lparr>stat_total_pages = buddy_n_pages b mod 2 ^ 32, stat_free_pages = free mod 2 ^ 32,
             stat_allocated_pages = allocated_pages b mod 2 ^ 32\<rparr>)"

definition allocate_contiguous :: "BuddyAllocator \<Rightarrow> nat \<Rightarrow> (PhysRange \<times> BuddyAllocator) option" where
  "allocate_contiguous b n =
     allocate_contiguius b n \<bind> (\<lambda>(addr, b'). Some (\<lparr>start = addr, n_pages = n\<rparr>, b'))"

section \<open>Initialisation\<close>

definition get_binary_tree_element_cnt :: "nat \<Rightarrow> nat option" where
  "get_binary_tree_element_cnt n = log2_rounded_up n \<bind> (\<lambda>power. Some (2 ^ power))"

text \<open>The index of the last usable region that is long enough; a panic when there is none.\<close>

definition find_mem_region_to_shrink :: "MemoryMapEntry list \<Rightarrow> nat \<Rightarrow> nat option" where
  "find_mem_region_to_shrink regions space_needed_bytes =
     map_option fst
       (find (\<lambda>(_, r). is_usable r \<and> space_needed_bytes \<le> region_length r)
         (rev (enumerate 0 regions)))"

text \<open>\<open>(entry.base..(entry.base + entry.length)).step_by(0x1000)\<close>; \<open>buddy_init\<close> has the overflow check of
  the end of the range.\<close>

definition region_addresses :: "MemoryMapEntry \<Rightarrow> nat list" where
  "region_addresses e = map (\<lambda>i. base e + i * 4096) [0..<div_ceil (region_length e) 4096]"

definition free_indexes :: "nat \<Rightarrow> MemoryMapEntry list \<Rightarrow> nat list" where
  "free_indexes half regions =
     concat (map (\<lambda>e. if is_usable e then map (\<lambda>addr. addr div 4096 + half) (region_addresses e) else [])
       regions)"

text \<open>\<open>init\<close> with \<open>MAX_RAM_ADDR\<close> and the memory map as arguments. The tree's bytes, taken from
  the front of the chosen region, start as \<open>0xFF\<close>. The result is the allocator and the changed
  memory map.\<close>

definition buddy_init :: "nat \<Rightarrow> MemoryMapEntry list \<Rightarrow> (BuddyAllocator \<times> MemoryMapEntry list) option" where
  "buddy_init max_ram_addr regions =
     (let n = max_ram_addr div 4096 in
      get_binary_tree_element_cnt n \<bind> (\<lambda>elements.
      let space_needed_bytes = elements div 8 * 2 in
      find_mem_region_to_shrink regions space_needed_bytes \<bind> (\<lambda>i.
      let entry = regions ! i;
          allocator_pages = div_ceil space_needed_bytes 4096
      in checked_add 64 (base entry) (allocator_pages * 4096) \<bind> (\<lambda>base'.
      checked_sub (region_length entry) (allocator_pages * 4096) \<bind> (\<lambda>length'.
      let regions' = regions[i := entry\<lparr>base := base', region_length := length'\<rparr>];
          allocator = \<lparr>buddy_n_pages = n, binary_tree_size = elements * 2, allocated_pages = 0,
                       tree_bytes = replicate space_needed_bytes 0xFF\<rparr>;
          indexes = free_indexes (binary_tree_size allocator div 2) regions'
      in panic_unless (list_all (\<lambda>e. base e + region_length e < 2 ^ 64) (filter is_usable regions')) \<bind> (\<lambda>_.
      set_all set_at_index False indexes allocator \<bind> (\<lambda>b1.
      update_all (b1\<lparr>allocated_pages := 0, buddy_n_pages := length indexes\<rparr>) \<bind> (\<lambda>b2.
      Some (b2, regions')))))))))"

end
