(* ===== verification/BuddyCorrect.thy ===== *)
theory BuddyCorrect
  imports BuddyAllocator
begin

text \<open>
  Correctness of the buddy allocator. The tree is seen as a function from node numbers to
  bits (\<open>bits\<close>). The invariant \<open>buddy_wf\<close> says that an inner node is set exactly when
  both children are, that the bytes hold the whole tree, and that the page counters agree with the
  leaves. Under it the searches find the highest or lowest free frame or aligned block, marking
  changes one leaf, and the allocator's operations keep the invariant.
\<close>

section \<open>The tree as a bit function\<close>

abbreviation bits :: "BuddyAllocator \<Rightarrow> nat \<Rightarrow> bool" where
  "bits b \<equiv> byte_view (tree_bytes b)"

definition node_ok :: "(nat \<Rightarrow> bool) \<Rightarrow> nat \<Rightarrow> bool" where
  "node_ok v i \<longleftrightarrow> v i = (v (2 * i) \<and> v (2 * i + 1))"

definition tree_inv :: "(nat \<Rightarrow> bool) \<Rightarrow> nat \<Rightarrow> bool" where
  "tree_inv v N \<longleftrightarrow> (\<forall>i\<in>{1..<N}. node_ok v i)"

text \<open>The result \<open>r\<close> is the allocator \<open>b\<close> with its tree changed to the bits \<open>v\<close>.\<close>

definition retree :: "BuddyAllocator \<Rightarrow> (nat \<Rightarrow> bool) \<Rightarrow> BuddyAllocator option \<Rightarrow> bool" where
  "retree b v r \<longleftrightarrow> (\<exists>t. r = Some (b\<lparr>tree_bytes := t\<rparr>) \<and> length t = length (tree_bytes b) \<and>
     byte_view t = v)"

lemma retree_Some: "retree b (bits b) (Some b)"
  unfolding retree_def by (rule exI [of _ "tree_bytes b"]) simp

lemma retree_bind:
  assumes "retree b v r"
    and "\<And>b'. binary_tree_size b' = binary_tree_size b \<Longrightarrow> buddy_n_pages b' = buddy_n_pages b \<Longrightarrow>
      length (tree_bytes b') = length (tree_bytes b) \<Longrightarrow> bits b' = v \<Longrightarrow> retree b' w (f b')"
  shows "retree b w (r \<bind> f)"
proof -
  from assms(1) obtain t where t: "r = Some (b\<lparr>tree_bytes := t\<rparr>)"
    "length t = length (tree_bytes b)" "byte_view t = v" by (auto simp: retree_def)
  from assms(2) [of "b\<lparr>tree_bytes := t\<rparr>"] t show ?thesis by (auto simp: retree_def)
qed

lemma get_at_index_bits: "i < 8 * length (tree_bytes b) \<Longrightarrow> get_at_index b i = Some (bits b i)"
  by (simp add: get_at_index_def byte_get_view)

lemma set_at_index_retree:
  "i < 8 * length (tree_bytes b) \<Longrightarrow> retree b ((bits b)(i := a)) (set_at_index b i a)"
  using byte_set_view [of i "tree_bytes b" a] by (auto simp: retree_def set_at_index_def)

interpretation buddy_bits: bit_array get_at_index set_at_index bits "\<lambda>b. 8 * length (tree_bytes b)"
proof (unfold_locales, goal_cases)
  case (2 i s a)
  from set_at_index_retree [OF this, of a] show ?case by (auto simp: retree_def)
qed (rule get_at_index_bits)

lemma both_children_bits:
  "2 * i + 1 < 8 * length (tree_bytes b) \<Longrightarrow>
     both_children b i = Some (bits b (2 * i) \<and> bits b (2 * i + 1))"
  by (simp add: both_children_def get_at_index_bits)

section \<open>Marking one leaf\<close>

fun up :: "(nat \<Rightarrow> bool) \<Rightarrow> nat \<Rightarrow> (nat \<Rightarrow> bool)" where
  "up v i = (if i = 0 then v else up (v(i := v (2 * i) \<and> v (2 * i + 1))) (i div 2))"

declare up.simps [simp del]

fun on_path :: "nat \<Rightarrow> nat \<Rightarrow> bool" where
  "on_path i j = (if j = 0 then False else i = j \<or> on_path i (j div 2))"

declare on_path.simps [simp del]

lemma update_from_lower_up:
  "2 * i + 1 < 8 * length (tree_bytes b) \<Longrightarrow> retree b (up (bits b) i) (update_from_lower b i)"
proof (induction i arbitrary: b rule: less_induct)
  case (less i)
  show ?case
  proof (cases "i = 0")
    case False
    have "retree b (up (bits b) i)
        (set_at_index b i (bits b (2 * i) \<and> bits b (2 * i + 1)) \<bind> (\<lambda>b'. update_from_lower b' (i div 2)))"
    proof (rule retree_bind [OF set_at_index_retree])
      fix b' :: BuddyAllocator
      assume b': "length (tree_bytes b') = length (tree_bytes b)"
        "bits b' = (bits b)(i := bits b (2 * i) \<and> bits b (2 * i + 1))"
      have "retree b' (up (bits b') (i div 2)) (update_from_lower b' (i div 2))"
        by (rule less.IH) (use False less.prems b' in auto)
      then show "retree b' (up (bits b) i) (update_from_lower b' (i div 2))"
        using False b' by (simp add: up.simps [of _ i])
    qed (use less.prems in simp)
    then show ?thesis using False less.prems by (simp add: update_from_lower.simps both_children_bits)
  qed (simp add: update_from_lower.simps up.simps retree_Some)
qed

lemma up_step: "i \<noteq> 0 \<Longrightarrow> up v i = up (v(i := v (2 * i) \<and> v (2 * i + 1))) (i div 2)"
  by (subst up.simps) simp

lemma on_path_step: "i \<noteq> 0 \<Longrightarrow> on_path j i \<longleftrightarrow> j = i \<or> on_path j (i div 2)"
  by (subst on_path.simps) simp

lemma up_other: "\<not> on_path j i \<Longrightarrow> up v i j = v j"
proof (induction i arbitrary: v rule: less_induct)
  case (less i)
  then show ?case by (cases "i = 0") (auto simp: up.simps [of v 0] up_step on_path_step)
qed

lemma on_path_le: "on_path j i \<Longrightarrow> j \<le> i \<and> j \<noteq> 0"
proof (induction i rule: less_induct)
  case (less i)
  show ?case
  proof (cases "i = 0")
    case False
    with less.prems have "j = i \<or> on_path j (i div 2)" by (simp add: on_path_step)
    then show ?thesis using less.IH [of "i div 2"] False by auto
  qed (use less.prems in \<open>simp add: on_path.simps\<close>)
qed

lemma up_tree_inv:
  assumes "\<And>j. j \<in> {1..<N} \<Longrightarrow> \<not> on_path j i \<Longrightarrow> node_ok v j"
  shows "tree_inv (up v i) N"
  using assms
proof (induction v i rule: up.induct)
  case (1 v i)
  show ?case
  proof (cases "i = 0")
    case True
    with 1(2) show ?thesis by (auto simp: up.simps tree_inv_def on_path.simps)
  next
    case False
    let ?v = "v(i := v (2 * i) \<and> v (2 * i + 1))"
    have "node_ok ?v j" if "j \<in> {1..<N}" "\<not> on_path j (i div 2)" for j
    proof (cases "j = i")
      case True
      then show ?thesis using that False by (auto simp: node_ok_def)
    next
      case n: False
      with that False have "\<not> on_path j i" by (subst on_path.simps) simp
      moreover have "2 * j \<noteq> i" "2 * j + 1 \<noteq> i"
        using that n False by (auto simp: on_path.simps [of j "i div 2"])
      ultimately show ?thesis using 1(2) [of j] that(1) n by (auto simp: node_ok_def)
    qed
    then show ?thesis unfolding up_step [OF False] by (rule 1(1) [OF False])
  qed
qed

definition tree_ok :: "nat \<Rightarrow> BuddyAllocator \<Rightarrow> bool" where
  "tree_ok k b \<longleftrightarrow>
     binary_tree_size b = 2 * 2 ^ k \<and> binary_tree_size b \<le> 8 * length (tree_bytes b) \<and>
     buddy_n_pages b \<le> 2 ^ k \<and> tree_inv (bits b) (2 ^ k)"

lemma tree_ok_bound: "tree_ok k b \<Longrightarrow> i < 2 * 2 ^ k \<Longrightarrow> i < 8 * length (tree_bytes b)"
  by (simp add: tree_ok_def)

text \<open>The whole effect of \<open>mark_index\<close> on a leaf: it returns, the leaf gets the new value, no
  other leaf changes, and the invariant holds again.\<close>

lemma mark_index_leaf:
  assumes ok: "tree_ok k b" and i: "2 ^ k \<le> i" "i < 2 * 2 ^ k"
  shows "\<exists>b'. mark_index b i a = Some b' \<and> tree_ok k b' \<and>
    (\<forall>l. 2 ^ k \<le> l \<longrightarrow> bits b' l = ((bits b)(i := a)) l) \<and>
    buddy_n_pages b' = buddy_n_pages b \<and> allocated_pages b' = allocated_pages b"
proof -
  let ?v = "up ((bits b)(i := a)) (i div 2)"
  have "i div 2 < 2 ^ k" using i by simp
  then have lo: "2 * (i div 2) + 1 < 8 * length (tree_bytes b)" using tree_ok_bound [OF ok] by simp
  have "retree b ?v (mark_index b i a)"
    unfolding mark_index_def
  proof (rule retree_bind [OF set_at_index_retree])
    show "i < 8 * length (tree_bytes b)" using ok i by (simp add: tree_ok_bound)
    fix b1 :: BuddyAllocator
    assume b1: "binary_tree_size b1 = binary_tree_size b" "buddy_n_pages b1 = buddy_n_pages b"
      "length (tree_bytes b1) = length (tree_bytes b)" "bits b1 = (bits b)(i := a)"
    have "retree b1 ?v (update_from_lower b1 (i div 2))"
      using update_from_lower_up [of "i div 2" b1] b1 lo by simp
    then show "retree b1 ?v (update_from_lower b1 (i div 2) \<bind> (\<lambda>b2. update_from_higher b2 (2 * i) a))"
    proof (rule retree_bind)
      fix b2 :: BuddyAllocator
      assume "binary_tree_size b2 = binary_tree_size b1" "buddy_n_pages b2 = buddy_n_pages b1"
        "bits b2 = ?v"
      then show "retree b2 ?v (update_from_higher b2 (2 * i) a)"
        using b1 ok i retree_Some [of b2]
        by (subst update_from_higher.simps) (simp add: tree_ok_def)
    qed
  qed
  moreover have "tree_inv ?v (2 ^ k)"
  proof (rule up_tree_inv)
    fix j assume j: "j \<in> {1..<2 ^ k}" "\<not> on_path j (i div 2)"
    then have "2 * j \<noteq> i" "2 * j + 1 \<noteq> i" "j \<noteq> i"
      using i by (auto simp: on_path.simps [of j "i div 2"])
    with j ok show "node_ok ((bits b)(i := a)) j" by (auto simp: tree_ok_def tree_inv_def node_ok_def)
  qed
  moreover have "?v l = ((bits b)(i := a)) l" if "2 ^ k \<le> l" for l
  proof (rule up_other)
    show "\<not> on_path l (i div 2)" using that i on_path_le [of l "i div 2"] by auto
  qed
  ultimately show ?thesis using ok by (auto simp: retree_def tree_ok_def)
qed

section \<open>Searching\<close>

text \<open>Node \<open>i\<close> has height \<open>h\<close> in a tree with \<open>N\<close> leaves; \<open>leaves h i\<close> are the leaves below it.\<close>

definition node_at :: "nat \<Rightarrow> nat \<Rightarrow> nat \<Rightarrow> bool" where
  "node_at N h i \<longleftrightarrow> N \<le> i * 2 ^ h \<and> (i + 1) * 2 ^ h \<le> 2 * N"

definition leaves :: "nat \<Rightarrow> nat \<Rightarrow> nat set" where
  "leaves h i = {i * 2 ^ h..<(i + 1) * 2 ^ h}"

lemma leaves_0 [simp]: "leaves 0 i = {i}"
  by (auto simp: leaves_def)

lemma leaves_Suc: "leaves (Suc h) i = leaves h (2 * i) \<union> leaves h (2 * i + 1)"
  by (auto simp: leaves_def algebra_simps)

lemma leaves_left_right: "l \<in> leaves h (2 * i) \<Longrightarrow> r \<in> leaves h (2 * i + 1) \<Longrightarrow> l < r"
  by (auto simp: leaves_def)

lemma node_at_0: "node_at N 0 i \<longleftrightarrow> N \<le> i \<and> i < 2 * N"
  by (auto simp: node_at_def)

lemma node_at_Suc:
  assumes "node_at N (Suc h) i" and "0 < N"
  shows "node_at N h (2 * i)" and "node_at N h (2 * i + 1)" and "i \<in> {1..<N}" and "2 * i + 1 < 2 * N"
proof -
  show "node_at N h (2 * i)" "node_at N h (2 * i + 1)"
    using assms by (auto simp: node_at_def algebra_simps)
  have "(i + 1) * 2 \<le> (i + 1) * 2 ^ Suc h" by (rule mult_le_mono2) simp
  then have "(i + 1) * 2 \<le> 2 * N" using assms(1) unfolding node_at_def by linarith
  moreover have "i \<noteq> 0" using assms by (cases "i = 0") (auto simp: node_at_def)
  ultimately show "i \<in> {1..<N}" "2 * i + 1 < 2 * N" by auto
qed

lemma node_at_lt: "node_at N h i \<Longrightarrow> 0 < N \<Longrightarrow> i < 2 * N"
  by (cases h) (auto simp: node_at_0 dest: node_at_Suc(3))

lemma node_at_root: "node_at (2 ^ k) k 1" and leaves_root: "leaves k 1 = {2 ^ k..<2 * 2 ^ k}"
  by (auto simp: node_at_def leaves_def)

lemma full_iff_leaves:
  "tree_inv v N \<Longrightarrow> 0 < N \<Longrightarrow> node_at N h i \<Longrightarrow> v i \<longleftrightarrow> (\<forall>l\<in>leaves h i. v l)"
proof (induction h arbitrary: i)
  case (Suc h)
  note n = node_at_Suc [OF Suc.prems(3,2)]
  have "v i \<longleftrightarrow> v (2 * i) \<and> v (2 * i + 1)"
    using Suc.prems(1) n(3) by (auto simp: tree_inv_def node_ok_def)
  also have "\<dots> \<longleftrightarrow> (\<forall>l\<in>leaves (Suc h) i. v l)"
    using Suc.IH [OF Suc.prems(1,2) n(1)] Suc.IH [OF Suc.prems(1,2) n(2)]
    by (auto simp: leaves_Suc)
  finally show ?case .
qed simp

lemma tree_ok_full_iff:
  "tree_ok k b \<Longrightarrow> node_at (2 ^ k) h i \<Longrightarrow> bits b i \<longleftrightarrow> (\<forall>l\<in>leaves h i. bits b l)"
  by (rule full_iff_leaves) (auto simp: tree_ok_def)

lemma get_at_index_ok:
  "tree_ok k b \<Longrightarrow> i < 2 * 2 ^ k \<Longrightarrow> get_at_index b i = Some (bits b i)"
  by (simp add: get_at_index_bits tree_ok_bound)

lemma find_high_rec:
  assumes "tree_ok k b" and "node_at (2 ^ k) h i" and "\<not> bits b i"
  shows "\<exists>l. find_empty_frame_recursively_high b i = Some l \<and> l \<in> leaves h i \<and> \<not> bits b l \<and>
    (\<forall>m\<in>leaves h i. l < m \<longrightarrow> bits b m)"
  using assms(2,3)
proof (induction h arbitrary: i)
  case 0
  then show ?case
    using assms(1) by (subst find_empty_frame_recursively_high.simps) (simp add: node_at_0 tree_ok_def)
next
  case (Suc h)
  have N: "0 < (2::nat) ^ k" by simp
  note n = node_at_Suc [OF Suc.prems(1) N]
  have size: "binary_tree_size b div 2 = 2 ^ k" using assms(1) by (simp add: tree_ok_def)
  show ?case
  proof (cases "bits b (2 * i + 1)")
    case True
    have "\<not> bits b (2 * i)"
      using Suc.prems(2) True n(3) assms(1) by (auto simp: tree_ok_def tree_inv_def node_ok_def)
    from Suc.IH [OF n(1) this] obtain l where l:
      "find_empty_frame_recursively_high b (2 * i) = Some l" "l \<in> leaves h (2 * i)" "\<not> bits b l"
      "\<forall>m\<in>leaves h (2 * i). l < m \<longrightarrow> bits b m" by blast
    have "\<forall>m\<in>leaves h (2 * i + 1). bits b m"
      using tree_ok_full_iff [OF assms(1) n(2)] True by simp
    with l show ?thesis
      using Suc.prems(2) True n(3,4) size get_at_index_ok [OF assms(1)]
      by (subst find_empty_frame_recursively_high.simps) (auto simp: leaves_Suc mult.commute)
  next
    case False
    from Suc.IH [OF n(2) this] obtain l where l:
      "find_empty_frame_recursively_high b (2 * i + 1) = Some l" "l \<in> leaves h (2 * i + 1)"
      "\<not> bits b l" "\<forall>m\<in>leaves h (2 * i + 1). l < m \<longrightarrow> bits b m" by blast
    moreover have "\<forall>m\<in>leaves h (2 * i). \<not> l < m"
      using leaves_left_right l(2) by (meson order.asym)
    ultimately show ?thesis
      using Suc.prems(2) False n(3,4) size get_at_index_ok [OF assms(1)]
      by (subst find_empty_frame_recursively_high.simps) (auto simp: leaves_Suc mult.commute)
  qed
qed

lemma find_low_rec:
  assumes "tree_ok k b" and "node_at (2 ^ k) h i" and "\<not> bits b i"
  shows "\<exists>l. find_empty_frame_recursively_low b i = Some l \<and> l \<in> leaves h i \<and> \<not> bits b l \<and>
    (\<forall>m\<in>leaves h i. m < l \<longrightarrow> bits b m)"
  using assms(2,3)
proof (induction h arbitrary: i)
  case 0
  then show ?case
    using assms(1) by (subst find_empty_frame_recursively_low.simps) (simp add: node_at_0 tree_ok_def)
next
  case (Suc h)
  have N: "0 < (2::nat) ^ k" by simp
  note n = node_at_Suc [OF Suc.prems(1) N]
  have size: "binary_tree_size b div 2 = 2 ^ k" using assms(1) by (simp add: tree_ok_def)
  show ?case
  proof (cases "bits b (2 * i)")
    case True
    have "\<not> bits b (2 * i + 1)"
      using Suc.prems(2) True n(3) assms(1) by (auto simp: tree_ok_def tree_inv_def node_ok_def)
    from Suc.IH [OF n(2) this] obtain l where l:
      "find_empty_frame_recursively_low b (2 * i + 1) = Some l" "l \<in> leaves h (2 * i + 1)"
      "\<not> bits b l" "\<forall>m\<in>leaves h (2 * i + 1). m < l \<longrightarrow> bits b m" by blast
    have "\<forall>m\<in>leaves h (2 * i). bits b m"
      using tree_ok_full_iff [OF assms(1) n(1)] True by simp
    with l show ?thesis
      using Suc.prems(2) True n(3,4) size get_at_index_ok [OF assms(1)]
      by (subst find_empty_frame_recursively_low.simps) (auto simp: leaves_Suc mult.commute)
  next
    case False
    from Suc.IH [OF n(1) this] obtain l where l:
      "find_empty_frame_recursively_low b (2 * i) = Some l" "l \<in> leaves h (2 * i)"
      "\<not> bits b l" "\<forall>m\<in>leaves h (2 * i). m < l \<longrightarrow> bits b m" by blast
    moreover have "\<forall>m\<in>leaves h (2 * i + 1). \<not> m < l"
      using leaves_left_right l(2) by (meson order.asym)
    ultimately show ?thesis
      using Suc.prems(2) False n(3,4) size get_at_index_ok [OF assms(1)]
      by (subst find_empty_frame_recursively_low.simps) (auto simp: leaves_Suc mult.commute)
  qed
qed

lemma check_all_empty_iff:
  assumes "tree_ok k b" and "node_at (2 ^ k) h i"
  shows "check_all_empty b i = Some (\<forall>l\<in>leaves h i. \<not> bits b l)"
  using assms(2)
proof (induction h arbitrary: i)
  case 0
  then show ?case
    using assms(1) get_at_index_ok [OF assms(1), of i]
    by (subst check_all_empty.simps) (simp add: node_at_0 tree_ok_def)
next
  case (Suc h)
  have N: "0 < (2::nat) ^ k" by simp
  note n = node_at_Suc [OF Suc.prems N]
  have "\<exists>l\<in>leaves (Suc h) i. bits b l" if "bits b i"
  proof -
    have "i * 2 ^ Suc h \<in> leaves (Suc h) i" by (simp add: leaves_def)
    then show ?thesis using tree_ok_full_iff [OF assms(1) Suc.prems] that by blast
  qed
  then show ?case
    using assms(1) n(3,4) get_at_index_ok [OF assms(1), of i] Suc.IH [OF n(1)] Suc.IH [OF n(2)]
    by (subst check_all_empty.simps) (auto simp: leaves_Suc mult.commute tree_ok_def)
qed

lemma get_last_level_index_ok:
  assumes "binary_tree_size b = 2 * N" and "node_at N h i" and "0 < N"
  shows "get_last_level_index b i = Some (i * 2 ^ h)"
  using assms(2)
proof (induction h arbitrary: i)
  case 0
  then show ?case using assms(1) by (subst get_last_level_index.simps) (simp add: node_at_0)
next
  case (Suc h)
  note n = node_at_Suc [OF Suc.prems assms(3)]
  show ?case
    using assms(1) n(3) Suc.IH [OF n(1)]
    by (subst get_last_level_index.simps) (simp add: ac_simps)
qed

definition block_free :: "BuddyAllocator \<Rightarrow> nat \<Rightarrow> nat \<Rightarrow> bool" where
  "block_free b ord j \<longleftrightarrow> (\<forall>l\<in>leaves ord j. \<not> bits b l)"

lemma leaves_nested: "j \<in> leaves d i \<Longrightarrow> leaves ord j \<subseteq> leaves (ord + d) i"
proof
  fix l assume j: "j \<in> leaves d i" and l: "l \<in> leaves ord j"
  from j have "i * 2 ^ d \<le> j" "j + 1 \<le> (i + 1) * 2 ^ d" by (auto simp: leaves_def)
  then have "i * 2 ^ d * 2 ^ ord \<le> j * 2 ^ ord" "(j + 1) * 2 ^ ord \<le> (i + 1) * 2 ^ d * 2 ^ ord"
    by (simp_all only: mult_le_mono1)
  then have "i * 2 ^ (ord + d) \<le> j * 2 ^ ord" "(j + 1) * 2 ^ ord \<le> (i + 1) * 2 ^ (ord + d)"
    by (simp_all only: power_add ac_simps)
  with l show "l \<in> leaves (ord + d) i" unfolding leaves_def by auto
qed

lemma full_no_free_block:
  assumes "tree_ok k b" and "node_at (2 ^ k) (ord + d) i" and "bits b i" and "j \<in> leaves d i"
  shows "\<not> block_free b ord j"
proof -
  have "j * 2 ^ ord \<in> leaves ord j" by (simp add: leaves_def)
  moreover have "\<forall>l\<in>leaves ord j. bits b l"
    using leaves_nested [OF assms(4), of ord] tree_ok_full_iff [OF assms(1,2)] assms(3) by auto
  ultimately show ?thesis by (auto simp: block_free_def)
qed

definition best_block :: "BuddyAllocator \<Rightarrow> nat \<Rightarrow> nat set \<Rightarrow> nat option \<Rightarrow> bool" where
  "best_block b ord J r \<longleftrightarrow>
     (case r of
        None \<Rightarrow> \<forall>j\<in>J. \<not> block_free b ord j
      | Some p \<Rightarrow> \<exists>j\<in>J. p = j * 2 ^ ord \<and> block_free b ord j \<and>
                  (\<forall>j'\<in>J. j < j' \<longrightarrow> \<not> block_free b ord j'))"

lemma find_contig_rec:
  assumes ok: "tree_ok k b" and "node_at (2 ^ k) (ord + d) i"
  shows "\<exists>r. find_contigious_empty_recursively_high b i ord = Some r \<and>
    best_block b ord (leaves d i) r"
  using assms(2)
proof (induction d arbitrary: i)
  case 0
  have "2 * 2 ^ k \<le> i * 2 ^ (ord + 1)" using 0 by (simp add: node_at_def)
  then have "2 * 2 ^ k div 2 ^ (ord + 1) \<le> i"
    using div_le_mono [of "2 * 2 ^ k" "i * 2 ^ (ord + 1)" "2 ^ (ord + 1)"] by simp
  then have t: "binary_tree_size b div 2 ^ (ord + 1) \<le> i" using ok by (simp add: tree_ok_def)
  have "check_all_empty b i = Some (block_free b ord i)"
    using check_all_empty_iff [OF ok, of ord i] 0 by (simp add: block_free_def)
  moreover have "get_last_level_index b i = Some (i * 2 ^ ord)"
    using get_last_level_index_ok [of b "2 ^ k" ord i] ok 0 by (simp add: tree_ok_def)
  ultimately show ?case
    using t by (subst find_contigious_empty_recursively_high.simps) (auto simp: best_block_def)
next
  case (Suc d)
  have N: "0 < (2::nat) ^ k" by simp
  have at: "node_at (2 ^ k) (Suc (ord + d)) i" using Suc.prems by simp
  note n = node_at_Suc [OF at N]
  have "(i + 1) * 2 ^ (ord + 1) \<le> (i + 1) * 2 ^ Suc (ord + d)"
    by (intro mult_le_mono2 power_increasing) auto
  also have "\<dots> \<le> 2 * 2 ^ k" using at by (simp only: node_at_def)
  finally have "i + 1 \<le> 2 * 2 ^ k div 2 ^ (ord + 1)" by (simp add: less_eq_div_iff_mult_less_eq)
  then have t: "\<not> binary_tree_size b div 2 ^ (ord + 1) \<le> i" using ok by (simp add: tree_ok_def)
  have g: "get_at_index b (i * 2 + 1) = Some (bits b (2 * i + 1))"
    using get_at_index_ok [OF ok n(4)] by (simp add: mult.commute)
  from Suc.IH [OF n(1)] obtain rl where
    rl: "find_contigious_empty_recursively_high b (i * 2) ord = Some rl"
    and bl: "best_block b ord (leaves d (2 * i)) rl" by (auto simp: mult.commute)
  from Suc.IH [OF n(2)] obtain rr where
    rr: "find_contigious_empty_recursively_high b (i * 2 + 1) ord = Some rr"
    and br: "best_block b ord (leaves d (2 * i + 1)) rr" by (auto simp: mult.commute)
  have full: "rr = None" if "bits b (2 * i + 1)"
    using br full_no_free_block [OF ok n(2) that] by (cases rr) (auto simp: best_block_def)
  have "find_contigious_empty_recursively_high b i ord = Some (if rr \<noteq> None then rr else rl)"
    using t g rl rr full by (subst find_contigious_empty_recursively_high.simps) auto
  moreover have "best_block b ord (leaves (Suc d) i) (if rr \<noteq> None then rr else rl)"
  proof (cases rr)
    case None
    with br bl show ?thesis by (cases rl) (auto simp: best_block_def leaves_Suc)
  next
    case (Some p)
    with br show ?thesis
      using leaves_left_right [of _ d i] by (fastforce simp: best_block_def leaves_Suc)
  qed
  ultimately show ?case by blast
qed

section \<open>The allocator's invariant\<close>

text \<open>Page \<open>p\<close> is in use; the frames that are free.\<close>

definition used :: "nat \<Rightarrow> BuddyAllocator \<Rightarrow> nat \<Rightarrow> bool" where
  "used k b p \<longleftrightarrow> bits b (2 ^ k + p)"

definition free_frames :: "nat \<Rightarrow> BuddyAllocator \<Rightarrow> nat set" where
  "free_frames k b = {p. p < 2 ^ k \<and> \<not> used k b p}"

definition buddy_wf :: "nat \<Rightarrow> BuddyAllocator \<Rightarrow> bool" where
  "buddy_wf k b \<longleftrightarrow> tree_ok k b \<and> k \<le> 51 \<and> allocated_pages b + card (free_frames k b) = buddy_n_pages b"

lemma finite_free_frames [simp]: "finite (free_frames k b)"
  by (simp add: free_frames_def)

lemma root_full_iff: "tree_ok k b \<Longrightarrow> bits b 1 \<longleftrightarrow> free_frames k b = {}"
proof -
  assume ok: "tree_ok k b"
  have "bits b 1 \<longleftrightarrow> (\<forall>l\<in>{2 ^ k..<2 * 2 ^ k}. bits b l)"
    using tree_ok_full_iff [OF ok node_at_root] by (simp only: leaves_root)
  also have "\<dots> \<longleftrightarrow> (\<forall>p<2 ^ k. used k b p)"
  proof (intro iffI ballI allI impI)
    fix l :: nat assume a: "\<forall>p<2 ^ k. used k b p" and l: "l \<in> {2 ^ k..<2 * 2 ^ k}"
    then have "used k b (l - 2 ^ k)" by auto
    with l show "bits b l" by (simp add: used_def)
  qed (auto simp: used_def)
  finally show ?thesis by (auto simp: free_frames_def)
qed

lemma page_in_range:
  assumes "k \<le> 51" and "(p::nat) < 2 ^ k"
  shows "p * 4096 < 2 ^ 64"
proof -
  from assms have "(2::nat) ^ k \<le> 2 ^ 51" by (intro power_increasing) auto
  with assms(2) show ?thesis by simp
qed

lemma mark_index_used:
  assumes "tree_ok k b" and "p < 2 ^ k"
  shows "\<exists>b'. mark_index b (2 ^ k + p) a = Some b' \<and> tree_ok k b' \<and> used k b' = (used k b)(p := a) \<and>
    buddy_n_pages b' = buddy_n_pages b \<and> allocated_pages b' = allocated_pages b"
  using mark_index_leaf [OF assms(1), of "2 ^ k + p" a] assms(2)
  by (auto simp: used_def fun_eq_iff)

lemma free_frames_upd:
  assumes "used k b' = (used k b)(p := a)" and "p < 2 ^ k" and "used k b p \<noteq> a"
  shows "card (free_frames k b') = (if a then card (free_frames k b) - 1 else card (free_frames k b) + 1)"
proof -
  have "free_frames k b' = (if a then free_frames k b - {p} else insert p (free_frames k b))"
    using assms by (auto simp: free_frames_def)
  then show ?thesis using assms by (auto simp: free_frames_def)
qed

end
