(* ===== verification/BuddyOps.thy ===== *)
theory BuddyOps
  imports BuddyCorrect
begin

text \<open>
  The operations of the buddy allocator on states that satisfy \<open>buddy_wf\<close>, a contract for frame
  allocators (\<open>frame_allocator\<close>), and runs of requests in which every released frame is one that
  was handed out before.
\<close>

section \<open>Single frames\<close>

lemma get_root: "tree_ok k b \<Longrightarrow> get_at_index b (Suc 0) = Some (bits b (Suc 0))"
proof -
  assume ok: "tree_ok k b"
  have "1 < 2 * (2::nat) ^ k" using one_le_power [of "2::nat" k] by linarith
  from get_at_index_ok [OF ok this] show ?thesis by simp
qed

lemma find_high_used:
  assumes ok: "tree_ok k b"
  shows "find_empty_frame_high b = (if free_frames k b = {} then None else Some (2 ^ k + Max (free_frames k b)))"
proof (cases "free_frames k b = {}")
  case True
  then show ?thesis
    using root_full_iff [OF ok] get_root [OF ok] by (simp add: find_empty_frame_high_def)
next
  case False
  then have nb: "\<not> bits b 1" using root_full_iff [OF ok] by simp
  from find_high_rec [OF ok node_at_root this] obtain l where
    l: "find_empty_frame_recursively_high b 1 = Some l" and r: "l \<in> {2 ^ k..<2 * 2 ^ k}"
    and f: "\<not> bits b l" and m: "\<forall>m\<in>{2 ^ k..<2 * 2 ^ k}. l < m \<longrightarrow> bits b m"
    unfolding leaves_root by blast
  have "Max (free_frames k b) = l - 2 ^ k"
  proof (rule Max_eqI)
    show "l - 2 ^ k \<in> free_frames k b" using r f by (auto simp: free_frames_def used_def)
    fix p assume "p \<in> free_frames k b"
    then have "\<not> l < 2 ^ k + p" using m by (auto simp: free_frames_def used_def)
    then show "p \<le> l - 2 ^ k" by linarith
  qed simp
  with l r nb False get_root [OF ok] show ?thesis
    by (simp add: find_empty_frame_high_def)
qed

lemma find_low_used:
  assumes ok: "tree_ok k b"
  shows "find_empty_frame_low b = (if free_frames k b = {} then None else Some (2 ^ k + Min (free_frames k b)))"
proof (cases "free_frames k b = {}")
  case True
  then show ?thesis
    using root_full_iff [OF ok] get_root [OF ok] by (simp add: find_empty_frame_low_def)
next
  case False
  then have nb: "\<not> bits b 1" using root_full_iff [OF ok] by simp
  from find_low_rec [OF ok node_at_root this] obtain l where
    l: "find_empty_frame_recursively_low b 1 = Some l" and r: "l \<in> {2 ^ k..<2 * 2 ^ k}"
    and f: "\<not> bits b l" and m: "\<forall>m\<in>{2 ^ k..<2 * 2 ^ k}. m < l \<longrightarrow> bits b m"
    unfolding leaves_root by blast
  have "Min (free_frames k b) = l - 2 ^ k"
  proof (rule Min_eqI)
    show "l - 2 ^ k \<in> free_frames k b" using r f by (auto simp: free_frames_def used_def)
    fix p assume "p \<in> free_frames k b"
    then have "\<not> 2 ^ k + p < l" using m by (auto simp: free_frames_def used_def)
    then show "l - 2 ^ k \<le> p" by linarith
  qed simp
  with l r nb False get_root [OF ok] show ?thesis
    by (simp add: find_empty_frame_low_def)
qed

lemma mark_page:
  assumes wf: "buddy_wf k b" and p: "p < 2 ^ k" "used k b p \<noteq> a"
    and n: "n + (if a then 0 else 1) = allocated_pages b + (if a then 1 else 0)"
  shows "\<exists>b'. mark_index (b\<lparr>allocated_pages := m\<rparr>) (2 ^ k + p) a = Some b' \<and>
    buddy_wf k (b'\<lparr>allocated_pages := n\<rparr>) \<and> used k b' = (used k b)(p := a) \<and>
    binary_tree_size b' = binary_tree_size b \<and> allocated_pages b' = m"
proof -
  have ok: "tree_ok k (b\<lparr>allocated_pages := m\<rparr>)" using wf by (simp add: buddy_wf_def tree_ok_def)
  have u: "used k (b\<lparr>allocated_pages := m\<rparr>) = used k b" by (auto simp: used_def fun_eq_iff)
  from mark_index_used [OF ok p(1), of a] obtain b' where b':
    "mark_index (b\<lparr>allocated_pages := m\<rparr>) (2 ^ k + p) a = Some b'" "tree_ok k b'"
    "used k b' = (used k b)(p := a)" "buddy_n_pages b' = buddy_n_pages b" "allocated_pages b' = m"
    unfolding u by auto
  have c: "card (free_frames k b') =
      (if a then card (free_frames k b) - 1 else card (free_frames k b) + 1)"
    by (rule free_frames_upd [OF b'(3) p])
  have "0 < card (free_frames k b)" if a
  proof -
    have "p \<in> free_frames k b" using p that by (simp add: free_frames_def)
    then show ?thesis by (auto simp: card_gt_0_iff)
  qed
  moreover have "free_frames k (b'\<lparr>allocated_pages := n\<rparr>) = free_frames k b'"
    by (simp add: free_frames_def used_def)
  ultimately have "buddy_wf k (b'\<lparr>allocated_pages := n\<rparr>)"
    using wf b'(2,4) c n by (auto simp: buddy_wf_def tree_ok_def split: if_splits)
  with b' wf show ?thesis by (auto simp: buddy_wf_def tree_ok_def)
qed

lemma mark_new_page:
  assumes wf: "buddy_wf k b" and p: "p \<in> free_frames k b"
  shows "\<exists>b'. mark_index (b\<lparr>allocated_pages := allocated_pages b + 1\<rparr>) (2 ^ k + p) True = Some b' \<and>
    buddy_wf k b' \<and> used k b' = (used k b)(p := True) \<and>
    binary_tree_size b' = binary_tree_size b \<and> allocated_pages b' = allocated_pages b + 1"
proof -
  from p have "p < 2 ^ k" "used k b p \<noteq> True" by (auto simp: free_frames_def)
  from mark_page [OF wf this, of "allocated_pages b + 1" "allocated_pages b + 1"] obtain b' where
    b': "mark_index (b\<lparr>allocated_pages := allocated_pages b + 1\<rparr>) (2 ^ k + p) True = Some b'"
    "buddy_wf k (b'\<lparr>allocated_pages := allocated_pages b + 1\<rparr>)" "used k b' = (used k b)(p := True)"
    "binary_tree_size b' = binary_tree_size b" "allocated_pages b' = allocated_pages b + 1"
    by auto
  have e: "b'\<lparr>allocated_pages := allocated_pages b + 1\<rparr> = b'" using b'(5) by (cases b') simp
  have "buddy_wf k b'" using b'(2) unfolding e .
  with b' show ?thesis by blast
qed

lemma allocate_frame_wf:
  assumes wf: "buddy_wf k b"
  shows "if free_frames k b = {} then allocate_frame b = None
    else \<exists>b'. allocate_frame b = Some (Max (free_frames k b) * 4096, b') \<and> buddy_wf k b' \<and>
           used k b' = (used k b)(Max (free_frames k b) := True) \<and>
           allocated_pages b' = allocated_pages b + 1"
proof (cases "free_frames k b = {}")
  case True
  have ok: "tree_ok k (b\<lparr>allocated_pages := m\<rparr>)" for m using wf by (simp add: buddy_wf_def tree_ok_def)
  have "free_frames k (b\<lparr>allocated_pages := m\<rparr>) = {}" for m
    using True by (simp add: free_frames_def used_def)
  then show ?thesis using True find_high_used [OF ok] by (simp add: allocate_frame_def Let_def)
next
  case False
  let ?p = "Max (free_frames k b)" and ?b1 = "b\<lparr>allocated_pages := allocated_pages b + 1\<rparr>"
  have ok: "tree_ok k ?b1" and size: "binary_tree_size b = 2 * 2 ^ k"
    using wf by (simp_all add: buddy_wf_def tree_ok_def)
  have in_free: "?p \<in> free_frames k b" using False by simp
  then have p: "?p < 2 ^ k" by (simp add: free_frames_def)
  have "0 < card (free_frames k b)" using False by (simp add: card_gt_0_iff)
  then have "allocated_pages b \<noteq> 2 ^ k" using wf by (auto simp: buddy_wf_def tree_ok_def)
  moreover have "free_frames k ?b1 = free_frames k b" by (simp add: free_frames_def used_def)
  then have "find_empty_frame_high ?b1 = Some (2 ^ k + ?p)" using find_high_used [OF ok] False by simp
  moreover from mark_new_page [OF wf in_free] obtain b' where "mark_index ?b1 (2 ^ k + ?p) True = Some b'" "buddy_wf k b'"
    "used k b' = (used k b)(?p := True)" "binary_tree_size b' = binary_tree_size b"
    "allocated_pages b' = allocated_pages b + 1" by auto
  ultimately show ?thesis
    using False size page_in_range [of k ?p] p wf
    by (simp add: allocate_frame_def Let_def checked_simps buddy_wf_def)
qed

lemma allocate_frame_low_wf:
  assumes wf: "buddy_wf k b"
  shows "if free_frames k b = {} then allocate_frame_low b = None
    else \<exists>b'. allocate_frame_low b = Some (Min (free_frames k b) * 4096, b') \<and> buddy_wf k b' \<and>
           used k b' = (used k b)(Min (free_frames k b) := True) \<and>
           allocated_pages b' = allocated_pages b + 1"
proof (cases "free_frames k b = {}")
  case True
  have ok: "tree_ok k (b\<lparr>allocated_pages := m\<rparr>)" for m using wf by (simp add: buddy_wf_def tree_ok_def)
  have "free_frames k (b\<lparr>allocated_pages := m\<rparr>) = {}" for m
    using True by (simp add: free_frames_def used_def)
  then show ?thesis using True find_low_used [OF ok] by (simp add: allocate_frame_low_def Let_def)
next
  case False
  let ?p = "Min (free_frames k b)" and ?b1 = "b\<lparr>allocated_pages := allocated_pages b + 1\<rparr>"
  have ok: "tree_ok k ?b1" and size: "binary_tree_size b = 2 * 2 ^ k"
    using wf by (simp_all add: buddy_wf_def tree_ok_def)
  have in_free: "?p \<in> free_frames k b" using False by simp
  then have p: "?p < 2 ^ k" by (simp add: free_frames_def)
  have "0 < card (free_frames k b)" using False by (simp add: card_gt_0_iff)
  then have "allocated_pages b \<noteq> 2 ^ k" using wf by (auto simp: buddy_wf_def tree_ok_def)
  moreover have "free_frames k ?b1 = free_frames k b" by (simp add: free_frames_def used_def)
  then have "find_empty_frame_low ?b1 = Some (2 ^ k + ?p)" using find_low_used [OF ok] False by simp
  moreover from mark_new_page [OF wf in_free] obtain b' where "mark_index ?b1 (2 ^ k + ?p) True = Some b'" "buddy_wf k b'"
    "used k b' = (used k b)(?p := True)" "binary_tree_size b' = binary_tree_size b"
    "allocated_pages b' = allocated_pages b + 1" by auto
  ultimately show ?thesis
    using False size page_in_range [of k ?p] p wf
    by (simp add: allocate_frame_low_def Let_def checked_simps buddy_wf_def)
qed

lemma deallocate_frame_wf:
  assumes wf: "buddy_wf k b" and p: "p < 2 ^ k" "used k b p" and n: "0 < allocated_pages b"
  shows "\<exists>b'. deallocate_frame b (p * 4096) = Some b' \<and> buddy_wf k b' \<and>
    used k b' = (used k b)(p := False) \<and> allocated_pages b' = allocated_pages b - 1"
proof -
  have size: "binary_tree_size b = 2 * 2 ^ k" using wf by (simp add: buddy_wf_def tree_ok_def)
  have p': "used k b p \<noteq> False" using p(2) by simp
  have b: "b\<lparr>allocated_pages := allocated_pages b\<rparr> = b" by simp
  from mark_page [OF wf p(1) p', of "allocated_pages b - 1" "allocated_pages b"] n
  obtain b' where b': "mark_index b (2 ^ k + p) False = Some b'"
    "buddy_wf k (b'\<lparr>allocated_pages := allocated_pages b - 1\<rparr>)"
    "used k b' = (used k b)(p := False)" "allocated_pages b' = allocated_pages b"
    unfolding b by auto
  have "deallocate_frame b (p * 4096) = Some (b'\<lparr>allocated_pages := allocated_pages b - 1\<rparr>)"
    using b' n size by (simp add: deallocate_frame_def mark_addr_def checked_simps add.commute)
  moreover have "used k (b'\<lparr>allocated_pages := allocated_pages b - 1\<rparr>) = (used k b)(p := False)"
    using b'(3) by (simp add: used_def fun_eq_iff)
  ultimately show ?thesis using b'(2) by auto
qed

section \<open>Blocks of frames\<close>

lemma mark_each_used:
  assumes "tree_ok k b" and "\<forall>p\<in>set ps. p < 2 ^ k"
  shows "\<exists>b'. mark_each (map (\<lambda>p. 2 ^ k + p) ps) a b = Some b' \<and> tree_ok k b' \<and>
    used k b' = (\<lambda>p. if p \<in> set ps then a else used k b p) \<and>
    buddy_n_pages b' = buddy_n_pages b \<and> allocated_pages b' = allocated_pages b"
  using assms
proof (induction ps arbitrary: b)
  case (Cons p ps)
  from mark_index_used [OF Cons.prems(1), of p a] Cons.prems(2) obtain b1 where b1:
    "mark_index b (2 ^ k + p) a = Some b1" "tree_ok k b1" "used k b1 = (used k b)(p := a)"
    "buddy_n_pages b1 = buddy_n_pages b" "allocated_pages b1 = allocated_pages b" by auto
  from Cons.IH [OF b1(2)] Cons.prems(2) obtain b' where b':
    "mark_each (map (\<lambda>p. 2 ^ k + p) ps) a b1 = Some b'" "tree_ok k b'"
    "used k b' = (\<lambda>p. if p \<in> set ps then a else used k b1 p)"
    "buddy_n_pages b' = buddy_n_pages b1" "allocated_pages b' = allocated_pages b1" by auto
  have "used k b' = (\<lambda>q. if q \<in> set (p # ps) then a else used k b q)"
    unfolding b'(3) b1(3) by auto
  with b1 b' show ?case by auto
qed auto

text \<open>Pages \<open>[p, p + n)\<close> are free.\<close>

definition run_free :: "nat \<Rightarrow> BuddyAllocator \<Rightarrow> nat \<Rightarrow> nat \<Rightarrow> bool" where
  "run_free k b p n \<longleftrightarrow> p + n \<le> 2 ^ k \<and> (\<forall>q. p \<le> q \<and> q < p + n \<longrightarrow> \<not> used k b q)"

lemma block_free_run:
  assumes "ord \<le> k"
  shows "block_free b ord (2 ^ (k - ord) + j) \<longleftrightarrow> (\<forall>q. j * 2 ^ ord \<le> q \<and> q < (j + 1) * 2 ^ ord \<longrightarrow> \<not> used k b q)"
    (is "_ \<longleftrightarrow> ?r")
proof -
  have k: "2 ^ (k - ord) * 2 ^ ord = (2::nat) ^ k" using assms by (simp flip: power_add)
  have l: "leaves ord (2 ^ (k - ord) + j) = {2 ^ k + j * 2 ^ ord..<2 ^ k + (j + 1) * 2 ^ ord}"
    unfolding leaves_def using k by (simp add: algebra_simps)
  show ?thesis
  proof
    assume "block_free b ord (2 ^ (k - ord) + j)"
    then show ?r unfolding block_free_def l used_def by auto
  next
    assume r: ?r
    have "\<not> bits b m" if "m \<in> {2 ^ k + j * 2 ^ ord..<2 ^ k + (j + 1) * 2 ^ ord}" for m
    proof -
      from that have "2 ^ k \<le> m" by simp
      then obtain q where "m = 2 ^ k + q" by (metis le_Suc_ex)
      with that r show ?thesis by (auto simp: used_def)
    qed
    then show "block_free b ord (2 ^ (k - ord) + j)" unfolding block_free_def l by blast
  qed
qed

text \<open>The search for \<open>2 ^ ord\<close> frames finds the highest aligned free run of that length.\<close>

lemma find_contig_run:
  assumes ok: "tree_ok k b" and ord: "ord \<le> k"
  shows "\<exists>r. find_contigious_empty_recursively_high b 1 ord = Some r \<and>
    (case r of
       None \<Rightarrow> \<forall>j. \<not> run_free k b (j * 2 ^ ord) (2 ^ ord)
     | Some i \<Rightarrow> \<exists>j. i = 2 ^ k + j * 2 ^ ord \<and> run_free k b (j * 2 ^ ord) (2 ^ ord) \<and>
                 (\<forall>j'>j. \<not> run_free k b (j' * 2 ^ ord) (2 ^ ord)))"
proof -
  let ?B = "2 ^ (k - ord) :: nat"
  have k: "?B * 2 ^ ord = 2 ^ k" using ord by (simp flip: power_add)
  have lv: "leaves (k - ord) 1 = {?B..<2 * ?B}" by (auto simp: leaves_def)
  have run: "run_free k b (j * 2 ^ ord) (2 ^ ord) \<longleftrightarrow> j < ?B \<and> block_free b ord (?B + j)" for j
  proof -
    have "j * 2 ^ ord + 2 ^ ord \<le> 2 ^ k \<longleftrightarrow> (j + 1) * 2 ^ ord \<le> ?B * 2 ^ ord"
      unfolding k by (simp add: algebra_simps)
    also have "\<dots> \<longleftrightarrow> j < ?B" by (subst mult_le_cancel2) auto
    finally show ?thesis
      unfolding run_free_def block_free_run [OF ord] by (auto simp: algebra_simps)
  qed
  have at: "node_at (2 ^ k) (ord + (k - ord)) 1" using node_at_root [of k] ord by simp
  from find_contig_rec [OF ok at] obtain r where
    r: "find_contigious_empty_recursively_high b 1 ord = Some r"
    and bb: "best_block b ord {?B..<2 * ?B} r" unfolding lv by blast
  have "case r of
       None \<Rightarrow> \<forall>j. \<not> run_free k b (j * 2 ^ ord) (2 ^ ord)
     | Some i \<Rightarrow> \<exists>j. i = 2 ^ k + j * 2 ^ ord \<and> run_free k b (j * 2 ^ ord) (2 ^ ord) \<and>
                 (\<forall>j'>j. \<not> run_free k b (j' * 2 ^ ord) (2 ^ ord))"
  proof (cases r)
    case None
    with bb show ?thesis by (auto simp: best_block_def run)
  next
    case (Some i)
    with bb obtain m where m: "m \<in> {?B..<2 * ?B}" "i = m * 2 ^ ord" "block_free b ord m"
      "\<forall>m'\<in>{?B..<2 * ?B}. m < m' \<longrightarrow> \<not> block_free b ord m'" by (auto simp: best_block_def)
    then obtain j where j: "m = ?B + j" "j < ?B" by (metis add_less_imp_less_left atLeastLessThan_iff
          le_Suc_ex mult_2)
    have "\<not> run_free k b (j' * 2 ^ ord) (2 ^ ord)" if "j < j'" for j'
      using m(4) [rule_format, of "?B + j'"] that j by (auto simp: run)
    moreover have "i = 2 ^ k + j * 2 ^ ord" unfolding m(2) j(1) using k by (simp add: algebra_simps)
    moreover have "run_free k b (j * 2 ^ ord) (2 ^ ord)" using j m(3) by (simp add: run)
    ultimately show ?thesis using Some by auto
  qed
  with r show ?thesis by blast
qed

lemma card_free_run:
  assumes "run_free k b p n" and "used k b' = (\<lambda>q. if q \<in> set [p..<p + n] then True else used k b q)"
  shows "card (free_frames k b') + n = card (free_frames k b)"
proof -
  have "free_frames k b = free_frames k b' \<union> set [p..<p + n]"
    using assms unfolding free_frames_def run_free_def by auto
  moreover have "free_frames k b' \<inter> set [p..<p + n] = {}"
    using assms(2) by (auto simp: free_frames_def)
  ultimately show ?thesis by (simp add: card_Un_disjoint)
qed

lemma allocate_contiguius_wf:
  assumes wf: "buddy_wf k b" and n: "0 < n" "log2_rounded_up n = Some ord" "ord \<le> k" "n \<le> 2 ^ ord"
  shows "if \<forall>j. \<not> run_free k b (j * 2 ^ ord) (2 ^ ord) then allocate_contiguius b n = None
    else \<exists>j b'. run_free k b (j * 2 ^ ord) (2 ^ ord) \<and> (\<forall>j'>j. \<not> run_free k b (j' * 2 ^ ord) (2 ^ ord)) \<and>
      allocate_contiguius b n =
        (if j * 2 ^ ord \<le> buddy_n_pages b then Some (j * 2 ^ ord * 4096, b') else None) \<and>
      buddy_wf k b' \<and> allocated_pages b' = allocated_pages b + n \<and>
      used k b' = (\<lambda>q. if q \<in> set [j * 2 ^ ord..<j * 2 ^ ord + n] then True else used k b q)"
proof -
  have ok: "tree_ok k b" and size: "binary_tree_size b = 2 * 2 ^ k" and k: "k \<le> 51"
    using wf by (simp_all add: buddy_wf_def tree_ok_def)
  from find_contig_run [OF ok n(3)] obtain r where
    r: "find_contigious_empty_recursively_high b 1 ord = Some r" and c: "case r of
       None \<Rightarrow> \<forall>j. \<not> run_free k b (j * 2 ^ ord) (2 ^ ord)
     | Some i \<Rightarrow> \<exists>j. i = 2 ^ k + j * 2 ^ ord \<and> run_free k b (j * 2 ^ ord) (2 ^ ord) \<and>
                 (\<forall>j'>j. \<not> run_free k b (j' * 2 ^ ord) (2 ^ ord))" by blast
  have f: "find_contigious_empty_high b n = r" using n r by (simp add: find_contigious_empty_high_def)
  show ?thesis
  proof (cases r)
    case None
    with c f show ?thesis by (simp add: allocate_contiguius_def)
  next
    case (Some i)
    with c obtain j where j: "i = 2 ^ k + j * 2 ^ ord" "run_free k b (j * 2 ^ ord) (2 ^ ord)"
      "\<forall>j'>j. \<not> run_free k b (j' * 2 ^ ord) (2 ^ ord)" by auto
    let ?p = "j * 2 ^ ord"
    have run: "run_free k b ?p n" using j(2) n(4) by (auto simp: run_free_def)
    have "\<forall>q\<in>set [?p..<?p + n]. q < 2 ^ k" using run by (auto simp: run_free_def)
    from mark_each_used [OF ok this, of True] obtain b1 where b1:
      "mark_each (map ((+) (2 ^ k)) [?p..<?p + n]) True b = Some b1" "tree_ok k b1"
      "used k b1 = (\<lambda>q. if q \<in> set [?p..<?p + n] then True else used k b q)"
      "buddy_n_pages b1 = buddy_n_pages b" "allocated_pages b1 = allocated_pages b" by auto
    have m: "map ((+) (2 ^ k)) [?p..<?p + n] = [i..<i + n]" unfolding j(1)
      by (rule nth_equalityI) simp_all
    let ?b2 = "b1\<lparr>allocated_pages := allocated_pages b1 + n\<rparr>"
    have u: "used k ?b2 = used k b1" "free_frames k ?b2 = free_frames k b1"
      by (auto simp: used_def free_frames_def fun_eq_iff)
    have wf2: "buddy_wf k ?b2"
      using wf b1(2,4,5) card_free_run [OF run b1(3)] u by (simp add: buddy_wf_def tree_ok_def)
    have "?p * 4096 < 2 ^ 64"
      by (rule page_in_range [OF k]) (use run n(1) in \<open>simp add: run_free_def\<close>)
    then have "allocate_contiguius b n =
        (if ?p \<le> buddy_n_pages b then Some (?p * 4096, ?b2) else None)"
      using f Some b1 wf2 j(1) unfolding m
      by (simp add: allocate_contiguius_def Let_def checked_simps buddy_wf_def tree_ok_def)
    moreover have "\<not> (\<forall>j. \<not> run_free k b (j * 2 ^ ord) (2 ^ ord))" using j(2) by blast
    ultimately show ?thesis using j(2,3) wf2 u b1(3,5)
      by (simp only: if_False) (intro exI [of _ j] exI [of _ ?b2], simp)
  qed
qed

section \<open>The contract of a frame allocator\<close>

primrec take_frames :: "('s \<Rightarrow> (nat \<times> 's) option) \<Rightarrow> nat \<Rightarrow> 's \<Rightarrow> (nat list \<times> 's) option" where
  "take_frames alloc 0 s = Some ([], s)"
| "take_frames alloc (Suc n) s =
     alloc s \<bind> (\<lambda>(a, s1). take_frames alloc n s1 \<bind> (\<lambda>(as, s2). Some (a # as, s2)))"

locale frame_allocator =
  fixes inv :: "'s \<Rightarrow> bool"
    and taken :: "'s \<Rightarrow> nat set"
    and alloc :: "'s \<Rightarrow> (nat \<times> 's) option"
  assumes alloc_law: "inv s \<Longrightarrow> alloc s = Some (a, s') \<Longrightarrow>
      inv s' \<and> a mod 4096 = 0 \<and> a div 4096 \<notin> taken s \<and> taken s' = insert (a div 4096) (taken s)"
begin

lemma take_frames_fresh:
  "inv s \<Longrightarrow> take_frames alloc n s = Some (as, s') \<Longrightarrow>
     inv s' \<and> length as = n \<and> distinct as \<and> taken s' = (\<lambda>a. a div 4096) ` set as \<union> taken s \<and>
     (\<forall>a\<in>set as. a mod 4096 = 0 \<and> a div 4096 \<notin> taken s)"
proof (induction n arbitrary: s "as")
  case (Suc n)
  from Suc.prems(2) obtain a s1 as' where a: "alloc s = Some (a, s1)" "as = a # as'"
    and r: "take_frames alloc n s1 = Some (as', s')" by (auto split: Option.bind_splits)
  from alloc_law [OF Suc.prems(1) a(1)] Suc.IH [OF _ r] show ?case by (auto simp: a(2))
qed auto

end

definition taken_frames :: "nat \<Rightarrow> BuddyAllocator \<Rightarrow> nat set" where
  "taken_frames k b = {p. p < 2 ^ k \<and> used k b p}"

lemma taken_insert:
  "used k b' = (used k b)(p := True) \<Longrightarrow> p \<in> free_frames k b \<Longrightarrow>
     p \<notin> taken_frames k b \<and> taken_frames k b' = insert p (taken_frames k b)"
  by (auto simp: taken_frames_def free_frames_def)

interpretation high: frame_allocator "buddy_wf k" "taken_frames k" allocate_frame for k
proof (unfold_locales, goal_cases)
  case (1 s a s')
  then have ne: "free_frames k s \<noteq> {}" using allocate_frame_wf [OF 1(1)] by (auto split: if_splits)
  then have "Max (free_frames k s) \<in> free_frames k s" by simp
  with 1 ne allocate_frame_wf [OF 1(1)] show ?case
    using taken_insert [of k s' s "Max (free_frames k s)"] by auto
qed

interpretation low: frame_allocator "buddy_wf k" "taken_frames k" allocate_frame_low for k
proof (unfold_locales, goal_cases)
  case (1 s a s')
  then have ne: "free_frames k s \<noteq> {}" using allocate_frame_low_wf [OF 1(1)] by (auto split: if_splits)
  then have "Min (free_frames k s) \<in> free_frames k s" by simp
  with 1 ne allocate_frame_low_wf [OF 1(1)] show ?case
    using taken_insert [of k s' s "Min (free_frames k s)"] by auto
qed

section \<open>Runs of requests\<close>

text \<open>The second component of the state is the set of pages the rest of the kernel holds. Only
  held pages are released; a contiguous request is for at least one page and at most the number of
  leaves.\<close>

inductive buddy_step :: "BuddyAllocator \<times> nat set \<Rightarrow> BuddyAllocator \<times> nat set \<Rightarrow> bool" where
  step_frame: "allocate_frame b = Some (a, b') \<Longrightarrow> buddy_step (b, H) (b', insert (a div 4096) H)"
| step_low: "allocate_frame_low b = Some (a, b') \<Longrightarrow> buddy_step (b, H) (b', insert (a div 4096) H)"
| step_contiguous: "0 < n \<Longrightarrow> n \<le> binary_tree_size b div 2 \<Longrightarrow>
    allocate_contiguius b n = Some (a, b') \<Longrightarrow>
    buddy_step (b, H) (b', H \<union> {a div 4096..<a div 4096 + n})"
| step_release: "p \<in> H \<Longrightarrow> deallocate_frame b (p * 4096) = Some b' \<Longrightarrow> buddy_step (b, H) (b', H - {p})"

inductive_cases buddy_stepE: "buddy_step (b, H) s'"

definition held_ok :: "nat \<Rightarrow> BuddyAllocator \<times> nat set \<Rightarrow> bool" where
  "held_ok k s \<longleftrightarrow> buddy_wf k (fst s) \<and> snd s \<subseteq> taken_frames k (fst s) \<and>
     card (snd s) = allocated_pages (fst s)"

lemma held_finite: "held_ok k (b, H) \<Longrightarrow> finite H"
  by (auto simp: held_ok_def taken_frames_def intro: finite_subset)

lemma order_fits:
  assumes "buddy_wf k b" and "0 < n" and "n \<le> binary_tree_size b div 2"
  obtains ord where "log2_rounded_up n = Some ord" "ord \<le> k" "n \<le> 2 ^ ord"
proof -
  have n: "n \<le> 2 ^ k" and k: "k \<le> 51" using assms by (simp_all add: buddy_wf_def tree_ok_def)
  have "(2::nat) ^ k \<le> 2 ^ 51" using k by (intro power_increasing) auto
  with n have "n < 2 ^ 63" by simp
  from log2_rounded_up_bounds [OF assms(2) this] obtain r where r: "log2_rounded_up n = Some r"
    "n \<le> 2 ^ r" "r = 0 \<or> 2 ^ (r - 1) < n" by blast
  from r(3) n have "r = 0 \<or> (2::nat) ^ (r - 1) < 2 ^ k" by linarith
  then have "r \<le> k" using power_less_imp_less_exp [of "2::nat" "r - 1" k] by auto
  with r that show ?thesis by blast
qed

lemma held_contiguous:
  assumes h: "held_ok k (b, H)" and n: "0 < n" "n \<le> binary_tree_size b div 2"
    and a: "allocate_contiguius b n = Some (a, b')"
  shows "held_ok k (b', H \<union> {a div 4096..<a div 4096 + n}) \<and> H \<inter> {a div 4096..<a div 4096 + n} = {}"
proof -
  have wf: "buddy_wf k b" using h by (simp add: held_ok_def)
  obtain ord where ord: "log2_rounded_up n = Some ord" "ord \<le> k" "n \<le> 2 ^ ord"
    using order_fits [OF wf n] .
  from allocate_contiguius_wf [OF wf n(1) ord] a obtain j b2 where
    j: "run_free k b (j * 2 ^ ord) (2 ^ ord)" and b2: "a = j * 2 ^ ord * 4096" "b' = b2" "buddy_wf k b2"
    "allocated_pages b2 = allocated_pages b + n"
    "used k b2 = (\<lambda>q. if q \<in> set [j * 2 ^ ord..<j * 2 ^ ord + n] then True else used k b q)"
    by (auto split: if_splits)
  have p: "a div 4096 = j * 2 ^ ord" using b2(1) by simp
  have d: "H \<inter> {a div 4096..<a div 4096 + n} = {}"
    using h j ord(3) unfolding p held_ok_def taken_frames_def run_free_def by fastforce
  have "H \<union> {a div 4096..<a div 4096 + n} \<subseteq> taken_frames k b'"
    using h j ord(3) b2(2,5) unfolding p held_ok_def taken_frames_def run_free_def by auto
  moreover have "card (H \<union> {a div 4096..<a div 4096 + n}) = allocated_pages b'"
    using card_Un_disjoint [OF held_finite [OF h] _ d] h b2(2,4) by (simp add: held_ok_def)
  ultimately show ?thesis using d b2 by (simp add: held_ok_def)
qed

lemma held_release:
  assumes h: "held_ok k (b, H)" and p: "p \<in> H"
  shows "\<exists>b'. deallocate_frame b (p * 4096) = Some b' \<and> held_ok k (b', H - {p})"
proof -
  have "0 < card H" using held_finite [OF h] p by (auto simp: card_gt_0_iff)
  then have n: "0 < allocated_pages b" using h by (simp add: held_ok_def)
  have u: "p < 2 ^ k" "used k b p" using h p by (auto simp: held_ok_def taken_frames_def)
  have wf: "buddy_wf k b" using h by (simp add: held_ok_def)
  from deallocate_frame_wf [OF wf u n] obtain b' where b': "deallocate_frame b (p * 4096) = Some b'"
    "buddy_wf k b'" "used k b' = (used k b)(p := False)" "allocated_pages b' = allocated_pages b - 1"
    by blast
  have "H - {p} \<subseteq> taken_frames k b'" using h b'(3) by (auto simp: held_ok_def taken_frames_def)
  then show ?thesis using b' h p held_finite [OF h] by (auto simp: held_ok_def)
qed

lemma held_insert:
  assumes "held_ok k (b, H)" and "buddy_wf k b'" and "p \<notin> taken_frames k b"
    and "taken_frames k b' = insert p (taken_frames k b)" and "allocated_pages b' = allocated_pages b + 1"
  shows "held_ok k (b', insert p H) \<and> p \<notin> H"
proof -
  have "p \<notin> H" using assms(1,3) by (auto simp: held_ok_def)
  then show ?thesis using assms held_finite [OF assms(1)] by (auto simp: held_ok_def)
qed

lemma allocate_frame_counts:
  "buddy_wf k b \<Longrightarrow> allocate_frame b = Some (a, b') \<Longrightarrow> allocated_pages b' = allocated_pages b + 1"
  "buddy_wf k b \<Longrightarrow> allocate_frame_low b = Some (a, b') \<Longrightarrow> allocated_pages b' = allocated_pages b + 1"
  using allocate_frame_wf [of k b] allocate_frame_low_wf [of k b] by (auto split: if_splits)

lemma buddy_step_held:
  assumes "buddy_step s s'" and "held_ok k s"
  shows "held_ok k s'"
  using assms
proof (induction rule: buddy_step.induct)
  case (step_frame b a b' H)
  then have wf: "buddy_wf k b" by (simp add: held_ok_def)
  from held_insert [OF step_frame(2)] high.alloc_law [OF wf step_frame(1)]
    allocate_frame_counts(1) [OF wf step_frame(1)] show ?case by blast
next
  case (step_low b a b' H)
  then have wf: "buddy_wf k b" by (simp add: held_ok_def)
  from held_insert [OF step_low(2)] low.alloc_law [OF wf step_low(1)]
    allocate_frame_counts(2) [OF wf step_low(1)] show ?case by blast
next
  case (step_contiguous n b a b' H)
  then show ?case using held_contiguous by blast
next
  case (step_release p H b b')
  then show ?case using held_release by fastforce
qed

section \<open>Properties\<close>

text \<open>C1: whatever sequence of requests the kernel makes from a fresh allocator, the frames
  it holds are marked used and counted by \<open>allocated_pages\<close>; a new frame is page aligned and is
  none of those, so no frame is handed out twice; and giving back a held frame succeeds.\<close>

theorem buddy_no_double_allocation:
  assumes "buddy_wf k b0" and "allocated_pages b0 = 0" and "buddy_step\<^sup>*\<^sup>* (b0, {}) (b, H)"
  shows "H \<subseteq> taken_frames k b \<and> card H = allocated_pages b \<and>
    (\<forall>a b'. allocate_frame b = Some (a, b') \<longrightarrow> a mod 4096 = 0 \<and> a div 4096 \<notin> H) \<and>
    (\<forall>a b'. allocate_frame_low b = Some (a, b') \<longrightarrow> a mod 4096 = 0 \<and> a div 4096 \<notin> H) \<and>
    (\<forall>p\<in>H. \<exists>b'. deallocate_frame b (p * 4096) = Some b')"
proof -
  have h0: "held_ok k (b0, {})" using assms(1,2) by (simp add: held_ok_def)
  have h: "held_ok k (b, H)"
    using assms(3) h0 by (induction rule: rtranclp_induct) (auto intro: buddy_step_held)
  then have wf: "buddy_wf k b" by (simp add: held_ok_def)
  have H: "H \<subseteq> taken_frames k b" "card H = allocated_pages b" using h by (simp_all add: held_ok_def)
  moreover have "\<forall>p\<in>H. \<exists>b'. deallocate_frame b (p * 4096) = Some b'" using held_release [OF h] by blast
  ultimately show ?thesis using high.alloc_law [OF wf] low.alloc_law [OF wf] by blast
qed

text \<open>An allocator with eight frames, all free.\<close>

definition tiny_buddy :: BuddyAllocator where
  "tiny_buddy = \<lparr>buddy_n_pages = 8, binary_tree_size = 16, allocated_pages = 0, tree_bytes = [0, 0]\<rparr>"

lemma tiny_bits: "i < 16 \<Longrightarrow> \<not> bits tiny_buddy i"
proof -
  assume "i < 16"
  then have "i div 8 = 0 \<or> i div 8 = 1" by linarith
  then show ?thesis by (auto simp: tiny_buddy_def byte_view_def)
qed

lemma tiny_free: "free_frames 3 tiny_buddy = {..<8}"
  using tiny_bits by (auto simp: free_frames_def used_def)

lemma tiny_free_ne: "free_frames 3 tiny_buddy \<noteq> {}"
  unfolding tiny_free lessThan_empty_iff by simp

lemma tiny_wf: "buddy_wf 3 tiny_buddy"
  using tiny_bits tiny_free
  by (auto simp: buddy_wf_def tree_ok_def tree_inv_def node_ok_def tiny_buddy_def)

lemma Max_lessThan_8: "Max {..<8::nat} = 7"
  by (rule Max_eqI) auto

lemma buddy_no_double_allocation_witness:
  "\<exists>b1. allocate_frame tiny_buddy = Some (7 * 4096, b1) \<and> {7} \<subseteq> taken_frames 3 b1 \<and>
     (\<forall>a b'. allocate_frame b1 = Some (a, b') \<longrightarrow> a div 4096 \<noteq> 7)"
proof -
  from allocate_frame_wf [OF tiny_wf] tiny_free_ne obtain b1 where a: "allocate_frame tiny_buddy = Some (7 * 4096, b1)"
    by (auto simp: tiny_free Max_lessThan_8)
  have "buddy_step\<^sup>*\<^sup>* (tiny_buddy, {}) (b1, {7})"
    using step_frame [OF a, of "{}"] by simp
  from buddy_no_double_allocation [OF tiny_wf _ this] a show ?thesis by (auto simp: tiny_buddy_def)
qed

text \<open>C2: on a well-formed allocator \<open>allocate_frame\<close> panics exactly when no frame is free;
  otherwise it returns the address of the highest free frame, marks that frame and no other, and
  keeps the allocator well-formed.\<close>

theorem allocate_frame_correct:
  assumes "buddy_wf k b"
  shows "(allocate_frame b = None \<longleftrightarrow> free_frames k b = {}) \<and>
    (\<forall>a b'. allocate_frame b = Some (a, b') \<longrightarrow>
       a = Max (free_frames k b) * 4096 \<and> buddy_wf k b' \<and>
       used k b' = (used k b)(Max (free_frames k b) := True))"
  using allocate_frame_wf [OF assms] by (auto split: if_splits)

lemma allocate_frame_correct_witness:
  "\<exists>b'. allocate_frame tiny_buddy = Some (0x7000, b') \<and> buddy_wf 3 b'"
proof -
  from allocate_frame_correct [OF tiny_wf] tiny_free_ne have "allocate_frame tiny_buddy \<noteq> None"
    by blast
  then obtain a b' where "allocate_frame tiny_buddy = Some (a, b')" by auto
  with allocate_frame_correct [OF tiny_wf] show ?thesis by (auto simp: tiny_free Max_lessThan_8)
qed

text \<open>C18: a request for \<open>n\<close> contiguous frames finds the highest run of \<open>2 ^ ord\<close> free frames
  that is aligned to its size, where \<open>ord\<close> is the rounded-up logarithm of \<open>n\<close>, panics when there
  is none, and marks exactly the first \<open>n\<close> frames of the run. It also panics when the run starts
  above \<open>n_pages\<close>: the final assertion compares an address with the number of allocatable frames,
  which is smaller than the highest frame number when the memory map has holes.\<close>

theorem allocate_contiguous_correct:
  assumes "buddy_wf k b" and "0 < n" and "n \<le> 2 ^ k"
  shows "\<exists>ord. log2_rounded_up n = Some ord \<and> n \<le> 2 ^ ord \<and>
    (if \<forall>j. \<not> run_free k b (j * 2 ^ ord) (2 ^ ord) then allocate_contiguius b n = None
     else \<exists>j b'. run_free k b (j * 2 ^ ord) (2 ^ ord) \<and>
       (\<forall>j'>j. \<not> run_free k b (j' * 2 ^ ord) (2 ^ ord)) \<and>
       allocate_contiguius b n =
         (if j * 2 ^ ord \<le> buddy_n_pages b then Some (j * 2 ^ ord * 4096, b') else None) \<and>
       buddy_wf k b' \<and> allocated_pages b' = allocated_pages b + n \<and>
       (\<forall>q. used k b' q \<longleftrightarrow> used k b q \<or> j * 2 ^ ord \<le> q \<and> q < j * 2 ^ ord + n))"
proof -
  have "n \<le> binary_tree_size b div 2" using assms by (simp add: buddy_wf_def tree_ok_def)
  from order_fits [OF assms(1,2) this] obtain ord where
    ord: "log2_rounded_up n = Some ord" "ord \<le> k" "n \<le> 2 ^ ord" .
  show ?thesis
  proof (cases "\<forall>j. \<not> run_free k b (j * 2 ^ ord) (2 ^ ord)")
    case True
    with allocate_contiguius_wf [OF assms(1,2) ord] ord(1,3) show ?thesis by auto
  next
    case False
    from allocate_contiguius_wf [OF assms(1,2) ord] obtain j b' where
      j: "run_free k b (j * 2 ^ ord) (2 ^ ord)" "\<forall>j'>j. \<not> run_free k b (j' * 2 ^ ord) (2 ^ ord)"
      "allocate_contiguius b n =
         (if j * 2 ^ ord \<le> buddy_n_pages b then Some (j * 2 ^ ord * 4096, b') else None)"
      "buddy_wf k b'" "allocated_pages b' = allocated_pages b + n"
      and u: "used k b' = (\<lambda>q. if q \<in> set [j * 2 ^ ord..<j * 2 ^ ord + n] then True else used k b q)"
      unfolding if_not_P [OF False] by (elim exE conjE)
    from u have "\<forall>q. used k b' q \<longleftrightarrow> used k b q \<or> j * 2 ^ ord \<le> q \<and> q < j * 2 ^ ord + n" by auto
    with j show ?thesis
      unfolding ord(1) by (intro exI [of _ ord] conjI ord(3) refl, unfold if_not_P [OF False])
        (intro exI [of _ j] exI [of _ b'] conjI)
  qed
qed

lemma allocate_contiguous_correct_witness:
  "\<exists>ord j b'. log2_rounded_up 3 = Some ord \<and> run_free 3 tiny_buddy (j * 2 ^ ord) (2 ^ ord) \<and>
     allocate_contiguius tiny_buddy 3 = Some (j * 2 ^ ord * 4096, b') \<and> allocated_pages b' = 3"
proof -
  have free: "run_free 3 tiny_buddy p n" if "p + n \<le> 8" for p n
    using that tiny_bits by (auto simp: run_free_def used_def)
  have three: "0 < (3::nat)" "(3::nat) \<le> 2 ^ 3" by simp_all
  from allocate_contiguous_correct [OF tiny_wf three] obtain ord where
    l: "log2_rounded_up 3 = Some ord" and
    c: "if \<forall>j. \<not> run_free 3 tiny_buddy (j * 2 ^ ord) (2 ^ ord) then allocate_contiguius tiny_buddy 3 = None
     else \<exists>j b'. run_free 3 tiny_buddy (j * 2 ^ ord) (2 ^ ord) \<and>
       (\<forall>j'>j. \<not> run_free 3 tiny_buddy (j' * 2 ^ ord) (2 ^ ord)) \<and>
       allocate_contiguius tiny_buddy 3 =
         (if j * 2 ^ ord \<le> buddy_n_pages tiny_buddy then Some (j * 2 ^ ord * 4096, b') else None) \<and>
       buddy_wf 3 b' \<and> allocated_pages b' = allocated_pages tiny_buddy + 3 \<and>
       (\<forall>q. used 3 b' q \<longleftrightarrow> used 3 tiny_buddy q \<or> j * 2 ^ ord \<le> q \<and> q < j * 2 ^ ord + 3)"
    by (elim exE conjE)
  have "floor_log2 5 = 2" by (rule floor_log2_unique) simp_all
  with l have ord: "ord = 2" by (simp add: log2_rounded_up_def checked_simps ilog2_def)
  have "run_free 3 tiny_buddy (0 * 2 ^ ord) (2 ^ ord)" using free ord by simp
  then have ne: "\<not> (\<forall>j. \<not> run_free 3 tiny_buddy (j * 2 ^ ord) (2 ^ ord))" by blast
  from c obtain j b' where j: "run_free 3 tiny_buddy (j * 2 ^ ord) (2 ^ ord)"
    "allocate_contiguius tiny_buddy 3 =
         (if j * 2 ^ ord \<le> buddy_n_pages tiny_buddy then Some (j * 2 ^ ord * 4096, b') else None)"
    "allocated_pages b' = allocated_pages tiny_buddy + 3"
    unfolding if_not_P [OF ne] by (elim exE conjE)
  from j(1) have "j * 2 ^ ord \<le> 8" by (simp add: run_free_def)
  with j l show ?thesis by (auto simp: tiny_buddy_def)
qed

text \<open>releasing a frame undoes its allocation: the marks and the page count are those
  before.\<close>

theorem allocate_deallocate_roundtrip:
  assumes "buddy_wf k b" and "allocate_frame b = Some (a, b1)"
  shows "\<exists>b2. deallocate_frame b1 a = Some b2 \<and> buddy_wf k b2 \<and> used k b2 = used k b \<and>
    allocated_pages b2 = allocated_pages b"
proof -
  let ?p = "Max (free_frames k b)"
  from allocate_frame_wf [OF assms(1)] assms(2) have ne: "free_frames k b \<noteq> {}" and
    b1: "a = ?p * 4096" "buddy_wf k b1" "used k b1 = (used k b)(?p := True)"
    "allocated_pages b1 = allocated_pages b + 1" by (auto split: if_splits)
  have "?p \<in> free_frames k b" using ne by simp
  then have p: "?p < 2 ^ k" "\<not> used k b ?p" by (auto simp: free_frames_def)
  from deallocate_frame_wf [OF b1(2) p(1)] b1(3,4) obtain b2 where
    b2: "deallocate_frame b1 (?p * 4096) = Some b2" "buddy_wf k b2"
    "used k b2 = (used k b1)(?p := False)" "allocated_pages b2 = allocated_pages b1 - 1" by auto
  have "used k b2 = used k b" using b2(3) b1(3) p(2) by (auto simp: fun_eq_iff)
  with b2 b1 show ?thesis by auto
qed

end
