(* ===== verification/BuddyInit.thy ===== *)
theory BuddyInit
  imports BuddyOps
begin

text \<open>
  The initial state of the buddy allocator: built from the boot loader's memory map it satisfies
  \<open>buddy_wf\<close>, and its free frames are the frames of the usable regions, without the ones that
  hold the tree itself.
\<close>

section \<open>Setting and propagating bits\<close>

lemma set_all_retree:
  "\<forall>i\<in>set is. i < 8 * length (tree_bytes b) \<Longrightarrow>
     retree b (\<lambda>j. if j \<in> set is then a else bits b j) (set_all set_at_index a is b)"
proof (induction "is" arbitrary: b)
  case (Cons i "is")
  have "retree b (\<lambda>j. if j \<in> set (i # is) then a else bits b j)
      (set_at_index b i a \<bind> set_all set_at_index a is)"
  proof (rule retree_bind [OF set_at_index_retree])
    fix b' :: BuddyAllocator
    assume b': "length (tree_bytes b') = length (tree_bytes b)" "bits b' = (bits b)(i := a)"
    have "retree b' (\<lambda>j. if j \<in> set is then a else bits b' j) (set_all set_at_index a is b')"
      by (rule Cons.IH) (use Cons.prems b' in simp)
    moreover have "(\<lambda>j. if j \<in> set is then a else bits b' j) =
        (\<lambda>j. if j \<in> set (i # is) then a else bits b j)" using b'(2) by auto
    ultimately show "retree b' (\<lambda>j. if j \<in> set (i # is) then a else bits b j)
        (set_all set_at_index a is b')" by simp
  qed (use Cons.prems in simp)
  then show ?case by simp
qed (simp add: retree_Some)

text \<open>The bits after \<open>update_all\<close> on the nodes below \<open>n\<close>.\<close>

primrec down :: "nat \<Rightarrow> (nat \<Rightarrow> bool) \<Rightarrow> (nat \<Rightarrow> bool)" where
  "down 0 v = v"
| "down (Suc n) v = (if n = 0 then v else down n (v(n := v (2 * n) \<and> v (2 * n + 1))))"

lemma update_nodes_down:
  "2 * n \<le> 8 * length (tree_bytes b) \<Longrightarrow> retree b (down n (bits b)) (update_nodes (rev [1..<n]) b)"
proof (induction n arbitrary: b)
  case (Suc n)
  show ?case
  proof (cases "n = 0")
    case False
    let ?v = "(bits b)(n := bits b (2 * n) \<and> bits b (2 * n + 1))"
    have "retree b (down n ?v)
        (set_at_index b n (bits b (2 * n) \<and> bits b (2 * n + 1)) \<bind> update_nodes (rev [1..<n]))"
    proof (rule retree_bind [OF set_at_index_retree])
      fix b' :: BuddyAllocator
      assume b': "length (tree_bytes b') = length (tree_bytes b)" "bits b' = ?v"
      show "retree b' (down n ?v) (update_nodes (rev [1..<n]) b')"
        unfolding b'(2) [symmetric] by (rule Suc.IH) (use Suc.prems b'(1) in simp)
    qed (use Suc.prems in simp)
    moreover have "both_children b n = Some (bits b (2 * n) \<and> bits b (2 * n + 1))"
      by (rule both_children_bits) (use Suc.prems in simp)
    ultimately show ?thesis using False by simp
  qed (simp add: retree_Some)
qed (simp add: retree_Some)

lemma down_above: "n \<le> j \<Longrightarrow> down n v j = v j"
  by (induction n arbitrary: v) auto

lemma down_tree_inv:
  "(\<forall>i\<in>{n..<N}. node_ok v i) \<Longrightarrow> n \<le> N \<Longrightarrow> tree_inv (down n v) N"
proof (induction n arbitrary: v)
  case 0
  then show ?case by (simp add: tree_inv_def)
next
  case (Suc n)
  show ?case
  proof (cases "n = 0")
    case True
    with Suc.prems show ?thesis by (simp add: tree_inv_def)
  next
    case False
    let ?v = "v(n := v (2 * n) \<and> v (2 * n + 1))"
    have "\<forall>i\<in>{n..<N}. node_ok ?v i"
      using Suc.prems(1) False by (auto simp: node_ok_def)
    then have "tree_inv (down n ?v) N" by (rule Suc.IH) (use Suc.prems(2) in simp)
    then show ?thesis unfolding down.simps if_not_P [OF False] .
  qed
qed

section \<open>The memory map\<close>

definition region_ok :: "nat \<Rightarrow> MemoryMapEntry \<Rightarrow> bool" where
  "region_ok k e \<longleftrightarrow> base e mod 4096 = 0 \<and> region_length e mod 4096 = 0 \<and>
     base e + region_length e \<le> 2 ^ k * 4096"

definition usable_addresses :: "MemoryMapEntry list \<Rightarrow> nat list" where
  "usable_addresses regions = concat (map region_addresses (filter is_usable regions))"

lemma free_indexes_usable:
  "free_indexes half regions = map (\<lambda>a. a div 4096 + half) (usable_addresses regions)"
  by (induction regions) (auto simp: free_indexes_def usable_addresses_def)

lemma div_ceil_exact: "n mod 4096 = 0 \<Longrightarrow> div_ceil n 4096 = n div 4096"
  by (auto simp: div_ceil_def)

lemma region_addresses_set:
  assumes "region_ok k e"
  shows "a \<in> set (region_addresses e) \<longleftrightarrow>
    a mod 4096 = 0 \<and> base e \<le> a \<and> a < base e + region_length e"
proof -
  from assms obtain m n where m: "base e = m * 4096" "region_length e = n * 4096"
    by (auto simp: region_ok_def dvd_def mult.commute dest!: mod_0_imp_dvd)
  have "a \<in> set (region_addresses e) \<longleftrightarrow> (\<exists>i<n. a = m * 4096 + i * 4096)"
    using m by (auto simp: region_addresses_def div_ceil_exact)
  also have "\<dots> \<longleftrightarrow> a mod 4096 = 0 \<and> m * 4096 \<le> a \<and> a < m * 4096 + n * 4096"
  proof (intro iffI conjI)
    assume r: "a mod 4096 = 0 \<and> m * 4096 \<le> a \<and> a < m * 4096 + n * 4096"
    then obtain q where q: "a = q * 4096" by (auto simp: dvd_def mult.commute dest!: mod_0_imp_dvd)
    with r have "m \<le> q" "q < m + n" by auto
    with q show "\<exists>i<n. a = m * 4096 + i * 4096" by (intro exI [of _ "q - m"]) auto
  qed auto
  finally show ?thesis unfolding m .
qed

lemma distinct_drop_middle: "distinct (xs @ ys @ zs) \<Longrightarrow> distinct (xs @ drop s ys @ zs)"
  using in_set_dropD [of _ s ys] by auto

lemma distinct_usable_shrink:
  assumes "distinct (usable_addresses regions)" and "i < length regions"
    and "is_usable e = is_usable (regions ! i)"
    and "region_addresses e = drop s (region_addresses (regions ! i))"
  shows "distinct (usable_addresses (regions[i := e]))"
proof -
  let ?x = "take i regions" and ?y = "drop (Suc i) regions"
  have r: "regions = ?x @ regions ! i # ?y" using assms(2) by (rule id_take_nth_drop)
  have "distinct (usable_addresses (?x @ regions ! i # ?y))" using assms(1) r by simp
  then have "distinct (usable_addresses (?x @ e # ?y))"
  proof (cases "is_usable e")
    case True
    then show ?thesis
      using assms(3,4) \<open>distinct (usable_addresses (?x @ regions ! i # ?y))\<close>
        distinct_drop_middle [of "usable_addresses ?x" "region_addresses (regions ! i)" "usable_addresses ?y" s]
      unfolding usable_addresses_def by (simp del: distinct_append)
  qed (use assms(3) in \<open>simp add: usable_addresses_def\<close>)
  then show ?thesis using assms(2) by (simp add: upd_conv_take_nth_drop)
qed

lemma find_Some_mem: "find P xs = Some x \<Longrightarrow> x \<in> set xs \<and> P x"
  by (induction xs) (auto split: if_splits)

lemma find_mem_region_some:
  assumes "find_mem_region_to_shrink regions space = Some i"
  shows "i < length regions \<and> is_usable (regions ! i) \<and> space \<le> region_length (regions ! i)"
proof -
  from assms obtain r where "find (\<lambda>(_, r). is_usable r \<and> space \<le> region_length r)
      (rev (enumerate 0 regions)) = Some (i, r)" by (auto simp: find_mem_region_to_shrink_def)
  from find_Some_mem [OF this] show ?thesis by (auto simp: in_set_enumerate_eq)
qed

text \<open>The region that gives up \<open>s\<close> pages at its front.\<close>

definition shrunk :: "nat \<Rightarrow> MemoryMapEntry \<Rightarrow> MemoryMapEntry" where
  "shrunk s e = e\<lparr>base := base e + s * 4096, region_length := region_length e - s * 4096\<rparr>"

lemma shrunk_region:
  assumes "region_ok k e" and "s * 4096 \<le> region_length e"
  shows "region_ok k (shrunk s e)" and "region_addresses (shrunk s e) = drop s (region_addresses e)"
    and "is_usable (shrunk s e) = is_usable e"
proof -
  from assms(1) obtain n where n: "region_length e = n * 4096"
    by (auto simp: region_ok_def dvd_def mult.commute dest!: mod_0_imp_dvd)
  have m: "(n * 4096 - s * 4096) mod 4096 = 0" by (simp flip: diff_mult_distrib)
  show "region_ok k (shrunk s e)" using assms m n by (auto simp: region_ok_def shrunk_def)
  have "div_ceil (n * 4096 - s * 4096) 4096 = n - s"
    using div_ceil_exact [OF m] by (simp flip: diff_mult_distrib)
  moreover have "div_ceil (n * 4096) 4096 = n" by (simp add: div_ceil_exact)
  ultimately show "region_addresses (shrunk s e) = drop s (region_addresses e)"
    using n by (auto simp: region_addresses_def shrunk_def intro!: nth_equalityI)
  show "is_usable (shrunk s e) = is_usable e" by (simp add: shrunk_def is_usable_def)
qed

lemma ceil_fits:
  assumes "space \<le> n" and "n mod 4096 = 0"
  shows "div_ceil space 4096 * 4096 \<le> n"
proof -
  have "div_ceil space 4096 \<le> div_ceil n 4096" by (rule div_ceil_mono [OF assms(1)])
  also have "\<dots> = n div 4096" by (rule div_ceil_exact [OF assms(2)])
  finally have "div_ceil space 4096 * 4096 \<le> n div 4096 * 4096" by (rule mult_le_mono1)
  also have "\<dots> \<le> n" by simp
  finally show ?thesis .
qed

section \<open>The first state\<close>

lemma all_ones_bits: "i < 8 * n \<Longrightarrow> byte_view (replicate n 0xFF) i"
proof -
  assume "i < 8 * n"
  then have "i div 8 < n" by (simp add: less_mult_imp_div_less mult.commute)
  moreover have m: "(0xFF :: u8) = mask 8" by (simp add: mask_eq_exp_minus_1)
  have "bit (0xFF :: u8) (i mod 8)" unfolding m bit_mask_iff by simp
  ultimately show ?thesis by (simp add: byte_view_def)
qed

text \<open>Freeing the pages of the list \<open>A\<close> in a full tree and propagating gives a well-formed
  allocator whose free frames are those of \<open>A\<close>.\<close>

lemma first_state:
  assumes k: "k \<le> 51" and len: "8 * L = 2 * 2 ^ k" and A: "distinct A" "\<forall>a\<in>set A. a mod 4096 = 0 \<and> a < 2 ^ k * 4096"
    and idx: "idx = map (\<lambda>a. a div 4096 + 2 ^ k) A"
  shows "\<exists>b. set_all set_at_index False idx \<lparr>buddy_n_pages = n, binary_tree_size = 2 ^ k * 2,
        allocated_pages = 0, tree_bytes = replicate L 0xFF\<rparr> \<bind>
      (\<lambda>b1. update_all (b1\<lparr>allocated_pages := 0, buddy_n_pages := length idx\<rparr>)) = Some b \<and>
    buddy_wf k b \<and> allocated_pages b = 0 \<and> free_frames k b = (\<lambda>a. a div 4096) ` set A"
proof -
  let ?b0 = "\<lparr>buddy_n_pages = n, binary_tree_size = 2 ^ k * 2, allocated_pages = 0,
    tree_bytes = replicate L 0xFF\<rparr>"
  have lt: "a div 4096 < 2 ^ k" if "a \<in> set A" for a
    using A(2) that by (simp add: less_mult_imp_div_less)
  have "\<forall>i\<in>set idx. i < 8 * length (tree_bytes ?b0)" using lt by (auto simp: idx len)
  from set_all_retree [OF this, of False] obtain t where t:
    "set_all set_at_index False idx ?b0 = Some (?b0\<lparr>tree_bytes := t\<rparr>)"
    "length t = L" "byte_view t = (\<lambda>j. if j \<in> set idx then False else bits ?b0 j)"
    by (auto simp: retree_def)
  let ?b1 = "?b0\<lparr>tree_bytes := t, allocated_pages := 0, buddy_n_pages := length idx\<rparr>"
  have "retree ?b1 (down (2 ^ k) (byte_view t)) (update_all ?b1)"
    using update_nodes_down [of "2 ^ k" ?b1] t(2) len by (simp add: update_all_def)
  then obtain t2 where t2: "update_all ?b1 = Some (?b1\<lparr>tree_bytes := t2\<rparr>)" "length t2 = length t"
    "byte_view t2 = down (2 ^ k) (byte_view t)" by (auto simp: retree_def)
  let ?b2 = "?b1\<lparr>tree_bytes := t2\<rparr>"
  have inv: "tree_inv (bits ?b2) (2 ^ k)" using down_tree_inv [of "2 ^ k" "2 ^ k"] by (simp add: t2(3))
  have u: "used k ?b2 p \<longleftrightarrow> p \<notin> (\<lambda>a. a div 4096) ` set A" if "p < 2 ^ k" for p
  proof -
    have "byte_view (replicate L 0xFF) (2 ^ k + p)" using that len by (intro all_ones_bits) simp
    moreover have "2 ^ k + p \<in> set idx \<longleftrightarrow> p \<in> (\<lambda>a. a div 4096) ` set A" by (auto simp: idx)
    ultimately show ?thesis by (simp add: used_def t2(3) down_above t(3))
  qed
  have free: "free_frames k ?b2 = (\<lambda>a. a div 4096) ` set A"
    using u lt by (auto simp: free_frames_def)
  have page: "a = a div 4096 * 4096" if "a \<in> set A" for a
    using div_mult_mod_eq [of a 4096] A(2) that by simp
  have "inj_on (\<lambda>a. a div 4096) (set A)"
  proof (rule inj_onI)
    fix a c assume "a \<in> set A" "c \<in> set A" "a div 4096 = c div 4096"
    with page [of a] page [of c] show "a = c" by linarith
  qed
  then have "card (free_frames k ?b2) = card (set A)" unfolding free by (rule card_image)
  then have card: "card (free_frames k ?b2) = length idx"
    using distinct_card [OF A(1)] length_map [of "\<lambda>a. a div 4096 + 2 ^ k" A] unfolding idx [symmetric]
    by (simp only:)
  have "free_frames k ?b2 \<subseteq> {..<2 ^ k}" by (auto simp: free_frames_def)
  then have "length idx \<le> 2 ^ k" using card_mono [of "{..<2 ^ k}" "free_frames k ?b2"] card by simp
  then have "buddy_wf k ?b2" using inv card k t2(2) t(2) len by (simp add: buddy_wf_def tree_ok_def)
  moreover have "set_all set_at_index False idx ?b0 \<bind>
      (\<lambda>b1. update_all (b1\<lparr>allocated_pages := 0, buddy_n_pages := length idx\<rparr>)) = Some ?b2"
    using t(1) t2(1) by simp
  ultimately show ?thesis using free by (intro exI [of _ ?b2]) simp
qed

lemma region_end_fits:
  assumes "region_ok k e" and "k \<le> 51"
  shows "base e + region_length e < 2 ^ 64"
proof -
  have "(2::nat) ^ k \<le> 2 ^ 51" using assms(2) by (intro power_increasing) auto
  then show ?thesis using assms(1) by (simp add: region_ok_def)
qed

lemma page_image:
  assumes "\<forall>a\<in>A. a mod 4096 = 0"
  shows "p \<in> (\<lambda>a. a div 4096) ` A \<longleftrightarrow> p * 4096 \<in> (A :: nat set)"
proof
  assume "p \<in> (\<lambda>a. a div 4096) ` A"
  then obtain a where "a \<in> A" "p = a div 4096" by blast
  moreover from this assms have "a = a div 4096 * 4096" using div_mult_mod_eq [of a 4096] by simp
  ultimately show "p * 4096 \<in> A" by simp
next
  assume "p * 4096 \<in> A"
  then show "p \<in> (\<lambda>a. a div 4096) ` A" by (intro image_eqI [of _ _ "p * 4096"]) simp_all
qed

section \<open>Properties\<close>

text \<open>C30: when the boot loader's usable regions are page aligned, do not overlap and lie below
  the end of RAM, initialisation succeeds and gives a well-formed allocator with nothing
  allocated. A frame is free exactly when it lies in a usable region of the resulting memory map,
  in which the chosen region has given up the pages that hold the tree.\<close>

theorem buddy_init_correct:
  assumes "log2_rounded_up (max_ram div 4096) = Some k" and "3 \<le> k" and "k \<le> 51"
    and "find_mem_region_to_shrink regions (2 ^ k div 8 * 2) = Some i"
    and "\<forall>e\<in>set regions. is_usable e \<longrightarrow> region_ok k e"
    and "distinct (usable_addresses regions)"
  shows "\<exists>b. buddy_init max_ram regions =
      Some (b, regions[i := shrunk (div_ceil (2 ^ k div 8 * 2) 4096) (regions ! i)]) \<and>
    buddy_wf k b \<and> allocated_pages b = 0 \<and>
    (\<forall>p<2 ^ k. \<not> used k b p \<longleftrightarrow>
       (\<exists>e\<in>set (regions[i := shrunk (div_ceil (2 ^ k div 8 * 2) 4096) (regions ! i)]).
          is_usable e \<and> base e \<le> p * 4096 \<and> p * 4096 < base e + region_length e))"
proof -
  let ?L = "2 ^ k div 8 * 2 :: nat" and ?e = "regions ! i"
  let ?s = "div_ceil ?L 4096" and ?n = "max_ram div 4096"
  let ?R = "regions[i := shrunk ?s ?e]"
  have "(8::nat) dvd 2 ^ k" using le_imp_power_dvd [OF assms(2), of "2::nat"] by simp
  then have "8 * (2 ^ k div 8) = (2::nat) ^ k" by (rule dvd_mult_div_cancel)
  then have len: "8 * ?L = 2 * 2 ^ k" by linarith
  from find_mem_region_some [OF assms(4)] have i: "i < length regions" "is_usable ?e"
    "?L \<le> region_length ?e" by auto
  then have eok: "region_ok k ?e" using assms(5) by simp
  have fits: "?s * 4096 \<le> region_length ?e"
    by (rule ceil_fits [OF i(3)]) (use eok in \<open>simp add: region_ok_def\<close>)
  note sh = shrunk_region [OF eok fits]
  have Rok: "region_ok k e" if "e \<in> set ?R" "is_usable e" for e
    using that assms(5) sh(1) set_update_subset_insert [of regions i "shrunk ?s ?e"] by auto
  have dist: "distinct (usable_addresses ?R)"
    by (rule distinct_usable_shrink [OF assms(6) i(1) sh(3) sh(2)])
  have mem: "a \<in> set (usable_addresses ?R) \<longleftrightarrow> a mod 4096 = 0 \<and>
      (\<exists>e\<in>set ?R. is_usable e \<and> base e \<le> a \<and> a < base e + region_length e)" for a
    using region_addresses_set [OF Rok] by (auto simp: usable_addresses_def)
  have rng: "\<forall>a\<in>set (usable_addresses ?R). a mod 4096 = 0 \<and> a < 2 ^ k * 4096"
  proof
    fix a assume "a \<in> set (usable_addresses ?R)"
    from mem [THEN iffD1, OF this] obtain e where "e \<in> set ?R" "is_usable e"
      "a < base e + region_length e" "a mod 4096 = 0" by (elim conjE bexE)
    with Rok [of e] show "a mod 4096 = 0 \<and> a < 2 ^ k * 4096" by (auto simp: region_ok_def)
  qed
  from first_state [OF assms(3) len dist rng free_indexes_usable, of ?n] obtain b where
    b: "set_all set_at_index False (free_indexes (2 ^ k) ?R) \<lparr>buddy_n_pages = ?n,
        binary_tree_size = 2 ^ k * 2, allocated_pages = 0, tree_bytes = replicate ?L 0xFF\<rparr> \<bind>
      (\<lambda>b1. update_all (b1\<lparr>allocated_pages := 0, buddy_n_pages := length (free_indexes (2 ^ k) ?R)\<rparr>)) = Some b"
    "buddy_wf k b" "allocated_pages b = 0"
    "free_frames k b = (\<lambda>a. a div 4096) ` set (usable_addresses ?R)" by blast
  have small: "base ?e + ?s * 4096 < 2 ^ 64" using region_end_fits [OF eok assms(3)] fits by linarith
  have ends: "list_all (\<lambda>e. base e + region_length e < 2 ^ 64) (filter is_usable ?R)"
    unfolding list_all_iff using Rok region_end_fits [OF _ assms(3)] by (simp only: set_filter) blast
  have "buddy_init max_ram regions = Some (b, ?R)"
    using assms(1,4) b(1) small fits ends
    by (simp add: buddy_init_def get_binary_tree_element_cnt_def Let_def checked_simps shrunk_def
        bind_eq_Some_conv)
  moreover have "\<forall>p<2 ^ k. \<not> used k b p \<longleftrightarrow>
      (\<exists>e\<in>set ?R. is_usable e \<and> base e \<le> p * 4096 \<and> p * 4096 < base e + region_length e)"
  proof (intro allI impI)
    fix p :: nat assume p: "p < 2 ^ k"
    have "\<not> used k b p \<longleftrightarrow> p \<in> (\<lambda>a. a div 4096) ` set (usable_addresses ?R)"
      using b(4) p by (auto simp: free_frames_def)
    also have "\<dots> \<longleftrightarrow> p * 4096 \<in> set (usable_addresses ?R)"
      by (rule page_image) (use rng in blast)
    finally show "\<not> used k b p \<longleftrightarrow>
      (\<exists>e\<in>set ?R. is_usable e \<and> base e \<le> p * 4096 \<and> p * 4096 < base e + region_length e)"
      unfolding mem by simp
  qed
  ultimately show ?thesis using b(2,3) by blast
qed

lemma buddy_init_correct_witness:
  "\<exists>b. buddy_init 0x8000 [\<lparr>base = 0x1000, region_length = 0x7000, entry_type = 0\<rparr>] =
      Some (b, [\<lparr>base = 0x2000, region_length = 0x6000, entry_type = 0\<rparr>]) \<and>
    buddy_wf 3 b \<and> used 3 b 1 \<and> \<not> used 3 b 2"
proof -
  let ?R = "[\<lparr>base = 0x1000, region_length = 0x7000, entry_type = 0\<rparr>]"
  have "floor_log2 15 = 3" by (rule floor_log2_unique) simp_all
  then have l: "log2_rounded_up (0x8000 div 4096) = Some 3"
    by (simp add: log2_rounded_up_def checked_simps ilog2_def)
  have f: "find_mem_region_to_shrink ?R (2 ^ 3 div 8 * 2) = Some 0"
    by (simp add: find_mem_region_to_shrink_def is_usable_def)
  have r: "\<forall>e\<in>set ?R. is_usable e \<longrightarrow> region_ok 3 e" by (simp add: region_ok_def)
  have d: "distinct (usable_addresses ?R)"
    by (simp add: usable_addresses_def region_addresses_def is_usable_def distinct_map inj_on_def)
  have "div_ceil (2 ^ 3 div 8 * 2) 4096 = 1" by (simp add: div_ceil_def)
  with buddy_init_correct [OF l _ _ f r d] obtain b where b: "buddy_init 0x8000 ?R =
      Some (b, [\<lparr>base = 0x2000, region_length = 0x6000, entry_type = 0\<rparr>])" "buddy_wf 3 b"
    "\<forall>p<8. (\<not> used 3 b p) = (2 \<le> p)" by (auto simp: shrunk_def is_usable_def)
  have "used 3 b 1" "\<not> used 3 b 2" using b(3) [rule_format, of 1] b(3) [rule_format, of 2] by simp_all
  with b(1,2) show ?thesis by blast
qed

end
