(* ===== verification/BTreeSets.thy ===== *)
theory BTreeSets
  imports Prelude "HOL-Library.Product_Lexorder"
begin

text \<open>
  The ordered sets of the standard library (\<open>BTreeSet\<close>) as the sources use them: a list that is
  strictly increasing in the key the element type's \<open>Ord\<close> compares. \<open>insert\<close> keeps the element
  that is already there, \<open>remove\<close> and \<open>get\<close> find an element by its key, and the range queries
  return the first element at or above a bound and the last one below it.
\<close>

definition bt_ok :: "('a \<Rightarrow> 'k::linorder) \<Rightarrow> 'a list \<Rightarrow> bool" where
  "bt_ok key xs \<longleftrightarrow> sorted_wrt (\<lambda>x y. key x < key y) xs"

fun bt_insert :: "('a \<Rightarrow> 'k::linorder) \<Rightarrow> 'a \<Rightarrow> 'a list \<Rightarrow> 'a list" where
  "bt_insert key x [] = [x]"
| "bt_insert key x (y # ys) =
     (if key x < key y then x # y # ys
      else if key x = key y then y # ys
      else y # bt_insert key x ys)"

definition bt_remove :: "('a \<Rightarrow> 'k::linorder) \<Rightarrow> 'a \<Rightarrow> 'a list \<Rightarrow> 'a list" where
  "bt_remove key x xs = filter (\<lambda>y. key y \<noteq> key x) xs"

definition bt_get :: "('a \<Rightarrow> 'k::linorder) \<Rightarrow> 'k \<Rightarrow> 'a list \<Rightarrow> 'a option" where
  "bt_get key k xs = find (\<lambda>y. key y = k) xs"

definition bt_first_ge :: "('a \<Rightarrow> 'k::linorder) \<Rightarrow> 'k \<Rightarrow> 'a list \<Rightarrow> 'a option" where
  "bt_first_ge key k xs = find (\<lambda>y. k \<le> key y) xs"

definition bt_last_less :: "('a \<Rightarrow> 'k::linorder) \<Rightarrow> 'k \<Rightarrow> 'a list \<Rightarrow> 'a option" where
  "bt_last_less key k xs = find (\<lambda>y. key y < k) (rev xs)"

definition bt_last_le :: "('a \<Rightarrow> 'k::linorder) \<Rightarrow> 'k \<Rightarrow> 'a list \<Rightarrow> 'a option" where
  "bt_last_le key k xs = find (\<lambda>y. key y \<le> k) (rev xs)"

lemma find_Some_set: "find P xs = Some x \<Longrightarrow> x \<in> set xs \<and> P x"
  by (induction xs) (auto split: if_splits)

lemma bt_ok_Nil [simp]: "bt_ok key []"
  by (simp add: bt_ok_def)

lemma bt_ok_Cons [simp]: "bt_ok key (x # xs) \<longleftrightarrow> (\<forall>y\<in>set xs. key x < key y) \<and> bt_ok key xs"
  by (simp add: bt_ok_def)

lemma bt_ok_inj: "bt_ok key xs \<Longrightarrow> x \<in> set xs \<Longrightarrow> y \<in> set xs \<Longrightarrow> key x = key y \<Longrightarrow> x = y"
  by (induction xs) fastforce+

lemma bt_insert_set:
  "bt_ok key xs \<Longrightarrow> set (bt_insert key x xs) = (if key x \<in> key ` set xs then set xs else insert x (set xs))"
proof (induction xs)
  case (Cons y ys)
  show ?case
  proof (cases "key x < key y")
    case True
    with Cons.prems have "key x \<notin> key ` set (y # ys)" by (auto dest: less_trans)
    with True show ?thesis by simp
  next
    case False
    then show ?thesis using Cons by (cases "key x = key y") auto
  qed
qed simp

lemma bt_insert_ok: "bt_ok key xs \<Longrightarrow> bt_ok key (bt_insert key x xs)"
proof (induction xs)
  case (Cons y ys)
  have "set (bt_insert key x ys) \<subseteq> insert x (set ys)" by (induction ys) auto
  with Cons show ?case by fastforce
qed simp

lemma bt_remove_ok: "bt_ok key xs \<Longrightarrow> bt_ok key (bt_remove key x xs)"
  by (simp add: bt_ok_def bt_remove_def sorted_wrt_filter)

lemma bt_remove_set: "bt_ok key xs \<Longrightarrow> x \<in> set xs \<Longrightarrow> set (bt_remove key x xs) = set xs - {x}"
  using bt_ok_inj [of key xs] by (auto simp: bt_remove_def)

lemma bt_get_Some: "bt_get key k xs = Some x \<Longrightarrow> x \<in> set xs \<and> key x = k"
  unfolding bt_get_def by (rule find_Some_set)

lemma bt_get_None: "bt_get key k xs = None \<longleftrightarrow> (\<forall>x\<in>set xs. key x \<noteq> k)"
  by (auto simp: bt_get_def find_None_iff)

lemma bt_first_ge_Some:
  "bt_ok key xs \<Longrightarrow> bt_first_ge key k xs = Some x \<Longrightarrow>
     x \<in> set xs \<and> k \<le> key x \<and> (\<forall>y\<in>set xs. k \<le> key y \<longrightarrow> key x \<le> key y)"
  by (induction xs) (auto simp: bt_first_ge_def split: if_splits intro: less_imp_le)

lemma bt_first_ge_None: "bt_first_ge key k xs = None \<longleftrightarrow> (\<forall>x\<in>set xs. key x < k)"
  by (auto simp: bt_first_ge_def find_None_iff not_le)

lemma find_rev_last:
  assumes "bt_ok key xs" and "find P (rev xs) = Some x"
  shows "x \<in> set xs \<and> P x \<and> (\<forall>y\<in>set xs. P y \<longrightarrow> key y \<le> key x)"
  using assms
proof (induction xs rule: rev_induct)
  case (snoc y ys)
  then show ?case by (auto simp: bt_ok_def sorted_wrt_append split: if_splits)
qed simp

lemma bt_last_less_Some:
  "bt_ok key xs \<Longrightarrow> bt_last_less key k xs = Some x \<Longrightarrow>
     x \<in> set xs \<and> key x < k \<and> (\<forall>y\<in>set xs. key y < k \<longrightarrow> key y \<le> key x)"
  unfolding bt_last_less_def by (rule find_rev_last)

lemma bt_last_le_Some:
  "bt_ok key xs \<Longrightarrow> bt_last_le key k xs = Some x \<Longrightarrow>
     x \<in> set xs \<and> key x \<le> k \<and> (\<forall>y\<in>set xs. key y \<le> k \<longrightarrow> key y \<le> key x)"
  unfolding bt_last_le_def by (rule find_rev_last)

lemma bt_last_le_None: "bt_last_le key k xs = None \<longleftrightarrow> (\<forall>x\<in>set xs. k < key x)"
  by (auto simp: bt_last_le_def find_None_iff not_le)

end
