(* ===== verification/AllocationArea.thy ===== *)
theory AllocationArea
  imports Addresses BTreeSets
begin

text \<open>
  The allocator of kernel virtual address ranges
  (\<open>memory/virt_mem_manager/allocation_area.rs\<close>). Free areas are kept twice, ordered by size and
  by address; used areas are ordered by address. An area is a page index with flags in one 64-bit
  word and a number of pages. Results are \<open>None\<close> on a panic.
\<close>

section \<open>Data\<close>

record AllocArea =
  inner :: u64
  area_n_pages :: nat

definition start_page_index :: "u64 \<Rightarrow> nat" where
  "start_page_index w = unat (take_bit 48 w)"

definition set_start_page_index :: "u64 \<Rightarrow> nat \<Rightarrow> u64" where
  "set_start_page_index w i = (w AND NOT (mask 48)) OR take_bit 48 (word_of_nat i)"

text \<open>\<open>AllocArea::flags\<close>.\<close>

definition area_flags :: "u64 \<Rightarrow> u32" where
  "area_flags w = ucast (push_bit 48 w AND 0x3F)"

text \<open>The bit \<open>no_merge_info\<close> of \<open>AllocationAreaFlags\<close>, and \<open>AllocationAreaFlags::default\<close>.\<close>

definition no_merge_info :: "u8 \<Rightarrow> bool" where
  "no_merge_info fl = bit fl 5"

definition default_area_flags :: u8 where
  "default_area_flags = 1"

text \<open>The keys of the two orders.\<close>

definition addr_key :: "AllocArea \<Rightarrow> nat" where
  "addr_key a = start_page_index (inner a)"

definition size_key :: "AllocArea \<Rightarrow> nat \<times> nat" where
  "size_key a = (area_n_pages a, start_page_index (inner a))"

record AllocationInfo =
  free_size_sorted :: "AllocArea list"
  free_addr_sorted :: "AllocArea list"
  used_areas :: "AllocArea list"

section \<open>Operations\<close>

text \<open>One round of the loop of \<open>init\<close>.\<close>

definition init_area :: "nat \<times> nat \<Rightarrow> AllocationInfo \<Rightarrow> AllocationInfo option" where
  "init_area = (\<lambda>(addr, n) info.
     let min_addr = 0x800000000000 in
     if addr < min_addr then Some info
     else
       (let min_addr_diff = min_addr - addr;
            addr = addr + min_addr_diff;
            n = n - min_addr_diff div 4096
        in if n = 0 then Some info
           else checked_mul 64 n 0x1000 \<bind> (\<lambda>len.
             let n = (if checked_add 64 addr len = None then n - 1 else n);
                 area = \<lparr>inner = set_start_page_index 0 (addr div 4096), area_n_pages = n\<rparr>
             in Some (info\<lparr>free_size_sorted := bt_insert size_key area (free_size_sorted info),
                           free_addr_sorted := bt_insert addr_key area (free_addr_sorted info)\<rparr>))))"

primrec init_areas :: "(nat \<times> nat) list \<Rightarrow> AllocationInfo \<Rightarrow> AllocationInfo option" where
  "init_areas [] info = Some info"
| "init_areas (a # as) info = init_area a info \<bind> init_areas as"

definition init_allocation_area :: "(nat \<times> nat) list \<Rightarrow> AllocationInfo \<Rightarrow> AllocationInfo option" where
  "init_allocation_area empty_areas info =
     init_areas empty_areas (info\<lparr>free_addr_sorted := [], free_size_sorted := []\<rparr>)"

text \<open>Joining a new used area with the used area behind it and the one in front of it.\<close>

definition merge_used_after :: "AllocArea \<Rightarrow> AllocArea list \<Rightarrow> AllocArea \<times> AllocArea list" where
  "merge_used_after new used =
     (case bt_get addr_key (start_page_index (word_of_nat (addr_key new + area_n_pages new))) used of
        None \<Rightarrow> (new, used)
      | Some e \<Rightarrow>
          if area_flags (inner new) = area_flags (inner e)
          then (new\<lparr>area_n_pages := area_n_pages new + area_n_pages e\<rparr>, bt_remove addr_key e used)
          else (new, used))"

definition merge_used_before :: "AllocArea \<Rightarrow> AllocArea list \<Rightarrow> AllocArea \<times> AllocArea list" where
  "merge_used_before new used =
     (case bt_last_less addr_key (addr_key new) used of
        None \<Rightarrow> (new, used)
      | Some e \<Rightarrow>
          if addr_key e + area_n_pages e = addr_key new \<and> area_flags (inner new) = area_flags (inner e)
          then (\<lparr>inner = set_start_page_index (inner new) (addr_key e),
                 area_n_pages = area_n_pages new + area_n_pages e\<rparr>, bt_remove addr_key e used)
          else (new, used))"

text \<open>The new used area, and the used set with it and its neighbours joined.\<close>

definition new_used_area :: "u8 \<Rightarrow> nat \<Rightarrow> nat \<Rightarrow> AllocArea" where
  "new_used_area fl first n =
     \<lparr>inner = set_start_page_index (push_bit 48 (ucast fl AND 0x3F)) first, area_n_pages = n\<rparr>"

definition record_used :: "u8 \<Rightarrow> AllocArea \<Rightarrow> AllocArea list \<Rightarrow> AllocArea list" where
  "record_used fl new_alloc used =
     (let (new_alloc, used) =
        (if no_merge_info fl then (new_alloc, used)
         else let (a, u) = merge_used_after new_alloc used in merge_used_before a u)
      in bt_insert addr_key new_alloc used)"

definition allocate_area :: "nat \<Rightarrow> u8 \<Rightarrow> AllocationInfo \<Rightarrow> (u64 option \<times> AllocationInfo) option" where
  "allocate_area n fl info =
     (case bt_first_ge size_key (n, 0) (free_size_sorted info) of
        None \<Rightarrow> Some (None, info)
      | Some entry \<Rightarrow>
          (let fs = bt_remove size_key entry (free_size_sorted info);
               fa = bt_remove addr_key entry (free_addr_sorted info);
               first = addr_key entry
           in checked_sub (area_n_pages entry) n \<bind> (\<lambda>rest.
              let new_empty = \<lparr>inner = set_start_page_index (inner entry) (first + n), area_n_pages = rest\<rparr>;
                  fa = (if 0 < rest then bt_insert addr_key new_empty fa else fa);
                  fs = (if 0 < rest then bt_insert size_key new_empty fs else fs)
              in Some (Some (extend_addr (word_of_nat (first * 0x1000))),
                   \<lparr>free_size_sorted = fs, free_addr_sorted = fa,
                    used_areas = record_used fl (new_used_area fl first n) (used_areas info)\<rparr>))))"

text \<open>Joining a released area with its free neighbours, in both free sets.\<close>

definition merge_free_after ::
  "AllocArea \<Rightarrow> AllocArea list \<Rightarrow> AllocArea list \<Rightarrow> AllocArea \<times> AllocArea list \<times> AllocArea list" where
  "merge_free_after new fa fs =
     (case bt_get addr_key (start_page_index (word_of_nat (addr_key new + area_n_pages new))) fa of
        None \<Rightarrow> (new, fa, fs)
      | Some e \<Rightarrow>
          (new\<lparr>area_n_pages := area_n_pages new + area_n_pages e\<rparr>,
           bt_remove addr_key e fa, bt_remove size_key e fs))"

definition merge_free_before ::
  "AllocArea \<Rightarrow> AllocArea list \<Rightarrow> AllocArea list \<Rightarrow> AllocArea \<times> AllocArea list \<times> AllocArea list" where
  "merge_free_before new fa fs =
     (case bt_last_less addr_key (addr_key new) fa of
        None \<Rightarrow> (new, fa, fs)
      | Some e \<Rightarrow>
          if addr_key e + area_n_pages e = addr_key new
          then (\<lparr>inner = set_start_page_index (inner new) (addr_key e),
                 area_n_pages = area_n_pages new + area_n_pages e\<rparr>,
                bt_remove addr_key e fa, bt_remove size_key e fs)
          else (new, fa, fs))"

definition free_area :: "u64 \<Rightarrow> nat option \<Rightarrow> AllocationInfo \<Rightarrow> AllocationInfo option" where
  "free_area addr n_opt info =
     (let addr_page = unat (trim_addr_extension addr) div 4096;
          n = (case n_opt of Some n \<Rightarrow> n | None \<Rightarrow> 2 ^ 64 - 1)
      in case bt_last_le addr_key addr_page (used_areas info) of
           None \<Rightarrow> None
         | Some entry \<Rightarrow>
             if addr_key entry + area_n_pages entry \<le> addr_page then None
             else
               (let used = bt_remove addr_key entry (used_areas info);
                    n = min n (addr_key entry + area_n_pages entry - addr_page);
                    left_in_front = (addr_page - addr_key entry) div 0x1000
                in checked_sub (area_n_pages entry) left_in_front \<bind> (\<lambda>d.
                   checked_sub d n \<bind> (\<lambda>left_after.
                   let used = (if 0 < left_in_front
                               then bt_insert addr_key
                                 \<lparr>inner = set_start_page_index (inner entry) (addr_key entry),
                                  area_n_pages = left_in_front\<rparr> used
                               else used);
                       used = (if 0 < left_after
                               then bt_insert addr_key
                                 \<lparr>inner = set_start_page_index (inner entry) (addr_page + n),
                                  area_n_pages = left_after\<rparr> used
                               else used);
                       new_free = \<lparr>inner = set_start_page_index 0 addr_page, area_n_pages = n\<rparr>;
                       (new_free, fa, fs) =
                         merge_free_after new_free (free_addr_sorted info) (free_size_sorted info);
                       (new_free, fa, fs) = merge_free_before new_free fa fs
                   in Some \<lparr>free_size_sorted = bt_insert size_key new_free fs,
                            free_addr_sorted = bt_insert addr_key new_free fa,
                            used_areas = used\<rparr>))))"

section \<open>Bit fields\<close>

lemma start_set [simp]: "i < 2 ^ 48 \<Longrightarrow> start_page_index (set_start_page_index w i) = i"
proof -
  assume i: "i < 2 ^ 48"
  have "take_bit 48 (set_start_page_index w i) = take_bit 48 (word_of_nat i :: u64)"
    by (rule bit_word_eqI) (auto simp: set_start_page_index_def bit_simps)
  then show ?thesis
    using i by (simp add: start_page_index_def unsigned_take_bit_eq unat_u64_of_nat take_bit_nat_eq_self)
qed

lemma start_of_nat [simp]: "i < 2 ^ 48 \<Longrightarrow> start_page_index (word_of_nat i) = i"
  by (simp add: start_page_index_def unsigned_take_bit_eq unat_u64_of_nat take_bit_nat_eq_self)

lemma area_flags_zero: "area_flags w = 0"
proof -
  have m: "(0x3F :: u64) = mask 6" by (simp add: mask_eq_exp_minus_1)
  have "push_bit 48 w AND 0x3F = (0 :: u64)"
    unfolding m by (rule bit_word_eqI) (auto simp: bit_simps)
  then show ?thesis by (simp add: area_flags_def)
qed

section \<open>Areas as page sets\<close>

definition pages :: "AllocArea \<Rightarrow> nat set" where
  "pages a = {addr_key a..<addr_key a + area_n_pages a}"

definition all_pages :: "AllocArea list \<Rightarrow> nat set" where
  "all_pages xs = \<Union>(pages ` set xs)"

text \<open>Page indexes of 48-bit addresses fit in 36 bits.\<close>

definition area_ok :: "AllocArea \<Rightarrow> bool" where
  "area_ok a \<longleftrightarrow> 0 < area_n_pages a \<and> addr_key a + area_n_pages a \<le> 2 ^ 36"

definition areas_ok :: "AllocArea list \<Rightarrow> bool" where
  "areas_ok xs \<longleftrightarrow> bt_ok addr_key xs \<and> (\<forall>a\<in>set xs. area_ok a) \<and>
     (\<forall>a\<in>set xs. \<forall>b\<in>set xs. a \<noteq> b \<longrightarrow> pages a \<inter> pages b = {})"

definition info_ok :: "AllocationInfo \<Rightarrow> bool" where
  "info_ok info \<longleftrightarrow>
     areas_ok (free_addr_sorted info) \<and> areas_ok (used_areas info) \<and>
     bt_ok size_key (free_size_sorted info) \<and>
     set (free_size_sorted info) = set (free_addr_sorted info) \<and>
     all_pages (free_addr_sorted info) \<inter> all_pages (used_areas info) = {}"

lemma key_in_pages: "area_ok a \<Longrightarrow> addr_key a \<in> pages a"
  by (simp add: area_ok_def pages_def)

lemma areas_remove:
  assumes "areas_ok xs" and "e \<in> set xs"
  shows "areas_ok (bt_remove addr_key e xs)" and "set (bt_remove addr_key e xs) = set xs - {e}"
    and "all_pages (bt_remove addr_key e xs) = all_pages xs - pages e"
proof -
  show s: "set (bt_remove addr_key e xs) = set xs - {e}"
    using assms by (simp add: areas_ok_def bt_remove_set)
  show "areas_ok (bt_remove addr_key e xs)"
    using assms bt_remove_ok [of addr_key xs e] unfolding areas_ok_def s by blast
  show "all_pages (bt_remove addr_key e xs) = all_pages xs - pages e"
    using assms unfolding all_pages_def s areas_ok_def by blast
qed

lemma areas_insert:
  assumes "areas_ok xs" and "area_ok a" and "pages a \<inter> all_pages xs = {}"
  shows "areas_ok (bt_insert addr_key a xs)" and "set (bt_insert addr_key a xs) = insert a (set xs)"
    and "all_pages (bt_insert addr_key a xs) = pages a \<union> all_pages xs"
    and "addr_key a \<notin> addr_key ` set xs"
proof -
  show k: "addr_key a \<notin> addr_key ` set xs"
  proof
    assume "addr_key a \<in> addr_key ` set xs"
    then obtain b where "b \<in> set xs" "addr_key a = addr_key b" by blast
    with assms key_in_pages [of a] key_in_pages [of b] show False
      by (auto simp: areas_ok_def all_pages_def)
  qed
  show s: "set (bt_insert addr_key a xs) = insert a (set xs)"
    using assms(1) k by (simp add: areas_ok_def bt_insert_set)
  show p: "all_pages (bt_insert addr_key a xs) = pages a \<union> all_pages xs"
    unfolding all_pages_def s by simp
  show "areas_ok (bt_insert addr_key a xs)"
    using assms bt_insert_ok [of addr_key xs a] unfolding areas_ok_def s all_pages_def by blast
qed

text \<open>What joining an area with a neighbour keeps.\<close>

definition merged :: "AllocArea \<Rightarrow> AllocArea list \<Rightarrow> AllocArea \<Rightarrow> AllocArea list \<Rightarrow> bool" where
  "merged new xs a u \<longleftrightarrow> areas_ok u \<and> area_ok a \<and> pages a \<inter> all_pages u = {} \<and>
     pages a \<union> all_pages u = pages new \<union> all_pages xs \<and> set u \<subseteq> set xs"

lemma merged_refl:
  "areas_ok xs \<Longrightarrow> area_ok new \<Longrightarrow> pages new \<inter> all_pages xs = {} \<Longrightarrow> merged new xs new xs"
  by (simp add: merged_def)

lemma merged_join:
  assumes "areas_ok xs" and "area_ok new" and "pages new \<inter> all_pages xs = {}" and "e \<in> set xs"
    and "pages a = pages new \<union> pages e" and "area_ok a"
  shows "merged new xs a (bt_remove addr_key e xs)"
proof -
  have "pages e \<subseteq> all_pages xs" using assms(4) by (auto simp: all_pages_def)
  then show ?thesis
    using areas_remove [OF assms(1,4)] assms(3,5,6) unfolding merged_def by auto
qed

lemma pages_join:
  assumes "addr_key a = addr_key l" and "area_n_pages a = area_n_pages l + area_n_pages r"
    and "addr_key r = addr_key l + area_n_pages l" and "area_ok l" and "area_ok r"
  shows "pages a = pages l \<union> pages r \<and> area_ok a"
  using assms by (auto simp: pages_def area_ok_def)

lemma areas_ok_mem: "areas_ok xs \<Longrightarrow> e \<in> set xs \<Longrightarrow> area_ok e"
  by (simp add: areas_ok_def)

lemma area_end_index:
  "area_ok a \<Longrightarrow> start_page_index (word_of_nat (addr_key a + area_n_pages a)) = addr_key a + area_n_pages a"
  by (rule start_of_nat) (simp add: area_ok_def)

lemma merge_used_after_merged:
  assumes "areas_ok xs" and "area_ok new" and "pages new \<inter> all_pages xs = {}"
    and "merge_used_after new xs = (a, u)"
  shows "merged new xs a u"
proof (cases "bt_get addr_key (addr_key new + area_n_pages new) xs")
  case None
  with assms show ?thesis by (simp add: merge_used_after_def area_end_index merged_refl del: of_nat_add)
next
  case (Some e)
  from bt_get_Some [OF Some] have e: "e \<in> set xs" "addr_key e = addr_key new + area_n_pages new" by auto
  let ?a = "new\<lparr>area_n_pages := area_n_pages new + area_n_pages e\<rparr>"
  have "pages ?a = pages new \<union> pages e \<and> area_ok ?a"
    by (rule pages_join) (use assms(1,2) e areas_ok_mem in \<open>auto simp: addr_key_def\<close>)
  with merged_join [OF assms(1-3) e(1), of ?a] show ?thesis
    using assms(2,4) Some by (simp add: merge_used_after_def area_end_index area_flags_zero del: of_nat_add)
qed

lemma merge_used_before_merged:
  assumes "areas_ok xs" and "area_ok new" and "pages new \<inter> all_pages xs = {}"
    and "merge_used_before new xs = (a, u)"
  shows "merged new xs a u"
proof (cases "bt_last_less addr_key (addr_key new) xs")
  case None
  with assms show ?thesis by (simp add: merge_used_before_def merged_refl)
next
  case (Some e)
  have e: "e \<in> set xs" using bt_last_less_Some [OF _ Some] assms(1) by (simp add: areas_ok_def)
  let ?a = "\<lparr>inner = set_start_page_index (inner new) (addr_key e),
             area_n_pages = area_n_pages new + area_n_pages e\<rparr>"
  show ?thesis
  proof (cases "addr_key e + area_n_pages e = addr_key new")
    case True
    have "addr_key e < 2 ^ 48" using assms(1) e by (auto simp: areas_ok_def area_ok_def)
    then have "addr_key ?a = addr_key e" by (simp add: addr_key_def)
    then have "pages ?a = pages e \<union> pages new \<and> area_ok ?a"
      by (intro pages_join) (use assms(1,2) e areas_ok_mem True in auto)
    with merged_join [OF assms(1-3) e, of ?a] show ?thesis
      using assms(4) Some True by (simp add: merge_used_before_def area_flags_zero Un_commute)
  next
    case False
    with assms Some show ?thesis by (simp add: merge_used_before_def merged_refl)
  qed
qed

lemma merged_trans:
  "merged new xs a u \<Longrightarrow> merged a u b w \<Longrightarrow> merged new xs b w"
  by (auto simp: merged_def)

text \<open>Both free sets after removing or inserting an area.\<close>

definition free_ok :: "AllocArea list \<Rightarrow> AllocArea list \<Rightarrow> bool" where
  "free_ok fa fs \<longleftrightarrow> areas_ok fa \<and> bt_ok size_key fs \<and> set fs = set fa"

lemma free_remove:
  assumes "free_ok fa fs" and "e \<in> set fa"
  shows "free_ok (bt_remove addr_key e fa) (bt_remove size_key e fs)"
  using assms areas_remove [of fa e] bt_remove_set [of size_key fs e] bt_remove_ok [of size_key fs e]
  by (auto simp: free_ok_def)

lemma free_insert:
  assumes "free_ok fa fs" and "area_ok a" and "pages a \<inter> all_pages fa = {}"
  shows "free_ok (bt_insert addr_key a fa) (bt_insert size_key a fs)"
proof -
  have ins: "areas_ok (bt_insert addr_key a fa)" "set (bt_insert addr_key a fa) = insert a (set fa)"
    "addr_key a \<notin> addr_key ` set fa"
    using areas_insert [of fa a] assms by (auto simp: free_ok_def)
  have "size_key a \<notin> size_key ` set fs"
    using ins(3) assms(1) by (force simp: free_ok_def size_key_def addr_key_def)
  then show ?thesis
    using ins assms(1) by (auto simp: free_ok_def bt_insert_set bt_insert_ok)
qed

lemma merge_free_after_merged:
  assumes "free_ok fa fs" and "area_ok new" and "pages new \<inter> all_pages fa = {}"
    and "merge_free_after new fa fs = (a, fa', fs')"
  shows "merged new fa a fa' \<and> free_ok fa' fs'"
proof (cases "bt_get addr_key (addr_key new + area_n_pages new) fa")
  case None
  with assms show ?thesis
    by (auto simp: merge_free_after_def area_end_index free_ok_def intro!: merged_refl simp del: of_nat_add)
next
  case (Some e)
  from bt_get_Some [OF Some] have e: "e \<in> set fa" "addr_key e = addr_key new + area_n_pages new" by auto
  have fa: "areas_ok fa" using assms(1) by (simp add: free_ok_def)
  let ?a = "new\<lparr>area_n_pages := area_n_pages new + area_n_pages e\<rparr>"
  have "pages ?a = pages new \<union> pages e \<and> area_ok ?a"
    by (rule pages_join) (use fa assms(2) e areas_ok_mem in \<open>auto simp: addr_key_def\<close>)
  with merged_join [OF fa assms(2,3) e(1), of ?a] free_remove [OF assms(1) e(1)] show ?thesis
    using assms(2,4) Some by (auto simp: merge_free_after_def area_end_index simp del: of_nat_add)
qed

lemma merge_free_before_merged:
  assumes "free_ok fa fs" and "area_ok new" and "pages new \<inter> all_pages fa = {}"
    and "merge_free_before new fa fs = (a, fa', fs')"
  shows "merged new fa a fa' \<and> free_ok fa' fs'"
proof (cases "bt_last_less addr_key (addr_key new) fa")
  case None
  with assms show ?thesis by (auto simp: merge_free_before_def free_ok_def intro!: merged_refl)
next
  case (Some e)
  have fa: "areas_ok fa" using assms(1) by (simp add: free_ok_def)
  have e: "e \<in> set fa" using bt_last_less_Some [OF _ Some] fa by (simp add: areas_ok_def)
  let ?a = "\<lparr>inner = set_start_page_index (inner new) (addr_key e),
             area_n_pages = area_n_pages new + area_n_pages e\<rparr>"
  show ?thesis
  proof (cases "addr_key e + area_n_pages e = addr_key new")
    case True
    have "addr_key e < 2 ^ 48" using fa e by (auto simp: areas_ok_def area_ok_def)
    then have "addr_key ?a = addr_key e" by (simp add: addr_key_def)
    then have "pages ?a = pages e \<union> pages new \<and> area_ok ?a"
      by (intro pages_join) (use fa assms(2) e areas_ok_mem True in auto)
    with merged_join [OF fa assms(2,3) e, of ?a] free_remove [OF assms(1) e] show ?thesis
      using assms(4) Some True by (auto simp: merge_free_before_def Un_commute)
  next
    case False
    with assms Some fa show ?thesis by (auto simp: merge_free_before_def intro!: merged_refl)
  qed
qed

section \<open>Correctness\<close>

lemma info_ok_free: "info_ok info \<Longrightarrow> free_ok (free_addr_sorted info) (free_size_sorted info)"
  by (simp add: info_ok_def free_ok_def)

lemma take_from_area:
  assumes "free_ok fa fs" and "e \<in> set fa" and "0 < n" and "n \<le> area_n_pages e"
    and "new_empty = \<lparr>inner = set_start_page_index (inner e) (addr_key e + n),
                      area_n_pages = area_n_pages e - n\<rparr>"
    and "fa' = (if 0 < area_n_pages e - n then bt_insert addr_key new_empty (bt_remove addr_key e fa)
                else bt_remove addr_key e fa)"
    and "fs' = (if 0 < area_n_pages e - n then bt_insert size_key new_empty (bt_remove size_key e fs)
                else bt_remove size_key e fs)"
  shows "free_ok fa' fs' \<and> all_pages fa' = all_pages fa - {addr_key e..<addr_key e + n} \<and>
    {addr_key e..<addr_key e + n} \<subseteq> all_pages fa"
proof -
  have fa: "areas_ok fa" using assms(1) by (simp add: free_ok_def)
  have eok: "area_ok e" using fa assms(2) by (rule areas_ok_mem)
  note r = areas_remove [OF fa assms(2)] and fr = free_remove [OF assms(1,2)]
  have pe: "pages e \<subseteq> all_pages fa" using assms(2) by (auto simp: all_pages_def)
  have sub: "{addr_key e..<addr_key e + n} \<subseteq> pages e" using assms(4) by (auto simp: pages_def)
  show ?thesis
  proof (cases "0 < area_n_pages e - n")
    case True
    have k: "addr_key new_empty = addr_key e + n"
      using eok assms(4,5) True by (simp add: addr_key_def area_ok_def)
    have ok: "area_ok new_empty" using k eok True assms(4,5) by (auto simp: area_ok_def)
    have p: "pages new_empty = pages e - {addr_key e..<addr_key e + n}"
      unfolding pages_def k using assms(4,5) by auto
    then have d: "pages new_empty \<inter> all_pages (bt_remove addr_key e fa) = {}" using r(3) by auto
    show ?thesis
      using True assms(6,7) free_insert [OF fr ok d] areas_insert(3) [OF r(1) ok d] r(3) p pe sub
      by auto
  next
    case False
    then have "pages e = {addr_key e..<addr_key e + n}" using assms(4) by (auto simp: pages_def)
    then show ?thesis using False assms(6,7) fr r(3) pe by auto
  qed
qed

lemma record_used_ok:
  assumes "areas_ok used" and "area_ok new" and "pages new \<inter> all_pages used = {}"
  shows "areas_ok (record_used fl new used) \<and> all_pages (record_used fl new used) = pages new \<union> all_pages used"
proof -
  obtain a u where au: "(if no_merge_info fl then (new, used)
      else let (a, u) = merge_used_after new used in merge_used_before a u) = (a, u)"
    by (metis surj_pair)
  have m: "merged new used a u"
  proof (cases "no_merge_info fl")
    case False
    obtain a1 u1 where 1: "merge_used_after new used = (a1, u1)" by fastforce
    from merge_used_after_merged [OF assms(1-3) 1] have m1: "merged new used a1 u1" .
    have "merge_used_before a1 u1 = (a, u)" using False au 1 by simp
    with merge_used_before_merged [of u1 a1 a u] m1 have "merged a1 u1 a u"
      by (simp add: merged_def)
    with m1 show ?thesis by (rule merged_trans)
  qed (use assms au merged_refl in simp)
  have "record_used fl new used = bt_insert addr_key a u"
    unfolding record_used_def au by simp
  with areas_insert [of u a] m show ?thesis by (simp add: merged_def)
qed

lemma last_le_own:
  assumes "areas_ok used" and "e \<in> set used" and "addr_key e \<le> p" and "p < addr_key e + area_n_pages e"
  shows "bt_last_le addr_key p used = Some e"
proof (cases "bt_last_le addr_key p used")
  case None
  with assms show ?thesis by (auto simp: bt_last_le_None not_less [symmetric])
next
  case (Some x)
  have "bt_ok addr_key used" using assms(1) by (simp add: areas_ok_def)
  from bt_last_le_Some [OF this Some] assms have x: "x \<in> set used" "addr_key x \<le> p"
    "addr_key e \<le> addr_key x" by auto
  have "addr_key x \<in> pages e" using x assms(4) by (simp add: pages_def)
  moreover have "addr_key x \<in> pages x" using areas_ok_mem [OF assms(1) x(1)] by (rule key_in_pages)
  ultimately have "x = e" using assms(1,2) x(1) by (auto simp: areas_ok_def)
  with Some show ?thesis by simp
qed

text \<open>The released pages join the free areas.\<close>

lemma release_merge:
  assumes "free_ok fa fs" and "area_ok new" and "pages new \<inter> all_pages fa = {}"
    and "merge_free_after new fa fs = (a1, fa1, fs1)" and "merge_free_before a1 fa1 fs1 = (a, fa', fs')"
  shows "free_ok (bt_insert addr_key a fa') (bt_insert size_key a fs') \<and>
    all_pages (bt_insert addr_key a fa') = pages new \<union> all_pages fa"
proof -
  have m1: "merged new fa a1 fa1" "free_ok fa1 fs1" using merge_free_after_merged [OF assms(1-4)] by auto
  then have "area_ok a1" "pages a1 \<inter> all_pages fa1 = {}" by (auto simp: merged_def)
  from merge_free_before_merged [OF m1(2) this assms(5)] m1(1)
  have m: "merged new fa a fa'" "free_ok fa' fs'" by (auto intro: merged_trans)
  then have ok: "area_ok a" "pages a \<inter> all_pages fa' = {}" "pages a \<union> all_pages fa' = pages new \<union> all_pages fa"
    by (auto simp: merged_def)
  have "areas_ok fa'" using m(2) by (simp add: free_ok_def)
  from free_insert [OF m(2) ok(1,2)] areas_insert(3) [OF this ok(1,2)] ok(3) show ?thesis by simp
qed

lemma released_area:
  assumes "area_ok e" and "addr_key e \<le> p" and "p < addr_key e + area_n_pages e"
    and "0 < n" and "n \<le> addr_key e + area_n_pages e - p"
  shows "area_ok \<lparr>inner = set_start_page_index 0 p, area_n_pages = n\<rparr>"
    and "pages \<lparr>inner = set_start_page_index 0 p, area_n_pages = n\<rparr> = {p..<p + n}"
  using assms by (auto simp: area_ok_def pages_def addr_key_def)

section \<open>Properties\<close>

text \<open>A state with the free pages 100 to 109 and the used pages 50 to 69.\<close>

definition demo_info :: AllocationInfo where
  "demo_info = \<lparr>free_size_sorted = [\<lparr>inner = 100, area_n_pages = 10\<rparr>],
     free_addr_sorted = [\<lparr>inner = 100, area_n_pages = 10\<rparr>],
     used_areas = [\<lparr>inner = 50, area_n_pages = 20\<rparr>]\<rparr>"

lemma demo_info_ok: "info_ok demo_info"
  by (simp add: info_ok_def demo_info_def areas_ok_def area_ok_def all_pages_def pages_def addr_key_def
      start_page_index_def)

text \<open>C36: the virtual area allocator keeps its three sets consistent and disjoint. A request
  for \<open>n\<close> pages fails exactly when no free area is that large; otherwise it returns the sign
  extended address of \<open>n\<close> pages that were all free, which become used, and no other page changes
  its state.\<close>

theorem allocate_area_correct:
  assumes "info_ok info" and "0 < n"
  shows "if \<exists>a\<in>set (free_addr_sorted info). n \<le> area_n_pages a
    then \<exists>s info'. allocate_area n fl info = Some (Some (extend_addr (word_of_nat (s * 0x1000))), info') \<and>
      info_ok info' \<and> {s..<s + n} \<subseteq> all_pages (free_addr_sorted info) \<and>
      all_pages (free_addr_sorted info') = all_pages (free_addr_sorted info) - {s..<s + n} \<and>
      all_pages (used_areas info') = all_pages (used_areas info) \<union> {s..<s + n}
    else allocate_area n fl info = Some (None, info)"
proof (cases "bt_first_ge size_key (n, 0) (free_size_sorted info)")
  case None
  then have "\<not> (\<exists>a\<in>set (free_addr_sorted info). n \<le> area_n_pages a)"
    using assms(1) by (fastforce simp: bt_first_ge_None info_ok_def size_key_def)
  then show ?thesis using None by (simp add: allocate_area_def)
next
  case (Some e)
  let ?fa = "free_addr_sorted info" and ?fs = "free_size_sorted info"
  have "e \<in> set ?fs \<and> (n, 0) \<le> size_key e"
    using bt_first_ge_Some [OF _ Some] assms(1) by (auto simp: info_ok_def)
  then have e: "e \<in> set ?fa" "n \<le> area_n_pages e" using assms(1) by (auto simp: info_ok_def size_key_def)
  let ?s = "addr_key e" and ?rest = "area_n_pages e - n"
  let ?ne = "\<lparr>inner = set_start_page_index (inner e) (?s + n), area_n_pages = ?rest\<rparr>"
  let ?fa' = "if 0 < ?rest then bt_insert addr_key ?ne (bt_remove addr_key e ?fa) else bt_remove addr_key e ?fa"
  let ?fs' = "if 0 < ?rest then bt_insert size_key ?ne (bt_remove size_key e ?fs) else bt_remove size_key e ?fs"
  let ?new = "new_used_area fl ?s n"
  have t: "free_ok ?fa' ?fs'" "all_pages ?fa' = all_pages ?fa - {?s..<?s + n}"
    "{?s..<?s + n} \<subseteq> all_pages ?fa"
    using take_from_area [OF info_ok_free [OF assms(1)] e(1) assms(2) e(2) refl refl refl] by auto
  have eok: "area_ok e" using assms(1) e(1) by (auto simp: info_ok_def intro: areas_ok_mem)
  then have k: "addr_key ?new = ?s" "area_n_pages ?new = n"
    using e(2) by (simp_all add: addr_key_def area_ok_def new_used_area_def)
  have new: "area_ok ?new" "pages ?new = {?s..<?s + n}"
    using k eok e(2) assms(2) by (auto simp: area_ok_def pages_def)
  have uok: "areas_ok (used_areas info)" and d: "pages ?new \<inter> all_pages (used_areas info) = {}"
    using assms(1) t(3) new(2) by (auto simp: info_ok_def)
  note ua = record_used_ok [OF uok new(1) d, of fl]
  let ?info' = "\<lparr>free_size_sorted = ?fs', free_addr_sorted = ?fa', used_areas = record_used fl ?new (used_areas info)\<rparr>"
  have "allocate_area n fl info = Some (Some (extend_addr (word_of_nat (?s * 0x1000))), ?info')"
    using Some e(2) by (simp add: allocate_area_def Let_def checked_simps del: of_nat_mult)
  moreover have "info_ok ?info'"
    using t(1,2) ua new(2) assms(1) by (auto simp: info_ok_def free_ok_def)
  moreover have "\<exists>a\<in>set ?fa. n \<le> area_n_pages a" using e by blast
  ultimately show ?thesis
    using t(2,3) ua new(2) by (simp only: if_True) (intro exI [of _ ?s] exI [of _ ?info'], auto)
qed

lemma allocate_area_correct_witness:
  "\<exists>s info'. allocate_area 4 default_area_flags demo_info =
      Some (Some (extend_addr (word_of_nat (s * 0x1000))), info') \<and> info_ok info' \<and>
    {s..<s + 4} \<subseteq> {100..<110}"
  using allocate_area_correct [OF demo_info_ok, of 4 default_area_flags]
  by (auto simp: demo_info_def all_pages_def pages_def addr_key_def start_page_index_def)

text \<open>releasing pages from the start of a used area makes exactly those pages free, joins
  them with the free neighbours and keeps the sets consistent.\<close>

theorem free_area_at_start:
  assumes "info_ok info" and "e \<in> set (used_areas info)"
    and "unat (trim_addr_extension addr) div 4096 = addr_key e"
    and "0 < m" and "m \<le> area_n_pages e"
  shows "\<exists>info'. free_area addr (Some m) info = Some info' \<and> info_ok info' \<and>
    all_pages (free_addr_sorted info') = all_pages (free_addr_sorted info) \<union> {addr_key e..<addr_key e + m} \<and>
    all_pages (used_areas info') = all_pages (used_areas info) - {addr_key e..<addr_key e + m}"
proof -
  let ?s = "addr_key e" and ?rest = "area_n_pages e - m" and ?u = "used_areas info"
  have uok: "areas_ok ?u" using assms(1) by (simp add: info_ok_def)
  have eok: "area_ok e" by (rule areas_ok_mem [OF uok assms(2)])
  have le: "bt_last_le addr_key ?s ?u = Some e"
    using last_le_own [OF uok assms(2), of ?s] eok by (simp add: area_ok_def)
  let ?new = "\<lparr>inner = set_start_page_index 0 ?s, area_n_pages = m\<rparr>"
  have new: "area_ok ?new" "pages ?new = {?s..<?s + m}"
    using released_area [OF eok, of ?s m] assms(4,5) by auto
  have sub: "{?s..<?s + m} \<subseteq> pages e" "pages e \<subseteq> all_pages ?u"
    using assms(2,5) by (auto simp: pages_def all_pages_def)
  let ?tail = "\<lparr>inner = set_start_page_index (inner e) (?s + m), area_n_pages = ?rest\<rparr>"
  let ?u' = "if 0 < ?rest then bt_insert addr_key ?tail (bt_remove addr_key e ?u) else bt_remove addr_key e ?u"
  note r = areas_remove [OF uok assms(2)]
  have u': "areas_ok ?u'" "all_pages ?u' = all_pages ?u - {?s..<?s + m}"
  proof -
    have k: "addr_key ?tail = ?s + m" if "0 < ?rest"
      using eok assms(5) that by (simp add: addr_key_def area_ok_def)
    have t: "area_ok ?tail" "pages ?tail = pages e - {?s..<?s + m}" if "0 < ?rest"
      using k [OF that] eok that assms(5) by (auto simp: area_ok_def pages_def)
    have d: "pages ?tail \<inter> all_pages (bt_remove addr_key e ?u) = {}" if "0 < ?rest"
      using t(2) [OF that] r(3) by auto
    have full: "pages e = {?s..<?s + m}" if "\<not> 0 < ?rest" using that assms(5) by (auto simp: pages_def)
    show "areas_ok ?u'" using areas_insert(1) [OF r(1) t(1) d] r(1) by simp
    show "all_pages ?u' = all_pages ?u - {?s..<?s + m}"
      using areas_insert(3) [OF r(1) t(1) d] r(3) t(2) full sub by auto
  qed
  obtain a1 fa1 fs1 where m1: "merge_free_after ?new (free_addr_sorted info) (free_size_sorted info) = (a1, fa1, fs1)"
    by (metis prod_cases3)
  obtain a fa fs where m2: "merge_free_before a1 fa1 fs1 = (a, fa, fs)" by (metis prod_cases3)
  have "pages ?new \<inter> all_pages (free_addr_sorted info) = {}"
    using assms(1) sub new(2) by (auto simp: info_ok_def)
  note fr = release_merge [OF info_ok_free [OF assms(1)] new(1) this m1 m2]
  let ?info' = "\<lparr>free_size_sorted = bt_insert size_key a fs, free_addr_sorted = bt_insert addr_key a fa,
    used_areas = ?u'\<rparr>"
  have "free_area addr (Some m) info = Some ?info'"
    using le assms(3-5) m1 m2 eok by (simp add: free_area_def Let_def checked_simps area_ok_def)
  moreover have "info_ok ?info'"
    using fr u' new(2) assms(1) by (auto simp: info_ok_def free_ok_def)
  ultimately show ?thesis using fr u'(2) new(2) by (intro exI [of _ ?info']) auto
qed

text \<open>releasing pages from the middle of a used area loses the pages in front of them:
  the distance to the start is divided by the page size although it already is a number of pages,
  so no area is kept for the front. Its first page is then neither used nor free. The area kept for
  the rest is too long by the same distance and covers the page behind the old area.\<close>

theorem free_area_middle_loses_front:
  assumes "info_ok info" and "e \<in> set (used_areas info)"
    and "unat (trim_addr_extension addr) div 4096 = addr_key e + d"
    and "0 < d" and "d < 4096" and "0 < m" and "d + m < area_n_pages e"
    and "addr_key e + d + area_n_pages e \<le> 2 ^ 36"
    and "addr_key e + d + m \<notin> addr_key ` (set (used_areas info) - {e})"
  shows "\<exists>info'. free_area addr (Some m) info = Some info' \<and>
    addr_key e \<in> all_pages (used_areas info) \<and> addr_key e \<notin> all_pages (used_areas info') \<and>
    addr_key e \<notin> all_pages (free_addr_sorted info') \<and>
    addr_key e + area_n_pages e \<in> all_pages (used_areas info')"
proof -
  let ?s = "addr_key e" and ?u = "used_areas info" and ?p = "addr_key e + d"
  let ?rest = "area_n_pages e - m"
  have uok: "areas_ok ?u" using assms(1) by (simp add: info_ok_def)
  have eok: "area_ok e" by (rule areas_ok_mem [OF uok assms(2)])
  have le: "bt_last_le addr_key ?p ?u = Some e"
    using last_le_own [OF uok assms(2), of ?p] assms(7) by simp
  let ?new = "\<lparr>inner = set_start_page_index 0 ?p, area_n_pages = m\<rparr>"
  have new: "area_ok ?new" "pages ?new = {?p..<?p + m}"
    using released_area [OF eok, of ?p m] assms(6,7) by auto
  have sub: "{?p..<?p + m} \<subseteq> pages e" "pages e \<subseteq> all_pages ?u"
    using assms(2,7) by (auto simp: pages_def all_pages_def)
  let ?tail = "\<lparr>inner = set_start_page_index (inner e) (?p + m), area_n_pages = ?rest\<rparr>"
  have k: "addr_key ?tail = ?p + m" using assms(7,8) by (simp add: addr_key_def)
  let ?u' = "bt_insert addr_key ?tail (bt_remove addr_key e ?u)"
  note r = areas_remove [OF uok assms(2)]
  have "bt_ok addr_key (bt_remove addr_key e ?u)" using r(1) by (simp add: areas_ok_def)
  then have su: "set ?u' = insert ?tail (set ?u - {e})"
    using assms(9) k by (subst bt_insert_set) (auto simp: r(2))
  have pt: "pages ?tail = {?p + m..<?p + area_n_pages e}" using k assms(7) by (simp add: pages_def add.assoc)
  have others: "?s \<notin> pages b" if "b \<in> set ?u - {e}" for b
    using that uok assms(2) key_in_pages [OF eok] by (auto simp: areas_ok_def)
  obtain a1 fa1 fs1 where m1: "merge_free_after ?new (free_addr_sorted info) (free_size_sorted info) = (a1, fa1, fs1)"
    by (metis prod_cases3)
  obtain a fa fs where m2: "merge_free_before a1 fa1 fs1 = (a, fa, fs)" by (metis prod_cases3)
  have "pages ?new \<inter> all_pages (free_addr_sorted info) = {}"
    using assms(1) sub new(2) by (auto simp: info_ok_def)
  note fr = release_merge [OF info_ok_free [OF assms(1)] new(1) this m1 m2]
  let ?info' = "\<lparr>free_size_sorted = bt_insert size_key a fs, free_addr_sorted = bt_insert addr_key a fa,
    used_areas = ?u'\<rparr>"
  have "free_area addr (Some m) info = Some ?info'"
    using le assms(3-7) m1 m2 by (simp add: free_area_def Let_def checked_simps)
  moreover have "?s \<in> all_pages ?u" using key_in_pages [OF eok] assms(2) by (auto simp: all_pages_def)
  moreover from this have "?s \<notin> all_pages (bt_insert addr_key a fa)"
    using fr new(2) assms(1,4) by (auto simp: info_ok_def)
  moreover have "?s \<notin> all_pages ?u'" using others pt assms(4) unfolding all_pages_def su by auto
  moreover have "?s + area_n_pages e \<in> all_pages ?u'"
    unfolding all_pages_def su using pt assms(4,7) by auto
  ultimately show ?thesis by (intro exI [of _ ?info']) simp
qed

end
