(* ===== verification/PhysAllocator.thy ===== *)
theory PhysAllocator
  imports BuddyOps
begin

text \<open>
  The front end of the physical allocator (\<open>memory/physical_allocator/mod.rs\<close>) over the buddy
  allocator: owned addresses and ranges give their frames back when they are dropped.
\<close>

definition is_on_ram :: "nat \<Rightarrow> nat \<Rightarrow> bool" where
  "is_on_ram max_ram addr \<longleftrightarrow> addr \<le> max_ram"

definition deallocate_by_ref :: "nat \<Rightarrow> PhysRange \<Rightarrow> BuddyAllocator \<Rightarrow> BuddyAllocator option" where
  "deallocate_by_ref max_ram r b =
     (if n_pages r = 0 \<or> start r = 0 then Some b
      else if \<not> is_on_ram max_ram (start r) then Some b
      else deallocate b r)"

text \<open>\<open>Drop\<close> for \<open>OwnedPhysRange\<close> and for \<open>OwnedPhysAddr\<close>.\<close>

definition drop_owned_range :: "nat \<Rightarrow> PhysRange \<Rightarrow> BuddyAllocator \<Rightarrow> BuddyAllocator option" where
  "drop_owned_range max_ram r b = (if start r = 0 then Some b else deallocate_by_ref max_ram r b)"

definition drop_owned_addr :: "nat \<Rightarrow> nat \<Rightarrow> BuddyAllocator \<Rightarrow> BuddyAllocator option" where
  "drop_owned_addr max_ram addr b = drop_owned_range max_ram \<lparr>start = addr, n_pages = 1\<rparr> b"

section \<open>Releasing ranges\<close>

lemma deallocate_frames_wf:
  assumes "buddy_wf k b" and "distinct ps" and "\<forall>p\<in>set ps. p < 2 ^ k \<and> used k b p"
    and "length ps \<le> allocated_pages b"
  shows "\<exists>b'. deallocate_frames (map (\<lambda>p. p * 4096) ps) b = Some b' \<and> buddy_wf k b' \<and>
    used k b' = (\<lambda>q. if q \<in> set ps then False else used k b q) \<and>
    allocated_pages b' = allocated_pages b - length ps"
  using assms
proof (induction ps arbitrary: b)
  case (Cons p ps)
  from deallocate_frame_wf [OF Cons.prems(1), of p] Cons.prems(3,4) obtain b1 where b1:
    "deallocate_frame b (p * 4096) = Some b1" "buddy_wf k b1" "used k b1 = (used k b)(p := False)"
    "allocated_pages b1 = allocated_pages b - 1" by auto
  have "\<forall>q\<in>set ps. q < 2 ^ k \<and> used k b1 q" using Cons.prems(2,3) b1(3) by auto
  moreover have "length ps \<le> allocated_pages b1" using Cons.prems(4) b1(4) by simp
  moreover have "distinct ps" using Cons.prems(2) by simp
  ultimately obtain b' where b':
    "deallocate_frames (map (\<lambda>p. p * 4096) ps) b1 = Some b'" "buddy_wf k b'"
    "used k b' = (\<lambda>q. if q \<in> set ps then False else used k b1 q)"
    "allocated_pages b' = allocated_pages b1 - length ps" using Cons.IH [OF b1(2)] by blast
  have "used k b' = (\<lambda>q. if q \<in> set (p # ps) then False else used k b q)"
    unfolding b'(3) b1(3) by auto
  with b1 b' show ?case by auto
qed auto

lemma drop_owned_range_wf:
  assumes "buddy_wf k b" and "p \<noteq> 0" and "p * 4096 \<le> max_ram"
    and "\<forall>q. p \<le> q \<and> q < p + n \<longrightarrow> q < 2 ^ k \<and> used k b q" and "n \<le> allocated_pages b"
  shows "\<exists>b'. drop_owned_range max_ram \<lparr>start = p * 4096, n_pages = n\<rparr> b = Some b' \<and> buddy_wf k b' \<and>
    used k b' = (\<lambda>q. if p \<le> q \<and> q < p + n then False else used k b q) \<and>
    allocated_pages b' = allocated_pages b - n"
proof -
  have m: "map (\<lambda>i. p * 4096 + i * 4096) [0..<n] = map (\<lambda>q. q * 4096) [p..<p + n]"
    by (rule nth_equalityI) (simp_all add: algebra_simps)
  have "\<forall>q\<in>set [p..<p + n]. q < 2 ^ k \<and> used k b q" using assms(4) by simp
  from deallocate_frames_wf [OF assms(1) _ this] assms(5) obtain b' where b':
    "deallocate_frames (map (\<lambda>q. q * 4096) [p..<p + n]) b = Some b'" "buddy_wf k b'"
    "used k b' = (\<lambda>q. if q \<in> set [p..<p + n] then False else used k b q)"
    "allocated_pages b' = allocated_pages b - n" by auto
  have u: "used k b' = (\<lambda>q. if p \<le> q \<and> q < p + n then False else used k b q)"
    unfolding b'(3) by auto
  show ?thesis
  proof (cases "n = 0")
    case True
    then show ?thesis using assms(1) by (auto simp: drop_owned_range_def deallocate_by_ref_def)
  next
    case False
    then have "drop_owned_range max_ram \<lparr>start = p * 4096, n_pages = n\<rparr> b = Some b'"
      using assms(2,3) b'(1) m
      by (simp add: drop_owned_range_def deallocate_by_ref_def is_on_ram_def deallocate_def)
    then show ?thesis using b'(2,4) u by blast
  qed
qed

section \<open>Properties\<close>

text \<open>dropping the owner of a contiguous allocation gives all its frames back: after an
  allocation of \<open>n\<close> frames at a non-zero address in RAM and the drop of the returned range, the
  marks and the page count are those before.\<close>

theorem contiguous_drop_roundtrip:
  assumes "buddy_wf k b" and "0 < n" and "n \<le> 2 ^ k" and "allocate_contiguous b n = Some (r, b1)"
    and "start r \<noteq> 0" and "start r \<le> max_ram"
  shows "\<exists>b2. drop_owned_range max_ram r b1 = Some b2 \<and> buddy_wf k b2 \<and> used k b2 = used k b \<and>
    allocated_pages b2 = allocated_pages b"
proof -
  have "n \<le> binary_tree_size b div 2" using assms by (simp add: buddy_wf_def tree_ok_def)
  from order_fits [OF assms(1,2) this] obtain ord where
    ord: "log2_rounded_up n = Some ord" "ord \<le> k" "n \<le> 2 ^ ord" .
  from assms(4) obtain a where a: "allocate_contiguius b n = Some (a, b1)" and r: "r = \<lparr>start = a, n_pages = n\<rparr>"
    by (auto simp: allocate_contiguous_def bind_eq_Some_conv)
  from allocate_contiguius_wf [OF assms(1,2) ord] a obtain j where
    free: "run_free k b (j * 2 ^ ord) (2 ^ ord)" and j: "a = j * 2 ^ ord * 4096" and wf: "buddy_wf k b1"
    and n: "allocated_pages b1 = allocated_pages b + n"
    and u: "used k b1 = (\<lambda>q. if q \<in> set [j * 2 ^ ord..<j * 2 ^ ord + n] then True else used k b q)"
    by (auto split: if_splits)
  let ?p = "j * 2 ^ ord"
  have f: "q < 2 ^ k \<and> \<not> used k b q" if "?p \<le> q \<and> q < ?p + n" for q
    using free ord(3) that by (auto simp: run_free_def)
  have "\<forall>q. ?p \<le> q \<and> q < ?p + n \<longrightarrow> q < 2 ^ k \<and> used k b1 q" using f u by auto
  with drop_owned_range_wf [OF wf, of ?p max_ram n] assms(5,6) r j n obtain b2 where b2:
    "drop_owned_range max_ram r b1 = Some b2" "buddy_wf k b2"
    "used k b2 = (\<lambda>q. if ?p \<le> q \<and> q < ?p + n then False else used k b1 q)"
    "allocated_pages b2 = allocated_pages b" by auto
  have "used k b2 = used k b" unfolding b2(3) u using f by auto
  with b2 show ?thesis by blast
qed

end
