(* ===== verification/PageTableEntry.thy ===== *)
theory PageTableEntry
  imports Prelude
begin

text \<open>
  Page table entries (\<open>arch/x86_64/memory/page_table_entry.rs\<close>). An entry is a 64-bit word; the
  accessors follow the bit positions of its \<open>bitfield!\<close> declaration.
\<close>

section \<open>Bit fields\<close>

definition put_bit :: "nat \<Rightarrow> bool \<Rightarrow> u64 \<Rightarrow> u64" where
  "put_bit n v e = (if v then e OR push_bit n 1 else e AND NOT (push_bit n 1))"

definition present :: "u64 \<Rightarrow> bool" where "present e = bit e 0"
definition set_present :: "bool \<Rightarrow> u64 \<Rightarrow> u64" where "set_present = put_bit 0"
definition writeable :: "u64 \<Rightarrow> bool" where "writeable e = bit e 1"
definition set_writeable :: "bool \<Rightarrow> u64 \<Rightarrow> u64" where "set_writeable = put_bit 1"
definition user_accessible :: "u64 \<Rightarrow> bool" where "user_accessible e = bit e 2"
definition set_user_accessible :: "bool \<Rightarrow> u64 \<Rightarrow> u64" where "set_user_accessible = put_bit 2"
definition page_write_through :: "u64 \<Rightarrow> bool" where "page_write_through e = bit e 3"
definition set_page_write_through :: "bool \<Rightarrow> u64 \<Rightarrow> u64" where "set_page_write_through = put_bit 3"
definition page_cache_disable :: "u64 \<Rightarrow> bool" where "page_cache_disable e = bit e 4"
definition set_page_cache_disable :: "bool \<Rightarrow> u64 \<Rightarrow> u64" where "set_page_cache_disable = put_bit 4"
definition huge_page :: "u64 \<Rightarrow> bool" where "huge_page e = bit e 7"
definition set_huge_page :: "bool \<Rightarrow> u64 \<Rightarrow> u64" where "set_huge_page = put_bit 7"
definition no_execute :: "u64 \<Rightarrow> bool" where "no_execute e = bit e 63"
definition set_no_execute :: "bool \<Rightarrow> u64 \<Rightarrow> u64" where "set_no_execute = put_bit 63"

definition executable :: "u64 \<Rightarrow> bool" where "executable e = (\<not> no_execute e)"
definition set_executable :: "bool \<Rightarrow> u64 \<Rightarrow> u64" where "set_executable x = set_no_execute (\<not> x)"

section \<open>Caching\<close>

datatype MemoryCachingStrategy = Uncacheable | WriteCombining | WriteThrough | WriteBack | WriteProtected

datatype LiminePat = WB | WT | UCMinus | UC | WP | WC

fun from_pat_pcd_pwt :: "bool \<Rightarrow> bool \<Rightarrow> bool \<Rightarrow> LiminePat" where
  "from_pat_pcd_pwt False False False = WB"
| "from_pat_pcd_pwt False False True = WT"
| "from_pat_pcd_pwt False True False = UCMinus"
| "from_pat_pcd_pwt False True True = UC"
| "from_pat_pcd_pwt True False False = WP"
| "from_pat_pcd_pwt True False True = WC"
| "from_pat_pcd_pwt True True False = UC"
| "from_pat_pcd_pwt True True True = UC"

fun to_pat_pcd_pwt :: "LiminePat \<Rightarrow> bool \<times> bool \<times> bool" where
  "to_pat_pcd_pwt WB = (False, False, False)"
| "to_pat_pcd_pwt WT = (False, False, True)"
| "to_pat_pcd_pwt UCMinus = (False, True, False)"
| "to_pat_pcd_pwt UC = (False, True, True)"
| "to_pat_pcd_pwt WP = (True, False, False)"
| "to_pat_pcd_pwt WC = (True, False, True)"

fun pat_of_strategy :: "MemoryCachingStrategy \<Rightarrow> LiminePat" where
  "pat_of_strategy WriteBack = WB"
| "pat_of_strategy WriteThrough = WT"
| "pat_of_strategy Uncacheable = UC"
| "pat_of_strategy WriteProtected = WP"
| "pat_of_strategy WriteCombining = WC"

fun strategy_of_pat :: "LiminePat \<Rightarrow> MemoryCachingStrategy" where
  "strategy_of_pat WB = WriteBack"
| "strategy_of_pat WT = WriteThrough"
| "strategy_of_pat UCMinus = Uncacheable"
| "strategy_of_pat UC = Uncacheable"
| "strategy_of_pat WP = WriteProtected"
| "strategy_of_pat WC = WriteCombining"

definition set_pat :: "LiminePat \<Rightarrow> u64 \<Rightarrow> u64" where
  "set_pat p e =
     (case to_pat_pcd_pwt p of (_, pcd, pwt) \<Rightarrow>
        set_page_write_through pwt (set_page_cache_disable pcd e))"

definition pat :: "u64 \<Rightarrow> LiminePat" where
  "pat e = from_pat_pcd_pwt False (page_cache_disable e) (page_write_through e)"

definition entry_caching_strategy :: "u64 \<Rightarrow> MemoryCachingStrategy" where
  "entry_caching_strategy e =
     strategy_of_pat (from_pat_pcd_pwt False (page_cache_disable e) (page_write_through e))"

definition set_caching_strategy :: "MemoryCachingStrategy \<Rightarrow> u64 \<Rightarrow> u64" where
  "set_caching_strategy c e = set_pat (pat_of_strategy c) e"

definition caching_strategy :: "u64 \<Rightarrow> MemoryCachingStrategy" where
  "caching_strategy e = entry_caching_strategy e"

section \<open>Addresses\<close>

definition entry_new :: "u64 \<Rightarrow> bool \<Rightarrow> u64" where
  "entry_new phys_address user_mode =
     (let entry = ((phys_address AND 0xFFFFFFFFF000) OR 3) OR push_bit 63 1;
          entry = (if user_mode then entry OR 4 else entry)
      in set_pat WB entry)"

definition blank :: u64 where
  "blank = 0"

definition entry_address :: "u64 \<Rightarrow> u64" where
  "entry_address e = e AND 0xFFFFFFFFFF000"

definition set_address :: "u64 \<Rightarrow> u64 \<Rightarrow> u64" where
  "set_address a e = (e AND NOT 0xFFFFFFFFFF000) OR (a AND 0xFFFFFFFFFF000)"

lemmas entry_field_defs = present_def writeable_def user_accessible_def page_write_through_def
  page_cache_disable_def huge_page_def no_execute_def executable_def
lemmas entry_setter_defs = set_present_def set_writeable_def set_user_accessible_def
  set_page_write_through_def set_page_cache_disable_def set_huge_page_def set_no_execute_def
  set_executable_def

section \<open>Lemmas\<close>

lemma bit_put_bit: "n < 64 \<Longrightarrow> bit (put_bit n v e) m = (if m = n then v else bit e m)"
  by (auto simp: put_bit_def bit_simps dest: bit_imp_le_length)

lemma addr_mask_new: "(0xFFFFFFFFF000 :: u64) = push_bit 12 (mask 36)"
  by (simp add: mask_eq_exp_minus_1)

lemma addr_mask: "(0xFFFFFFFFFF000 :: u64) = push_bit 12 (mask 40)"
  by (simp add: mask_eq_exp_minus_1)

lemma bit_entry_address: "bit (entry_address e) n \<longleftrightarrow> 12 \<le> n \<and> n < 52 \<and> bit e n"
  unfolding entry_address_def addr_mask by (auto simp: bit_simps dest: bit_imp_le_length)

lemma bit_set_address:
  "bit (set_address a e) n \<longleftrightarrow> (if 12 \<le> n \<and> n < 52 then bit a n else bit e n)"
  unfolding set_address_def addr_mask by (auto simp: bit_simps dest: bit_imp_le_length)

lemma bit_set_pat:
  "bit (set_pat p e) n \<longleftrightarrow>
     (if n = 4 then fst (snd (to_pat_pcd_pwt p)) else if n = 3 then snd (snd (to_pat_pcd_pwt p)) else bit e n)"
  by (simp add: set_pat_def entry_setter_defs bit_put_bit split: prod.split)

lemma const_bits:
  "bit (3 :: u64) n \<longleftrightarrow> n = 0 \<or> n = 1" "bit (4 :: u64) n \<longleftrightarrow> n = 2"
  "bit (push_bit 63 1 :: u64) n \<longleftrightarrow> n = 63" "bit (0xFFFFFFFFF000 :: u64) n \<longleftrightarrow> 12 \<le> n \<and> n < 48"
proof -
  have "(3 :: u64) = mask 2" "(4 :: u64) = push_bit 2 1" by (simp_all add: mask_eq_exp_minus_1)
  then show "bit (3 :: u64) n \<longleftrightarrow> n = 0 \<or> n = 1" "bit (4 :: u64) n \<longleftrightarrow> n = 2"
    by (auto simp only: bit_mask_iff bit_push_bit_iff bit_1_iff) auto
  show "bit (push_bit 63 1 :: u64) n \<longleftrightarrow> n = 63"
    unfolding bit_push_bit_iff bit_1_iff by auto
  show "bit (0xFFFFFFFFF000 :: u64) n \<longleftrightarrow> 12 \<le> n \<and> n < 48"
    unfolding addr_mask_new bit_push_bit_iff bit_mask_iff by auto
qed

lemma bit_entry_new:
  "bit (entry_new a u) n \<longleftrightarrow>
     n = 0 \<or> n = 1 \<or> n = 63 \<or> (u \<and> n = 2) \<or> (12 \<le> n \<and> n < 48 \<and> bit a n)"
  unfolding entry_new_def Let_def bit_set_pat to_pat_pcd_pwt.simps fst_conv snd_conv
  by (cases u) (simp_all only: if_True if_False bit_or_iff bit_and_iff const_bits, auto)

section \<open>Properties\<close>

text \<open>a new entry is present, writeable, not executable, not huge, write-back cached and
  user accessible as asked, and its address is the page-aligned physical address given, exactly when
  that address is below \<open>2 ^ 48\<close>; higher frames, which \<open>address\<close> and \<open>set_address\<close> support, lose their
  top bits.\<close>

theorem entry_new_fields:
  assumes "take_bit 12 a = 0" and "take_bit 52 a = a"
  shows "present (entry_new a u) \<and> writeable (entry_new a u) \<and> \<not> executable (entry_new a u) \<and>
    \<not> huge_page (entry_new a u) \<and> user_accessible (entry_new a u) = u \<and>
    caching_strategy (entry_new a u) = WriteBack \<and>
    (entry_address (entry_new a u) = a \<longleftrightarrow> a < 2 ^ 48)"
proof -
  have lo: "\<not> bit a n" if "n < 12" for n
    using assms(1) that by (metis bit_0_eq bit_take_bit_iff bot_apply bot_bool_def)
  have hi: "\<not> bit a n" if "52 \<le> n" for n
    using assms(2) that by (metis bit_take_bit_iff not_le)
  have "entry_address (entry_new a u) = take_bit 48 a"
    by (rule bit_word_eqI) (use lo not_less in \<open>auto simp: bit_entry_address bit_entry_new bit_take_bit_iff\<close>)
  moreover have "take_bit 48 a = a \<longleftrightarrow> a < 2 ^ 48"
    by (simp add: word_unat_eq_iff unsigned_take_bit_eq take_bit_nat_eq_self_iff word_less_nat_alt)
  ultimately show ?thesis
    by (simp add: entry_field_defs bit_entry_new caching_strategy_def entry_caching_strategy_def)
qed

text \<open>reading back an address or a caching strategy that was set. The address field is
  independent of the flags. The strategies write-protected and write-combining do not survive,
  because the attribute-table bit they need is not written.\<close>

theorem entry_roundtrips:
  "entry_address (set_address a e) = entry_address a \<and>
   (\<forall>n. \<not> (12 \<le> n \<and> n < 52) \<longrightarrow> bit (set_address a e) n = bit e n) \<and>
   (caching_strategy (set_caching_strategy c e) = c \<longleftrightarrow> c \<notin> {WriteProtected, WriteCombining})"
proof (intro conjI)
  show "entry_address (set_address a e) = entry_address a"
    by (rule bit_word_eqI) (auto simp: bit_entry_address bit_set_address)
  show "\<forall>n. \<not> (12 \<le> n \<and> n < 52) \<longrightarrow> bit (set_address a e) n = bit e n"
    by (auto simp: bit_set_address)
  show "caching_strategy (set_caching_strategy c e) = c \<longleftrightarrow> c \<notin> {WriteProtected, WriteCombining}"
    by (cases c) (simp_all add: caching_strategy_def entry_caching_strategy_def set_caching_strategy_def
        page_cache_disable_def page_write_through_def bit_set_pat)
qed

end
