(* ===== verification/PageTable.thy ===== *)
theory PageTable
  imports PhysAllocator PageTableEntry
begin

text \<open>
  Page tables (\<open>arch/x86_64/memory/page_table.rs\<close>). Physical memory that holds page tables is a
  map from frame addresses to lists of 512 entries; frames come from the buddy allocator. A
  reference to an entry is the address of its table and its index. Recursion over the levels of the
  tree is structural, and each loop over the entries of a table is a recursion over the list of its
  indexes that takes the operation on the next lower level as an argument. Flushes of the TLB leave
  no trace in this state.
\<close>

section \<open>Memory\<close>

record pt_mem =
  tables :: "nat \<rightharpoonup> u64 list"
  frames :: BuddyAllocator
  max_ram_addr :: nat

definition read_entry :: "pt_mem \<Rightarrow> nat \<Rightarrow> nat \<Rightarrow> u64 option" where
  "read_entry m t i = tables m t \<bind> (\<lambda>es. index_at es i)"

definition write_entry :: "pt_mem \<Rightarrow> nat \<Rightarrow> nat \<Rightarrow> u64 \<Rightarrow> pt_mem option" where
  "write_entry m t i e =
     tables m t \<bind> (\<lambda>es.
       if i < length es then Some (m\<lparr>tables := (tables m)(t \<mapsto> es[i := e])\<rparr>) else None)"

text \<open>\<open>PageTable::new_empty\<close> and \<open>PageTable::clear\<close>.\<close>

definition new_empty :: "u64 list" where
  "new_empty = replicate 512 blank"

definition clear_table :: "pt_mem \<Rightarrow> nat \<Rightarrow> pt_mem" where
  "clear_table m t = m\<lparr>tables := (tables m)(t \<mapsto> new_empty)\<rparr>"

text \<open>\<open>physical_allocator::allocate()\<close>, alone and followed by clearing the frame.\<close>

definition alloc_frame :: "pt_mem \<Rightarrow> (nat \<times> pt_mem) option" where
  "alloc_frame m = allocate_frame (frames m) \<bind> (\<lambda>(a, b). Some (a, m\<lparr>frames := b\<rparr>))"

definition alloc_zeroed :: "pt_mem \<Rightarrow> (nat \<times> pt_mem) option" where
  "alloc_zeroed m = alloc_frame m \<bind> (\<lambda>(a, m'). Some (a, clear_table m' a))"

definition drop_addr :: "nat \<Rightarrow> pt_mem \<Rightarrow> pt_mem option" where
  "drop_addr a m = drop_owned_addr (max_ram_addr m) a (frames m) \<bind> (\<lambda>b. Some (m\<lparr>frames := b\<rparr>))"

definition drop_range :: "PhysRange \<Rightarrow> pt_mem \<Rightarrow> pt_mem option" where
  "drop_range r m = drop_owned_range (max_ram_addr m) r (frames m) \<bind> (\<lambda>b. Some (m\<lparr>frames := b\<rparr>))"

text \<open>\<open>(addr_diff >> (12 + 9 * (level - 1))) & 0x1FF\<close> with \<open>l = level - 1\<close>.\<close>

definition level_index :: "nat \<Rightarrow> nat \<Rightarrow> nat" where
  "level_index l addr = (addr div 2 ^ (12 + 9 * l)) mod 512"

section \<open>Deleting a tree\<close>

primrec delete_entries ::
  "(nat \<Rightarrow> pt_mem \<Rightarrow> pt_mem option) \<Rightarrow> nat \<Rightarrow> bool \<Rightarrow> u64 list \<Rightarrow> pt_mem \<Rightarrow> pt_mem option" where
  "delete_entries lower l dealloc_phys [] m = Some m"
| "delete_entries lower l dealloc_phys (e # es) m =
     (if \<not> present e then Some m
      else if l = 0 then (if dealloc_phys then drop_addr (unat (entry_address e)) m else Some m)
      else if huge_page e
      then (if dealloc_phys
            then drop_range \<lparr>start = unat (entry_address e), n_pages = 512 ^ l\<rparr> m else Some m)
      else lower (unat (entry_address e)) m) \<bind> delete_entries lower l dealloc_phys es"

primrec delete :: "nat \<Rightarrow> bool \<Rightarrow> nat \<Rightarrow> pt_mem \<Rightarrow> pt_mem option" where
  "delete 0 dealloc_phys self_phys m = (if dealloc_phys then drop_addr self_phys m else Some m)"
| "delete (Suc l) dealloc_phys self_phys m =
     (if l \<noteq> 0 \<or> dealloc_phys
      then tables m self_phys \<bind> (\<lambda>es. delete_entries (delete l dealloc_phys) l dealloc_phys es m)
      else Some m) \<bind> drop_addr self_phys"

section \<open>Kernel mappings\<close>

primrec map_leaf :: "nat \<Rightarrow> nat \<Rightarrow> nat \<Rightarrow> nat list \<Rightarrow> pt_mem \<Rightarrow> pt_mem option" where
  "map_leaf t start_index phys [] m = Some m"
| "map_leaf t start_index phys (i # is) m =
     read_entry m t i \<bind> (\<lambda>e.
     panic_unless (\<not> present e) \<bind> (\<lambda>_.
     checked_add 64 phys ((i - start_index) * 0x1000) \<bind> (\<lambda>addr.
     write_entry m t i (entry_new (word_of_nat addr) False) \<bind>
     map_leaf t start_index phys is)))"

text \<open>The table below entry \<open>i\<close>, allocated when the entry is not present.\<close>

definition lower_table :: "bool \<Rightarrow> nat \<Rightarrow> nat \<Rightarrow> pt_mem \<Rightarrow> (nat \<times> pt_mem) option" where
  "lower_table user t i m =
     read_entry m t i \<bind> (\<lambda>e.
     if \<not> present e
     then alloc_zeroed m \<bind> (\<lambda>(a, m1).
          write_entry m1 t i (entry_new (word_of_nat a) user) \<bind> (\<lambda>m2. Some (a, m2)))
     else Some (unat (entry_address e), m))"

type_synonym map_result = "pt_mem \<times> (nat \<times> nat) \<times> nat"

primrec map_upper ::
  "(nat \<Rightarrow> nat \<Rightarrow> nat \<Rightarrow> nat \<Rightarrow> nat \<Rightarrow> pt_mem \<Rightarrow> map_result option) \<Rightarrow> nat \<Rightarrow> nat \<Rightarrow>
   nat \<Rightarrow> nat \<Rightarrow> nat \<Rightarrow> nat \<Rightarrow> nat list \<Rightarrow> nat \<Rightarrow> (nat \<times> nat) option \<Rightarrow> pt_mem \<Rightarrow>
   (pt_mem \<times> (nat \<times> nat) option \<times> nat) option" where
  "map_upper lower l t phys virt n node_virt [] allocated first m = Some (m, first, allocated)"
| "map_upper lower l t phys virt n node_virt (i # is) allocated first m =
     (if \<not> allocated < n then Some (m, first, allocated)
      else lower_table False t i m \<bind> (\<lambda>(lower_phys, m1).
           read_entry m1 t i \<bind> (\<lambda>e.
           panic_unless (\<not> huge_page e) \<bind> (\<lambda>_.
           checked_add 64 phys (allocated * 0x1000) \<bind> (\<lambda>phys'.
           checked_add 64 virt (allocated * 0x1000) \<bind> (\<lambda>virt'.
           lower lower_phys phys' virt' (n - allocated) (node_virt + i * 2 ^ (12 + 9 * l)) m1 \<bind>
           (\<lambda>(m2, first', newly).
           map_upper lower l t phys virt n node_virt is (allocated + newly)
             (case first of None \<Rightarrow> Some first' | Some f \<Rightarrow> Some f) m2)))))))"

primrec kernel_manual_map ::
  "nat \<Rightarrow> nat \<Rightarrow> nat \<Rightarrow> nat \<Rightarrow> nat \<Rightarrow> nat \<Rightarrow> pt_mem \<Rightarrow> map_result option" where
  "kernel_manual_map 0 t phys virt n node_virt m = None"
| "kernel_manual_map (Suc l) t phys virt n node_virt m =
     panic_unless (0 < n) \<bind> (\<lambda>_.
     checked_sub virt node_virt \<bind> (\<lambda>diff.
     let start_index = level_index l diff in
     if l = 0
     then (let max_index = min (start_index + n) 512 in
           map_leaf t start_index phys [start_index..<max_index] m \<bind> (\<lambda>m'.
           Some (m', (t, start_index), max_index - start_index)))
     else map_upper (kernel_manual_map l) l t phys virt n node_virt [start_index..<512] 0 None m \<bind>
          (\<lambda>(m', first, allocated).
          first \<bind> (\<lambda>f. Some (m', f, allocated)))))"

primrec unmap_leaf :: "nat \<Rightarrow> nat list \<Rightarrow> pt_mem \<Rightarrow> pt_mem option" where
  "unmap_leaf t [] m = Some m"
| "unmap_leaf t (i # is) m =
     read_entry m t i \<bind> (\<lambda>e.
     panic_unless (present e) \<bind> (\<lambda>_.
     write_entry m t i (set_present False e) \<bind> unmap_leaf t is))"

definition none_present :: "pt_mem \<Rightarrow> nat \<Rightarrow> bool option" where
  "none_present m t = tables m t \<bind> (\<lambda>es. Some (\<forall>e\<in>set es. \<not> present e))"

primrec unmap_upper ::
  "(nat \<Rightarrow> nat \<Rightarrow> nat \<Rightarrow> nat \<Rightarrow> pt_mem \<Rightarrow> (pt_mem \<times> nat) option) \<Rightarrow> nat \<Rightarrow> nat \<Rightarrow>
   nat \<Rightarrow> nat \<Rightarrow> nat \<Rightarrow> nat list \<Rightarrow> nat \<Rightarrow> pt_mem \<Rightarrow> (pt_mem \<times> nat) option" where
  "unmap_upper lower l t virt n node_virt [] freed m = Some (m, freed)"
| "unmap_upper lower l t virt n node_virt (i # is) freed m =
     (if \<not> freed < n then Some (m, freed)
      else read_entry m t i \<bind> (\<lambda>e.
           panic_unless (present e) \<bind> (\<lambda>_.
           panic_unless (\<not> huge_page e) \<bind> (\<lambda>_.
           let lower_phys = unat (entry_address e) in
           checked_add 64 virt (freed * 0x1000) \<bind> (\<lambda>virt'.
           lower lower_phys virt' (n - freed) (node_virt + i * 2 ^ (12 + 9 * l)) m \<bind> (\<lambda>(m1, newly).
           none_present m1 lower_phys \<bind> (\<lambda>empty.
           (if empty
            then read_entry m1 t i \<bind> (\<lambda>e1.
                 write_entry m1 t i (set_present False e1) \<bind> drop_addr lower_phys)
            else Some m1) \<bind> (\<lambda>m2.
           unmap_upper lower l t virt n node_virt is (freed + newly) m2))))))))"

primrec kernel_manual_unmap ::
  "nat \<Rightarrow> nat \<Rightarrow> nat \<Rightarrow> nat \<Rightarrow> nat \<Rightarrow> pt_mem \<Rightarrow> (pt_mem \<times> nat) option" where
  "kernel_manual_unmap 0 t virt n node_virt m = None"
| "kernel_manual_unmap (Suc l) t virt n node_virt m =
     panic_unless (0 < n) \<bind> (\<lambda>_.
     checked_sub virt node_virt \<bind> (\<lambda>diff.
     let start_index = level_index l diff in
     if l = 0
     then (let max_index = min (start_index + n) 512 in
           unmap_leaf t [start_index..<max_index] m \<bind> (\<lambda>m'. Some (m', max_index - start_index)))
     else unmap_upper (kernel_manual_unmap l) l t virt n node_virt [start_index..<512] 0 m))"

section \<open>User mappings\<close>

record VirtualMemoryRangePermissions =
  perm_write :: bool
  perm_execute :: bool

text \<open>The indexes \<open>start_index..end_index\<close> of a table at page \<open>table_page\<close> for the pages
  \<open>first..last\<close>, in 32-bit arithmetic.\<close>

definition entry_range :: "nat \<Rightarrow> nat \<Rightarrow> nat \<Rightarrow> nat \<Rightarrow> nat list option" where
  "entry_range pages_per_entry first last' table_page =
     checked_mul 32 pages_per_entry 512 \<bind> (\<lambda>size.
     checked_add 32 table_page size \<bind> (\<lambda>table_end.
     let start_page = max first table_page; end_page = min last' table_end in
     checked_sub start_page table_page \<bind> (\<lambda>s.
     checked_sub end_page table_page \<bind> (\<lambda>e.
     Some [s div pages_per_entry..<div_ceil e pages_per_entry]))))"

primrec user_map_entries ::
  "(nat \<Rightarrow> nat \<Rightarrow> pt_mem \<Rightarrow> pt_mem option) \<Rightarrow> nat \<Rightarrow> VirtualMemoryRangePermissions \<Rightarrow> nat \<Rightarrow> nat \<Rightarrow>
   nat list \<Rightarrow> pt_mem \<Rightarrow> pt_mem option" where
  "user_map_entries lower l perms t table_page [] m = Some m"
| "user_map_entries lower l perms t table_page (i # is) m =
     read_entry m t i \<bind> (\<lambda>e.
     (if l = 0
      then (if present e then Some m
            else alloc_frame m \<bind> (\<lambda>(a, m1).
                 write_entry m1 t i
                   (set_no_execute (\<not> perm_execute perms)
                     (set_writeable (perm_write perms) (entry_new (word_of_nat a) True)))))
      else panic_unless (\<not> (present e \<and> huge_page e)) \<bind> (\<lambda>_.
           lower_table True t i m \<bind> (\<lambda>(_, m1).
           read_entry m1 t i \<bind> (\<lambda>e1.
           let e2 = set_writeable (writeable e1 \<or> perm_write perms) e1;
               e3 = set_no_execute (no_execute e2 \<and> \<not> perm_execute perms) e2
           in write_entry m1 t i e3 \<bind> (\<lambda>m2.
              lower (unat (entry_address e3)) (table_page + i * 512 ^ l) m2))))) \<bind>
     user_map_entries lower l perms t table_page is)"

primrec userspace_map ::
  "nat \<Rightarrow> nat \<Rightarrow> nat \<Rightarrow> VirtualMemoryRangePermissions \<Rightarrow> nat \<Rightarrow> nat \<Rightarrow> pt_mem \<Rightarrow> pt_mem option" where
  "userspace_map 0 first last' perms t table_page m = (if first < last' then None else Some m)"
| "userspace_map (Suc l) first last' perms t table_page m =
     (if \<not> first < last' then Some m
      else entry_range (512 ^ l) first last' table_page \<bind> (\<lambda>is.
           user_map_entries (userspace_map l first last' perms) l perms t table_page is m))"

primrec user_unmap_entries ::
  "(nat \<Rightarrow> nat \<Rightarrow> pt_mem \<Rightarrow> pt_mem option) \<Rightarrow> nat \<Rightarrow> nat \<Rightarrow> nat \<Rightarrow> nat list \<Rightarrow> pt_mem \<Rightarrow> pt_mem option" where
  "user_unmap_entries lower l t table_page [] m = Some m"
| "user_unmap_entries lower l t table_page (i # is) m =
     read_entry m t i \<bind> (\<lambda>e.
     (if \<not> present e then Some m
      else if l = 0 then write_entry m t i blank
      else panic_unless (\<not> huge_page e) \<bind> (\<lambda>_.
           let lower_phys = unat (entry_address e) in
           lower lower_phys (table_page + i * 512 ^ l) m \<bind> (\<lambda>m1.
           none_present m1 lower_phys \<bind> (\<lambda>empty.
           if empty then write_entry m1 t i blank \<bind> drop_addr lower_phys else Some m1)))) \<bind>
     user_unmap_entries lower l t table_page is)"

primrec userspace_unmap :: "nat \<Rightarrow> nat \<Rightarrow> nat \<Rightarrow> nat \<Rightarrow> nat \<Rightarrow> pt_mem \<Rightarrow> pt_mem option" where
  "userspace_unmap 0 first last' t table_page m = (if first < last' then None else Some m)"
| "userspace_unmap (Suc l) first last' t table_page m =
     (if \<not> first < last' then Some m
      else entry_range (512 ^ l) first last' table_page \<bind> (\<lambda>is.
           user_unmap_entries (userspace_unmap l first last') l t table_page is m))"

section \<open>Protection\<close>

primrec set_prot_entries ::
  "(nat \<Rightarrow> nat \<Rightarrow> pt_mem \<Rightarrow> pt_mem option) \<Rightarrow> nat \<Rightarrow> VirtualMemoryRangePermissions \<Rightarrow> nat \<Rightarrow> nat \<Rightarrow>
   nat list \<Rightarrow> pt_mem \<Rightarrow> pt_mem option" where
  "set_prot_entries lower l perms t table_addr [] m = Some m"
| "set_prot_entries lower l perms t table_addr (i # is) m =
     read_entry m t i \<bind> (\<lambda>e.
     (if \<not> present e then Some m
      else if l = 0 \<or> huge_page e
      then write_entry m t i
             (set_no_execute (\<not> perm_execute perms) (set_writeable (perm_write perms) e))
      else (let e2 = set_writeable (writeable e \<or> perm_write perms) e;
                e3 = set_no_execute (no_execute e2 \<and> \<not> perm_execute perms) e2
            in write_entry m t i e3 \<bind> (\<lambda>m1.
               lower (unat (entry_address e3)) (table_addr + i * 512 ^ l * 4096) m1))) \<bind>
     set_prot_entries lower l perms t table_addr is)"

primrec set_prot ::
  "nat \<Rightarrow> nat \<Rightarrow> nat \<Rightarrow> VirtualMemoryRangePermissions \<Rightarrow> nat \<Rightarrow> nat \<Rightarrow> pt_mem \<Rightarrow> pt_mem option" where
  "set_prot 0 first last' perms t table_addr m = (if first < last' then None else Some m)"
| "set_prot (Suc l) first last' perms t table_addr m =
     (if \<not> first < last' then Some m
      else (let entry_size = 512 ^ l * 4096;
                start_addr = max first table_addr;
                end_addr = min last' (table_addr + entry_size * 512)
            in checked_sub start_addr table_addr \<bind> (\<lambda>s.
               checked_sub end_addr table_addr \<bind> (\<lambda>e.
               set_prot_entries (set_prot l first last' perms) l perms t table_addr
                 [s div entry_size..<div_ceil e entry_size] m))))"

section \<open>Looking up entries\<close>

primrec get_page_table_entry ::
  "nat \<Rightarrow> nat \<Rightarrow> nat \<Rightarrow> nat \<Rightarrow> nat \<Rightarrow> bool \<Rightarrow> pt_mem \<Rightarrow> ((nat \<times> nat) option \<times> pt_mem) option" where
  "get_page_table_entry 0 t virt node_virt desired alloc m = None"
| "get_page_table_entry (Suc l) t virt node_virt desired alloc m =
     checked_sub virt node_virt \<bind> (\<lambda>diff.
     let index = level_index l diff in
     if Suc l = desired then Some (Some (t, index), m)
     else read_entry m t index \<bind> (\<lambda>e.
          if \<not> present e \<and> \<not> alloc then Some (None, m)
          else (if \<not> present e
                then alloc_zeroed m \<bind> (\<lambda>(a, m1).
                     write_entry m1 t index
                       (set_no_execute False (set_writeable True
                         (entry_new (word_of_nat a) (virt < 2 ^ 48)))))
                else Some m) \<bind> (\<lambda>m2.
               read_entry m2 t index \<bind> (\<lambda>e2.
               if huge_page e2 then Some (None, m2)
               else get_page_table_entry l (unat (entry_address e2)) virt
                      (node_virt + index * 2 ^ (12 + 9 * l)) desired alloc m2))))"

primrec get_table_at_level :: "nat \<Rightarrow> nat \<Rightarrow> nat \<Rightarrow> nat \<Rightarrow> nat \<Rightarrow> pt_mem \<Rightarrow> nat option option" where
  "get_table_at_level 0 t addr node_virt wanted m = None"
| "get_table_at_level (Suc l) t addr node_virt wanted m =
     checked_sub addr node_virt \<bind> (\<lambda>diff.
     let index = level_index l diff in
     read_entry m t index \<bind> (\<lambda>e.
     if \<not> present e then Some None
     else panic_unless (l \<noteq> 0) \<bind> (\<lambda>_.
          if huge_page e then Some None
          else (let lower_phys = unat (entry_address e) in
                if Suc l = wanted + 1 then Some (Some lower_phys)
                else get_table_at_level l lower_phys addr (node_virt + index * 2 ^ (12 + 9 * l)) wanted m))))"

section \<open>Free ranges\<close>

text \<open>One entry of the loop of \<open>get_free_ranges\<close>: the finished ranges and the current one.\<close>

definition free_ranges_step ::
  "(nat \<Rightarrow> nat \<Rightarrow> (nat \<times> nat) list option) \<Rightarrow> nat \<Rightarrow> nat \<Rightarrow> u64 \<Rightarrow>
   (nat \<times> nat) list \<times> (nat \<times> nat) option \<Rightarrow> ((nat \<times> nat) list \<times> (nat \<times> nat) option) option" where
  "free_ranges_step lower l addr e = (\<lambda>(res, curr).
     if \<not> present e
     then (let (a, n) = (case curr of None \<Rightarrow> (addr, 0) | Some c \<Rightarrow> c)
           in Some (res, Some (a, n + 2 ^ (l * 9))))
     else if huge_page e \<or> l = 0
     then Some (case curr of None \<Rightarrow> res | Some c \<Rightarrow> res @ [c], None)
     else lower (unat (entry_address e)) addr \<bind> (\<lambda>lower_ranges.
       let (curr, lower_ranges) =
         (case (curr, lower_ranges) of
            (Some (a, n), (fa, fn) # rest) \<Rightarrow>
              if a + n * 0x1000 = fa then (None, (a, n + fn) # rest) else (curr, lower_ranges)
          | _ \<Rightarrow> (curr, lower_ranges));
           res = (case curr of None \<Rightarrow> res | Some c \<Rightarrow> res @ [c])
       in Some (if lower_ranges = [] then (res, None)
                else (res @ butlast lower_ranges, Some (last lower_ranges)))))"

primrec free_ranges_loop ::
  "(nat \<Rightarrow> nat \<Rightarrow> (nat \<times> nat) list option) \<Rightarrow> nat \<Rightarrow> nat \<Rightarrow> u64 list \<Rightarrow>
   (nat \<times> nat) list \<times> (nat \<times> nat) option \<Rightarrow> ((nat \<times> nat) list \<times> (nat \<times> nat) option) option" where
  "free_ranges_loop lower l addr [] s = Some s"
| "free_ranges_loop lower l addr (e # es) s =
     free_ranges_step lower l addr e s \<bind> free_ranges_loop lower l (addr + 2 ^ (12 + 9 * l)) es"

primrec get_free_ranges :: "nat \<Rightarrow> pt_mem \<Rightarrow> nat \<Rightarrow> nat \<Rightarrow> (nat \<times> nat) list option" where
  "get_free_ranges 0 m t node_virt = None"
| "get_free_ranges (Suc l) m t node_virt =
     tables m t \<bind> (\<lambda>es.
     free_ranges_loop (get_free_ranges l m) l node_virt es ([], None) \<bind> (\<lambda>(res, curr).
     Some (case curr of None \<Rightarrow> res | Some c \<Rightarrow> res @ [c])))"

section \<open>Entry accesses\<close>

lemma read_write_entry:
  "write_entry m t i e = Some m' \<Longrightarrow>
     read_entry m' t' j = (if t' = t \<and> j = i then Some e else read_entry m t' j)"
  by (auto simp: write_entry_def read_entry_def index_at_def nth_list_update split: Option.bind_splits if_splits)

lemma write_entry_Some:
  "read_entry m t i = Some e \<Longrightarrow> \<exists>m'. write_entry m t i e' = Some m'"
  by (auto simp: write_entry_def read_entry_def index_at_def split: Option.bind_splits if_splits)

lemma write_entry_frames: "write_entry m t i e = Some m' \<Longrightarrow> frames m' = frames m \<and> max_ram_addr m' = max_ram_addr m"
  by (auto simp: write_entry_def split: Option.bind_splits if_splits)

lemma map_leaf_entries:
  assumes "\<forall>i\<in>set is. \<exists>e. read_entry m t i = Some e" and "distinct is"
    and "\<forall>i\<in>set is. phys + (i - s) * 0x1000 < 2 ^ 64"
  shows "if \<exists>i\<in>set is. \<exists>e. read_entry m t i = Some e \<and> present e then map_leaf t s phys is m = None
    else \<exists>m'. map_leaf t s phys is m = Some m' \<and>
      (\<forall>t' j. read_entry m' t' j = (if t' = t \<and> j \<in> set is
         then Some (entry_new (word_of_nat (phys + (j - s) * 0x1000)) False) else read_entry m t' j))"
  using assms
proof (induction "is" arbitrary: m)
  case (Cons i "is")
  from Cons.prems(1) obtain e where e: "read_entry m t i = Some e" by auto
  show ?case
  proof (cases "present e")
    case True
    with e have "map_leaf t s phys (i # is) m = None" by simp
    moreover have "\<exists>j\<in>set (i # is). \<exists>e. read_entry m t j = Some e \<and> present e" using e True by auto
    ultimately show ?thesis by (simp only: if_True)
  next
    case False
    let ?v = "entry_new (word_of_nat (phys + (i - s) * 0x1000)) False"
    from write_entry_Some [OF e, of ?v] obtain m1 where m1: "write_entry m t i ?v = Some m1" by blast
    note r = read_write_entry [OF m1]
    have st: "map_leaf t s phys (i # is) m = map_leaf t s phys is m1"
      using e False m1 Cons.prems(3) by (simp add: checked_simps)
    have ex: "(\<exists>j\<in>set (i # is). \<exists>e. read_entry m t j = Some e \<and> present e) \<longleftrightarrow>
        (\<exists>j\<in>set is. \<exists>e. read_entry m1 t j = Some e \<and> present e)"
      using e False Cons.prems(2) by (auto simp: r)
    have "\<forall>j\<in>set is. \<exists>e. read_entry m1 t j = Some e" using Cons.prems(1) by (auto simp: r)
    note IH = Cons.IH [OF this] 
    show ?thesis
    proof (cases "\<exists>j\<in>set is. \<exists>e. read_entry m1 t j = Some e \<and> present e")
      case True
      with IH Cons.prems(2,3) show ?thesis unfolding ex st by simp
    next
      case n: False
      with IH Cons.prems(2,3) obtain m' where m': "map_leaf t s phys is m1 = Some m'"
        "\<forall>t' j. read_entry m' t' j = (if t' = t \<and> j \<in> set is
         then Some (entry_new (word_of_nat (phys + (j - s) * 0x1000)) False) else read_entry m1 t' j)"
        by auto
      have "\<forall>t' j. read_entry m' t' j = (if t' = t \<and> j \<in> set (i # is)
         then Some (entry_new (word_of_nat (phys + (j - s) * 0x1000)) False) else read_entry m t' j)"
        using m'(2) by (auto simp: r)
      with m'(1) n show ?thesis unfolding ex st by auto
    qed
  qed
qed auto

lemma level_index_less: "level_index l a < 512"
  by (simp add: level_index_def)

lemma free_loop_absent:
  "free_ranges_loop lower l addr (replicate n 0) (res, Some (a, c)) = Some (res, Some (a, c + n * 2 ^ (l * 9)))"
  by (induction n arbitrary: addr c) (simp_all add: free_ranges_step_def present_def algebra_simps)

lemma free_loop_present:
  "present p \<Longrightarrow> free_ranges_loop lower 0 addr (replicate (Suc n) p) (res, Some c) = Some (res @ [c], None)"
proof -
  assume p: "present p"
  have none: "free_ranges_loop lower 0 addr (replicate n p) (r, None) = Some (r, None)" for addr r
    by (induction n arbitrary: addr) (simp_all add: free_ranges_step_def p)
  then show ?thesis using p by (simp add: free_ranges_step_def)
qed

lemma free_loop_append:
  "free_ranges_loop lower l addr (xs @ ys) s =
     free_ranges_loop lower l addr xs s \<bind> free_ranges_loop lower l (addr + length xs * 2 ^ (12 + 9 * l)) ys"
  by (induction xs arbitrary: addr s) (auto simp: algebra_simps split: Option.bind_splits)

section \<open>Properties\<close>

text \<open>mapping \<open>n\<close> pages into a lowest-level table. When one of the entries from the page's
  index on, up to the end of the table, is already present, the kernel panics. Otherwise those
  entries, and no others in any table, point to consecutive frames, and the number of mapped pages
  and the first entry are returned.\<close>

theorem kernel_manual_map_level_1:
  assumes "tables m t = Some es" and "length es = 512" and "0 < n" and "node_virt \<le> virt"
    and "phys + 512 * 0x1000 < 2 ^ 64"
  shows "let s = level_index 0 (virt - node_virt); e = min (s + n) 512 in
    if \<exists>i\<in>{s..<e}. present (es ! i) then kernel_manual_map 1 t phys virt n node_virt m = None
    else \<exists>m'. kernel_manual_map 1 t phys virt n node_virt m = Some (m', (t, s), e - s) \<and> 0 < e - s \<and>
      (\<forall>t' j. read_entry m' t' j = (if t' = t \<and> s \<le> j \<and> j < e
         then Some (entry_new (word_of_nat (phys + (j - s) * 0x1000)) False) else read_entry m t' j))"
proof -
  define s where "s = level_index 0 (virt - node_virt)"
  define e where "e = min (s + n) 512"
  have s: "s < 512" by (simp add: s_def level_index_less)
  have rd: "read_entry m t i = (if i < 512 then Some (es ! i) else None)" for i
    using assms(1,2) by (simp add: read_entry_def index_at_def)
  have "\<forall>i\<in>set [s..<e]. \<exists>x. read_entry m t i = Some x" by (auto simp: rd e_def)
  moreover have "phys + (i - s) * 0x1000 < 2 ^ 64" if "i \<in> set [s..<e]" for i
  proof -
    have "i - s \<le> 512" using that by (auto simp: e_def)
    then have "(i - s) * 0x1000 \<le> 512 * 0x1000" by (rule mult_le_mono1)
    with assms(5) show ?thesis by linarith
  qed
  ultimately have M: "if \<exists>i\<in>set [s..<e]. \<exists>x. read_entry m t i = Some x \<and> present x
      then map_leaf t s phys [s..<e] m = None
    else \<exists>m'. map_leaf t s phys [s..<e] m = Some m' \<and>
      (\<forall>t' j. read_entry m' t' j = (if t' = t \<and> j \<in> set [s..<e]
         then Some (entry_new (word_of_nat (phys + (j - s) * 0x1000)) False) else read_entry m t' j))"
    by (intro map_leaf_entries) auto
  have ex: "(\<exists>i\<in>set [s..<e]. \<exists>x. read_entry m t i = Some x \<and> present x) \<longleftrightarrow> (\<exists>i\<in>{s..<e}. present (es ! i))"
    by (auto simp: rd e_def)
  have k: "kernel_manual_map 1 t phys virt n node_virt m =
      map_leaf t s phys [s..<e] m \<bind> (\<lambda>m'. Some (m', (t, s), e - s))"
    using assms(3,4) by (simp add: s_def e_def Let_def checked_simps)
  have "0 < e - s" using s assms(3) by (simp add: e_def)
  with M show ?thesis unfolding Let_def s_def [symmetric] e_def [symmetric] ex k
    by (cases "\<exists>i\<in>{s..<e}. present (es ! i)") auto
qed

text \<open>\<open>get_free_ranges\<close> joins ranges that are not adjacent. In a level-2 table whose first
  entry points to a table with the first \<open>a\<close> pages free and the other \<open>b\<close> mapped, and whose other
  entries are absent, the single range it reports starts at page 0 and contains page \<open>a\<close>, which is
  mapped.\<close>

theorem free_ranges_join_nonadjacent:
  assumes "a + b = 512" and "0 < a" and "0 < b" and "present p" and "present x" and "\<not> huge_page x"
    and "tables m t = Some (x # replicate 511 0)"
    and "tables m (unat (entry_address x)) = Some (replicate a 0 @ replicate b p)"
  shows "get_free_ranges 2 m t 0 = Some [(0, a + 511 * 512)] \<and> a < a + 511 * 512 \<and>
    (\<exists>e. read_entry m (unat (entry_address x)) a = Some e \<and> present e)"
proof -
  obtain a' b' where ab: "a = Suc a'" "b = Suc b'" using assms(2,3) by (metis gr0_implies_Suc)
  have "free_ranges_loop f 0 0 (replicate a 0) ([], None) = Some ([], Some (0, a))" for f
    using free_loop_absent [of f 0 4096 a' "[]" 0 1] ab by (simp add: free_ranges_step_def present_def)
  then have "free_ranges_loop f 0 0 (replicate a 0 @ replicate b p) ([], None) = Some ([(0, a)], None)" for f
    using free_loop_present [OF assms(4), of f _ b' "[]" "(0, a)"] ab(2)
    by (simp add: free_loop_append del: replicate_Suc)
  then have low: "get_free_ranges 1 m (unat (entry_address x)) 0 = Some [(0, a)]"
    using assms(8) by simp
  have "free_ranges_step (get_free_ranges 1 m) 1 0 x ([], None) = Some ([], Some (0, a))"
    using low assms(5,6) by (simp add: free_ranges_step_def)
  then have "get_free_ranges (Suc 1) m t 0 = Some [(0, a + 511 * 512)]"
    using assms(7) free_loop_absent [of "get_free_ranges 1 m" 1 _ 511 "[]" 0 a] by simp
  then have "get_free_ranges 2 m t 0 = Some [(0, a + 511 * 512)]" unfolding Suc_1 .
  moreover have "read_entry m (unat (entry_address x)) a = Some p"
    using assms(1,3,8) by (simp add: read_entry_def index_at_def nth_append)
  ultimately show ?thesis using assms(4) by simp
qed

end
