(* ===== verification/VirtMemManager.thy ===== *)
theory VirtMemManager
  imports AllocationArea PageTable
begin

text \<open>
  The virtual memory manager's functions (\<open>memory/virt_mem_manager/mod.rs\<close>) over the area
  allocator and the page tables. The current root table, a CPU register, is an argument.
\<close>

section \<open>Kernel mappings\<close>

record vmm_state =
  area_info :: AllocationInfo
  pt :: pt_mem

definition vmm_kernel_manual_map ::
  "nat \<Rightarrow> PhysRange \<Rightarrow> nat option \<Rightarrow> vmm_state \<Rightarrow> ((nat \<times> nat) \<times> (nat \<times> nat) \<times> vmm_state) option" where
  "vmm_kernel_manual_map current_root r root s =
     allocate_area (n_pages r) default_area_flags (area_info s) \<bind> (\<lambda>(v, info).
     v \<bind> (\<lambda>virt.
     let t = (case root of Some t \<Rightarrow> t | None \<Rightarrow> current_root) in
     PageTable.kernel_manual_map 4 t (start r) (unat virt) (n_pages r) 0 (pt s) \<bind>
     (\<lambda>(m, first, _).
     Some ((unat virt, n_pages r), first, s\<lparr>area_info := info, pt := m\<rparr>))))"

definition vmm_kernel_manual_unmap ::
  "nat \<Rightarrow> u64 \<Rightarrow> nat \<Rightarrow> nat option \<Rightarrow> vmm_state \<Rightarrow> vmm_state option" where
  "vmm_kernel_manual_unmap current_root virt n root s =
     free_area virt (Some n) (area_info s) \<bind> (\<lambda>info.
     let t = (case root of Some t \<Rightarrow> t | None \<Rightarrow> current_root) in
     kernel_manual_unmap 4 t (unat virt) n 0 (pt s) \<bind> (\<lambda>(m, _).
     Some (s\<lparr>area_info := info, pt := m\<rparr>)))"

text \<open>\<open>init_paging\<close> after \<open>prepare_higher_half\<close>: the free ranges of the tree become the free
  areas.\<close>

primrec prepare_entries :: "nat \<Rightarrow> nat list \<Rightarrow> pt_mem \<Rightarrow> pt_mem option" where
  "prepare_entries t [] m = Some m"
| "prepare_entries t (i # is) m =
     read_entry m t i \<bind> (\<lambda>e.
     (if present e then Some m
      else alloc_zeroed m \<bind> (\<lambda>(a, m1). write_entry m1 t i (entry_new (word_of_nat a) False))) \<bind>
     prepare_entries t is)"

definition prepare_higher_half :: "nat \<Rightarrow> pt_mem \<Rightarrow> pt_mem option" where
  "prepare_higher_half root m = prepare_entries root [256..<512] m"

definition init_paging :: "nat \<Rightarrow> vmm_state \<Rightarrow> vmm_state option" where
  "init_paging root s =
     prepare_higher_half root (pt s) \<bind> (\<lambda>m.
     get_free_ranges 4 m root 0 \<bind> (\<lambda>ranges.
     init_allocation_area ranges (area_info s) \<bind> (\<lambda>info.
     Some (s\<lparr>area_info := info, pt := m\<rparr>))))"

primrec unmap_lower_entries :: "nat \<Rightarrow> nat list \<Rightarrow> pt_mem \<Rightarrow> pt_mem option" where
  "unmap_lower_entries t [] m = Some m"
| "unmap_lower_entries t (i # is) m =
     read_entry m t i \<bind> (\<lambda>e.
     (if \<not> present e then Some m
      else panic_unless (\<not> huge_page e) \<bind> (\<lambda>_. write_entry m t i (set_present False e))) \<bind>
     unmap_lower_entries t is)"

definition unmap_lower_half :: "nat \<Rightarrow> pt_mem \<Rightarrow> pt_mem option" where
  "unmap_lower_half root m = unmap_lower_entries root [0..<256] m"

primrec copy_entries :: "nat \<Rightarrow> nat \<Rightarrow> nat list \<Rightarrow> pt_mem \<Rightarrow> pt_mem option" where
  "copy_entries existing_tree new_tree [] m = Some m"
| "copy_entries existing_tree new_tree (i # is) m =
     read_entry m existing_tree i \<bind> (\<lambda>e.
     write_entry m new_tree i e \<bind> copy_entries existing_tree new_tree is)"

definition copy_higher_half :: "nat \<Rightarrow> nat \<Rightarrow> pt_mem \<Rightarrow> pt_mem option" where
  "copy_higher_half existing_tree new_tree m = copy_entries existing_tree new_tree [256..<512] m"

section \<open>User mappings\<close>

definition vmm_userspace_map ::
  "nat \<Rightarrow> nat \<Rightarrow> VirtualMemoryRangePermissions \<Rightarrow> nat \<Rightarrow> nat \<Rightarrow> nat \<Rightarrow> pt_mem \<Rightarrow>
   (unit kresult \<times> pt_mem) option" where
  "vmm_userspace_map first last' perms t level table_page m =
     (if level = 0
      then (if first \<noteq> 0 \<or> last' \<noteq> 1 then Some (Inl InvalidArgument, m) else Some (Inr (), m))
      else panic_unless (1 \<le> level \<and> level < 4) \<bind> (\<lambda>_.
           userspace_map level first last' perms t table_page m \<bind> (\<lambda>m'. Some (Inr (), m'))))"

definition vmm_userspace_unmap ::
  "nat \<Rightarrow> nat \<Rightarrow> nat \<Rightarrow> nat \<Rightarrow> nat \<Rightarrow> pt_mem \<Rightarrow> (unit kresult \<times> pt_mem) option" where
  "vmm_userspace_unmap first last' t level table_page m =
     (if level = 0
      then (if first \<noteq> 0 \<or> last' \<noteq> 1 then Some (Inl InvalidArgument, m) else Some (Inr (), m))
      else panic_unless (1 \<le> level \<and> level < 4) \<bind> (\<lambda>_.
           userspace_unmap level first last' t table_page m \<bind> (\<lambda>m'. Some (Inr (), m'))))"

definition vmm_set_prot ::
  "nat \<Rightarrow> nat \<Rightarrow> nat \<Rightarrow> VirtualMemoryRangePermissions \<Rightarrow> nat \<Rightarrow> nat \<Rightarrow> pt_mem \<Rightarrow> pt_mem option" where
  "vmm_set_prot t first last' perms level table_addr m =
     panic_unless (1 \<le> level \<and> level \<le> 4) \<bind> (\<lambda>_. set_prot level first last' perms t table_addr m)"

definition get_page_table_entry_at_level ::
  "nat \<Rightarrow> nat \<Rightarrow> nat \<Rightarrow> bool \<Rightarrow> pt_mem \<Rightarrow> ((nat \<times> nat) option \<times> pt_mem) option" where
  "get_page_table_entry_at_level root virt level allocate_missing m =
     panic_unless (1 \<le> level \<and> level \<le> 4) \<bind> (\<lambda>_.
     PageTable.get_page_table_entry 4 root virt 0 level allocate_missing m)"

definition vmm_get_page_table_entry ::
  "nat \<Rightarrow> nat \<Rightarrow> nat option \<Rightarrow> pt_mem \<Rightarrow> ((nat \<times> nat) option \<times> pt_mem) option" where
  "vmm_get_page_table_entry current_root virt root m =
     get_page_table_entry_at_level (case root of Some t \<Rightarrow> t | None \<Rightarrow> current_root) virt 1 False m"

definition delete_page_table :: "nat \<Rightarrow> nat \<Rightarrow> bool \<Rightarrow> pt_mem \<Rightarrow> pt_mem option" where
  "delete_page_table root level unmap_phys m = delete level unmap_phys root m"

section \<open>The two halves of a root table\<close>

lemma copy_entries_read:
  assumes "existing_tree \<noteq> new_tree" and "\<forall>i\<in>set is. read_entry m existing_tree i \<noteq> None"
    and "\<forall>i\<in>set is. read_entry m new_tree i \<noteq> None"
  shows "\<exists>m'. copy_entries existing_tree new_tree is m = Some m' \<and>
    (\<forall>t i. read_entry m' t i =
       (if t = new_tree \<and> i \<in> set is then read_entry m existing_tree i else read_entry m t i))"
  using assms(2,3)
proof (induction "is" arbitrary: m)
  case (Cons i "is")
  from Cons.prems obtain e e' where e: "read_entry m existing_tree i = Some e" "read_entry m new_tree i = Some e'"
    by auto
  from write_entry_Some [OF e(2), of e] obtain m1 where m1: "write_entry m new_tree i e = Some m1" by blast
  note r = read_write_entry [OF m1]
  have "\<forall>j\<in>set is. read_entry m1 existing_tree j \<noteq> None" "\<forall>j\<in>set is. read_entry m1 new_tree j \<noteq> None"
    using Cons.prems assms(1) by (auto simp: r)
  from Cons.IH [OF this] obtain m' where m': "copy_entries existing_tree new_tree is m1 = Some m'"
    "\<forall>t j. read_entry m' t j =
       (if t = new_tree \<and> j \<in> set is then read_entry m1 existing_tree j else read_entry m1 t j)" by blast
  have "\<forall>t j. read_entry m' t j =
       (if t = new_tree \<and> j \<in> set (i # is) then read_entry m existing_tree j else read_entry m t j)"
    using m'(2) e(1) assms(1) by (auto simp: r)
  with m'(1) m1 e(1) show ?case by auto
qed auto

lemma unmap_lower_read:
  assumes "\<forall>i\<in>set is. \<exists>e. read_entry m t i = Some e \<and> \<not> huge_page e" and "distinct is"
  shows "\<exists>m'. unmap_lower_entries t is m = Some m' \<and>
    (\<forall>t' i. read_entry m' t' i =
       (if t' = t \<and> i \<in> set is \<and> (\<exists>e. read_entry m t i = Some e \<and> present e)
        then map_option (set_present False) (read_entry m t i) else read_entry m t' i))"
  using assms
proof (induction "is" arbitrary: m)
  case (Cons i "is")
  from Cons.prems(1) obtain e where e: "read_entry m t i = Some e" "\<not> huge_page e" by auto
  show ?case
  proof (cases "present e")
    case False
    with Cons.IH [of m] Cons.prems obtain m' where m': "unmap_lower_entries t is m = Some m'"
      "\<forall>t' j. read_entry m' t' j =
       (if t' = t \<and> j \<in> set is \<and> (\<exists>e. read_entry m t j = Some e \<and> present e)
        then map_option (set_present False) (read_entry m t j) else read_entry m t' j)" by auto
    show ?thesis using False e m' Cons.prems(2) by (intro exI [of _ m']) auto
  next
    case True
    from write_entry_Some [OF e(1), of "set_present False e"] obtain m1
      where m1: "write_entry m t i (set_present False e) = Some m1" by blast
    note r = read_write_entry [OF m1]
    have "\<forall>j\<in>set is. \<exists>e. read_entry m1 t j = Some e \<and> \<not> huge_page e"
      using Cons.prems by (auto simp: r)
    with Cons.IH [of m1] Cons.prems obtain m' where m': "unmap_lower_entries t is m1 = Some m'"
      "\<forall>t' j. read_entry m' t' j =
       (if t' = t \<and> j \<in> set is \<and> (\<exists>e. read_entry m1 t j = Some e \<and> present e)
        then map_option (set_present False) (read_entry m1 t j) else read_entry m1 t' j)" by auto
    have "\<forall>t' j. read_entry m' t' j =
       (if t' = t \<and> j \<in> set (i # is) \<and> (\<exists>e. read_entry m t j = Some e \<and> present e)
        then map_option (set_present False) (read_entry m t j) else read_entry m t' j)"
      using m'(2) True e(1) Cons.prems(2) by (auto simp: r)
    with m'(1) m1 e True show ?thesis by auto
  qed
qed auto

section \<open>Properties\<close>

text \<open>\<open>copy_higher_half\<close> gives a new address space the kernel's half: afterwards every entry
  from 256 on agrees with the existing tree, the lower half of the new table and every other table
  are as before.\<close>

theorem copy_higher_half_correct:
  assumes "existing_tree \<noteq> new_tree" and "tables m existing_tree = Some es" and "length es = 512"
    and "tables m new_tree = Some ns" and "length ns = 512"
  shows "\<exists>m'. copy_higher_half existing_tree new_tree m = Some m' \<and>
    (\<forall>t i. read_entry m' t i =
       (if t = new_tree \<and> 256 \<le> i \<and> i < 512 then read_entry m existing_tree i else read_entry m t i))"
proof -
  have "\<forall>i\<in>set [256..<512]. read_entry m existing_tree i \<noteq> None"
    "\<forall>i\<in>set [256..<512]. read_entry m new_tree i \<noteq> None"
    using assms by (auto simp: read_entry_def index_at_def)
  from copy_entries_read [OF assms(1) this] show ?thesis by (simp add: copy_higher_half_def del: upt_rec_numeral)
qed

text \<open>\<open>unmap_lower_half\<close> on a root table without huge pages clears the present bit of every
  entry below 256, so no address of the lower half is mapped any more, and leaves the upper half and
  all other tables alone.\<close>

theorem unmap_lower_half_correct:
  assumes "tables m root = Some es" and "length es = 512" and "\<forall>e\<in>set es. \<not> huge_page e"
  shows "\<exists>m'. unmap_lower_half root m = Some m' \<and>
    (\<forall>i<256. \<exists>e. read_entry m' root i = Some e \<and> \<not> present e) \<and>
    (\<forall>t i. t \<noteq> root \<or> 256 \<le> i \<longrightarrow> read_entry m' t i = read_entry m t i)"
proof -
  have rd: "read_entry m root i = (if i < 512 then Some (es ! i) else None)" for i
    using assms(1,2) by (simp add: read_entry_def index_at_def)
  have "\<forall>i\<in>set [0..<256]. \<exists>e. read_entry m root i = Some e \<and> \<not> huge_page e"
    using assms(2,3) by (auto simp: rd)
  from unmap_lower_read [OF this] obtain m' where m': "unmap_lower_entries root [0..<256] m = Some m'"
    "\<forall>t' i. read_entry m' t' i =
       (if t' = root \<and> i \<in> set [0..<256] \<and> (\<exists>e. read_entry m root i = Some e \<and> present e)
        then map_option (set_present False) (read_entry m root i) else read_entry m t' i)" by auto
  have "\<forall>i<256. \<exists>e. read_entry m' root i = Some e \<and> \<not> present e"
    using m'(2) by (auto simp: rd set_present_def present_def bit_put_bit)
  with m' show ?thesis by (intro exI [of _ m']) (auto simp: unmap_lower_half_def simp del: upt_rec_numeral)
qed

end
