(* ===== verification/VirtualMemoryRange.thy ===== *)
theory VirtualMemoryRange
  imports VirtMemManager
begin

text \<open>
  Ranges of user memory (\<open>memory/virt_mem_manager/virtual_memory_range.rs\<close>): a subtree of page
  tables of one of four capacities that grows up from its start or down from its end. An operation
  returns its \<open>Result\<close> together with the range and the page-table memory it leaves; page counts
  are 32-bit, addresses 64-bit.
\<close>

section \<open>Capacities\<close>

datatype VirtualMemoryRangeCapacity = C4KB | C2MB | C1GB | C05TB

definition from_level :: "nat \<Rightarrow> VirtualMemoryRangeCapacity option" where
  "from_level level =
     (if level = 0 then Some C4KB else if level = 1 then Some C2MB
      else if level = 2 then Some C1GB else if level = 3 then Some C05TB else None)"

fun into_level :: "VirtualMemoryRangeCapacity \<Rightarrow> nat" where
  "into_level C4KB = 0"
| "into_level C2MB = 1"
| "into_level C1GB = 2"
| "into_level C05TB = 3"

definition capacity_pages :: "VirtualMemoryRangeCapacity \<Rightarrow> nat" where
  "capacity_pages c = 512 ^ into_level c mod 2 ^ 32"

definition capacity_bytes :: "VirtualMemoryRangeCapacity \<Rightarrow> nat" where
  "capacity_bytes c = 4096 * 512 ^ into_level c"

definition capacity_reserved_range :: "VirtualMemoryRangeCapacity \<Rightarrow> nat \<Rightarrow> (nat \<times> nat) option" where
  "capacity_reserved_range c s = checked_add 64 s (capacity_bytes c) \<bind> (\<lambda>e. Some (s, e))"

definition align_up :: "VirtualMemoryRangeCapacity \<Rightarrow> nat \<Rightarrow> nat option" where
  "align_up c addr =
     checked_add 64 addr (capacity_bytes c) \<bind> (\<lambda>a.
     Some (unat ((word_of_nat (a - 1) :: u64) AND NOT (word_of_nat (capacity_bytes c - 1)))))"

definition align_down :: "VirtualMemoryRangeCapacity \<Rightarrow> nat \<Rightarrow> nat" where
  "align_down c addr = unat ((word_of_nat addr :: u64) AND NOT (word_of_nat (capacity_bytes c - 1)))"

section \<open>Ranges\<close>

datatype VirtualMemoryRangeGrowDirection = Up | Down

datatype VirtualMemoryRangeManagementMode = Managed VirtualMemoryRangeGrowDirection | Manual

definition mode_from_u64 :: "u64 \<Rightarrow> VirtualMemoryRangeManagementMode option" where
  "mode_from_u64 value =
     (let lower = value AND 0xFFFFFFFF; upper = drop_bit 32 value
      in if upper = 0
         then (if lower = 0 then Some (Managed Up) else if lower = 1 then Some (Managed Down) else None)
         else if upper = 1 then Some Manual else None)"

record VirtualMemoryRange =
  virt_tree_node :: nat
  virt_tree_level :: nat
  mem_range_type :: VirtualMemoryRangeManagementMode
  perms :: VirtualMemoryRangePermissions
  allocated_pages :: nat

type_synonym vmr_result = "(unit kresult \<times> VirtualMemoryRange \<times> pt_mem) option"

definition max_size :: "VirtualMemoryRange \<Rightarrow> VirtualMemoryRangeCapacity option" where
  "max_size r = from_level (virt_tree_level r)"

definition reserved_range :: "VirtualMemoryRange \<Rightarrow> nat \<Rightarrow> (nat \<times> nat) option" where
  "reserved_range r s = max_size r \<bind> (\<lambda>c. capacity_reserved_range c s)"

definition current_range :: "VirtualMemoryRange \<Rightarrow> nat \<Rightarrow> (nat \<times> nat) kresult option" where
  "current_range r s =
     (case mem_range_type r of
        Managed Up \<Rightarrow>
          checked_add 64 s (allocated_pages r * 4096) \<bind> (\<lambda>e. Some (Inr (s, e)))
      | Managed Down \<Rightarrow>
          max_size r \<bind> (\<lambda>c.
          checked_add 64 s (capacity_pages c * 4096) \<bind> (\<lambda>e.
          checked_sub e (allocated_pages r * 4096) \<bind> (\<lambda>b. Some (Inr (b, e)))))
      | Manual \<Rightarrow> Some (Inl InvalidOperation))"

definition create ::
  "VirtualMemoryRangeCapacity \<Rightarrow> VirtualMemoryRangePermissions \<Rightarrow> VirtualMemoryRangeManagementMode \<Rightarrow>
   pt_mem \<Rightarrow> (VirtualMemoryRange \<times> pt_mem) option" where
  "create capacity p mode m =
     alloc_zeroed m \<bind> (\<lambda>(a, m').
     Some (\<lparr>virt_tree_node = a, virt_tree_level = into_level capacity, mem_range_type = mode,
            perms = p, allocated_pages = 0\<rparr>, m'))"

definition allocate_manual :: "VirtualMemoryRange \<Rightarrow> nat \<Rightarrow> nat \<Rightarrow> pt_mem \<Rightarrow> vmr_result" where
  "allocate_manual r first last' m =
     checked_sub last' first \<bind> (\<lambda>newly_allocated_pages.
     vmm_userspace_map first last' (perms r) (virt_tree_node r) (virt_tree_level r) 0 m \<bind> (\<lambda>(res, m').
     Some (case res of
        Inl e \<Rightarrow> (Inl e, r, m')
      | Inr _ \<Rightarrow> (Inr (), r\<lparr>allocated_pages :=
                             saturating_add 32 (allocated_pages r) newly_allocated_pages\<rparr>, m'))))"

definition free_manual :: "VirtualMemoryRange \<Rightarrow> nat \<Rightarrow> nat \<Rightarrow> pt_mem \<Rightarrow> vmr_result" where
  "free_manual r first last' m =
     checked_sub last' first \<bind> (\<lambda>freed_pages.
     vmm_userspace_unmap first last' (virt_tree_node r) (virt_tree_level r) 0 m \<bind> (\<lambda>(res, m').
     Some (case res of
        Inl e \<Rightarrow> (Inl e, r, m')
      | Inr _ \<Rightarrow> (Inr (), r\<lparr>allocated_pages := allocated_pages r - freed_pages\<rparr>, m'))))"

definition allocate_manual_external :: "VirtualMemoryRange \<Rightarrow> nat \<Rightarrow> nat \<Rightarrow> pt_mem \<Rightarrow> vmr_result" where
  "allocate_manual_external r first last' m =
     (if mem_range_type r \<noteq> Manual then Some (Inl InvalidOperation, r, m)
      else allocate_manual r first last' m)"

definition free_manual_external :: "VirtualMemoryRange \<Rightarrow> nat \<Rightarrow> nat \<Rightarrow> pt_mem \<Rightarrow> vmr_result" where
  "free_manual_external r first last' m =
     (if mem_range_type r \<noteq> Manual then Some (Inl InvalidOperation, r, m)
      else free_manual r first last' m)"

definition expand_to :: "VirtualMemoryRange \<Rightarrow> nat \<Rightarrow> pt_mem \<Rightarrow> vmr_result" where
  "expand_to r n m =
     (case mem_range_type r of
        Manual \<Rightarrow> Some (Inl InvalidOperation, r, m)
      | Managed grow_direction \<Rightarrow>
          max_size r \<bind> (\<lambda>c.
          if n > capacity_pages c then Some (Inl InvalidArgument, r, m)
          else if n \<le> allocated_pages r then Some (Inl InvalidArgument, r, m)
          else if grow_direction = Up then allocate_manual r (allocated_pages r) n m
          else allocate_manual r (capacity_pages c - n) (capacity_pages c - allocated_pages r) m))"

definition expand_by :: "VirtualMemoryRange \<Rightarrow> nat \<Rightarrow> pt_mem \<Rightarrow> vmr_result" where
  "expand_by r n m = expand_to r (saturating_add 32 (allocated_pages r) n) m"

text \<open>Page numbers are cut to 32 bits, \<open>(addr / 4096) as u32\<close>.\<close>

definition page_u32 :: "nat \<Rightarrow> nat" where
  "page_u32 a = a div 4096 mod 2 ^ 32"

definition pages_to_reach :: "nat \<Rightarrow> nat \<times> nat \<Rightarrow> nat option option" where
  "pages_to_reach new_end_aligned cur =
     (if new_end_aligned < fst cur then Some (Some (page_u32 (fst cur) - page_u32 new_end_aligned))
      else if new_end_aligned \<ge> snd cur
      then checked_sub (snd cur) 1 \<bind> (\<lambda>l. Some (Some (page_u32 new_end_aligned - page_u32 l)))
      else Some None)"

definition expand_to_address :: "VirtualMemoryRange \<Rightarrow> nat \<Rightarrow> nat \<Rightarrow> nat \<Rightarrow> pt_mem \<Rightarrow> vmr_result" where
  "expand_to_address r current_mapped_addr new_end_addr max_new_pages m =
     (let new_end_aligned = align_down C4KB new_end_addr
      in reserved_range r current_mapped_addr \<bind> (\<lambda>(rs, re).
         if new_end_addr < rs \<or> new_end_addr \<ge> re then Some (Inl InvalidArgument, r, m)
         else current_range r current_mapped_addr \<bind> (\<lambda>res.
              case res of
                Inl e \<Rightarrow> Some (Inl e, r, m)
              | Inr cur \<Rightarrow>
                  pages_to_reach new_end_aligned cur \<bind> (\<lambda>new_pages.
                  case new_pages of
                    None \<Rightarrow> Some (Inr (), r, m)
                  | Some n \<Rightarrow>
                      if n > max_new_pages then Some (Inl InvalidArgument, r, m)
                      else expand_by r n m))))"

definition shrink_to :: "VirtualMemoryRange \<Rightarrow> nat \<Rightarrow> pt_mem \<Rightarrow> vmr_result" where
  "shrink_to r n m =
     (case mem_range_type r of
        Manual \<Rightarrow> Some (Inl InvalidOperation, r, m)
      | Managed grow_direction \<Rightarrow>
          if grow_direction = Up then free_manual r n (allocated_pages r) m
          else max_size r \<bind> (\<lambda>c.
               free_manual r (capacity_pages c - allocated_pages r) (capacity_pages c - n) m))"

definition shrink_by :: "VirtualMemoryRange \<Rightarrow> nat \<Rightarrow> pt_mem \<Rightarrow> vmr_result" where
  "shrink_by r n m = shrink_to r (allocated_pages r - n) m"

definition drop_memory_range :: "VirtualMemoryRange \<Rightarrow> pt_mem \<Rightarrow> pt_mem option" where
  "drop_memory_range r m = delete (virt_tree_level r) False (virt_tree_node r) m"

section \<open>Alignment\<close>

lemma word_and_not_mask:
  assumes "a < 2 ^ 64"
  shows "unat ((word_of_nat a :: u64) AND NOT (word_of_nat (2 ^ k - 1))) = a div 2 ^ k * 2 ^ k"
proof -
  have "(word_of_nat (2 ^ k - 1) :: u64) = mask k" by (simp add: mask_eq_exp_minus_1 of_nat_diff)
  moreover have "(word_of_nat a :: u64) AND NOT (mask k) = word_of_nat (push_bit k (drop_bit k a))"
    by (rule bit_word_eqI) (auto simp: bit_simps)
  moreover have "push_bit k (drop_bit k a) = a div 2 ^ k * 2 ^ k"
    by (simp add: push_bit_eq_mult drop_bit_eq_div)
  moreover have "a div 2 ^ k * 2 ^ k < 2 ^ 64"
    using assms div_times_less_eq_dividend [of a "2 ^ k"] by linarith
  ultimately show ?thesis by (simp only: unat_u64_of_nat)
qed

lemma capacity_bytes_power: "capacity_bytes c = 2 ^ (12 + 9 * into_level c)"
  by (cases c) (simp_all add: capacity_bytes_def)

lemma capacity_bytes_bounds: "4096 \<le> capacity_bytes c" "capacity_bytes c \<le> 2 ^ 39"
  by (cases c; simp add: capacity_bytes_def)+

lemma capacity_pages_bytes: "capacity_pages c * 4096 = capacity_bytes c"
  by (cases c) (simp_all add: capacity_bytes_def capacity_pages_def)

lemma capacity_pages_level: "capacity_pages c = 512 ^ into_level c"
  by (cases c) (simp_all add: capacity_pages_def)

lemma from_into_level [simp]: "from_level (into_level c) = Some c"
  by (cases c) (simp_all add: from_level_def)

lemma from_level_Some: "from_level l = Some c \<Longrightarrow> into_level c = l"
  by (auto simp: from_level_def split: if_splits)

lemma align_up_eq:
  assumes "addr + capacity_bytes c < 2 ^ 64"
  shows "align_up c addr = Some (div_ceil addr (capacity_bytes c) * capacity_bytes c)"
proof -
  have a: "addr + capacity_bytes c - 1 < 2 ^ 64" using assms by linarith
  have "unat ((word_of_nat (addr + capacity_bytes c - 1) :: u64) AND NOT (word_of_nat (capacity_bytes c - 1)))
      = (addr + capacity_bytes c - 1) div capacity_bytes c * capacity_bytes c"
    using word_and_not_mask [OF a, of "12 + 9 * into_level c"] by (simp only: capacity_bytes_power)
  then show ?thesis using assms unfolding align_up_def div_ceil_def checked_add_def by simp
qed

lemma align_down_eq:
  assumes "addr < 2 ^ 64"
  shows "align_down c addr = addr div capacity_bytes c * capacity_bytes c"
  using word_and_not_mask [OF assms, of "12 + 9 * into_level c"]
  unfolding align_down_def by (simp only: capacity_bytes_power)

lemma reserved_range_Some:
  "reserved_range r s = Some (a, b) \<longleftrightarrow>
   (\<exists>c. max_size r = Some c \<and> a = s \<and> b = s + capacity_bytes c \<and> b < 2 ^ 64)"
  by (auto simp: reserved_range_def capacity_reserved_range_def bind_eq_Some_conv)

section \<open>Growing and shrinking\<close>

definition range_wf :: "VirtualMemoryRange \<Rightarrow> bool" where
  "range_wf r \<longleftrightarrow> virt_tree_level r < 4 \<and> allocated_pages r \<le> 512 ^ virt_tree_level r"

lemma range_wf_max_size:
  assumes "range_wf r"
  obtains c where "max_size r = Some c" "into_level c = virt_tree_level r"
    "allocated_pages r \<le> capacity_pages c" "capacity_pages c \<le> 2 ^ 27"
proof -
  from assms have "\<exists>c. from_level (virt_tree_level r) = Some c" by (auto simp: range_wf_def from_level_def)
  then obtain c where c: "from_level (virt_tree_level r) = Some c" by blast
  from from_level_Some [OF c] have l: "into_level c = virt_tree_level r" .
  moreover have "capacity_pages c = 512 ^ into_level c" "capacity_pages c \<le> 2 ^ 27"
    by (cases c; simp add: capacity_pages_def)+
  ultimately show thesis using that [of c] c assms by (simp add: max_size_def range_wf_def)
qed

lemma allocate_manual_Inr:
  assumes "allocate_manual r a b m = Some (Inr (), r', m')"
  shows "a \<le> b \<and> r' = r\<lparr>allocated_pages := saturating_add 32 (allocated_pages r) (b - a)\<rparr> \<and>
    vmm_userspace_map a b (perms r) (virt_tree_node r) (virt_tree_level r) 0 m = Some (Inr (), m')"
proof -
  from assms obtain res m1 where "a \<le> b"
    "vmm_userspace_map a b (perms r) (virt_tree_node r) (virt_tree_level r) 0 m = Some (res, m1)"
    by (auto simp: allocate_manual_def bind_eq_Some_conv)
  with assms show ?thesis by (cases res) (auto simp: allocate_manual_def checked_sub_def)
qed

lemma expand_to_level: "expand_to r n m = Some (res, r', m') \<Longrightarrow> virt_tree_level r' = virt_tree_level r"
  by (auto simp: expand_to_def allocate_manual_def bind_eq_Some_conv
      split: if_splits sum.splits VirtualMemoryRangeManagementMode.splits)

lemma expand_to_address_level:
  assumes "expand_to_address r s addr k m = Some (res, r', m')"
  shows "virt_tree_level r' = virt_tree_level r"
proof (cases "r' = r")
  case False
  from assms obtain cr where cr: "current_range r s = Some cr \<or> r' = r"
    by (cases "current_range r s") (auto simp: expand_to_address_def Let_def bind_eq_Some_conv split: if_splits)
  with False have c: "current_range r s = Some cr" by simp
  show ?thesis
  proof (cases cr)
    case (Inl e)
    with assms c False show ?thesis
      by (auto simp: expand_to_address_def Let_def bind_eq_Some_conv split: if_splits)
  next
    case (Inr cur)
    with assms c False obtain n where "expand_by r n m = Some (res, r', m')"
      by (auto simp: expand_to_address_def Let_def bind_eq_Some_conv split: if_splits option.splits)
    then show ?thesis using expand_to_level by (auto simp: expand_by_def)
  qed
qed simp

lemma expand_to_Inr:
  assumes wf: "range_wf r" and ok: "expand_to r n m = Some (Inr (), r', m')"
  shows "\<exists>d c. mem_range_type r = Managed d \<and> max_size r = Some c \<and> allocated_pages r < n \<and>
    n \<le> capacity_pages c \<and> r' = r\<lparr>allocated_pages := n\<rparr>"
proof -
  obtain c where c: "max_size r = Some c" "allocated_pages r \<le> capacity_pages c" "capacity_pages c \<le> 2 ^ 27"
    using range_wf_max_size [OF wf] by metis
  from ok obtain d where d: "mem_range_type r = Managed d"
    by (auto simp: expand_to_def split: VirtualMemoryRangeManagementMode.splits)
  from ok c(1) d have n: "allocated_pages r < n" "n \<le> capacity_pages c"
    by (auto simp: expand_to_def split: if_splits)
  have sat: "saturating_add 32 (allocated_pages r) (n - allocated_pages r) = n"
    using n c(3) by (simp add: saturating_add_def)
  show ?thesis
  proof (cases "d = Up")
    case True
    then have "allocate_manual r (allocated_pages r) n m = Some (Inr (), r', m')"
      using ok c(1) d n by (simp add: expand_to_def)
    from allocate_manual_Inr [OF this] sat d c(1) n show ?thesis by simp
  next
    case False
    then have "allocate_manual r (capacity_pages c - n) (capacity_pages c - allocated_pages r) m = Some (Inr (), r', m')"
      using ok c(1) d n by (simp add: expand_to_def)
    moreover have "capacity_pages c - allocated_pages r - (capacity_pages c - n) = n - allocated_pages r"
      using n by linarith
    ultimately show ?thesis using allocate_manual_Inr sat d c(1) n by metis
  qed
qed

lemma expand_by_Inr:
  assumes wf: "range_wf r" and ok: "expand_by r n m = Some (Inr (), r', m')"
  shows "\<exists>d c. mem_range_type r = Managed d \<and> max_size r = Some c \<and> 0 < n \<and>
    allocated_pages r + n \<le> capacity_pages c \<and> r' = r\<lparr>allocated_pages := allocated_pages r + n\<rparr>"
proof -
  obtain c where c: "max_size r = Some c" "capacity_pages c \<le> 2 ^ 27" using range_wf_max_size [OF wf] by metis
  from expand_to_Inr [OF wf ok [unfolded expand_by_def]] c(1) obtain d where
    d: "mem_range_type r = Managed d" "allocated_pages r < saturating_add 32 (allocated_pages r) n"
    "saturating_add 32 (allocated_pages r) n \<le> capacity_pages c"
    "r' = r\<lparr>allocated_pages := saturating_add 32 (allocated_pages r) n\<rparr>" by auto
  from d(3) c(2) have "saturating_add 32 (allocated_pages r) n = allocated_pages r + n"
    by (auto simp: saturating_add_def min_def split: if_splits)
  with d c(1) show ?thesis by simp
qed

text \<open>The 32-bit page numbers of two addresses at most one capacity apart differ by the true
  distance, or the saturated difference is zero.\<close>

lemma page_u32_diff:
  assumes "x \<le> y" and "y < x + 2 ^ 32"
  shows "y mod 2 ^ 32 - x mod 2 ^ 32 = y - x \<or> y mod 2 ^ 32 - x mod 2 ^ 32 = (0::nat)"
proof (cases "y div 2 ^ 32 = x div 2 ^ 32")
  case True
  then have "y - x = y mod 2 ^ 32 - x mod 2 ^ 32"
    by (metis (no_types) div_mult_mod_eq diff_cancel2 add.commute)
  then show ?thesis by simp
next
  case False
  have y: "y = y div 2 ^ 32 * 2 ^ 32 + y mod 2 ^ 32" and x: "x = x div 2 ^ 32 * 2 ^ 32 + x mod 2 ^ 32" by simp_all
  have "x div 2 ^ 32 \<le> y div 2 ^ 32" using assms(1) by (rule div_le_mono)
  with False have "x div 2 ^ 32 + 1 \<le> y div 2 ^ 32" by simp
  then have "(x div 2 ^ 32 + 1) * 2 ^ 32 \<le> y div 2 ^ 32 * 2 ^ 32" by (rule mult_le_mono1)
  then have "x div 2 ^ 32 * 2 ^ 32 + 2 ^ 32 \<le> y div 2 ^ 32 * 2 ^ 32" by (simp only: add_mult_distrib mult_1)
  with assms(2) x y have "y mod 2 ^ 32 \<le> x mod 2 ^ 32" by linarith
  then show ?thesis by simp
qed

lemma align_down_4KB: "a < 2 ^ 64 \<Longrightarrow> align_down C4KB a = a div 4096 * 4096"
  using align_down_eq [of a C4KB] by (simp add: capacity_bytes_def)

lemma page_of_aligned: "(a div 4096 * 4096) div 4096 = a div (4096::nat)"
  by simp

text \<open>What a successful step of \<open>expand_to_address\<close> adds in the two directions.\<close>

lemma reach_up:
  assumes "pages_to_reach (addr div 4096 * 4096) (s, s + k * 4096) = Some (Some n)" and "0 < n"
    and "s mod 4096 = 0" and "s \<le> addr" and "addr < s + 2 ^ 39"
  shows "k + n = addr div 4096 - s div 4096 + 1"
proof -
  let ?e = "s + k * 4096"
  have s: "s div 4096 * 4096 = s" using assms(3) by (simp add: div_mult_self_is_m mod_eq_0_iff_dvd)
  have ge: "s \<le> addr div 4096 * 4096" using div_le_mono [OF assms(4), of 4096] s by linarith
  with assms(1) have e: "?e \<le> addr div 4096 * 4096" "1 \<le> ?e"
    and n: "n = page_u32 (addr div 4096 * 4096) - page_u32 (?e - 1)"
    by (auto simp: pages_to_reach_def bind_eq_Some_conv split: if_splits)
  have k: "(?e - 1) div 4096 + 1 = s div 4096 + k"
  proof -
    have "?e = (s div 4096 + k) * 4096" using s by (simp add: add_mult_distrib)
    moreover have "1 \<le> q * 4096 \<Longrightarrow> (q * 4096 - 1) div 4096 + 1 = q" for q :: nat
      by (cases q) simp_all
    ultimately show ?thesis using e(2) by (simp only:)
  qed
  have le: "s div 4096 + k \<le> addr div 4096" using e(1) s by linarith
  have "addr < (s div 4096 + 2 ^ 27) * 4096" using assms(5) s by simp
  then have lt: "addr div 4096 < s div 4096 + 2 ^ 27" by (simp add: less_mult_imp_div_less)
  from k le lt have p: "(?e - 1) div 4096 \<le> addr div 4096" "addr div 4096 < (?e - 1) div 4096 + 2 ^ 32"
    by simp_all
  from page_u32_diff [OF p] have "n = addr div 4096 - (?e - 1) div 4096 \<or> n = 0"
    using n unfolding page_u32_def page_of_aligned by simp
  with assms(2) have "n = addr div 4096 - (?e - 1) div 4096" by simp
  with k le show ?thesis by linarith
qed

lemma reach_down:
  assumes "pages_to_reach (addr div 4096 * 4096) (e - k * 4096, e) = Some (Some n)" and "0 < n"
    and "e mod 4096 = 0" and "k * 4096 \<le> e" and "addr < e" and "e \<le> addr + 2 ^ 39"
  shows "k + n = e div 4096 - addr div 4096"
proof -
  have e: "e div 4096 * 4096 = e" using assms(3) by (simp add: div_mult_self_is_m mod_eq_0_iff_dvd)
  have "addr div 4096 * 4096 < e" using assms(5) div_times_less_eq_dividend [of addr 4096] by linarith
  with assms(1) have b: "addr div 4096 * 4096 < e - k * 4096"
    and n: "n = page_u32 (e - k * 4096) - page_u32 (addr div 4096 * 4096)"
    by (auto simp: pages_to_reach_def split: if_splits)
  have k: "(e - k * 4096) div 4096 = e div 4096 - k"
  proof -
    have "e - k * 4096 = (e div 4096 - k) * 4096" using e by (simp add: diff_mult_distrib)
    then show ?thesis by (metis nonzero_mult_div_cancel_right zero_neq_numeral)
  qed
  have le: "addr div 4096 < e div 4096 - k" using b e by linarith
  have "e div 4096 \<le> addr div 4096 + 2 ^ 27" using div_le_mono [OF assms(6), of 4096] by simp
  moreover have aux: "E \<le> A + 2 ^ 27 \<Longrightarrow> E - k < A + 2 ^ 32" for E A :: nat by simp
  ultimately have p: "addr div 4096 \<le> (e - k * 4096) div 4096" "(e - k * 4096) div 4096 < addr div 4096 + 2 ^ 32"
    using le unfolding k by (simp, blast)
  from page_u32_diff [OF p] have "n = (e - k * 4096) div 4096 - addr div 4096 \<or> n = 0"
    using n unfolding page_u32_def page_of_aligned by simp
  with assms(2) have "n = (e - k * 4096) div 4096 - addr div 4096" by simp
  with k le show ?thesis by linarith
qed

lemma current_range_Inr:
  assumes "max_size r = Some c" and "s + capacity_bytes c < 2 ^ 64" and "allocated_pages r \<le> capacity_pages c"
    and "mem_range_type r = Managed d"
  shows "current_range r s = Some (Inr
    (if d = Up then (s, s + allocated_pages r * 4096)
     else (s + capacity_bytes c - allocated_pages r * 4096, s + capacity_bytes c)))"
proof -
  have "allocated_pages r * 4096 \<le> capacity_bytes c"
    using mult_le_mono1 [OF assms(3), of 4096] by (simp only: capacity_pages_bytes)
  then show ?thesis using assms by (cases d) (simp_all add: current_range_def capacity_pages_bytes checked_simps)
qed

definition extent :: "VirtualMemoryRangeGrowDirection \<Rightarrow> nat \<Rightarrow> nat \<Rightarrow> nat \<Rightarrow> nat \<times> nat" where
  "extent d s cap n = (if d = Up then (s, s + n * 4096) else (s + cap - n * 4096, s + cap))"

lemma expand_to_address_Inr:
  assumes wf: "range_wf r" and ok: "expand_to_address r s addr k m = Some (Inr (), r', m')"
  obtains c d np where "max_size r = Some c" "allocated_pages r \<le> capacity_pages c" "mem_range_type r = Managed d"
    "s \<le> addr" "addr < s + capacity_bytes c" "s + capacity_bytes c < 2 ^ 64"
    "pages_to_reach (addr div 4096 * 4096) (extent d s (capacity_bytes c) (allocated_pages r)) = Some np"
    "case np of None \<Rightarrow> r' = r | Some n \<Rightarrow> n \<le> k \<and> expand_by r n m = Some (Inr (), r', m')"
proof -
  obtain c where c: "max_size r = Some c" "allocated_pages r \<le> capacity_pages c"
    using range_wf_max_size [OF wf] by metis
  from ok c(1) have rr: "s \<le> addr" "addr < s + capacity_bytes c" "s + capacity_bytes c < 2 ^ 64"
    by (auto simp: expand_to_address_def bind_eq_Some_conv reserved_range_Some Let_def split: if_splits)
  then have al: "align_down C4KB addr = addr div 4096 * 4096" by (intro align_down_4KB) simp
  have res: "reserved_range r s = Some (s, s + capacity_bytes c)"
    using c(1) rr(3) by (simp add: reserved_range_Some)
  from ok rr res obtain d where d: "mem_range_type r = Managed d"
    by (auto simp: expand_to_address_def Let_def current_range_def
        split: if_splits VirtualMemoryRangeManagementMode.splits)
  note cur = current_range_Inr [OF c(1) rr(3) c(2) d, folded extent_def]
  from ok cur res rr al obtain np where
    "pages_to_reach (addr div 4096 * 4096) (extent d s (capacity_bytes c) (allocated_pages r)) = Some np"
    "(case np of None \<Rightarrow> Some (Inr (), r, m)
      | Some n \<Rightarrow> if n > k then Some (Inl InvalidArgument, r, m) else expand_by r n m) = Some (Inr (), r', m')"
    by (auto simp: expand_to_address_def Let_def bind_eq_Some_conv)
  then show thesis using that [OF c d rr] by (auto split: option.splits if_splits)
qed

lemma below_aligned: "x div 4096 * 4096 < e \<Longrightarrow> e mod 4096 = 0 \<Longrightarrow> x < (e::nat)"
proof -
  assume "x div 4096 * 4096 < e" and "e mod 4096 = 0"
  moreover from \<open>e mod 4096 = 0\<close> have "e div 4096 * 4096 = e"
    by (simp add: div_mult_self_is_m mod_eq_0_iff_dvd)
  ultimately have "x div 4096 < e div 4096" by linarith
  then have "x < e div 4096 * 4096" by (simp add: div_less_iff_less_mult)
  with \<open>e div 4096 * 4096 = e\<close> show ?thesis by simp
qed

lemma reach_covers:
  assumes "pages_to_reach (addr div 4096 * 4096) (extent d s cap q) = Some np"
    and "s mod 4096 = 0" and "cap mod 4096 = 0" and "cap \<le> 2 ^ 39" and "s \<le> addr" and "addr < s + cap"
    and "q * 4096 \<le> cap" and "case np of None \<Rightarrow> q' = q | Some n \<Rightarrow> 0 < n \<and> q' = q + n"
  shows "fst (extent d s cap q') \<le> addr \<and> addr < snd (extent d s cap q')"
proof (cases np)
  case None
  from assms(2,3) have sm: "(s + q * 4096) mod 4096 = 0" "(s + cap) mod 4096 = 0"
    by (simp_all add: mod_add_eq [symmetric])
  from assms(1) None have e: "fst (extent d s cap q) \<le> addr div 4096 * 4096"
    "addr div 4096 * 4096 < snd (extent d s cap q)"
    by (auto simp: pages_to_reach_def bind_eq_Some_conv split: if_splits)
  have "snd (extent d s cap q) mod 4096 = 0" using sm by (simp add: extent_def)
  from below_aligned [OF e(2) this] le_trans [OF e(1) div_times_less_eq_dividend]
  show ?thesis using None assms(8) by simp
next
  case (Some n)
  with assms(8) have n: "0 < n" "q' = q + n" by auto
  have s: "s div 4096 * 4096 = s" using assms(2) by (simp add: div_mult_self_is_m mod_eq_0_iff_dvd)
  show ?thesis
  proof (cases d)
    case Up
    with assms(1) Some have "pages_to_reach (addr div 4096 * 4096) (s, s + q * 4096) = Some (Some n)"
      by (simp add: extent_def)
    from reach_up [OF this n(1) assms(2,5)] assms(4,6) have "q' = addr div 4096 - s div 4096 + 1"
      unfolding n(2) by linarith
    moreover have "s div 4096 \<le> addr div 4096" using assms(5) by (rule div_le_mono)
    ultimately have "(s div 4096 + q') * 4096 = (addr div 4096 + 1) * 4096" by simp
    then have "s + q' * 4096 = addr div 4096 * 4096 + 4096" using s by (simp only: add_mult_distrib mult_1)
    moreover have "addr < addr div 4096 * 4096 + 4096" using div_mod_decomp [of addr 4096] mod_less_divisor [of 4096 addr] by linarith
    ultimately show ?thesis using Up assms(5) by (simp add: extent_def)
  next
    case Down
    let ?e = "s + cap"
    have e: "?e mod 4096 = 0" using assms(2,3) by (simp add: mod_add_eq [symmetric])
    then have e4: "?e div 4096 * 4096 = ?e" by (simp add: div_mult_self_is_m mod_eq_0_iff_dvd)
    from Down assms(1) Some have "pages_to_reach (addr div 4096 * 4096) (?e - q * 4096, ?e) = Some (Some n)"
      by (simp add: extent_def)
    from reach_down [OF this n(1) e] assms(4,5,6,7) have q': "q' = ?e div 4096 - addr div 4096"
      unfolding n(2) by linarith
    have "?e - q' * 4096 = addr div 4096 * 4096"
      using e4 assms(6) div_le_mono [of addr ?e 4096] unfolding q' by (simp add: diff_mult_distrib)
    then show ?thesis using Down assms(6) by (simp add: extent_def)
  qed
qed

section \<open>Properties\<close>

text \<open>When \<open>expand_to_address\<close> reports success, the address lies in the range's extent; the
  32-bit truncation of the page numbers does not break this.\<close>

lemma expand_to_address_covers:
  assumes wf: "range_wf r" and s: "s mod 4096 = 0"
    and ok: "expand_to_address r s addr k m = Some (Inr (), r', m')"
  shows "range_wf r' \<and> allocated_pages r' \<le> allocated_pages r + k \<and>
    (\<exists>a b. current_range r' s = Some (Inr (a, b)) \<and> a \<le> addr \<and> addr < b)"
proof -
  obtain c d np where h: "max_size r = Some c" "allocated_pages r \<le> capacity_pages c" "mem_range_type r = Managed d"
    "s \<le> addr" "addr < s + capacity_bytes c" "s + capacity_bytes c < 2 ^ 64"
    "pages_to_reach (addr div 4096 * 4096) (extent d s (capacity_bytes c) (allocated_pages r)) = Some np"
    "case np of None \<Rightarrow> r' = r | Some n \<Rightarrow> n \<le> k \<and> expand_by r n m = Some (Inr (), r', m')"
    by (rule expand_to_address_Inr [OF wf ok])
  have new: "max_size r' = Some c \<and> mem_range_type r' = Managed d \<and> virt_tree_level r' = virt_tree_level r \<and>
    allocated_pages r' \<le> capacity_pages c \<and> allocated_pages r' \<le> allocated_pages r + k \<and>
    (case np of None \<Rightarrow> allocated_pages r' = allocated_pages r
     | Some n \<Rightarrow> 0 < n \<and> allocated_pages r' = allocated_pages r + n)"
  proof (cases np)
    case None
    with h(1,2,3,8) show ?thesis by simp
  next
    case (Some n)
    with h(8) have "n \<le> k" "expand_by r n m = Some (Inr (), r', m')" by simp_all
    with expand_by_Inr [OF wf this(2)] h(1,3) Some show ?thesis by (auto simp: max_size_def)
  qed
  have cb: "capacity_bytes c mod 4096 = 0" "allocated_pages r * 4096 \<le> capacity_bytes c"
    using h(2) by (simp_all add: capacity_pages_bytes [symmetric])
  have "range_wf r'" using new wf h(1) from_level_Some [of "virt_tree_level r" c]
    by (simp add: range_wf_def max_size_def capacity_pages_level)
  moreover have "current_range r' s = Some (Inr (extent d s (capacity_bytes c) (allocated_pages r')))"
    using current_range_Inr [of r' c s d] new h(6) by (simp add: extent_def)
  ultimately show ?thesis
    using reach_covers [OF h(7) s cb(1) capacity_bytes_bounds(2) h(4,5) cb(2), of "allocated_pages r'"] new
    by (metis prod.collapse)
qed

definition stack_2MB :: VirtualMemoryRange where
  "stack_2MB = \<lparr>virt_tree_node = 0x3000, virt_tree_level = 1, mem_range_type = Managed Down,
     perms = \<lparr>perm_write = True, perm_execute = False\<rparr>, allocated_pages = 1\<rparr>"

definition bare_mem :: pt_mem where
  "bare_mem = \<lparr>tables = [0x3000 \<mapsto> new_empty], frames = tiny_buddy, max_ram_addr = 0x8000\<rparr>"

text \<open>A range that grows up and has no page yet never gets its first page through
  \<open>expand_to_address\<close> when it is mapped at a multiple of 16 TB: the page number of its end is cut to
  32 bits, the distance saturates to zero, and every address is refused.\<close>

theorem expand_to_address_16TB_refused:
  assumes "range_wf r" and "mem_range_type r = Managed Up" and "allocated_pages r = 0"
    and "s = j * 2 ^ 44" and "0 < j" and "s < 2 ^ 48"
  shows "expand_to_address r s addr k m = Some (Inl InvalidArgument, r, m)"
proof -
  obtain c where c: "max_size r = Some c" using range_wf_max_size [OF assms(1)] by metis
  have cb: "capacity_bytes c \<le> 2 ^ 39" by (rule capacity_bytes_bounds)
  have res: "reserved_range r s = Some (s, s + capacity_bytes c)"
    using c assms(6) cb by (simp add: reserved_range_Some)
  show ?thesis
  proof (cases "s \<le> addr \<and> addr < s + capacity_bytes c")
    case False
    with res show ?thesis by (auto simp: expand_to_address_def Let_def)
  next
    case True
    then have a: "align_down C4KB addr = addr div 4096 * 4096" using assms(6) cb by (intro align_down_4KB) simp
    have cur: "current_range r s = Some (Inr (s, s))"
      using assms(2,3,6) by (simp add: current_range_def checked_simps)
    have s: "s div 4096 = j * 2 ^ 32" using assms(4) by simp
    have "s = s div 4096 * 4096" using assms(4) by simp
    then have ge: "s \<le> addr div 4096 * 4096" using True div_le_mono [of s addr 4096] by linarith
    obtain i where i: "j = Suc i" using assms(5) by (cases j) auto
    have "s - 1 = i * 2 ^ 44 + (2 ^ 44 - 1)" unfolding assms(4) i by simp
    then have "(s - 1) div 4096 = i * 2 ^ 32 + (2 ^ 32 - 1)" by simp
    then have last': "page_u32 (s - 1) = 2 ^ 32 - 1" by (simp add: page_u32_def)
    have "page_u32 (addr div 4096 * 4096) < 2 ^ 32" by (simp add: page_u32_def)
    with last' have "page_u32 (addr div 4096 * 4096) - page_u32 (s - 1) = 0" by linarith
    then have "pages_to_reach (addr div 4096 * 4096) (s, s) = Some (Some 0)"
      using ge assms(4,5) by (simp add: pages_to_reach_def checked_simps)
    moreover have "expand_by r 0 m = Some (Inl InvalidArgument, r, m)"
      using assms(2,3) c by (simp add: expand_by_def expand_to_def saturating_add_def)
    ultimately show ?thesis using True res cur a by (simp add: expand_to_address_def Let_def)
  qed
qed

end
