(* ===== verification/MemoryNamespace.thy ===== *)
theory MemoryNamespace
  imports VirtualMemoryRange
begin

text \<open>
  The address space of a process (\<open>proc/namespaces/memory_namespace.rs\<close>): a root page table and
  the list of ranges mapped under it. A range is shared by reference counting, so the heap maps
  the identity of an \<open>Arc<VirtualMemoryRange>\<close> to the range and its count; dropping the last
  reference runs the range's destructor.
\<close>

section \<open>State\<close>

record ns_heap =
  arcs :: "nat \<rightharpoonup> VirtualMemoryRange \<times> nat"
  ns_pt :: pt_mem

datatype MemoryRangeType = Stack | Code | RWData | Shared | StaticData

definition range_type_from_u32 :: "nat \<Rightarrow> MemoryRangeType option" where
  "range_type_from_u32 v =
     (if v = 0 then Some Stack else if v = 1 then Some Code else if v = 2 then Some RWData
      else if v = 3 then Some Shared else if v = 4 then Some StaticData else None)"

record OwnedVirtualMemoryRange =
  shared_range :: nat
  range_name :: string
  range_type :: MemoryRangeType
  map_address :: nat
  range_id :: nat

record MemoryNamespace =
  ns_id :: nat
  page_tree_root :: nat
  range_counter :: nat
  memory_ranges :: "OwnedVirtualMemoryRange list"

definition arc_get :: "ns_heap \<Rightarrow> nat \<Rightarrow> VirtualMemoryRange option" where
  "arc_get h a = map_option fst (arcs h a)"

definition arc_clone :: "nat \<Rightarrow> ns_heap \<Rightarrow> ns_heap option" where
  "arc_clone a h = arcs h a \<bind> (\<lambda>(r, n). Some (h\<lparr>arcs := (arcs h)(a \<mapsto> (r, n + 1))\<rparr>))"

definition arc_drop :: "nat \<Rightarrow> ns_heap \<Rightarrow> ns_heap option" where
  "arc_drop a h =
     arcs h a \<bind> (\<lambda>(r, n).
     if n \<le> 1
     then drop_memory_range r (ns_pt h) \<bind> (\<lambda>m. Some (h\<lparr>arcs := (arcs h)(a := None), ns_pt := m\<rparr>))
     else Some (h\<lparr>arcs := (arcs h)(a \<mapsto> (r, n - 1))\<rparr>))"

definition owned_range :: "ns_heap \<Rightarrow> OwnedVirtualMemoryRange \<Rightarrow> (nat \<times> nat) option" where
  "owned_range h r = arc_get h (shared_range r) \<bind> (\<lambda>v. reserved_range v (map_address r))"

section \<open>Creating and mapping\<close>

definition create_empty :: "nat \<Rightarrow> ns_heap \<Rightarrow> (MemoryNamespace \<times> ns_heap) option" where
  "create_empty i h =
     alloc_zeroed (ns_pt h) \<bind> (\<lambda>(root, m).
     Some (\<lparr>ns_id = i, page_tree_root = root, range_counter = 1, memory_ranges = []\<rparr>, h\<lparr>ns_pt := m\<rparr>))"

definition overlaps :: "nat \<times> nat \<Rightarrow> nat \<times> nat \<Rightarrow> bool" where
  "overlaps p q \<longleftrightarrow> fst p < snd q \<and> fst q < snd p"

primrec illegal_map ::
  "ns_heap \<Rightarrow> string \<Rightarrow> nat \<times> nat \<Rightarrow> OwnedVirtualMemoryRange list \<Rightarrow> bool option" where
  "illegal_map h nm new [] = Some False"
| "illegal_map h nm new (r # rs) =
     (if range_name r = nm then Some True
      else owned_range h r \<bind> (\<lambda>old.
           if overlaps old new then Some True else illegal_map h nm new rs))"

definition drop_with_error ::
  "nat \<Rightarrow> MemoryNamespace \<Rightarrow> ns_heap \<Rightarrow> (nat kresult \<times> MemoryNamespace \<times> ns_heap) option" where
  "drop_with_error a ns h = arc_drop a h \<bind> (\<lambda>h'. Some (Inl InvalidArgument, ns, h'))"

definition add_mem_range ::
  "nat \<Rightarrow> string \<Rightarrow> MemoryRangeType \<Rightarrow> nat \<Rightarrow> MemoryNamespace \<Rightarrow> ns_heap \<Rightarrow>
   (nat kresult \<times> MemoryNamespace \<times> ns_heap) option" where
  "add_mem_range a nm ty addr ns h =
     arc_get h a \<bind> (\<lambda>r.
     reserved_range r addr \<bind> (\<lambda>new.
     if snd new \<ge> 2 ^ 48 then drop_with_error a ns h
     else illegal_map h nm new (memory_ranges ns) \<bind> (\<lambda>illegal.
     if illegal then drop_with_error a ns h
     else get_page_table_entry_at_level (page_tree_root ns) addr (virt_tree_level r + 1) True (ns_pt h) \<bind>
     (\<lambda>(entry, m).
     case entry of
       None \<Rightarrow> drop_with_error a ns (h\<lparr>ns_pt := m\<rparr>)
     | Some (t, i) \<Rightarrow>
         read_entry m t i \<bind> (\<lambda>e.
         if present e then drop_with_error a ns (h\<lparr>ns_pt := m\<rparr>)
         else write_entry m t i
                (set_writeable True (set_executable True
                  (entry_new (word_of_nat (virt_tree_node r)) True))) \<bind> (\<lambda>m'.
              checked_add 32 (range_counter ns) 1 \<bind> (\<lambda>counter.
              Some (Inr (range_counter ns),
                    ns\<lparr>range_counter := counter,
                       memory_ranges := memory_ranges ns @
                         [\<lparr>shared_range = a, range_name = nm, range_type = ty, map_address = addr,
                           range_id = range_counter ns\<rparr>]\<rparr>,
                    h\<lparr>ns_pt := m'\<rparr>))))))))"

primrec copy_ranges ::
  "OwnedVirtualMemoryRange list \<Rightarrow> MemoryNamespace \<Rightarrow> ns_heap \<Rightarrow>
   (unit kresult \<times> MemoryNamespace \<times> ns_heap) option" where
  "copy_ranges [] ns h = Some (Inr (), ns, h)"
| "copy_ranges (r # rs) ns h =
     arc_clone (shared_range r) h \<bind> (\<lambda>h1.
     add_mem_range (shared_range r) (range_name r) (range_type r) (map_address r) ns h1 \<bind>
     (\<lambda>(res, ns', h2).
     case res of Inl e \<Rightarrow> Some (Inl e, ns', h2) | Inr _ \<Rightarrow> copy_ranges rs ns' h2))"

section \<open>Unmapping\<close>

definition clear_mapping :: "nat \<Rightarrow> OwnedVirtualMemoryRange \<Rightarrow> VirtualMemoryRange \<Rightarrow> pt_mem \<Rightarrow> pt_mem option" where
  "clear_mapping root r v m =
     get_page_table_entry_at_level root (map_address r) (virt_tree_level v + 1) False m \<bind> (\<lambda>(entry, m1).
     case entry of
       None \<Rightarrow> Some m1
     | Some (t, i) \<Rightarrow>
         read_entry m1 t i \<bind> (\<lambda>e.
         if unat (entry_address e) \<noteq> virt_tree_node v then Some m1 else write_entry m1 t i 0))"

definition remove_mem_range_by_index ::
  "nat \<Rightarrow> MemoryNamespace \<Rightarrow> ns_heap \<Rightarrow> (MemoryNamespace \<times> ns_heap) option" where
  "remove_mem_range_by_index i ns h =
     index_at (memory_ranges ns) i \<bind> (\<lambda>r.
     arc_get h (shared_range r) \<bind> (\<lambda>v.
     clear_mapping (page_tree_root ns) r v (ns_pt h) \<bind> (\<lambda>m.
     arc_drop (shared_range r) (h\<lparr>ns_pt := m\<rparr>) \<bind> (\<lambda>h'.
     Some (ns\<lparr>memory_ranges := swap_remove (memory_ranges ns) i\<rparr>, h')))))"

definition remove_where ::
  "(OwnedVirtualMemoryRange \<Rightarrow> bool) \<Rightarrow> MemoryNamespace \<Rightarrow> ns_heap \<Rightarrow>
   (unit kresult \<times> MemoryNamespace \<times> ns_heap) option" where
  "remove_where p ns h =
     (case position p (memory_ranges ns) of
        None \<Rightarrow> Some (Inl NoEntry, ns, h)
      | Some i \<Rightarrow> remove_mem_range_by_index i ns h \<bind> (\<lambda>(ns', h'). Some (Inr (), ns', h')))"

definition remove_mem_range_by_name ::
  "string \<Rightarrow> MemoryNamespace \<Rightarrow> ns_heap \<Rightarrow> (unit kresult \<times> MemoryNamespace \<times> ns_heap) option" where
  "remove_mem_range_by_name nm = remove_where (\<lambda>r. range_name r = nm)"

definition remove_mem_range_by_id ::
  "nat \<Rightarrow> MemoryNamespace \<Rightarrow> ns_heap \<Rightarrow> (unit kresult \<times> MemoryNamespace \<times> ns_heap) option" where
  "remove_mem_range_by_id i = remove_where (\<lambda>r. range_id r = i)"

primrec remove_ranges :: "nat \<Rightarrow> OwnedVirtualMemoryRange list \<Rightarrow> ns_heap \<Rightarrow> ns_heap option" where
  "remove_ranges root [] h = Some h"
| "remove_ranges root (r # rs) h =
     arc_get h (shared_range r) \<bind> (\<lambda>v.
     clear_mapping root r v (ns_pt h) \<bind> (\<lambda>m.
     arc_drop (shared_range r) (h\<lparr>ns_pt := m\<rparr>) \<bind> remove_ranges root rs))"

definition remove_all_mem_ranges :: "MemoryNamespace \<Rightarrow> ns_heap \<Rightarrow> (MemoryNamespace \<times> ns_heap) option" where
  "remove_all_mem_ranges ns h =
     remove_ranges (page_tree_root ns) (memory_ranges ns) h \<bind> (\<lambda>h'.
     Some (ns\<lparr>memory_ranges := []\<rparr>, h'))"

definition drop_namespace :: "MemoryNamespace \<Rightarrow> ns_heap \<Rightarrow> ns_heap option" where
  "drop_namespace ns h =
     remove_all_mem_ranges ns h \<bind> (\<lambda>(ns', h').
     delete_page_table (page_tree_root ns') 4 False (ns_pt h') \<bind> (\<lambda>m. Some (h'\<lparr>ns_pt := m\<rparr>)))"

text \<open>\<open>create_from\<close>: a failed copy drops the half-built namespace.\<close>

definition create_from ::
  "nat \<Rightarrow> MemoryNamespace \<Rightarrow> ns_heap \<Rightarrow> (MemoryNamespace kresult \<times> ns_heap) option" where
  "create_from i other h =
     create_empty i h \<bind> (\<lambda>(ns, h1).
     copy_ranges (memory_ranges other) (ns\<lparr>memory_ranges := [], range_counter := range_counter other\<rparr>) h1 \<bind>
     (\<lambda>(res, ns', h2).
     case res of
       Inl e \<Rightarrow> drop_namespace ns' h2 \<bind> (\<lambda>h3. Some (Inl e, h3))
     | Inr _ \<Rightarrow> Some (Inr ns', h2)))"

section \<open>Searching\<close>

primrec first_overlap ::
  "ns_heap \<Rightarrow> nat \<times> nat \<Rightarrow> OwnedVirtualMemoryRange list \<Rightarrow> (nat \<times> nat) option option" where
  "first_overlap h new [] = Some None"
| "first_overlap h new (r # rs) =
     owned_range h r \<bind> (\<lambda>old. if overlaps old new then Some (Some old) else first_overlap h new rs)"

lemma first_overlap_overlaps: "first_overlap h new rs = Some (Some old) \<Longrightarrow> overlaps old new"
  by (induction rs) (auto simp: bind_eq_Some_conv split: if_splits)

lemma align_up_ge: "align_up c a = Some b \<Longrightarrow> a \<le> b \<and> a + capacity_bytes c < 2 ^ 64"
proof -
  assume h: "align_up c a = Some b"
  then have "a + capacity_bytes c < 2 ^ 64" by (auto simp: align_up_def bind_eq_Some_conv)
  moreover have "0 < capacity_bytes c" by (simp add: capacity_bytes_def)
  ultimately show ?thesis using h align_up_eq [of a c] div_ceil_mult_ge [of "capacity_bytes c" a] by simp
qed

function find_hole_from ::
  "VirtualMemoryRangeCapacity \<Rightarrow> ns_heap \<Rightarrow> OwnedVirtualMemoryRange list \<Rightarrow> nat \<Rightarrow> nat option option" where
  "find_hole_from size' h rs current_addr =
     (case align_up size' current_addr of
        None \<Rightarrow> None
      | Some cur \<Rightarrow>
          (case capacity_reserved_range size' cur of
             None \<Rightarrow> None
           | Some curr_range \<Rightarrow>
               if snd curr_range \<ge> 2 ^ 48 then Some None
               else (case first_overlap h curr_range rs of
                       None \<Rightarrow> None
                     | Some None \<Rightarrow> Some (Some cur)
                     | Some (Some r_range) \<Rightarrow> find_hole_from size' h rs (snd r_range))))"
  by pat_completeness auto

termination
proof (relation "measure (\<lambda>(_, _, _, a). 2 ^ 64 - a)", goal_cases)
  case (2 size' h rs a cur curr_range o' r_range)
  from align_up_ge [OF 2(1)] have "a \<le> cur" "a < 2 ^ 64" by simp_all
  moreover from 2(2) have "fst curr_range = cur"
    by (auto simp: capacity_reserved_range_def bind_eq_Some_conv)
  moreover from first_overlap_overlaps 2 have "overlaps r_range curr_range" by blast
  ultimately have "a < snd r_range" by (simp add: overlaps_def)
  with \<open>a < 2 ^ 64\<close> show ?case by simp
qed simp

declare find_hole_from.simps [simp del]

definition find_hole :: "VirtualMemoryRangeCapacity \<Rightarrow> MemoryNamespace \<Rightarrow> ns_heap \<Rightarrow> nat option option" where
  "find_hole size' ns h = find_hole_from size' h (memory_ranges ns) 1"

primrec range_at :: "ns_heap \<Rightarrow> nat \<Rightarrow> OwnedVirtualMemoryRange list \<Rightarrow> (nat \<times> nat) option option" where
  "range_at h addr [] = Some None"
| "range_at h addr (r # rs) =
     owned_range h r \<bind> (\<lambda>(s, e).
     if s \<le> addr \<and> addr < e then Some (Some (shared_range r, map_address r)) else range_at h addr rs)"

definition get_range_from_address ::
  "nat \<Rightarrow> MemoryNamespace \<Rightarrow> ns_heap \<Rightarrow> (nat \<times> nat) option option" where
  "get_range_from_address addr ns h = range_at h addr (memory_ranges ns)"

definition get_range_from_id :: "nat \<Rightarrow> MemoryNamespace \<Rightarrow> (nat \<times> nat) option" where
  "get_range_from_id i ns =
     map_option (\<lambda>r. (shared_range r, map_address r)) (find (\<lambda>r. range_id r = i) (memory_ranges ns))"

section \<open>Page faults\<close>

text \<open>The debug check: a present entry at the address is a panic in every branch.\<close>

definition fault_debug_check :: "nat \<Rightarrow> nat \<Rightarrow> pt_mem \<Rightarrow> unit option" where
  "fault_debug_check current_root addr m =
     vmm_get_page_table_entry current_root addr None m \<bind> (\<lambda>(entry, _).
     case entry of
       None \<Rightarrow> Some ()
     | Some (t, i) \<Rightarrow> read_entry m t i \<bind> (\<lambda>e. panic_unless (\<not> present e)))"

definition handle_page_fault ::
  "nat \<Rightarrow> nat \<Rightarrow> bool \<Rightarrow> bool \<Rightarrow> bool \<Rightarrow> MemoryNamespace \<Rightarrow> ns_heap \<Rightarrow> (bool \<times> ns_heap) option" where
  "handle_page_fault current_root addr write instruction_fetch user_mode ns h =
     (if \<not> user_mode then Some (False, h)
      else get_range_from_address addr ns h \<bind> (\<lambda>found.
      case found of
        None \<Rightarrow> Some (False, h)
      | Some (a, base_addr) \<Rightarrow>
          arcs h a \<bind> (\<lambda>(r, n).
          if \<not> perm_write (perms r) \<and> write then Some (False, h)
          else if \<not> perm_execute (perms r) \<and> instruction_fetch then Some (False, h)
          else fault_debug_check current_root addr (ns_pt h) \<bind> (\<lambda>_.
               expand_to_address r base_addr addr 1 (ns_pt h) \<bind> (\<lambda>(res, r', m').
               Some (case res of Inl _ \<Rightarrow> False | Inr _ \<Rightarrow> True,
                     h\<lparr>arcs := (arcs h)(a \<mapsto> (r', n)), ns_pt := m'\<rparr>))))))"

section \<open>The namespace invariant\<close>

definition refs :: "ns_heap \<Rightarrow> nat \<Rightarrow> nat" where
  "refs h a = (case arcs h a of None \<Rightarrow> 0 | Some (_, n) \<Rightarrow> n)"

text \<open>The limit of the code is \<open>2 ^ 48\<close>.  The addresses that a process may name end at \<open>2 ^ 47\<close>
  (\<open>KERNEL_START_ADDR\<close>), so the limit does not keep a range out of the upper half.\<close>

definition ends_below_limit :: "ns_heap \<Rightarrow> OwnedVirtualMemoryRange \<Rightarrow> bool" where
  "ends_below_limit h r \<longleftrightarrow> (\<exists>s e. owned_range h r = Some (s, e) \<and> e < 2 ^ 48)"

definition disjoint_ranges :: "ns_heap \<Rightarrow> OwnedVirtualMemoryRange \<Rightarrow> OwnedVirtualMemoryRange \<Rightarrow> bool" where
  "disjoint_ranges h r1 r2 \<longleftrightarrow>
     (\<forall>p q. owned_range h r1 = Some p \<longrightarrow> owned_range h r2 = Some q \<longrightarrow> snd p \<le> fst q \<or> snd q \<le> fst p)"

definition ns_ok :: "MemoryNamespace \<Rightarrow> ns_heap \<Rightarrow> bool" where
  "ns_ok ns h \<longleftrightarrow>
     distinct (map range_id (memory_ranges ns)) \<and> distinct (map range_name (memory_ranges ns)) \<and>
     (\<forall>r\<in>set (memory_ranges ns). range_id r < range_counter ns \<and> ends_below_limit h r) \<and>
     (\<forall>r1\<in>set (memory_ranges ns). \<forall>r2\<in>set (memory_ranges ns).
        range_id r1 \<noteq> range_id r2 \<longrightarrow> disjoint_ranges h r1 r2) \<and>
     (\<forall>a. count_list (map shared_range (memory_ranges ns)) a \<le> refs h a)"

lemma not_overlaps: "\<not> overlaps p q \<longleftrightarrow> snd p \<le> fst q \<or> snd q \<le> fst p"
  by (simp add: overlaps_def) linarith

lemma illegal_map_False:
  assumes "illegal_map h nm new rs = Some False" and "r \<in> set rs"
  shows "range_name r \<noteq> nm \<and> (\<exists>old. owned_range h r = Some old \<and> (snd old \<le> fst new \<or> snd new \<le> fst old))"
  using assms by (induction rs) (auto simp: bind_eq_Some_conv not_overlaps split: if_splits)

text \<open>A heap that keeps the levels of the ranges in use and their counts keeps the invariant.\<close>

definition same_levels :: "ns_heap \<Rightarrow> ns_heap \<Rightarrow> nat \<Rightarrow> bool" where
  "same_levels h h' a \<longleftrightarrow>
     map_option virt_tree_level (arc_get h a) = map_option virt_tree_level (arc_get h' a)"

lemma owned_range_same:
  assumes "same_levels h h' (shared_range r)"
  shows "owned_range h r = owned_range h' r"
  using assms unfolding same_levels_def
  by (cases "arc_get h (shared_range r)"; cases "arc_get h' (shared_range r)")
    (auto simp: owned_range_def reserved_range_def max_size_def)

lemma ns_ok_heap:
  assumes ok: "ns_ok ns h" and lv: "\<forall>r\<in>set (memory_ranges ns). same_levels h h' (shared_range r)"
    and rc: "\<forall>a. count_list (map shared_range (memory_ranges ns)) a \<le> refs h' a"
  shows "ns_ok ns h'"
proof -
  have "\<forall>r\<in>set (memory_ranges ns). owned_range h r = owned_range h' r"
    using lv owned_range_same by blast
  then show ?thesis using ok rc by (simp add: ns_ok_def ends_below_limit_def disjoint_ranges_def)
qed

lemma arc_drop_refs:
  assumes "arc_drop a h = Some h'"
  shows "refs h' = (refs h)(a := refs h a - 1) \<and> (\<forall>b. b \<noteq> a \<or> 1 < refs h a \<longrightarrow> arc_get h' b = arc_get h b)"
  using assms by (auto simp: arc_drop_def refs_def arc_get_def bind_eq_Some_conv split: if_splits)

lemma refs_ns_pt [simp]: "refs (h\<lparr>ns_pt := m\<rparr>) = refs h" "arc_get (h\<lparr>ns_pt := m\<rparr>) = arc_get h"
  by (auto simp: refs_def arc_get_def fun_eq_iff)

lemma ns_ok_mem: "ns_ok ns (h\<lparr>ns_pt := m\<rparr>) = ns_ok ns h"
  by (simp add: ns_ok_def ends_below_limit_def disjoint_ranges_def owned_range_def)

lemma ns_ok_drop_spare:
  assumes ok: "ns_ok ns h" and spare: "count_list (map shared_range (memory_ranges ns)) a < refs h a"
    and d: "arc_drop a h = Some h'"
  shows "ns_ok ns h'"
proof (rule ns_ok_heap [OF ok])
  note r = arc_drop_refs [OF d]
  show "\<forall>b. count_list (map shared_range (memory_ranges ns)) b \<le> refs h' b"
    using ok spare r by (auto simp: ns_ok_def)
  show "\<forall>v\<in>set (memory_ranges ns). same_levels h h' (shared_range v)"
  proof
    fix v assume v: "v \<in> set (memory_ranges ns)"
    have "1 < refs h a" if "shared_range v = a"
    proof -
      have "0 < count_list (map shared_range (memory_ranges ns)) a"
        using v that by (metis count_list_0_iff image_eqI list.set_map neq0_conv)
      with spare show ?thesis by linarith
    qed
    with r show "same_levels h h' (shared_range v)" unfolding same_levels_def by (cases "shared_range v = a") auto
  qed
qed

lemma add_mem_range_Inr:
  assumes "add_mem_range a nm ty addr ns h = Some (Inr i, ns', h')"
  shows "\<exists>r new m. arc_get h a = Some r \<and> reserved_range r addr = Some new \<and> snd new < 2 ^ 48 \<and>
    illegal_map h nm new (memory_ranges ns) = Some False \<and> i = range_counter ns \<and>
    ns' = ns\<lparr>range_counter := range_counter ns + 1, memory_ranges := memory_ranges ns @
       [\<lparr>shared_range = a, range_name = nm, range_type = ty, map_address = addr, range_id = i\<rparr>]\<rparr> \<and>
    h' = h\<lparr>ns_pt := m\<rparr>"
  using assms unfolding add_mem_range_def drop_with_error_def
  by (auto simp: bind_eq_Some_conv split: if_splits option.splits)

lemma add_mem_range_Inl:
  assumes "add_mem_range a nm ty addr ns h = Some (Inl e, ns', h')"
  shows "ns' = ns \<and> e = InvalidArgument \<and> (\<exists>m. arc_drop a (h\<lparr>ns_pt := m\<rparr>) = Some h' \<or> arc_drop a h = Some h')"
  using assms unfolding add_mem_range_def drop_with_error_def
  by (auto simp: bind_eq_Some_conv split: if_splits option.splits)

lemma add_mem_range_ok:
  assumes ok: "ns_ok ns h" and spare: "count_list (map shared_range (memory_ranges ns)) a < refs h a"
    and add: "add_mem_range a nm ty addr ns h = Some (res, ns', h')"
  shows "ns_ok ns' h'"
proof (cases res)
  case (Inl e)
  from add_mem_range_Inl [OF add [unfolded Inl]] obtain m where
    d: "ns' = ns" "arc_drop a (h\<lparr>ns_pt := m\<rparr>) = Some h' \<or> arc_drop a h = Some h'" by blast
  from d(2) have "ns_ok ns h'"
  proof
    assume "arc_drop a (h\<lparr>ns_pt := m\<rparr>) = Some h'"
    then show ?thesis using ns_ok_drop_spare [of ns "h\<lparr>ns_pt := m\<rparr>" a h'] ok spare by (simp add: ns_ok_mem)
  next
    assume "arc_drop a h = Some h'"
    then show ?thesis by (rule ns_ok_drop_spare [OF ok spare])
  qed
  with d(1) show ?thesis by simp
next
  case (Inr i)
  from add_mem_range_Inr [OF add [unfolded Inr]] obtain r new m where
    n: "arc_get h a = Some r" "reserved_range r addr = Some new" "snd new < 2 ^ 48"
       "illegal_map h nm new (memory_ranges ns) = Some False" "h' = h\<lparr>ns_pt := m\<rparr>"
       "ns' = ns\<lparr>range_counter := range_counter ns + 1, memory_ranges := memory_ranges ns @
          [\<lparr>shared_range = a, range_name = nm, range_type = ty, map_address = addr, range_id = range_counter ns\<rparr>]\<rparr>"
    by auto
  let ?v = "\<lparr>shared_range = a, range_name = nm, range_type = ty, map_address = addr, range_id = range_counter ns\<rparr>"
  note free = illegal_map_False [OF n(4)]
  have new: "owned_range h ?v = Some new" using n(1,2) by (simp add: owned_range_def)
  then have user: "ends_below_limit h ?v" using n(3) by (cases new) (auto simp: ends_below_limit_def)
  have "ns_ok ns' h"
    unfolding ns_ok_def n(6)
  proof (intro conjI)
    show "\<forall>r1\<in>set (memory_ranges (ns\<lparr>range_counter := range_counter ns + 1, memory_ranges := memory_ranges ns @ [?v]\<rparr>)).
      \<forall>r2\<in>set (memory_ranges (ns\<lparr>range_counter := range_counter ns + 1, memory_ranges := memory_ranges ns @ [?v]\<rparr>)).
        range_id r1 \<noteq> range_id r2 \<longrightarrow> disjoint_ranges h r1 r2"
      using ok free new by (fastforce simp: ns_ok_def disjoint_ranges_def)
  qed (use ok free spare user in \<open>auto simp: ns_ok_def less_Suc_eq Suc_le_eq\<close>)
  then show ?thesis by (simp add: n(5) ns_ok_mem)
qed

lemma ns_ok_mset:
  assumes "mset (memory_ranges ns) = add_mset r (mset rs)" and ok: "ns_ok ns h"
  shows "ns_ok (ns\<lparr>memory_ranges := rs\<rparr>) h \<and> count_list (map shared_range rs) (shared_range r) < refs h (shared_range r)"
proof -
  have m: "mset (memory_ranges ns) = mset (r # rs)" using assms(1) by simp
  then have set_eq: "set (memory_ranges ns) = insert r (set rs)" by (metis list.simps(15) mset_eq_setD)
  have d: "distinct (map f (memory_ranges ns)) \<longleftrightarrow> distinct (map f (r # rs))" for f :: "OwnedVirtualMemoryRange \<Rightarrow> 'b"
    using m by (metis mset_eq_imp_distinct_iff mset_map)
  have c: "count_list (map shared_range (memory_ranges ns)) a = count_list (map shared_range (r # rs)) a" for a
    using m by (metis count_mset mset_map)
  have le: "count_list (map shared_range rs) a + (if shared_range r = a then 1 else 0) \<le> refs h a" for a
    using ok c [of a] by (auto simp: ns_ok_def dest!: spec [of _ a])
  have "ns_ok (ns\<lparr>memory_ranges := rs\<rparr>) h"
    using ok d [of range_id] d [of range_name] le by (auto simp: ns_ok_def set_eq intro: add_leD1)
  with le [of "shared_range r"] show ?thesis by simp
qed

lemma remove_by_index_ok:
  assumes ok: "ns_ok ns h" and rm: "remove_mem_range_by_index i ns h = Some (ns', h')"
  shows "ns_ok ns' h' \<and> i < length (memory_ranges ns) \<and>
    mset (memory_ranges ns) = add_mset (memory_ranges ns ! i) (mset (memory_ranges ns'))"
proof -
  let ?r = "memory_ranges ns ! i"
  from rm obtain m where i: "i < length (memory_ranges ns)"
    and d: "arc_drop (shared_range ?r) (h\<lparr>ns_pt := m\<rparr>) = Some h'"
    and ns': "ns' = ns\<lparr>memory_ranges := swap_remove (memory_ranges ns) i\<rparr>"
    by (auto simp: remove_mem_range_by_index_def bind_eq_Some_conv)
  note ms = mset_swap_remove [OF i]
  from ns_ok_mset [OF ms ok] ns' have "ns_ok ns' (h\<lparr>ns_pt := m\<rparr>)"
    "count_list (map shared_range (memory_ranges ns')) (shared_range ?r) < refs (h\<lparr>ns_pt := m\<rparr>) (shared_range ?r)"
    by (simp_all add: ns_ok_mem)
  from ns_ok_drop_spare [OF this d] ms ns' i show ?thesis by simp
qed

lemma remove_where_ok:
  assumes "ns_ok ns h" and "remove_where p ns h = Some (res, ns', h')"
  shows "ns_ok ns' h'"
  using assms remove_by_index_ok by (fastforce simp: remove_where_def bind_eq_Some_conv split: option.splits)

lemma handle_page_fault_ok:
  assumes ok: "ns_ok ns h" and pf: "handle_page_fault root addr w x u ns h = Some (b, h')"
  shows "ns_ok ns h'"
proof (cases "h' = h")
  case False
  with pf obtain a r n r' m' res s k where
    a: "arcs h a = Some (r, n)" "expand_to_address r s addr k (ns_pt h) = Some (res, r', m')"
       "h' = h\<lparr>arcs := (arcs h)(a \<mapsto> (r', n)), ns_pt := m'\<rparr>"
    by (auto simp: handle_page_fault_def bind_eq_Some_conv split: if_splits option.splits)
  from expand_to_address_level [OF a(2)] a(1,3) have "same_levels h h' v" "refs h' v = refs h v" for v
    by (auto simp: same_levels_def arc_get_def refs_def)
  then show ?thesis using ns_ok_heap [OF ok, of h'] ok by (simp add: ns_ok_def)
qed (use ok in simp)

section \<open>Reachable namespaces\<close>

text \<open>The life of a namespace: ranges are created by the process that will map them, mapped,
  unmapped and grown by page faults.\<close>

inductive ns_step :: "MemoryNamespace \<times> ns_heap \<Rightarrow> MemoryNamespace \<times> ns_heap \<Rightarrow> bool" where
  new_range: "create c p mode (ns_pt h) = Some (r, m) \<Longrightarrow> arcs h a = None \<Longrightarrow>
     ns_step (ns, h) (ns, h\<lparr>arcs := (arcs h)(a \<mapsto> (r, 1)), ns_pt := m\<rparr>)"
| clone: "arc_clone a h = Some h' \<Longrightarrow> ns_step (ns, h) (ns, h')"
| add: "count_list (map shared_range (memory_ranges ns)) a < refs h a \<Longrightarrow>
     add_mem_range a nm ty addr ns h = Some (res, ns', h') \<Longrightarrow> ns_step (ns, h) (ns', h')"
| remove_name: "remove_mem_range_by_name nm ns h = Some (res, ns', h') \<Longrightarrow> ns_step (ns, h) (ns', h')"
| remove_id: "remove_mem_range_by_id i ns h = Some (res, ns', h') \<Longrightarrow> ns_step (ns, h) (ns', h')"
| fault: "handle_page_fault root addr w x u ns h = Some (b, h') \<Longrightarrow> ns_step (ns, h) (ns, h')"

lemma ns_step_ok:
  assumes "ns_step (ns, h) (ns', h')" and "ns_ok ns h"
  shows "ns_ok ns' h'"
  using assms
proof (cases rule: ns_step.cases)
  case (new_range c p mode r m a)
  have z: "count_list (map shared_range (memory_ranges ns)) a = 0"
    using assms(2) new_range(4) by (auto simp: ns_ok_def refs_def dest: spec [of _ a])
  then have "a \<notin> shared_range ` set (memory_ranges ns)" by (simp add: count_list_0_iff)
  then have "\<forall>v\<in>set (memory_ranges ns). same_levels h h' (shared_range v)"
    using new_range(2) by (auto simp: same_levels_def arc_get_def)
  moreover have "\<forall>b. count_list (map shared_range (memory_ranges ns)) b \<le> refs h' b"
    using assms(2) z new_range(2) by (auto simp: ns_ok_def refs_def)
  ultimately show ?thesis using ns_ok_heap [OF assms(2)] new_range(1) by simp
next
  case (clone a)
  then have "same_levels h h' v" "refs h v \<le> refs h' v" for v
    by (auto simp: arc_clone_def same_levels_def arc_get_def refs_def bind_eq_Some_conv)
  then show ?thesis using clone ns_ok_heap [OF assms(2), of h'] assms(2)
    unfolding ns_ok_def by (meson le_trans)
next
  case (add a nm ty addr res)
  then show ?thesis using add_mem_range_ok [OF assms(2)] by blast
next
  case (remove_name nm res)
  then show ?thesis using remove_where_ok [OF assms(2)] by (simp add: remove_mem_range_by_name_def)
next
  case (remove_id i res)
  then show ?thesis using remove_where_ok [OF assms(2)] by (simp add: remove_mem_range_by_id_def)
next
  case (fault root addr w x u b)
  then show ?thesis using handle_page_fault_ok [OF assms(2)] by blast
qed

section \<open>Finding a hole\<close>

definition free_slot ::
  "VirtualMemoryRangeCapacity \<Rightarrow> ns_heap \<Rightarrow> OwnedVirtualMemoryRange list \<Rightarrow> nat \<Rightarrow> bool" where
  "free_slot c h rs y \<longleftrightarrow> y mod capacity_bytes c = 0 \<and> y + capacity_bytes c < 2 ^ 48 \<and>
     (\<forall>r\<in>set rs. \<forall>p. owned_range h r = Some p \<longrightarrow> \<not> overlaps p (y, y + capacity_bytes c))"

lemma first_overlap_cases:
  assumes "\<forall>r\<in>set rs. ends_below_limit h r"
  shows "(first_overlap h new rs = Some None \<and>
      (\<forall>r\<in>set rs. \<forall>p. owned_range h r = Some p \<longrightarrow> \<not> overlaps p new)) \<or>
    (\<exists>r\<in>set rs. \<exists>p. first_overlap h new rs = Some (Some p) \<and> owned_range h r = Some p \<and>
      overlaps p new \<and> snd p < 2 ^ 48)"
  using assms
proof (induction rs)
  case (Cons r rs)
  from Cons.prems obtain p where p: "owned_range h r = Some p" "snd p < 2 ^ 48"
    by (auto simp: ends_below_limit_def)
  show ?case using Cons p by (cases "overlaps p new") auto
qed simp

text \<open>Every aligned slot from the current one up to the end of the overlapping range overlaps it as
  well, so nothing is skipped.\<close>

lemma skipped_slots_overlap:
  assumes "overlaps p (cur, cur + cap)" and "cur \<le> y" and "y < snd p"
  shows "overlaps p (y, y + cap)"
  using assms by (auto simp: overlaps_def)

lemma align_up_least:
  assumes "a \<le> y" and "y mod capacity_bytes c = 0"
  shows "div_ceil a (capacity_bytes c) * capacity_bytes c \<le> y"
proof -
  have c: "0 < capacity_bytes c" by (simp add: capacity_bytes_def)
  have "y div capacity_bytes c * capacity_bytes c = y" using assms(2) by (simp add: div_mult_self_is_m mod_eq_0_iff_dvd)
  then have "div_ceil a (capacity_bytes c) * capacity_bytes c < y div capacity_bytes c * capacity_bytes c + capacity_bytes c"
    using div_ceil_mult_less [OF c, of a] assms(1) by linarith
  then have "div_ceil a (capacity_bytes c) * capacity_bytes c < (y div capacity_bytes c + 1) * capacity_bytes c"
    by (simp add: add_mult_distrib)
  from this [THEN mult_less_cancel2 [THEN iffD1]]
  have "div_ceil a (capacity_bytes c) \<le> y div capacity_bytes c" by simp
  then have "div_ceil a (capacity_bytes c) * capacity_bytes c \<le> y div capacity_bytes c * capacity_bytes c"
    by (rule mult_le_mono1)
  with \<open>y div capacity_bytes c * capacity_bytes c = y\<close> show ?thesis by simp
qed

lemma find_hole_from_correct:
  assumes "\<forall>r\<in>set rs. ends_below_limit h r" and "a < 2 ^ 48"
  shows "\<exists>res. find_hole_from c h rs a = Some res \<and>
    (case res of
       Some x \<Rightarrow> a \<le> x \<and> free_slot c h rs x \<and> (\<forall>y. a \<le> y \<and> free_slot c h rs y \<longrightarrow> x \<le> y)
     | None \<Rightarrow> \<forall>y. a \<le> y \<longrightarrow> \<not> free_slot c h rs y)"
  using assms
proof (induction c h rs a rule: find_hole_from.induct)
  case (1 c h rs a)
  let ?n = "capacity_bytes c" let ?cur = "div_ceil a (capacity_bytes c) * capacity_bytes c"
  have n: "0 < ?n" "?n \<le> 2 ^ 39" using capacity_bytes_bounds [of c] by simp_all
  have up: "align_up c a = Some ?cur" by (rule align_up_eq) (use 1(3) n in simp)
  have cur: "a \<le> ?cur" "?cur < a + ?n" "?cur mod ?n = 0"
    using div_ceil_mult_ge [OF n(1)] div_ceil_mult_less [OF n(1)] by simp_all
  have least: "?cur \<le> y" if "a \<le> y" "free_slot c h rs y" for y
    using that align_up_least by (simp add: free_slot_def)
  have rr: "capacity_reserved_range c ?cur = Some (?cur, ?cur + ?n)"
    using cur(2) 1(3) n by (simp add: capacity_reserved_range_def checked_simps)
  show ?case
  proof (cases "2 ^ 48 \<le> ?cur + ?n")
    case True
    then have "find_hole_from c h rs a = Some None"
      by (subst find_hole_from.simps) (simp add: up rr)
    moreover have "\<not> free_slot c h rs y" if "a \<le> y" for y
    proof
      assume f: "free_slot c h rs y"
      from least [OF that f] f True show False by (simp add: free_slot_def)
    qed
    ultimately show ?thesis by simp
  next
    case False
    from first_overlap_cases [OF 1(2), of "(?cur, ?cur + ?n)"] show ?thesis
    proof (elim disjE bexE exE conjE)
      assume o: "first_overlap h (?cur, ?cur + ?n) rs = Some None"
        "\<forall>r\<in>set rs. \<forall>p. owned_range h r = Some p \<longrightarrow> \<not> overlaps p (?cur, ?cur + ?n)"
      then have "find_hole_from c h rs a = Some (Some ?cur)"
        using False by (subst find_hole_from.simps) (simp add: up rr)
      moreover have "free_slot c h rs ?cur" using o(2) cur(3) False by (simp add: free_slot_def)
      ultimately show ?thesis using cur(1) least by auto
    next
      fix r p assume o: "r \<in> set rs" "first_overlap h (?cur, ?cur + ?n) rs = Some (Some p)"
        "owned_range h r = Some p" "overlaps p (?cur, ?cur + ?n)" "snd p < 2 ^ 48"
      then have step: "find_hole_from c h rs a = find_hole_from c h rs (snd p)"
        using False by (subst find_hole_from.simps) (simp add: up rr)
      have ge: "a \<le> snd p" using o(4) cur(1) by (simp add: overlaps_def)
      have skip: "snd p \<le> y" if "a \<le> y" "free_slot c h rs y" for y
      proof (rule ccontr)
        assume "\<not> snd p \<le> y"
        with skipped_slots_overlap [OF o(4) least [OF that]] have "overlaps p (y, y + ?n)" by simp
        with that(2) o(1,3) show False unfolding free_slot_def by blast
      qed
      from 1(1) [OF up rr _ o(2) refl 1(2) o(5)] False obtain res where
        res: "find_hole_from c h rs (snd p) = Some res"
        "case res of Some x \<Rightarrow> snd p \<le> x \<and> free_slot c h rs x \<and> (\<forall>y. snd p \<le> y \<and> free_slot c h rs y \<longrightarrow> x \<le> y)
         | None \<Rightarrow> \<forall>y. snd p \<le> y \<longrightarrow> \<not> free_slot c h rs y" by auto
      show ?thesis
      proof (cases res)
        case None
        with res skip have "\<not> free_slot c h rs y" if "a \<le> y" for y using that by auto
        with None res(1) step show ?thesis by simp
      next
        case (Some x)
        with res(2) have x: "snd p \<le> x" "free_slot c h rs x" "\<And>y. snd p \<le> y \<Longrightarrow> free_slot c h rs y \<Longrightarrow> x \<le> y"
          by auto
        then have "\<forall>y. a \<le> y \<and> free_slot c h rs y \<longrightarrow> x \<le> y" using skip by blast
        moreover have "a \<le> x" using ge x(1) by (rule le_trans)
        ultimately show ?thesis using Some res(1) step x(2) by simp
      qed
    qed
  qed
qed

lemma kunit_is_Inr: "(case (res :: unit kresult) of Inl _ \<Rightarrow> False | Inr _ \<Rightarrow> True) \<longleftrightarrow> res = Inr ()"
  by (cases res) auto

section \<open>Properties\<close>

text \<open>C4: In every namespace reached from an empty one by creating, sharing, mapping and unmapping
  ranges and by page faults, no two mapped ranges overlap, their ids and names are unique, and every
  range ends below \<open>2^48\<close>.  That bound is the one \<open>add_mem_range\<close> checks to keep ranges out of
  kernel space; the kernel's half starts at \<open>2^47\<close>, and the witness reaches a namespace with a
  range there, so the ranges are not confined to the user half.\<close>

theorem namespace_ranges_disjoint:
  assumes "create_empty i h0 = Some (ns0, h)" and "ns_step\<^sup>*\<^sup>* (ns0, h) (ns, h')"
  shows "distinct (map range_id (memory_ranges ns)) \<and> distinct (map range_name (memory_ranges ns)) \<and>
    (\<forall>r\<in>set (memory_ranges ns). \<exists>s e. owned_range h' r = Some (s, e) \<and> e < 2 ^ 48) \<and>
    (\<forall>r1\<in>set (memory_ranges ns). \<forall>r2\<in>set (memory_ranges ns). \<forall>p q. range_id r1 \<noteq> range_id r2 \<longrightarrow>
       owned_range h' r1 = Some p \<longrightarrow> owned_range h' r2 = Some q \<longrightarrow> snd p \<le> fst q \<or> snd q \<le> fst p)"
proof -
  have "ns_ok ns0 h" using assms(1) by (auto simp: create_empty_def ns_ok_def bind_eq_Some_conv)
  with assms(2) have "ns_ok ns h'"
    by (induction "(ns, h')" arbitrary: ns h' rule: rtranclp_induct) (auto intro: ns_step_ok)
  then show ?thesis by (simp add: ns_ok_def ends_below_limit_def disjoint_ranges_def)
qed

definition demo_range :: VirtualMemoryRange where
  "demo_range = stack_2MB\<lparr>virt_tree_level := 3, allocated_pages := 0\<rparr>"

definition demo_heap :: ns_heap where
  "demo_heap = \<lparr>arcs = [0 \<mapsto> (demo_range, 1), 1 \<mapsto> (stack_2MB, 1)], ns_pt = bare_mem\<rparr>"

definition demo_owned :: OwnedVirtualMemoryRange where
  "demo_owned = \<lparr>shared_range = 1, range_name = ''stack'', range_type = Stack, map_address = 0x200000, range_id = 1\<rparr>"

definition demo_ns :: MemoryNamespace where
  "demo_ns = \<lparr>ns_id = 1, page_tree_root = 0x3000, range_counter = 2, memory_ranges = [demo_owned]\<rparr>"

lemmas demo_defs = demo_range_def demo_heap_def demo_owned_def demo_ns_def stack_2MB_def

lemma demo_owned_range: "owned_range demo_heap demo_owned = Some (0x200000, 0x400000)"
  by (simp add: demo_defs owned_range_def arc_get_def reserved_range_def max_size_def from_level_def
      capacity_reserved_range_def capacity_bytes_def checked_simps)

lemma namespace_ranges_disjoint_witness:
  "\<exists>ns0 h ns h'. create_empty 5 demo_heap = Some (ns0, h) \<and> ns_step\<^sup>*\<^sup>* (ns0, h) (ns, h') \<and>
     map range_name (memory_ranges ns) = [''data''] \<and>
     map (owned_range h') (memory_ranges ns) = [Some (2 ^ 47, 2 ^ 47 + 2 ^ 39)] \<and>
     (\<forall>r\<in>set (memory_ranges ns). \<exists>s e. owned_range h' r = Some (s, e) \<and> e < 2 ^ 48)"
proof -
  from allocate_frame_wf [OF tiny_wf] tiny_free_ne obtain b1 where b: "allocate_frame tiny_buddy = Some (7 * 4096, b1)"
    by (auto simp: tiny_free Max_lessThan_8)
  let ?m = "clear_table (bare_mem\<lparr>frames := b1\<rparr>) 0x7000"
  let ?ns = "\<lparr>ns_id = 5, page_tree_root = 0x7000, range_counter = 1, memory_ranges = []\<rparr>"
  have c: "create_empty 5 demo_heap = Some (?ns, demo_heap\<lparr>ns_pt := ?m\<rparr>)"
    using b by (simp add: create_empty_def alloc_zeroed_def alloc_frame_def demo_heap_def bare_mem_def)
  have idx: "new_empty ! 256 = 0" "length new_empty = 512" by (simp_all add: new_empty_def blank_def)
  have rd: "read_entry ?m 0x7000 256 = Some 0" by (simp add: read_entry_def clear_table_def idx)
  from write_entry_Some [OF rd] obtain m' where
    wr: "write_entry ?m 0x7000 256 (set_writeable True (set_executable True (entry_new (word_of_nat 0x3000) True))) = Some m'"
    by blast
  have "PageTable.get_page_table_entry (Suc 3) 0x7000 0x800000000000 0 (Suc 3) True ?m = Some (Some (0x7000, 256), ?m)"
    unfolding get_page_table_entry.simps by (simp add: level_index_def checked_simps)
  then have g: "get_page_table_entry_at_level 0x7000 0x800000000000 4 True ?m = Some (Some (0x7000, 256), ?m)"
    by (simp add: get_page_table_entry_at_level_def)
  have rr: "reserved_range demo_range 0x800000000000 = Some (0x800000000000, 0x808000000000)"
    by (simp add: demo_defs reserved_range_def max_size_def from_level_def capacity_reserved_range_def
        capacity_bytes_def checked_simps)
  obtain ns' h' where a: "add_mem_range 0 ''data'' RWData 0x800000000000 ?ns (demo_heap\<lparr>ns_pt := ?m\<rparr>) = Some (Inr 1, ns', h')"
      "map range_name (memory_ranges ns') = [''data'']"
      "map (owned_range h') (memory_ranges ns') = [Some (2 ^ 47, 2 ^ 47 + 2 ^ 39)]"
  proof -
    have "arc_get demo_heap 0 = Some demo_range" by (simp add: demo_heap_def arc_get_def)
    moreover have "virt_tree_node demo_range = 0x3000" "virt_tree_level demo_range = 3" by (simp_all add: demo_defs)
    moreover have "\<not> present 0" by (simp add: present_def)
    ultimately show thesis using that g rd wr rr
      by (simp add: add_mem_range_def checked_simps owned_range_def)
  qed
  have "ns_step (?ns, demo_heap\<lparr>ns_pt := ?m\<rparr>) (ns', h')"
    by (rule ns_step.add [OF _ a(1)]) (simp add: refs_def demo_heap_def)
  then have st: "ns_step\<^sup>*\<^sup>* (?ns, demo_heap\<lparr>ns_pt := ?m\<rparr>) (ns', h')" by simp
  from namespace_ranges_disjoint [OF c st]
  have "\<forall>r\<in>set (memory_ranges ns'). \<exists>s e. owned_range h' r = Some (s, e) \<and> e < 2 ^ 48" by (elim conjE)
  with c st a(2,3) show ?thesis by (intro exI conjI)
qed

text \<open>C35: \<open>find_hole\<close> terminates and is exact: it returns the lowest positive address aligned to the
  capacity whose slot ends below \<open>2^48\<close>, the limit the code checks, and overlaps no mapped range, and
  \<open>None\<close> only when there is no such address.  The slot lies in the user half, below \<open>2^47\<close>, exactly
  when the user half has a free slot: once it is full, the search goes on and returns addresses of
  the kernel's half.\<close>

theorem find_hole_correct:
  assumes "\<forall>r\<in>set (memory_ranges ns). \<exists>s e. owned_range h r = Some (s, e) \<and> e < 2 ^ 48"
  shows "\<exists>res. find_hole c ns h = Some res \<and>
    (case res of
       Some x \<Rightarrow> 0 < x \<and> free_slot c h (memory_ranges ns) x \<and>
         (\<forall>y. 0 < y \<and> free_slot c h (memory_ranges ns) y \<longrightarrow> x \<le> y) \<and>
         (x + capacity_bytes c \<le> 2 ^ 47 \<longleftrightarrow>
            (\<exists>y. 0 < y \<and> free_slot c h (memory_ranges ns) y \<and> y + capacity_bytes c \<le> 2 ^ 47))
     | None \<Rightarrow> \<forall>y. 0 < y \<longrightarrow> \<not> free_slot c h (memory_ranges ns) y)"
proof -
  have "\<forall>r\<in>set (memory_ranges ns). ends_below_limit h r" using assms by (simp add: ends_below_limit_def)
  from find_hole_from_correct [OF this, of 1 c] obtain res where
    res: "find_hole_from c h (memory_ranges ns) 1 = Some res"
    "case res of Some x \<Rightarrow> 1 \<le> x \<and> free_slot c h (memory_ranges ns) x \<and>
         (\<forall>y. 1 \<le> y \<and> free_slot c h (memory_ranges ns) y \<longrightarrow> x \<le> y)
     | None \<Rightarrow> \<forall>y. 1 \<le> y \<longrightarrow> \<not> free_slot c h (memory_ranges ns) y" by auto
  show ?thesis
  proof (cases res)
    case None
    with res show ?thesis by (auto simp: find_hole_def Suc_le_eq)
  next
    case (Some x)
    with res(2) have x: "0 < x" "free_slot c h (memory_ranges ns) x"
      "\<And>y. 0 < y \<Longrightarrow> free_slot c h (memory_ranges ns) y \<Longrightarrow> x \<le> y" by (auto simp: Suc_le_eq)
    then have "x + capacity_bytes c \<le> 2 ^ 47 \<longleftrightarrow>
        (\<exists>y. 0 < y \<and> free_slot c h (memory_ranges ns) y \<and> y + capacity_bytes c \<le> 2 ^ 47)"
      by (meson add_le_mono1 le_trans)
    with x Some res(1) show ?thesis by (simp add: find_hole_def)
  qed
qed

text \<open>A namespace whose user half is full: 255 ranges of 512 GB fill the slots 1 to 255.\<close>

definition full_range :: "nat \<Rightarrow> OwnedVirtualMemoryRange" where
  "full_range k = \<lparr>shared_range = 0, range_name = replicate k (CHR ''a''), range_type = RWData,
     map_address = k * 2 ^ 39, range_id = k\<rparr>"

definition full_ns :: MemoryNamespace where
  "full_ns = \<lparr>ns_id = 1, page_tree_root = 0x3000, range_counter = 256,
     memory_ranges = map full_range [1..<256]\<rparr>"

lemma full_owned_range:
  assumes "k < 256"
  shows "owned_range demo_heap (full_range k) = Some (k * 2 ^ 39, (k + 1) * 2 ^ 39)"
proof -
  have "k * 2 ^ 39 + 2 ^ 39 < (2 :: nat) ^ 64" using assms by simp
  then show ?thesis
    by (simp add: demo_defs full_range_def owned_range_def arc_get_def reserved_range_def max_size_def
        from_level_def capacity_reserved_range_def capacity_bytes_def checked_simps)
qed

lemma find_hole_correct_witness:
  "find_hole C05TB full_ns demo_heap = Some (Some (2 ^ 47)) \<and>
   (\<exists>x. find_hole C2MB demo_ns demo_heap = Some (Some x) \<and> free_slot C2MB demo_heap [demo_owned] x \<and>
      x + capacity_bytes C2MB \<le> 2 ^ 47)"
proof
  let ?rs = "memory_ranges full_ns"
  have bnd: "\<forall>r\<in>set ?rs. \<exists>s e. owned_range demo_heap r = Some (s, e) \<and> e < 2 ^ 48"
    by (auto simp: full_ns_def full_owned_range)
  have free: "free_slot C05TB demo_heap ?rs (2 ^ 47)"
    by (auto simp: free_slot_def full_ns_def full_owned_range overlaps_def capacity_bytes_def)
  have no: "2 ^ 47 \<le> y" if "0 < y" "free_slot C05TB demo_heap ?rs y" for y
  proof (rule ccontr)
    assume l: "\<not> 2 ^ 47 \<le> y"
    define k where "k = y div 2 ^ 39"
    have y: "y = k * 2 ^ 39" using that(2) by (auto simp: free_slot_def capacity_bytes_def k_def)
    with l that(1) have k: "1 \<le> k" "k < 256" by auto
    then have "full_range k \<in> set ?rs" by (auto simp: full_ns_def)
    with that(2) full_owned_range [OF k(2)] have "\<not> overlaps (k * 2 ^ 39, (k + 1) * 2 ^ 39) (y, y + 2 ^ 39)"
      by (auto simp: free_slot_def capacity_bytes_def)
    then show False using y by (simp add: overlaps_def)
  qed
  from find_hole_correct [OF bnd, of C05TB] free no show "find_hole C05TB full_ns demo_heap = Some (Some (2 ^ 47))"
    by (force split: option.splits intro: le_antisym)
next
  have r: "memory_ranges demo_ns = [demo_owned]" by (simp add: demo_ns_def)
  have f: "free_slot C2MB demo_heap [demo_owned] 0x400000" "0x400000 + capacity_bytes C2MB \<le> 2 ^ 47"
    by (simp_all add: free_slot_def demo_owned_range overlaps_def capacity_bytes_def)
  have "\<forall>r\<in>set (memory_ranges demo_ns). \<exists>s e. owned_range demo_heap r = Some (s, e) \<and> e < 2 ^ 48"
    by (simp add: r demo_owned_range)
  from find_hole_correct [OF this, of C2MB, unfolded r] f
  show "\<exists>x. find_hole C2MB demo_ns demo_heap = Some (Some x) \<and> free_slot C2MB demo_heap [demo_owned] x \<and>
      x + capacity_bytes C2MB \<le> 2 ^ 47"
    by (fastforce split: option.splits)
qed

text \<open>C34: A page fault is resolved only for user mode, at an address inside a mapped range whose
  permissions allow the access; afterwards the range's extent contains the address, and it grew by
  at most one page.\<close>

theorem handle_page_fault_sound:
  assumes "handle_page_fault root addr write fetch user ns h = Some (True, h')"
    and "\<forall>r\<in>set (memory_ranges ns). map_address r mod 4096 = 0" and "\<forall>a r n. arcs h a = Some (r, n) \<longrightarrow> range_wf r"
  shows "user \<and> (\<exists>v\<in>set (memory_ranges ns). \<exists>r r'. arc_get h (shared_range v) = Some r \<and>
    arc_get h' (shared_range v) = Some r' \<and>
    (write \<longrightarrow> perm_write (perms r)) \<and> (fetch \<longrightarrow> perm_execute (perms r)) \<and>
    allocated_pages r' \<le> allocated_pages r + 1 \<and>
    (\<exists>s e. current_range r' (map_address v) = Some (Inr (s, e)) \<and> s \<le> addr \<and> addr < e))"
proof -
  have at: "\<exists>v\<in>set rs. x = (shared_range v, map_address v)" if "range_at h addr rs = Some (Some x)" for rs x
    using that by (induction rs) (auto simp: bind_eq_Some_conv split: if_splits)
  from assms(1) obtain a base r n r' m' where p: "user" "get_range_from_address addr ns h = Some (Some (a, base))"
    "arcs h a = Some (r, n)" "write \<longrightarrow> perm_write (perms r)" "fetch \<longrightarrow> perm_execute (perms r)"
    "expand_to_address r base addr 1 (ns_pt h) = Some (Inr (), r', m')"
    "h' = h\<lparr>arcs := (arcs h)(a \<mapsto> (r', n)), ns_pt := m'\<rparr>"
    by (auto simp: handle_page_fault_def bind_eq_Some_conv kunit_is_Inr split: if_splits option.splits)
  from at [of "memory_ranges ns" "(a, base)"] p(2) obtain v where
    v: "v \<in> set (memory_ranges ns)" "shared_range v = a" "map_address v = base"
    by (auto simp: get_range_from_address_def)
  with assms(2) have "base mod 4096 = 0" by auto
  from expand_to_address_covers [OF assms(3) [rule_format, OF p(3)] this p(6)] p v show ?thesis
    by (intro conjI bexI [of _ v]) (auto simp: arc_get_def)
qed

lemma handle_page_fault_sound_witness:
  "\<exists>h' r' s e. handle_page_fault 0x3000 0x3FFFFF True False True demo_ns demo_heap = Some (True, h') \<and>
     arc_get h' 1 = Some r' \<and> current_range r' 0x200000 = Some (Inr (s, e)) \<and> s \<le> 0x3FFFFF \<and> 0x3FFFFF < e"
proof -
  have "PageTable.get_page_table_entry (Suc 3) 0x3000 0x3FFFFF 0 (Suc 0) False bare_mem = Some (None, bare_mem)"
    unfolding get_page_table_entry.simps
    by (simp add: level_index_def checked_simps read_entry_def bare_mem_def new_empty_def blank_def index_at_def present_def)
  then have dbg: "fault_debug_check 0x3000 0x3FFFFF bare_mem = Some ()"
    by (simp add: fault_debug_check_def vmm_get_page_table_entry_def get_page_table_entry_at_level_def)
  have ex: "expand_to_address stack_2MB 0x200000 0x3FFFFF 1 bare_mem = Some (Inr (), stack_2MB, bare_mem)"
    by (simp add: expand_to_address_def stack_2MB_def reserved_range_def max_size_def from_level_def
        capacity_reserved_range_def capacity_bytes_def current_range_def capacity_pages_def
        pages_to_reach_def align_down_4KB checked_simps)
  have g: "get_range_from_address 0x3FFFFF demo_ns demo_heap = Some (Some (1, 0x200000))"
    by (simp add: get_range_from_address_def demo_ns_def demo_owned_range) (simp add: demo_owned_def)
  have h: "arcs demo_heap 1 = Some (stack_2MB, 1)" "ns_pt demo_heap = bare_mem" by (simp_all add: demo_heap_def)
  obtain h' where pf: "handle_page_fault 0x3000 0x3FFFFF True False True demo_ns demo_heap = Some (True, h')"
    using g h dbg ex by (simp add: handle_page_fault_def) (simp add: stack_2MB_def)
  have al: "\<forall>r\<in>set (memory_ranges demo_ns). map_address r mod 4096 = 0" by (simp add: demo_defs)
  have wf: "\<forall>a r n. arcs demo_heap a = Some (r, n) \<longrightarrow> range_wf r" by (auto simp: demo_defs range_wf_def split: if_splits)
  from handle_page_fault_sound [OF pf al wf] pf show ?thesis by (auto simp: demo_ns_def demo_owned_def)
qed

end
