(* ===== verification/NetChecksum.thy ===== *)
theory NetChecksum
  imports Prelude
begin

text \<open>
  The internet checksum (\<open>compute_internet_checksum\<close> in \<open>net/mod.rs\<close>): the loop over pairs of
  bytes indexes \<open>i + 1\<close>, so an odd number of bytes is a panic; the sum wraps at 32 bits; carries
  are folded until none is left.
\<close>

fun sum_words :: "u32 \<Rightarrow> u8 list \<Rightarrow> u32 option" where
  "sum_words s [] = Some s"
| "sum_words s [a] = None"
| "sum_words s (a # b # bs) = sum_words (s + ucast (u16_from_be a b)) bs"

lemma fold_step_unat: "unat ((s AND 0xFFFF) + drop_bit 16 s :: u32) = unat s mod 65536 + unat s div 65536"
proof -
  have "s AND 0xFFFF = take_bit 16 s" by (simp only: take_bit_eq_mask mask_eq_exp_minus_1) simp
  then have "s AND 0xFFFF = s mod 65536" by (simp only: take_bit_eq_mod) simp
  then have l: "unat (s AND 0xFFFF) = unat s mod 65536" by (simp only: unat_mod_distrib) simp
  have h: "unat (drop_bit 16 s) = unat s div 65536"
    by (simp only: drop_bit_eq_div unat_div_distrib) simp
  have "unat s < 2 ^ 32" using unsigned_less [of s] by simp
  then have "unat s div 65536 < 65536" by (simp add: less_mult_imp_div_less)
  moreover have "unat s mod 65536 < 65536" by simp
  ultimately have "unat s mod 65536 + unat s div 65536 < 2 ^ 32" by simp
  then show ?thesis by (simp only: unat_word_ariths l h) simp
qed

lemma no_carry_iff: "drop_bit 16 s = (0 :: u32) \<longleftrightarrow> unat s < 65536"
proof -
  have "drop_bit 16 s = (0 :: u32) \<longleftrightarrow> unat (drop_bit 16 s) = 0" by (simp only: unat_eq_0)
  moreover have "unat (drop_bit 16 s) = unat s div 65536"
    by (simp only: drop_bit_eq_div unat_div_distrib) simp
  ultimately show ?thesis by (simp add: div_eq_0_iff)
qed

function fold_carry :: "u32 \<Rightarrow> u32" where
  "fold_carry s = (if drop_bit 16 s \<noteq> 0 then fold_carry ((s AND 0xFFFF) + drop_bit 16 s) else s)"
  by pat_completeness auto

termination
proof (relation "measure unat")
  fix s :: u32 assume "drop_bit 16 s \<noteq> 0"
  then have "65536 \<le> unat s" by (simp add: no_carry_iff)
  then have "0 < unat s div 65536" by (simp add: div_greater_zero_iff)
  moreover have "unat s = unat s div 65536 * 65536 + unat s mod 65536" by simp
  ultimately have "unat s mod 65536 + unat s div 65536 < unat s" by linarith
  then show "((s AND 0xFFFF) + drop_bit 16 s, s) \<in> measure unat" by (simp only: in_measure fold_step_unat)
qed simp

declare fold_carry.simps [simp del]

definition compute_internet_checksum :: "u8 list \<Rightarrow> u16 option" where
  "compute_internet_checksum header =
     sum_words 0 header \<bind> (\<lambda>sum. Some (NOT (ucast (fold_carry sum))))"

section \<open>The folded sum\<close>

text \<open>The sum of the words as a natural number, most significant byte first.\<close>

fun word_sum :: "u8 list \<Rightarrow> nat" where
  "word_sum [] = 0"
| "word_sum [a] = 0"
| "word_sum (a # b # bs) = unat a * 256 + unat b + word_sum bs"

lemma word_sum_bound: "word_sum bs \<le> 65535 * (length bs div 2)"
proof (induction bs rule: word_sum.induct)
  case (3 a b bs)
  have "unat a \<le> 255" "unat b \<le> 255" using unat_u8_less [of a] unat_u8_less [of b] by linarith+
  with 3 show ?case by simp
qed simp_all

lemma sum_words_odd: "odd (length bs) \<Longrightarrow> sum_words s bs = None"
  by (induction s bs rule: sum_words.induct) auto

lemma sum_words_even:
  assumes "even (length bs)" and "unat s + word_sum bs < 2 ^ 32"
  shows "\<exists>r. sum_words s bs = Some r \<and> unat r = unat s + word_sum bs"
  using assms
proof (induction s bs rule: sum_words.induct)
  case (3 s a b bs)
  have w: "unat (ucast (u16_from_be a b) :: u32) = unat a * 256 + unat b"
  proof -
    have "unat a * 256 + unat b < 4294967296" using unat_u8_less [of a] unat_u8_less [of b] by linarith
    then show ?thesis by (simp add: unsigned_ucast_eq take_bit_nat_eq_self unat_u16_from_be)
  qed
  have u: "unat (s + ucast (u16_from_be a b)) = unat s + (unat a * 256 + unat b)"
    using 3(3) by (simp add: unat_word_ariths w)
  show ?case using 3(1) 3(2,3) by (simp add: u add.assoc)
qed auto

lemma fold_carry_correct:
  "unat (fold_carry s) < 65536 \<and> unat (fold_carry s) mod 65535 = unat s mod 65535 \<and>
   (unat (fold_carry s) = 0 \<longleftrightarrow> unat s = 0)"
proof (induction s rule: fold_carry.induct)
  case (1 s)
  show ?case
  proof (cases "drop_bit 16 s = 0")
    case True
    then show ?thesis by (subst (1 2 3) fold_carry.simps) (simp add: no_carry_iff)
  next
    case False
    let ?s = "(s AND 0xFFFF) + drop_bit 16 s"
    have f: "fold_carry s = fold_carry ?s" using False by (subst fold_carry.simps) simp
    have d: "unat s = unat s div 65536 * 65536 + unat s mod 65536" by simp
    have aux: "n mod 65535 = (r + q) mod 65535" if "n = q * 65536 + r" for n q r :: nat
      using that mod_mult_self1 [of "r + q" q 65535] by (simp add: algebra_simps)
    from aux [OF d] have "unat s mod 65535 = (unat s mod 65536 + unat s div 65536) mod 65535" .
    then have "unat s mod 65535 = unat ?s mod 65535" by (simp only: fold_step_unat)
    moreover have "unat ?s = 0 \<longleftrightarrow> unat s = 0"
      using False by (simp only: fold_step_unat no_carry_iff) (auto simp: div_eq_0_iff)
    ultimately show ?thesis using 1 False f by simp
  qed
qed

lemma unat_not_u16: "unat (NOT (w :: u16)) = 65535 - unat w"
proof -
  have "NOT w = - 1 - w" by (simp add: not_eq_complement)
  moreover have "unat (- 1 - w) = unat (- 1 :: u16) - unat w" by (rule unat_sub) simp
  moreover have "unat (- 1 :: u16) = 65535" by (simp only: unsigned_minus_1_eq_mask mask_eq_exp_minus_1) simp
  ultimately show ?thesis by (simp only:)
qed

lemma unat_checksum_fold: "unat (NOT (ucast (fold_carry s) :: u16)) = 65535 - unat (fold_carry s)"
  using fold_carry_correct [of s] by (simp add: unat_not_u16 unsigned_ucast_eq take_bit_nat_eq_self)

lemma word_sum_append: "even (length xs) \<Longrightarrow> word_sum (xs @ ys) = word_sum xs + word_sum ys"
  by (induction xs rule: word_sum.induct) auto

lemma word_sum_be: "word_sum (u16_to_be c) = unat c"
proof -
  have "unat (u16_from_be (ucast (drop_bit 8 c)) (ucast c)) = unat c"
    using u16_be_nth [of c] by (simp add: u16_to_be_def)
  then show ?thesis unfolding unat_u16_from_be by (simp add: u16_to_be_def)
qed

lemma checksum_unat:
  assumes "even (length bs)" and "length bs \<le> 131072"
  shows "\<exists>c r. compute_internet_checksum bs = Some c \<and> unat c = 65535 - r \<and> r < 65536 \<and>
    r mod 65535 = word_sum bs mod 65535 \<and> (r = 0 \<longleftrightarrow> word_sum bs = 0)"
proof -
  have "length bs div 2 \<le> 65536" using assms(2) by simp
  then have "65535 * (length bs div 2) \<le> 65535 * 65536" by (rule mult_le_mono2)
  with word_sum_bound [of bs] have "unat (0 :: u32) + word_sum bs < 2 ^ 32" by simp
  from sum_words_even [OF assms(1) this] obtain w where
    w: "sum_words 0 bs = Some w" "unat w = word_sum bs" by auto
  show ?thesis
    using fold_carry_correct [of w] w unat_checksum_fold [of w]
    by (intro exI [of _ "NOT (ucast (fold_carry w))"] exI [of _ "unat (fold_carry w)"])
      (simp add: compute_internet_checksum_def)
qed

lemma checksum_fill:
  assumes "even (length xs)" and "even (length ys)" and "length xs + length ys + 2 \<le> 131072"
  shows "\<exists>c. compute_internet_checksum (xs @ [0, 0] @ ys) = Some c \<and>
    compute_internet_checksum (xs @ u16_to_be c @ ys) = Some 0 \<and>
    compute_internet_checksum (x # xs @ [0, 0] @ ys) = None"
proof -
  have ev: "even (length (xs @ [0, 0] @ ys))" "length (xs @ [0, 0] @ ys) \<le> 131072" using assms by simp_all
  from checksum_unat [OF ev] obtain c r where
    c: "compute_internet_checksum (xs @ [0, 0] @ ys) = Some c" "unat c = 65535 - r" "r < 65536"
    "r mod 65535 = word_sum (xs @ [0, 0] @ ys) mod 65535" "r = 0 \<longleftrightarrow> word_sum (xs @ [0, 0] @ ys) = 0" by (elim exE conjE)
  let ?s = "word_sum xs + word_sum ys"
  have s: "word_sum (xs @ [0, 0] @ ys) = ?s" using assms(1) by (simp add: word_sum_append)
  have ev': "even (length (xs @ u16_to_be c @ ys))" "length (xs @ u16_to_be c @ ys) \<le> 131072" using assms by simp_all
  have s': "word_sum (xs @ u16_to_be c @ ys) = ?s + (65535 - r)"
    using assms(1) by (simp add: word_sum_append word_sum_be c(2))
  have "(?s + (65535 - r)) mod 65535 = (r + (65535 - r)) mod 65535"
    using c(4) unfolding s by (metis mod_add_cong)
  then have z: "word_sum (xs @ u16_to_be c @ ys) mod 65535 = 0" unfolding s' using c(3) by simp
  have nz: "word_sum (xs @ u16_to_be c @ ys) \<noteq> 0" unfolding s' using c(3,5) s by auto
  from checksum_unat [OF ev'] obtain c' r' where
    c': "compute_internet_checksum (xs @ u16_to_be c @ ys) = Some c'" "unat c' = 65535 - r'" "r' < 65536"
    "r' mod 65535 = 0" "r' \<noteq> 0" using z nz by auto
  from c'(3,4,5) have "r' = 65535" by (cases "r' < 65535") simp_all
  with c'(2) have "c' = 0" by (simp add: unat_eq_0)
  moreover have "compute_internet_checksum (x # xs @ [0, 0] @ ys) = None"
    using assms by (simp add: compute_internet_checksum_def sum_words_odd)
  ultimately show ?thesis using c(1) c'(1) by blast
qed

section \<open>Properties\<close>

text \<open>C38: A packet whose zeroed checksum field at an even offset is filled with the computed
  checksum verifies: the checksum over the filled bytes is zero, for any even number of bytes up to
  128 KiB. An odd number of bytes makes the computation panic.\<close>

theorem checksum_fill_verifies:
  assumes "even (length xs)" and "even (length ys)" and "length xs + length ys + 2 \<le> 131072"
  shows "\<exists>c. compute_internet_checksum (xs @ [0, 0] @ ys) = Some c \<and>
    compute_internet_checksum (xs @ u16_to_be c @ ys) = Some 0 \<and>
    compute_internet_checksum (x # xs @ [0, 0] @ ys) = None"
  using checksum_fill [OF assms] .

lemma checksum_fill_verifies_witness:
  "\<exists>c. compute_internet_checksum ([8, 0] @ [0, 0] @ [0, 1, 0, 9]) = Some c \<and>
    compute_internet_checksum ([8, 0] @ u16_to_be c @ [0, 1, 0, 9]) = Some 0 \<and>
    compute_internet_checksum (7 # [8, 0] @ [0, 0] @ [0, 1, 0, 9]) = None"
  by (rule checksum_fill_verifies) simp_all

end
