(* ===== verification/NetTypes.thy ===== *)
theory NetTypes
  imports NetChecksum
begin

text \<open>
  Addresses and headers of the network stack (\<open>net/address_pair.rs\<close> and the data types of
  \<open>net/protocols\<close>). The arrays \<open>[u8; 6]\<close> and \<open>[u8; 4]\<close> are datatypes of their bytes; offsets and
  lengths are naturals.
\<close>

section \<open>Addresses\<close>

record 'a AddressPair =
  ap_source :: 'a
  ap_target :: 'a

definition address_pair :: "'a \<Rightarrow> 'a \<Rightarrow> 'a AddressPair" where
  "address_pair s t = \<lparr>ap_source = s, ap_target = t\<rparr>"

definition ap_reverse :: "'a AddressPair \<Rightarrow> 'a AddressPair" where
  "ap_reverse p = \<lparr>ap_source = ap_target p, ap_target = ap_source p\<rparr>"

datatype MacAddress = MacAddress u8 u8 u8 u8 u8 u8

fun mac_bytes :: "MacAddress \<Rightarrow> u8 list" where
  "mac_bytes (MacAddress a b c d e f) = [a, b, c, d, e, f]"

fun mac_of_bytes :: "u8 list \<Rightarrow> MacAddress option" where
  "mac_of_bytes [a, b, c, d, e, f] = Some (MacAddress a b c d e f)"
| "mac_of_bytes _ = None"

definition is_broadcast :: "MacAddress \<Rightarrow> bool" where
  "is_broadcast m \<longleftrightarrow> list_all (\<lambda>b. b = 0xFF) (mac_bytes m)"

datatype Ipv4Address = Ipv4Address u8 u8 u8 u8

fun ip_bytes :: "Ipv4Address \<Rightarrow> u8 list" where
  "ip_bytes (Ipv4Address a b c d) = [a, b, c, d]"

fun ip_of_bytes :: "u8 list \<Rightarrow> Ipv4Address option" where
  "ip_of_bytes [a, b, c, d] = Some (Ipv4Address a b c d)"
| "ip_of_bytes _ = None"

fun ip_u32 :: "Ipv4Address \<Rightarrow> u32" where
  "ip_u32 (Ipv4Address a b c d) = u32_from_be a b c d"

fun is_multicast :: "Ipv4Address \<Rightarrow> bool" where
  "is_multicast (Ipv4Address a b c d) \<longleftrightarrow> a AND 0xF0 = 0xE0"

record Ipv4Network =
  net_address :: Ipv4Address
  net_mask :: Ipv4Address

definition net_contains :: "Ipv4Network \<Rightarrow> Ipv4Address \<Rightarrow> bool" where
  "net_contains n ip \<longleftrightarrow>
     ip_u32 ip AND ip_u32 (net_mask n) = ip_u32 (net_address n) AND ip_u32 (net_mask n)"

definition broadcast_for :: "Ipv4Network \<Rightarrow> Ipv4Address \<Rightarrow> bool" where
  "broadcast_for n ip \<longleftrightarrow>
     ip = Ipv4Address 255 255 255 255 \<or>
     ip_u32 ip = ip_u32 (net_address n) OR NOT (ip_u32 (net_mask n))"

definition prefix_len :: "Ipv4Network \<Rightarrow> nat" where
  "prefix_len n = length (filter (bit (ip_u32 (net_mask n))) [0..<32])"

datatype HardwareAddr = EthernetHw MacAddress

datatype ProtocolAddr = Ipv4Proto Ipv4Address | Ipv6Proto "u8 list"

datatype NetAddress = Ipv4Net Ipv4Network | Ipv4Addr Ipv4Address | MacAddr MacAddress | UdpPortAddr u16

fun into_hardware :: "NetAddress \<Rightarrow> HardwareAddr option" where
  "into_hardware (MacAddr m) = Some (EthernetHw m)"
| "into_hardware _ = None"

fun into_protocol :: "NetAddress \<Rightarrow> ProtocolAddr option" where
  "into_protocol (Ipv4Net n) = Some (Ipv4Proto (net_address n))"
| "into_protocol (Ipv4Addr a) = Some (Ipv4Proto a)"
| "into_protocol _ = None"

fun from_hardware :: "HardwareAddr \<Rightarrow> NetAddress option" where
  "from_hardware (EthernetHw m) = Some (MacAddr m)"

fun from_protocol :: "ProtocolAddr \<Rightarrow> NetAddress option" where
  "from_protocol (Ipv4Proto a) = Some (Ipv4Addr a)"
| "from_protocol _ = None"

section \<open>Headers\<close>

record EthernetHeader =
  eth_offset :: nat
  crc_offset :: nat
  eth_source :: MacAddress
  eth_destination :: MacAddress
  upper_type :: u16

record EthernetFlowId =
  mac_addr :: "MacAddress AddressPair"
  ether_type :: u16
  out_interface :: "MacAddress option"

definition ethernet_flow_new :: "MacAddress \<Rightarrow> MacAddress \<Rightarrow> u16 \<Rightarrow> EthernetFlowId" where
  "ethernet_flow_new s d t = \<lparr>mac_addr = address_pair s d, ether_type = t, out_interface = None\<rparr>"

record ArpFlowId =
  arp_operation :: u16
  arp_protocol :: "ProtocolAddr AddressPair"
  arp_hardware :: "HardwareAddr AddressPair"

record ArpHeader =
  arp_offset :: nat
  arp_flow_id :: ArpFlowId
  arp_size :: nat

record Ipv4FragmentInfo =
  identification :: u16
  frag_flags :: u8
  fragment_offset :: u32

record Ipv4Header =
  ip_offset :: nat
  ihl :: u8
  ip_diff_services :: u8
  ip_total_length :: u16
  ip_fragment_info :: Ipv4FragmentInfo
  ip_ttl :: u8
  ip_protocol :: u8
  header_checksum :: u16
  ip_address :: "Ipv4Address AddressPair"
  in_interface_networks :: "Ipv4Network list"
  checksum_checked :: bool

record Ipv4FlowId =
  fl_address :: "Ipv4Address AddressPair"
  fl_protocol :: u8
  fl_diff_services :: u8
  fl_ttl :: u8
  fl_fragment_info :: Ipv4FragmentInfo

record IcmpFlowId =
  fl_icmp_type :: u8
  fl_code :: u8
  fl_icmp_address :: "Ipv4Address AddressPair"
  fl_data :: u32
  fl_payload :: "u8 list"

record IcmpHeader =
  icmp_offset :: nat
  icmp_type :: u8
  icmp_code :: u8
  icmp_checksum :: u16
  icmp_data :: u32
  icmp_payload :: "u8 list"

record UdpHeader =
  udp_offset :: nat
  udp_ports :: "u16 AddressPair"
  udp_length :: u16
  udp_checksum :: u16

record UdpFlowId =
  source_port :: u16
  dest_port :: u16

datatype NetLayerType =
    LUnparsed | LUnknown | LNone | LEthernet | LIpv4 | LIcmp | LIpv6 | LArp | LTcp | LUdp

datatype NetLayerData =
    DUnparsed | DUnknown nat | DNone | DEthernet EthernetHeader | DIpv4 Ipv4Header
  | DIcmp IcmpHeader | DIpv6 | DArp ArpHeader | DTcp | DUdp UdpHeader

datatype NetLayerFlowID =
    FEthernet EthernetFlowId | FArp ArpFlowId | FIpv4 Ipv4FlowId | FIcmp IcmpFlowId
  | FIpv6 | FTcp | FUdp UdpFlowId

text \<open>\<open>is_known\<close>: the layer \<open>None\<close> is a panic.\<close>

fun is_known :: "NetLayerData \<Rightarrow> bool option" where
  "is_known DUnparsed = Some False"
| "is_known (DUnknown _) = Some False"
| "is_known DNone = None"
| "is_known _ = Some True"

text \<open>\<open>get().is_some()\<close>: the layers with an implementation of \<open>NetLayer\<close>.\<close>

fun has_layer :: "NetLayerData \<Rightarrow> bool" where
  "has_layer (DEthernet _) = True"
| "has_layer (DArp _) = True"
| "has_layer (DIpv4 _) = True"
| "has_layer (DIcmp _) = True"
| "has_layer (DUdp _) = True"
| "has_layer _ = False"

end
