(* ===== verification/NetPacket.thy ===== *)
theory NetPacket
  imports NetTypes
begin

text \<open>
  Packets (\<open>net/packet.rs\<close>). A data chunk is the list of its \<open>length\<close> bytes; a copy-on-write
  pointer \<open>Acow<NetPacket>\<close> is the packet itself. Lengths are 32-bit naturals. Memory that is
  allocated and not yet written has unknown content, which the functions that allocate take as
  an argument \<open>junk\<close>; running out of memory is not modelled here.
\<close>

section \<open>Packets\<close>

type_synonym chunk = "u8 list"

record pkt_core =
  chunks :: "chunk list"
  parsed_layers :: "NetLayerData list"
  pkt_length :: nat
  layers_to_construct :: "NetLayerFlowID list"
  upper_layer_size :: "nat option"
  addresses :: "NetAddress AddressPair list"

datatype NetPacketSource = Nic nat | Proc nat | OtherPacket pkt_core NetPacketSource | OtherSource

record NetPacket = pkt_core +
  source :: NetPacketSource

definition other_packet :: "NetPacket \<Rightarrow> NetPacketSource" where
  "other_packet p = OtherPacket (pkt_core.truncate p) (source p)"

primrec chunks_len :: "nat \<Rightarrow> chunk list \<Rightarrow> nat option" where
  "chunks_len a [] = Some a"
| "chunks_len a (c # cs) = checked_add 32 a (length c) \<bind> (\<lambda>a'. chunks_len a' cs)"

definition packet_new :: "chunk list \<Rightarrow> NetPacketSource \<Rightarrow> NetPacket option" where
  "packet_new data src =
     chunks_len 0 data \<bind> (\<lambda>len.
     Some \<lparr>chunks = data, parsed_layers = [], pkt_length = len, layers_to_construct = [],
           upper_layer_size = None, addresses = [], source = src\<rparr>)"

text \<open>\<open>get_highest_layer\<close>: no layer is \<open>None\<close>, a layer without implementation a panic.\<close>

definition get_highest_layer :: "NetPacket \<Rightarrow> NetLayerData option option" where
  "get_highest_layer p =
     (if parsed_layers p = [] then Some None
      else panic_unless (has_layer (last (parsed_layers p))) \<bind> (\<lambda>_. Some (Some (last (parsed_layers p)))))"

definition get_layer :: "NetPacket \<Rightarrow> nat \<Rightarrow> NetLayerData option option" where
  "get_layer p index_from_top =
     checked_sub (length (parsed_layers p)) 1 \<bind> (\<lambda>n.
     checked_sub n index_from_top \<bind> (\<lambda>i.
     panic_unless (has_layer (parsed_layers p ! i)) \<bind> (\<lambda>_. Some (Some (parsed_layers p ! i)))))"

definition append_address :: "NetAddress AddressPair \<Rightarrow> NetPacket \<Rightarrow> NetPacket" where
  "append_address a p = p\<lparr>addresses := addresses p @ [a]\<rparr>"

definition linearize :: "NetPacket \<Rightarrow> NetPacket option" where
  "linearize p =
     (if length (chunks p) \<le> 1 then Some p
      else chunks_len 0 (chunks p) \<bind> (\<lambda>len.
           panic_unless (0 < div_ceil len 4096) \<bind> (\<lambda>_.
           Some (p\<lparr>chunks := [concat (chunks p)]\<rparr>))))"

definition ensure_length :: "nat \<Rightarrow> NetPacket \<Rightarrow> NetPacket option" where
  "ensure_length len p =
     index_at (chunks p) 0 \<bind> (\<lambda>c. if length c < len then linearize p else Some p)"

definition reset_packet :: "NetPacket \<Rightarrow> NetPacket" where
  "reset_packet p = p\<lparr>parsed_layers := []\<rparr>"

text \<open>\<open>nuke_lower_layers\<close>: whole chunks are removed first; running out of chunks returns early with
  the length still unchanged. The rest of the first chunk is moved with \<open>ptr::copy\<close>, whose
  destination is the later address.\<close>

primrec nuke_chunks :: "nat \<Rightarrow> nat \<Rightarrow> chunk list \<Rightarrow> (nat \<times> chunk list) option option" where
  "nuke_chunks keep curr_off [] = Some None"
| "nuke_chunks keep curr_off (c # cs) =
     checked_add 32 curr_off (length c) \<bind> (\<lambda>off.
     if off \<le> keep then nuke_chunks keep off cs else Some (Some (curr_off, c # cs)))"

definition shift_chunk :: "nat \<Rightarrow> chunk \<Rightarrow> chunk" where
  "shift_chunk n c = take (length c - n) (take n c @ take (length c - n) c)"

definition nuke_lower_layers :: "nat \<Rightarrow> NetPacket \<Rightarrow> (unit option \<times> NetPacket) option" where
  "nuke_lower_layers offset_to_keep p =
     nuke_chunks offset_to_keep 0 (chunks p) \<bind> (\<lambda>r.
     case r of
       None \<Rightarrow> Some (None, p\<lparr>chunks := []\<rparr>)
     | Some (curr_off, cs) \<Rightarrow>
         checked_sub (pkt_length p) curr_off \<bind> (\<lambda>len.
         let to_shift = offset_to_keep - curr_off in
         if to_shift = 0 then Some (Some (), p\<lparr>chunks := cs, pkt_length := len\<rparr>)
         else checked_sub len to_shift \<bind> (\<lambda>len'.
              Some (Some (), p\<lparr>chunks := shift_chunk to_shift (hd cs) # tl cs, pkt_length := len'\<rparr>))))"

primrec truncate_chunks :: "nat \<Rightarrow> chunk list \<Rightarrow> chunk list" where
  "truncate_chunks n [] = []"
| "truncate_chunks n (c # cs) =
     (if n = 0 then c # cs
      else if length c \<le> n then truncate_chunks (n - length c) cs
      else take (length c - n) c # cs)"

definition packet_truncate :: "nat \<Rightarrow> NetPacket \<Rightarrow> NetPacket" where
  "packet_truncate new_len p =
     (if new_len \<ge> pkt_length p then p
      else p\<lparr>pkt_length := new_len,
             chunks := rev (truncate_chunks (pkt_length p - new_len) (rev (chunks p)))\<rparr>)"

definition fresh_chunk :: "(nat \<Rightarrow> u8) \<Rightarrow> nat \<Rightarrow> chunk" where
  "fresh_chunk junk len = map junk [0..<len]"

definition insert_chunk_front :: "chunk \<Rightarrow> NetPacket \<Rightarrow> NetPacket option" where
  "insert_chunk_front c p =
     checked_add 32 (pkt_length p) (length c) \<bind> (\<lambda>len. Some (p\<lparr>chunks := c # chunks p, pkt_length := len\<rparr>))"

section \<open>Contents of a packet\<close>

definition pkt_bytes :: "NetPacket \<Rightarrow> u8 list" where
  "pkt_bytes p = concat (chunks p)"

definition pkt_wf :: "NetPacket \<Rightarrow> bool" where
  "pkt_wf p \<longleftrightarrow> pkt_length p = length (pkt_bytes p)"

lemma chunks_len_Some: "chunks_len a cs = Some n \<Longrightarrow> n = a + length (concat cs)"
  by (induction cs arbitrary: a) (fastforce simp: bind_eq_Some_conv add.assoc)+

lemma packet_new_wf: "packet_new data src = Some p \<Longrightarrow> pkt_wf p \<and> pkt_bytes p = concat data"
  by (auto simp: packet_new_def pkt_wf_def pkt_bytes_def bind_eq_Some_conv dest: chunks_len_Some)

lemma linearize_bytes: "linearize p = Some p' \<Longrightarrow> pkt_bytes p' = pkt_bytes p \<and> pkt_length p' = pkt_length p"
  by (auto simp: linearize_def pkt_bytes_def bind_eq_Some_conv split: if_splits)

lemma ensure_length_bytes:
  assumes "ensure_length len p = Some p'"
  shows "pkt_bytes p' = pkt_bytes p \<and> pkt_length p' = pkt_length p \<and> chunks p' \<noteq> []"
proof -
  from assms have "chunks p \<noteq> []" "linearize p = Some p' \<or> p' = p"
    by (auto simp: ensure_length_def bind_eq_Some_conv split: if_splits)
  then show ?thesis using linearize_bytes [of p p']
    by (auto simp: linearize_def bind_eq_Some_conv split: if_splits)
qed

text \<open>After \<open>ensure_length\<close> the first chunk begins with the packet's first \<open>len\<close> bytes.\<close>

lemma ensure_length_head:
  assumes "ensure_length len p = Some p'" and "len \<le> length (pkt_bytes p)"
  shows "len \<le> length (hd (chunks p')) \<and> take len (hd (chunks p')) = take len (pkt_bytes p)"
  using assms
  by (cases "chunks p") (auto simp: ensure_length_def linearize_def pkt_bytes_def bind_eq_Some_conv split: if_splits)

lemma truncate_chunks_concat:
  "concat (rev (truncate_chunks n cs)) = take (length (concat cs) - n) (concat (rev cs))"
proof (induction cs arbitrary: n)
  case (Cons c cs)
  have l: "length (concat (rev cs)) = length (concat cs)" by (simp add: length_concat rev_map [symmetric])
  show ?case
  proof (cases "length c \<le> n")
    case True
    have "take (length c + length (concat cs) - n) (concat (rev cs) @ c) =
      take (length (concat cs) - (n - length c)) (concat (rev cs))" using l True by (simp add: add.commute)
    moreover have "n = 0 \<Longrightarrow> c = []" using True by simp
    ultimately show ?thesis using True Cons.IH [of "n - length c"] l by (cases "n = 0") simp_all
  next
    case False
    then show ?thesis using l by (cases "n = 0") (simp_all add: take_append)
  qed
qed simp

lemma packet_truncate_correct:
  assumes "pkt_wf p"
  shows "pkt_wf (packet_truncate n p) \<and> pkt_bytes (packet_truncate n p) = take n (pkt_bytes p)"
proof (cases "n \<ge> pkt_length p")
  case True
  with assms show ?thesis by (simp add: packet_truncate_def pkt_wf_def)
next
  case False
  have l: "length (concat (rev (chunks p))) = length (concat (chunks p))"
    by (simp add: length_concat rev_map [symmetric])
  have "pkt_bytes (packet_truncate n p) = take n (pkt_bytes p)"
    using False assms l truncate_chunks_concat [of "pkt_length p - n" "rev (chunks p)"]
    by (simp add: packet_truncate_def pkt_bytes_def pkt_wf_def)
  moreover have "pkt_length (packet_truncate n p) = n" using False by (simp add: packet_truncate_def)
  ultimately show ?thesis using False assms by (simp add: pkt_wf_def)
qed

section \<open>Properties\<close>

text \<open>\<open>nuke_lower_layers\<close> is meant to strip the first \<open>keep\<close> bytes. On a packet of one chunk it
  reports success and the right length, but it moves the bytes the wrong way: what is left starts
  with the stripped header, and the payload is lost as soon as it is not longer than the header.\<close>

theorem nuke_lower_layers_keeps_header:
  assumes "chunks p = [c]" and "pkt_wf p" and "0 < keep" and "keep < length c" and "length c < 2 ^ 32"
  shows "\<exists>p'. nuke_lower_layers keep p = Some (Some (), p') \<and> pkt_length p' = length c - keep \<and>
    pkt_bytes p' = take (length c - keep) (take keep c @ c) \<and>
    (length c \<le> 2 * keep \<longrightarrow> pkt_bytes p' = take (length c - keep) c)"
proof -
  let ?p = "p\<lparr>chunks := [shift_chunk keep c], pkt_length := length c - keep\<rparr>"
  have n: "nuke_chunks keep 0 (chunks p) = Some (Some (0, [c]))"
    using assms by (simp add: checked_simps)
  have len: "pkt_length p = length c" using assms(1,2) by (simp add: pkt_wf_def pkt_bytes_def)
  have "nuke_lower_layers keep p = Some (Some (), ?p)"
    using assms(3,4) n len by (simp add: nuke_lower_layers_def checked_simps)
  moreover have "pkt_bytes ?p = take (length c - keep) (take keep c @ c)"
    using assms(4) by (simp add: pkt_bytes_def shift_chunk_def)
  moreover have "length c \<le> 2 * keep \<Longrightarrow> take (length c - keep) (take keep c @ c) = take (length c - keep) c"
  proof -
    assume "length c \<le> 2 * keep"
    then have "length c - keep \<le> keep" "length c - keep - keep = 0" by linarith+
    then show ?thesis using assms(4) by (simp add: min_absorb1 min_absorb2 del: diff_diff_left)
  qed
  ultimately show ?thesis by (intro exI [of _ ?p]) simp
qed

end
