(* ===== verification/BinarySearch.thy ===== *)
theory BinarySearch
  imports Prelude
begin

text \<open>
  The binary search of Rust's slices, as the library implements it, and ordered inserts. The
  contract \<open>ordered_by\<close> is what Rust asks of an implementation of \<open>Ord\<close>.
\<close>

section \<open>Binary search\<close>

datatype Ordering = Less | Equal | Greater

fun ord_reverse :: "Ordering \<Rightarrow> Ordering" where
  "ord_reverse Less = Greater"
| "ord_reverse Equal = Equal"
| "ord_reverse Greater = Less"

definition nat_cmp :: "nat \<Rightarrow> nat \<Rightarrow> Ordering" where
  "nat_cmp a b = (if a < b then Less else if a = b then Equal else Greater)"

lemma nat_cmp_iff [simp]:
  "nat_cmp a b = Less \<longleftrightarrow> a < b" "nat_cmp a b = Equal \<longleftrightarrow> a = b" "nat_cmp a b = Greater \<longleftrightarrow> b < a"
  by (auto simp: nat_cmp_def)

function bs_loop :: "('a \<Rightarrow> Ordering) \<Rightarrow> 'a list \<Rightarrow> nat \<Rightarrow> nat \<Rightarrow> nat" where
  "bs_loop f xs base n =
     (if 1 < n
      then (let half = n div 2; mid = base + half
            in bs_loop f xs (if f (xs ! mid) = Greater then base else mid) (n - half))
      else base)"
  by pat_completeness auto

termination
  by (relation "measure (\<lambda>(_, _, _, n). n)") auto

declare bs_loop.simps [simp del]

text \<open>\<open>binary_search_by\<close>: the position of an equal element, or on the left the position where an
  element could be inserted.\<close>

definition binary_search_by :: "('a \<Rightarrow> Ordering) \<Rightarrow> 'a list \<Rightarrow> nat + nat" where
  "binary_search_by f xs =
     (if xs = [] then Inl 0
      else (let base = bs_loop f xs 0 (length xs)
            in case f (xs ! base) of Equal \<Rightarrow> Inr base | Less \<Rightarrow> Inl (base + 1) | Greater \<Rightarrow> Inl base))"

text \<open>\<open>binary_search(x).unwrap_or_else(|e| e)\<close>.\<close>

definition search_position :: "('a \<Rightarrow> 'a \<Rightarrow> Ordering) \<Rightarrow> 'a list \<Rightarrow> 'a \<Rightarrow> nat" where
  "search_position cmp xs x = (case binary_search_by (\<lambda>y. cmp y x) xs of Inl e \<Rightarrow> e | Inr i \<Rightarrow> i)"

definition insert_at :: "nat \<Rightarrow> 'a \<Rightarrow> 'a list \<Rightarrow> 'a list" where
  "insert_at i x xs = take i xs @ x # drop i xs"

section \<open>The result of a search\<close>

definition greater_up :: "('a \<Rightarrow> Ordering) \<Rightarrow> 'a list \<Rightarrow> bool" where
  "greater_up f xs \<longleftrightarrow> (\<forall>i j. i \<le> j \<and> j < length xs \<and> f (xs ! i) = Greater \<longrightarrow> f (xs ! j) = Greater)"

definition less_down :: "('a \<Rightarrow> Ordering) \<Rightarrow> 'a list \<Rightarrow> bool" where
  "less_down f xs \<longleftrightarrow> (\<forall>i j. i \<le> j \<and> j < length xs \<and> f (xs ! j) = Less \<longrightarrow> f (xs ! i) = Less)"

lemma bs_loop_inv:
  assumes grows: "greater_up f xs"
  shows "0 < n \<Longrightarrow> base + n \<le> length xs \<Longrightarrow> base = 0 \<or> f (xs ! base) \<noteq> Greater \<Longrightarrow>
    \<forall>i. base + n \<le> i \<and> i < length xs \<longrightarrow> f (xs ! i) = Greater \<Longrightarrow>
    b = bs_loop f xs base n \<Longrightarrow> b < length xs \<and> (b = 0 \<or> f (xs ! b) \<noteq> Greater) \<and>
    (\<forall>i. b < i \<and> i < length xs \<longrightarrow> f (xs ! i) = Greater)"
proof (induction n arbitrary: base rule: less_induct)
  case (less n)
  show ?case
  proof (cases "1 < n")
    case False
    with less.prems(1) have "n = 1" by simp
    then have "b = base" using less.prems(5) bs_loop.simps [of f xs base n] by simp
    with less.prems(2,3,4) \<open>n = 1\<close> show ?thesis by (simp add: Suc_le_eq)
  next
    case True
    let ?half = "n div 2" let ?mid = "base + n div 2"
    let ?base = "if f (xs ! ?mid) = Greater then base else ?mid"
    have h: "0 < n - ?half" "n - ?half < n" "?half \<le> n - ?half" using True by auto
    have r: "b = bs_loop f xs ?base (n - ?half)"
      using True less.prems(5) bs_loop.simps [of f xs base n] by (simp add: Let_def)
    have bound: "?base + (n - ?half) \<le> length xs" using less.prems(2) by (cases "f (xs ! ?mid) = Greater") simp_all
    have b0: "?base = 0 \<or> f (xs ! ?base) \<noteq> Greater" using less.prems(3) by simp
    have up: "\<forall>i. ?base + (n - ?half) \<le> i \<and> i < length xs \<longrightarrow> f (xs ! i) = Greater"
    proof (cases "f (xs ! ?mid) = Greater")
      case True
      have "f (xs ! i) = Greater" if i: "base + (n - ?half) \<le> i" "i < length xs" for i
      proof -
        have "?mid \<le> i" using i(1) h(3) by linarith
        with grows True i(2) show ?thesis unfolding greater_up_def by simp
      qed
      with True show ?thesis by simp
    next
      case False
      have "?mid + (n - ?half) = base + n" by simp
      with False less.prems(4) show ?thesis by simp
    qed
    show ?thesis by (rule less.IH [OF h(2,1) bound b0 up r])
  qed
qed

lemma bs_loop_result:
  assumes "greater_up f xs" and "xs \<noteq> []"
  defines "b \<equiv> bs_loop f xs 0 (length xs)"
  shows "b < length xs" and "b = 0 \<or> f (xs ! b) \<noteq> Greater"
    and "b < i \<Longrightarrow> i < length xs \<Longrightarrow> f (xs ! i) = Greater"
proof -
  have "b < length xs \<and> (b = 0 \<or> f (xs ! b) \<noteq> Greater) \<and> (\<forall>i. b < i \<and> i < length xs \<longrightarrow> f (xs ! i) = Greater)"
    by (rule bs_loop_inv [OF assms(1), of "length xs" 0]) (use assms(2) in \<open>auto simp: b_def\<close>)
  then show "b < length xs" and "b = 0 \<or> f (xs ! b) \<noteq> Greater"
    and "b < i \<Longrightarrow> i < length xs \<Longrightarrow> f (xs ! i) = Greater" by blast+
qed

lemma binary_search_by_spec:
  assumes up: "greater_up f xs" and down: "less_down f xs"
  shows "case binary_search_by f xs of
       Inr p \<Rightarrow> p < length xs \<and> f (xs ! p) = Equal
     | Inl p \<Rightarrow> p \<le> length xs \<and> (\<forall>i < p. f (xs ! i) = Less) \<and> (\<forall>i. p \<le> i \<and> i < length xs \<longrightarrow> f (xs ! i) = Greater)"
proof (cases "xs = []")
  case False
  let ?b = "bs_loop f xs 0 (length xs)"
  note b = bs_loop_result [OF up False]
  show ?thesis
  proof (cases "f (xs ! ?b)")
    case Less
    then have "f (xs ! i) = Less" if "i < ?b + 1" for i
      using down that b(1) unfolding less_down_def by (metis Suc_eq_plus1 less_Suc_eq_le)
    with Less b(1,3) False show ?thesis by (auto simp: binary_search_by_def Let_def Suc_le_eq)
  next
    case Equal
    with b(1) False show ?thesis by (simp add: binary_search_by_def Let_def)
  next
    case Greater
    then have "?b = 0" using b(2) by simp
    with Greater b(1,3) False show ?thesis by (auto simp: binary_search_by_def Let_def) (metis gr0I)
  qed
qed (simp add: binary_search_by_def)

section \<open>Ordered inserts\<close>

text \<open>What Rust asks of an \<open>Ord\<close> implementation, as far as searching relies on it.\<close>

locale ordered_by =
  fixes cmp :: "'a \<Rightarrow> 'a \<Rightarrow> Ordering"
  assumes swap: "cmp b a = ord_reverse (cmp a b)"
    and trans: "cmp a b \<noteq> Greater \<Longrightarrow> cmp b c \<noteq> Greater \<Longrightarrow> cmp a c \<noteq> Greater"
begin

lemma not_greater_swap: "cmp a b = Greater \<Longrightarrow> cmp b a \<noteq> Greater"
  using swap [of b a] by simp

lemma greater_upwards:
  assumes "sorted_wrt (\<lambda>a b. cmp a b \<noteq> Greater) xs" and "i \<le> j" and "j < length xs" and "cmp (xs ! i) x = Greater"
  shows "cmp (xs ! j) x = Greater"
proof (cases "i = j")
  case False
  with assms have "cmp (xs ! i) (xs ! j) \<noteq> Greater" by (simp add: sorted_wrt_iff_nth_less)
  with assms(4) trans show ?thesis by blast
qed (use assms in simp)

lemma below_position:
  assumes "sorted_wrt (\<lambda>a b. cmp a b \<noteq> Greater) xs" and "cmp (xs ! j) x \<noteq> Greater" and "i \<le> j" and "j < length xs"
  shows "cmp (xs ! i) x \<noteq> Greater"
  using greater_upwards [OF assms(1,3,4)] assms(2) by blast

lemma search_position_splits:
  assumes sorted: "sorted_wrt (\<lambda>a b. cmp a b \<noteq> Greater) xs"
  shows "search_position cmp xs x \<le> length xs \<and>
    (\<forall>i < search_position cmp xs x. cmp (xs ! i) x \<noteq> Greater) \<and>
    (\<forall>i. search_position cmp xs x \<le> i \<and> i < length xs \<longrightarrow> cmp x (xs ! i) \<noteq> Greater)"
proof (cases "xs = []")
  case False
  let ?f = "\<lambda>y. cmp y x" let ?b = "bs_loop ?f xs 0 (length xs)"
  have "greater_up ?f xs" using greater_upwards [OF sorted] unfolding greater_up_def by blast
  note b = bs_loop_result [OF this False]
  show ?thesis
  proof (cases "cmp (xs ! ?b) x = Less")
    case True
    then have p: "search_position cmp xs x = ?b + 1"
      using False by (simp add: search_position_def binary_search_by_def Let_def)
    have "cmp (xs ! i) x \<noteq> Greater" if "i < ?b + 1" for i
      using below_position [OF sorted, of ?b x i] True that b(1) by simp
    with b(1,3) not_greater_swap show ?thesis unfolding p by (simp add: Suc_le_eq)
  next
    case ne: False
    then have p: "search_position cmp xs x = ?b"
      using False by (simp add: search_position_def binary_search_by_def Let_def split: Ordering.split)
    have lo: "cmp (xs ! i) x \<noteq> Greater" if "i < ?b" for i
      using below_position [OF sorted, of ?b x i] that b(1,2) by (cases "?b = 0") auto
    have "cmp x (xs ! ?b) \<noteq> Greater"
      using ne swap [of x "xs ! ?b"] by (cases "cmp (xs ! ?b) x") auto
    moreover have "cmp x (xs ! i) \<noteq> Greater" if "?b < i" "i < length xs" for i
      using b(3) [OF that] not_greater_swap by blast
    ultimately show ?thesis unfolding p using lo b(1) by (metis le_neq_implies_less less_or_eq_imp_le)
  qed
qed (simp add: search_position_def binary_search_by_def)

lemma insert_keeps_sorted:
  assumes "sorted_wrt (\<lambda>a b. cmp a b \<noteq> Greater) xs"
  shows "sorted_wrt (\<lambda>a b. cmp a b \<noteq> Greater) (insert_at (search_position cmp xs x) x xs)"
proof -
  let ?p = "search_position cmp xs x"
  have sp: "?p \<le> length xs" "\<forall>i<?p. cmp (xs ! i) x \<noteq> Greater"
    "\<forall>i. ?p \<le> i \<and> i < length xs \<longrightarrow> cmp x (xs ! i) \<noteq> Greater"
    using search_position_splits [OF assms, of x] by blast+
  have "sorted_wrt (\<lambda>a b. cmp a b \<noteq> Greater) (take ?p xs @ drop ?p xs)" using assms by simp
  then have "sorted_wrt (\<lambda>a b. cmp a b \<noteq> Greater) (take ?p xs)" "sorted_wrt (\<lambda>a b. cmp a b \<noteq> Greater) (drop ?p xs)"
    "\<forall>a\<in>set (take ?p xs). \<forall>b\<in>set (drop ?p xs). cmp a b \<noteq> Greater" unfolding sorted_wrt_append by blast+
  moreover have "\<forall>a\<in>set (take ?p xs). cmp a x \<noteq> Greater" using sp(1,2) by (auto simp: set_conv_nth)
  moreover have "\<forall>b\<in>set (drop ?p xs). cmp x b \<noteq> Greater" using sp(3) by (auto simp: set_conv_nth)
  ultimately show ?thesis by (simp add: insert_at_def sorted_wrt_append)
qed

text \<open>The first match of a sorted table is a least match.\<close>

lemma find_least:
  assumes "sorted_wrt (\<lambda>a b. cmp a b \<noteq> Greater) xs" and "find P xs = Some y" and "z \<in> set xs" and "P z"
  shows "y = z \<or> cmp y z \<noteq> Greater"
  using assms by (induction xs) (auto split: if_splits)

end

section \<open>Search by key\<close>

definition binary_search_by_key :: "nat \<Rightarrow> ('a \<Rightarrow> nat) \<Rightarrow> 'a list \<Rightarrow> nat + nat" where
  "binary_search_by_key k f xs = binary_search_by (\<lambda>y. nat_cmp (f y) k) xs"

lemma sorted_by_key_nth:
  "sorted_wrt (\<lambda>a b. f a < f b) xs \<Longrightarrow> i < j \<Longrightarrow> j < length xs \<Longrightarrow> f (xs ! i) < (f (xs ! j) :: nat)"
  by (simp add: sorted_wrt_iff_nth_less)

lemma sorted_by_key_weak: "sorted_wrt (\<lambda>a b. f a < (f b :: nat)) xs \<Longrightarrow> sorted_wrt (\<lambda>a b. f a \<le> f b) xs"
  by (rule sorted_wrt_mono_rel) auto

lemma search_key:
  assumes "sorted_wrt (\<lambda>a b. f a \<le> f b) xs"
  shows "case binary_search_by_key k f xs of
      Inr p \<Rightarrow> p < length xs \<and> f (xs ! p) = k
    | Inl p \<Rightarrow> p \<le> length xs \<and> (\<forall>i < p. f (xs ! i) < k) \<and> (\<forall>i. p \<le> i \<and> i < length xs \<longrightarrow> k < f (xs ! i))"
proof -
  have le: "f (xs ! i) \<le> f (xs ! j)" if "i \<le> j" "j < length xs" for i j
    using assms that by (cases "i = j") (auto simp: sorted_wrt_iff_nth_less)
  have up: "greater_up (\<lambda>y. nat_cmp (f y) k) xs" and down: "less_down (\<lambda>y. nat_cmp (f y) k) xs"
    unfolding greater_up_def less_down_def using le by (auto dest: order.strict_trans1 order.strict_trans2)
  show ?thesis using binary_search_by_spec [OF up down] by (auto simp: binary_search_by_key_def split: sum.splits)
qed

lemma search_key_found:
  assumes "sorted_wrt (\<lambda>a b. f a < f b) xs" and "x \<in> set xs"
  shows "\<exists>p. binary_search_by_key (f x) f xs = Inr p \<and> p < length xs \<and> xs ! p = x"
proof -
  from assms(2) obtain i where i: "i < length xs" "xs ! i = x" by (auto simp: in_set_conv_nth)
  have spec: "case binary_search_by_key (f x) f xs of
      Inr p \<Rightarrow> p < length xs \<and> f (xs ! p) = f x
    | Inl p \<Rightarrow> p \<le> length xs \<and> (\<forall>i < p. f (xs ! i) < f x) \<and> (\<forall>i. p \<le> i \<and> i < length xs \<longrightarrow> f x < f (xs ! i))"
    by (rule search_key [OF sorted_by_key_weak [OF assms(1)]])
  show ?thesis
  proof (cases "binary_search_by_key (f x) f xs")
    case (Inl p)
    with spec i have "i < p \<Longrightarrow> f x < f x" "p \<le> i \<Longrightarrow> f x < f x" by auto
    then show ?thesis by (cases "i < p") auto
  next
    case (Inr p)
    with spec have p: "p < length xs" "f (xs ! p) = f x" by auto
    have "p = i" using sorted_by_key_nth [OF assms(1), of p i] sorted_by_key_nth [OF assms(1), of i p] p i
      by (cases p i rule: linorder_cases) auto
    with Inr p i show ?thesis by simp
  qed
qed

lemma search_key_absent:
  assumes "sorted_wrt (\<lambda>a b. f a < f b) xs" and "k \<notin> f ` set xs"
  shows "\<exists>p. binary_search_by_key k f xs = Inl p \<and> (f x = k \<longrightarrow> sorted_wrt (\<lambda>a b. f a < f b) (insert_at p x xs))"
proof -
  have spec: "case binary_search_by_key k f xs of
      Inr p \<Rightarrow> p < length xs \<and> f (xs ! p) = k
    | Inl p \<Rightarrow> p \<le> length xs \<and> (\<forall>i < p. f (xs ! i) < k) \<and> (\<forall>i. p \<le> i \<and> i < length xs \<longrightarrow> k < f (xs ! i))"
    by (rule search_key [OF sorted_by_key_weak [OF assms(1)]])
  show ?thesis
  proof (cases "binary_search_by_key k f xs")
    case (Inr p)
    with spec assms(2) show ?thesis by force
  next
    case (Inl p)
    with spec have p: "p \<le> length xs" "\<And>i. i < p \<Longrightarrow> f (xs ! i) < k"
      "\<And>i. p \<le> i \<Longrightarrow> i < length xs \<Longrightarrow> k < f (xs ! i)" by auto
    have "f a < k" if "a \<in> set (take p xs)" for a using that p(1,2) by (auto simp: in_set_conv_nth)
    moreover have "k < f a" if "a \<in> set (drop p xs)" for a using that p(1,3) by (auto simp: in_set_conv_nth)
    moreover have "sorted_wrt (\<lambda>a b. f a < f b) (take p xs)" "sorted_wrt (\<lambda>a b. f a < f b) (drop p xs)"
      using assms(1) by (simp_all add: sorted_wrt_take sorted_wrt_drop)
    ultimately have "f x = k \<longrightarrow> sorted_wrt (\<lambda>a b. f a < f b) (insert_at p x xs)"
      by (auto simp: insert_at_def sorted_wrt_append intro: order.strict_trans)
    with Inl show ?thesis by simp
  qed
qed

lemma insert_key_sorted:
  assumes "sorted_wrt (\<lambda>a b. f a \<le> f b) xs"
  shows "sorted_wrt (\<lambda>a b. f a \<le> f b)
    (insert_at (case binary_search_by_key (f x) f xs of Inl p \<Rightarrow> p | Inr p \<Rightarrow> p) x xs)"
proof -
  obtain p where p: "p = (case binary_search_by_key (f x) f xs of Inl p \<Rightarrow> p | Inr p \<Rightarrow> p)" by blast
  have le: "f (xs ! i) \<le> f (xs ! j)" if "i \<le> j" "j < length xs" for i j
    using assms that by (cases "i = j") (auto simp: sorted_wrt_iff_nth_less)
  have "p \<le> length xs \<and> (\<forall>i < p. f (xs ! i) \<le> f x) \<and> (\<forall>i. p \<le> i \<and> i < length xs \<longrightarrow> f x \<le> f (xs ! i))"
    using search_key [OF assms, of "f x"] le unfolding p by (auto split: sum.splits) (metis less_imp_le_nat)+
  then have "\<forall>a\<in>set (take p xs). f a \<le> f x" "\<forall>a\<in>set (drop p xs). f x \<le> f a"
    by (auto simp: in_set_conv_nth)
  moreover have "sorted_wrt (\<lambda>a b. f a \<le> f b) (take p xs)" "sorted_wrt (\<lambda>a b. f a \<le> f b) (drop p xs)"
    using assms by (simp_all add: sorted_wrt_take sorted_wrt_drop)
  ultimately show ?thesis unfolding p [symmetric] by (auto simp: insert_at_def sorted_wrt_append intro: order_trans)
qed

end
