(* ===== verification/RoutingTables.thy ===== *)
theory RoutingTables
  imports NetPacket BinarySearch
begin

text \<open>
  The tables of the network stack (\<open>net/routing_tables.rs\<close>). The locked statics are the fields
  of one record; a shared NIC is its identifier, with its type in the storage. Ordered inserts use
  the binary search of Rust's slices.
\<close>

section \<open>Tables\<close>

datatype NicType = EthernetNic | Ipv4Nic

record Ipv4Route =
  rt_network :: Ipv4Network
  first_hop_ip :: Ipv4Address
  local_interface_ip :: Ipv4Address
  rt_priority :: nat

definition network_cmp :: "Ipv4Network \<Rightarrow> Ipv4Network \<Rightarrow> Ordering" where
  "network_cmp a b = ord_reverse (nat_cmp (prefix_len a) (prefix_len b))"

definition route_cmp :: "Ipv4Route \<Rightarrow> Ipv4Route \<Rightarrow> Ordering" where
  "route_cmp a b =
     (let prefix_ord = network_cmp (rt_network a) (rt_network b)
      in if prefix_ord \<noteq> Equal then prefix_ord else nat_cmp (rt_priority a) (rt_priority b))"

record MacBridgeDomain =
  interfaces :: "(MacAddress \<times> bool) list"
  domain_id :: nat

record routing_state =
  nic_storage :: "nat \<rightharpoonup> NicType"
  foreign_mac_nic :: "(nat \<times> MacAddress) list"
  foreign_arp_table :: "ProtocolAddr \<times> HardwareAddr \<rightharpoonup> HardwareAddr"
  ipv4_networks :: "Ipv4Network list"
  ipv4_routes :: "Ipv4Route list"
  mac_bridge_domains :: "MacBridgeDomain list"
  nic_info :: "(nat \<times> NetAddress list \<times> NicType) list"
  first_ip_added :: bool

definition register_foreign_mac_address :: "MacAddress \<Rightarrow> nat \<Rightarrow> routing_state \<Rightarrow> routing_state" where
  "register_foreign_mac_address mac nic_id s =
     (case find (\<lambda>e. snd e = mac) (foreign_mac_nic s) of
        Some (res_id, _) \<Rightarrow>
          if res_id = nic_id then s
          else s\<lparr>foreign_mac_nic :=
                   filter (\<lambda>(i, m). i \<noteq> nic_id \<and> m \<noteq> mac) (foreign_mac_nic s) @ [(nic_id, mac)]\<rparr>
      | None \<Rightarrow>
          s\<lparr>foreign_mac_nic :=
              filter (\<lambda>(i, m). i \<noteq> nic_id \<and> m \<noteq> mac) (foreign_mac_nic s) @ [(nic_id, mac)]\<rparr>)"

definition default_interface :: Ipv4Network where
  "default_interface = \<lparr>net_address = Ipv4Address 10 0 0 2, net_mask = Ipv4Address 255 255 255 0\<rparr>"

definition default_route :: Ipv4Route where
  "default_route =
     \<lparr>rt_network = \<lparr>net_address = Ipv4Address 0 0 0 0, net_mask = Ipv4Address 0 0 0 0\<rparr>,
      first_hop_ip = Ipv4Address 10 0 0 1, local_interface_ip = net_address default_interface,
      rt_priority = 100\<rparr>"

definition register_nic :: "MacAddress \<Rightarrow> nat \<Rightarrow> NicType \<Rightarrow> routing_state \<Rightarrow> routing_state" where
  "register_nic mac nic_id ty s =
     (let s1 = s\<lparr>nic_storage := (nic_storage s)(nic_id \<mapsto> ty),
                nic_info := filter (\<lambda>e. fst e \<noteq> nic_id)
                  (map (\<lambda>(i, addrs, t). (i, filter (\<lambda>a. a \<noteq> MacAddr mac) addrs, t)) (nic_info s))\<rparr>
      in if first_ip_added s
         then s1\<lparr>nic_info := nic_info s1 @ [(nic_id, [MacAddr mac], ty)]\<rparr>
         else s1\<lparr>first_ip_added := True,
                 ipv4_networks := ipv4_networks s1 @ [default_interface],
                 ipv4_routes := ipv4_routes s1 @ [default_route],
                 nic_info := nic_info s1 @ [(nic_id, [MacAddr mac, Ipv4Net default_interface], ty)]\<rparr>)"

definition deregister_nic :: "nat \<Rightarrow> routing_state \<Rightarrow> routing_state" where
  "deregister_nic nic_id s =
     s\<lparr>nic_storage := (nic_storage s)(nic_id := None),
       foreign_mac_nic := filter (\<lambda>(i, _). i \<noteq> nic_id) (foreign_mac_nic s),
       nic_info := filter (\<lambda>(i, _). i \<noteq> nic_id) (nic_info s)\<rparr>"

text \<open>A found NIC is its identifier and type; a stale entry is removed from the table.\<close>

definition get_route_mac_nic :: "MacAddress \<Rightarrow> routing_state \<Rightarrow> (nat \<times> NicType) option \<times> routing_state" where
  "get_route_mac_nic mac s =
     (if is_broadcast mac then (None, s)
      else case find (\<lambda>e. snd e = mac) (foreign_mac_nic s) of
             None \<Rightarrow> (None, s)
           | Some (i, _) \<Rightarrow>
               (case nic_storage s i of
                  Some ty \<Rightarrow> (Some (i, ty), s)
                | None \<Rightarrow> (None, s\<lparr>foreign_mac_nic := filter (\<lambda>e. snd e \<noteq> mac) (foreign_mac_nic s)\<rparr>)))"

definition is_own_mac :: "MacAddress \<Rightarrow> routing_state \<Rightarrow> bool" where
  "is_own_mac mac s \<longleftrightarrow> list_ex (\<lambda>(_, addrs, _). MacAddr mac \<in> set addrs) (nic_info s)"

text \<open>\<open>iter().find_map(f)\<close>.\<close>

fun find_map :: "('a \<Rightarrow> 'b option) \<Rightarrow> 'a list \<Rightarrow> 'b option" where
  "find_map f [] = None"
| "find_map f (x # xs) = (case f x of None \<Rightarrow> find_map f xs | Some y \<Rightarrow> Some y)"

fun as_mac :: "NetAddress \<Rightarrow> MacAddress option" where
  "as_mac (MacAddr m) = Some m"
| "as_mac _ = None"

definition get_mac_of_own_nic :: "nat \<Rightarrow> routing_state \<Rightarrow> MacAddress option" where
  "get_mac_of_own_nic nic_id s =
     find_map (\<lambda>(i, addrs, _). if i = nic_id then find_map as_mac addrs else None) (nic_info s)"

definition get_nic_of_own_address :: "NetAddress \<Rightarrow> routing_state \<Rightarrow> (nat \<times> NicType) option" where
  "get_nic_of_own_address a s =
     find_map (\<lambda>(i, addrs, _). if a \<in> set addrs then map_option (Pair i) (nic_storage s i) else None) (nic_info s)"

definition get_nic_info_from_own_addr ::
  "NetAddress \<Rightarrow> routing_state \<Rightarrow> (nat \<times> NetAddress list \<times> NicType) list" where
  "get_nic_info_from_own_addr a s = filter (\<lambda>(_, addrs, _). a \<in> set addrs) (nic_info s)"

definition get_nic_from_id :: "nat \<Rightarrow> routing_state \<Rightarrow> (nat \<times> NicType) option" where
  "get_nic_from_id i s = map_option (Pair i) (nic_storage s i)"

definition get_nic_addresses_from_id :: "nat \<Rightarrow> routing_state \<Rightarrow> NetAddress list option" where
  "get_nic_addresses_from_id i s = map_option (fst \<circ> snd) (find (\<lambda>e. fst e = i) (nic_info s))"

definition update_arp_entry ::
  "HardwareAddr \<Rightarrow> HardwareAddr \<Rightarrow> ProtocolAddr \<Rightarrow> routing_state \<Rightarrow> routing_state" where
  "update_arp_entry foreign_hw self_hw protocol s =
     s\<lparr>foreign_arp_table := (foreign_arp_table s)((protocol, self_hw) \<mapsto> foreign_hw)\<rparr>"

definition get_arp_entry :: "ProtocolAddr \<Rightarrow> HardwareAddr \<Rightarrow> routing_state \<Rightarrow> HardwareAddr option" where
  "get_arp_entry protocol self_hw s = foreign_arp_table s (protocol, self_hw)"

definition add_ipv4_route :: "Ipv4Network \<Rightarrow> routing_state \<Rightarrow> routing_state" where
  "add_ipv4_route n s =
     s\<lparr>ipv4_networks := insert_at (search_position network_cmp (ipv4_networks s) n) n (ipv4_networks s)\<rparr>"

definition add_default_ipv4_route ::
  "Ipv4Network \<Rightarrow> Ipv4Address \<Rightarrow> Ipv4Address \<Rightarrow> nat \<Rightarrow> routing_state \<Rightarrow> routing_state" where
  "add_default_ipv4_route n hop local_ip prio s =
     (let info = \<lparr>rt_network = n, first_hop_ip = hop, local_interface_ip = local_ip, rt_priority = prio\<rparr>
      in s\<lparr>ipv4_routes := insert_at (search_position route_cmp (ipv4_routes s) info) info (ipv4_routes s)\<rparr>)"

definition get_ipv4_route :: "Ipv4Address \<Rightarrow> routing_state \<Rightarrow> Ipv4Route option" where
  "get_ipv4_route destination s =
     (case find (\<lambda>n. net_contains n destination) (ipv4_networks s) of
        Some n \<Rightarrow> Some \<lparr>rt_network = n, first_hop_ip = destination,
                        local_interface_ip = net_address n, rt_priority = 0\<rparr>
      | None \<Rightarrow> find (\<lambda>r. net_contains (rt_network r) destination) (ipv4_routes s))"

definition get_own_ipv4_mac :: "Ipv4Address \<Rightarrow> routing_state \<Rightarrow> MacAddress option" where
  "get_own_ipv4_mac own s =
     find_map (\<lambda>(_, addrs, _).
       if list_ex (\<lambda>a. into_protocol a = Some (Ipv4Proto own)) addrs then find_map as_mac addrs else None) (nic_info s)"

definition drop_interface :: "MacAddress \<Rightarrow> MacBridgeDomain \<Rightarrow> MacBridgeDomain" where
  "drop_interface mac d = d\<lparr>interfaces := filter (\<lambda>(m, _). m \<noteq> mac) (interfaces d)\<rparr>"

definition add_mac_bridge :: "nat \<Rightarrow> MacAddress \<Rightarrow> routing_state \<Rightarrow> unit kresult \<times> routing_state" where
  "add_mac_bridge domain mac s =
     (let ds = map (drop_interface mac) (mac_bridge_domains s)
      in case position (\<lambda>d. domain_id d = domain) ds of
           Some i \<Rightarrow> (Inr (), s\<lparr>mac_bridge_domains :=
                       ds[i := (ds ! i)\<lparr>interfaces := interfaces (ds ! i) @ [(mac, False)]\<rparr>]\<rparr>)
         | None \<Rightarrow> (Inl NoEntry, s\<lparr>mac_bridge_domains := ds\<rparr>))"

definition remove_mac_from_bridge :: "MacAddress \<Rightarrow> routing_state \<Rightarrow> routing_state" where
  "remove_mac_from_bridge mac s = s\<lparr>mac_bridge_domains := map (drop_interface mac) (mac_bridge_domains s)\<rparr>"

definition get_mac_bridges :: "MacAddress \<Rightarrow> routing_state \<Rightarrow> MacAddress list" where
  "get_mac_bridges mac s =
     concat (map (\<lambda>d. if list_ex (\<lambda>(m, _). m = mac) (interfaces d)
                      then map fst (filter (\<lambda>(m, enabled). m \<noteq> mac \<and> enabled) (interfaces d)) else [])
       (mac_bridge_domains s))"

definition empty_routing :: routing_state where
  "empty_routing = \<lparr>nic_storage = Map.empty, foreign_mac_nic = [], foreign_arp_table = Map.empty,
     ipv4_networks = [], ipv4_routes = [], mac_bridge_domains = [], nic_info = [], first_ip_added = False\<rparr>"

section \<open>Ordered inserts\<close>

interpretation network_order: ordered_by network_cmp
  by unfold_locales (auto simp: network_cmp_def nat_cmp_def split: if_splits)

interpretation route_order: ordered_by route_cmp
  by unfold_locales (auto simp: route_cmp_def network_cmp_def nat_cmp_def Let_def split: if_splits)

section \<open>Routing tables that the operations build\<close>

text \<open>\<open>register_nic\<close> puts the default interface and the default route of the first card at the end of the two lists
  without looking for their place.\<close>

definition nic_keeps_order :: "routing_state \<Rightarrow> bool" where
  "nic_keeps_order s \<longleftrightarrow> first_ip_added s \<or>
     list_all (\<lambda>n. 24 \<le> prefix_len n) (ipv4_networks s) \<and>
     list_all (\<lambda>r. 0 < prefix_len (rt_network r) \<or> rt_priority r \<le> 100) (ipv4_routes s)"

inductive routes_built :: "routing_state \<Rightarrow> bool" where
  none: "routes_built empty_routing"
| network: "routes_built s \<Longrightarrow> routes_built (add_ipv4_route n s)"
| route: "routes_built s \<Longrightarrow> routes_built (add_default_ipv4_route n hop local_ip prio s)"
| nic: "routes_built s \<Longrightarrow> nic_keeps_order s \<Longrightarrow> routes_built (register_nic mac i ty s)"
| nic_gone: "routes_built s \<Longrightarrow> routes_built (deregister_nic i s)"
| learned: "routes_built s \<Longrightarrow> routes_built (register_foreign_mac_address mac i s)"
| forgotten: "routes_built s \<Longrightarrow> routes_built (snd (get_route_mac_nic mac s))"
| arp: "routes_built s \<Longrightarrow> routes_built (update_arp_entry fhw shw proto s)"
| bridge: "routes_built s \<Longrightarrow> routes_built (snd (add_mac_bridge domain mac s))"
| unbridge: "routes_built s \<Longrightarrow> routes_built (remove_mac_from_bridge mac s)"

lemma default_prefixes: "prefix_len default_interface = 24" "prefix_len (rt_network default_route) = 0" "rt_priority default_route = 100"
  by code_simp+

lemma other_tables_same:
  "ipv4_networks (register_foreign_mac_address mac i s) = ipv4_networks s" "ipv4_routes (register_foreign_mac_address mac i s) = ipv4_routes s"
  "ipv4_networks (snd (get_route_mac_nic mac s)) = ipv4_networks s" "ipv4_routes (snd (get_route_mac_nic mac s)) = ipv4_routes s"
  "ipv4_networks (snd (add_mac_bridge domain mac s)) = ipv4_networks s" "ipv4_routes (snd (add_mac_bridge domain mac s)) = ipv4_routes s"
  by (auto simp: register_foreign_mac_address_def get_route_mac_nic_def add_mac_bridge_def Let_def split: option.split prod.split)

lemma register_nic_sorted:
  assumes "nic_keeps_order s" and "sorted_wrt (\<lambda>a b. network_cmp a b \<noteq> Greater) (ipv4_networks s)"
    and "sorted_wrt (\<lambda>a b. route_cmp a b \<noteq> Greater) (ipv4_routes s)"
  shows "sorted_wrt (\<lambda>a b. network_cmp a b \<noteq> Greater) (ipv4_networks (register_nic mac i ty s)) \<and>
     sorted_wrt (\<lambda>a b. route_cmp a b \<noteq> Greater) (ipv4_routes (register_nic mac i ty s))"
  using assms
  by (auto simp: register_nic_def Let_def nic_keeps_order_def list_all_iff sorted_wrt_append route_cmp_def network_cmp_def nat_cmp_def
      default_prefixes split: if_splits)

lemma routes_built_sorted:
  "routes_built s \<Longrightarrow> sorted_wrt (\<lambda>a b. network_cmp a b \<noteq> Greater) (ipv4_networks s) \<and>
     sorted_wrt (\<lambda>a b. route_cmp a b \<noteq> Greater) (ipv4_routes s)"
proof (induction rule: routes_built.induct)
  case (nic s mac i ty)
  then show ?case using register_nic_sorted by blast
qed (auto simp: empty_routing_def add_ipv4_route_def add_default_ipv4_route_def deregister_nic_def update_arp_entry_def
      remove_mac_from_bridge_def other_tables_same Let_def intro: network_order.insert_keeps_sorted route_order.insert_keeps_sorted)

lemma find_Some_in: "find P xs = Some y \<Longrightarrow> y \<in> set xs \<and> P y"
  by (induction xs) (auto split: if_splits)

section \<open>Properties\<close>

text \<open>C17: In every table that the operations of the module build, in any order (a first card has to be registered
  while no network shorter than its own /24 and no default route behind its own is there), a lookup
  uses the longest matching interface network when one matches, with the destination itself as the next
  hop, whatever routes there are: an interface network comes before every route, also before one with a longer prefix.
  When no interface network matches, it uses the matching route with the longest prefix and, among
  those, the least priority value; and it fails only when nothing matches.\<close>

theorem ipv4_route_lookup:
  assumes "routes_built s"
  shows "case get_ipv4_route d s of
      None \<Rightarrow> (\<forall>n\<in>set (ipv4_networks s). \<not> net_contains n d) \<and> (\<forall>r\<in>set (ipv4_routes s). \<not> net_contains (rt_network r) d)
    | Some r \<Rightarrow> net_contains (rt_network r) d \<and>
        (if \<exists>n\<in>set (ipv4_networks s). net_contains n d
         then rt_network r \<in> set (ipv4_networks s) \<and> first_hop_ip r = d \<and> local_interface_ip r = net_address (rt_network r) \<and>
           (\<forall>n\<in>set (ipv4_networks s). net_contains n d \<longrightarrow> prefix_len n \<le> prefix_len (rt_network r))
         else r \<in> set (ipv4_routes s) \<and> (\<forall>r'\<in>set (ipv4_routes s). net_contains (rt_network r') d \<longrightarrow>
           prefix_len (rt_network r') < prefix_len (rt_network r) \<or>
           prefix_len (rt_network r') = prefix_len (rt_network r) \<and> rt_priority r \<le> rt_priority r'))"
proof (cases "find (\<lambda>n. net_contains n d) (ipv4_networks s)")
  case (Some n)
  note n = find_Some_in [OF Some]
  have "prefix_len m \<le> prefix_len n" if "m \<in> set (ipv4_networks s)" "net_contains m d" for m
    using network_order.find_least [OF _ Some that] routes_built_sorted [OF assms]
    by (auto simp: network_cmp_def nat_cmp_def split: if_splits)
  with Some n show ?thesis by (auto simp: get_ipv4_route_def)
next
  case None
  then have no: "\<forall>n\<in>set (ipv4_networks s). \<not> net_contains n d" by (simp add: find_None_iff)
  show ?thesis
  proof (cases "find (\<lambda>r. net_contains (rt_network r) d) (ipv4_routes s)")
    case (Some r)
    note r = find_Some_in [OF Some]
    have "prefix_len (rt_network r') < prefix_len (rt_network r) \<or>
        prefix_len (rt_network r') = prefix_len (rt_network r) \<and> rt_priority r \<le> rt_priority r'"
      if "r' \<in> set (ipv4_routes s)" "net_contains (rt_network r') d" for r'
      using route_order.find_least [OF _ Some that] routes_built_sorted [OF assms]
      by (auto simp: route_cmp_def network_cmp_def nat_cmp_def Let_def split: if_splits)
    with Some r no None show ?thesis by (auto simp: get_ipv4_route_def)
  next
    case none': None
    then have "\<forall>r\<in>set (ipv4_routes s). \<not> net_contains (rt_network r) d" by (simp add: find_None_iff)
    with None none' no show ?thesis by (simp add: get_ipv4_route_def)
  qed
qed

theorem ipv4_route_lookup_witness:
  "\<exists>s r. routes_built s \<and> get_ipv4_route (Ipv4Address 10 0 0 7) s = Some r \<and> first_hop_ip r = Ipv4Address 10 0 0 7 \<and>
     prefix_len (rt_network r) = 24 \<and> (\<exists>r'\<in>set (ipv4_routes s). net_contains (rt_network r') (Ipv4Address 10 0 0 7) \<and> prefix_len (rt_network r') = 30)"
proof -
  let ?d = "Ipv4Address 10 0 0 7" and ?n = "\<lparr>net_address = Ipv4Address 10 0 0 4, net_mask = Ipv4Address 255 255 255 252\<rparr>"
  let ?r = "\<lparr>rt_network = ?n, first_hop_ip = Ipv4Address 10 0 0 5, local_interface_ip = Ipv4Address 10 0 0 2, rt_priority = 1\<rparr>"
  let ?s = "register_nic (MacAddress 2 0 0 0 0 1) 0 EthernetNic (add_default_ipv4_route ?n (Ipv4Address 10 0 0 5) (Ipv4Address 10 0 0 2) 1 empty_routing)"
  have l: "prefix_len ?n = 30" "net_contains ?n ?d" "net_contains default_interface ?d" by code_simp+
  have t: "ipv4_networks ?s = [default_interface]" "ipv4_routes ?s = [?r, default_route]"
    by (simp_all add: register_nic_def add_default_ipv4_route_def empty_routing_def insert_at_def search_position_def Let_def)
  have b: "routes_built ?s"
    by (intro routes_built.intros) (simp add: nic_keeps_order_def add_default_ipv4_route_def empty_routing_def insert_at_def search_position_def l)
  obtain r where r: "get_ipv4_route ?d ?s = Some r" "rt_network r = default_interface" using t l by (simp add: get_ipv4_route_def)
  from ipv4_route_lookup [OF b, of ?d] r t l have "first_hop_ip r = ?d" by simp
  with b r t l default_prefixes show ?thesis by (intro exI [of _ ?s] exI [of _ r]) auto
qed

text \<open>Without the condition on the first card a longer interface network can stay behind a shorter one.\<close>

theorem register_nic_breaks_order:
  "\<exists>s r. s = register_nic (MacAddress 2 0 0 0 0 1) 0 EthernetNic
        (add_ipv4_route \<lparr>net_address = Ipv4Address 10 1 1 1, net_mask = Ipv4Address 255 0 0 0\<rparr> empty_routing) \<and>
     get_ipv4_route (Ipv4Address 10 0 0 7) s = Some r \<and> prefix_len (rt_network r) = 8 \<and>
     (\<exists>n\<in>set (ipv4_networks s). net_contains n (Ipv4Address 10 0 0 7) \<and> prefix_len n = 24)"
proof -
  let ?d = "Ipv4Address 10 0 0 7" and ?n = "\<lparr>net_address = Ipv4Address 10 1 1 1, net_mask = Ipv4Address 255 0 0 0\<rparr>"
  have "prefix_len ?n = 8" "net_contains ?n ?d" "net_contains default_interface ?d" by code_simp+
  moreover have "ipv4_networks (register_nic mac i ty (add_ipv4_route ?n empty_routing)) = [?n, default_interface]" for mac i ty
    by (simp add: register_nic_def add_ipv4_route_def empty_routing_def insert_at_def search_position_def Let_def)
  ultimately show ?thesis using default_prefixes by (simp add: get_ipv4_route_def)
qed

text \<open>The table of foreign MAC addresses keeps one host per NIC: when a new address is learned on
  a NIC, every address learned there before is forgotten and has no route any more.\<close>

theorem learning_forgets_neighbours:
  assumes "\<forall>e\<in>set (foreign_mac_nic s). snd e \<noteq> new" and "old \<noteq> new"
    and "\<forall>e\<in>set (foreign_mac_nic s). snd e = old \<longrightarrow> fst e = nic_id"
  shows "fst (get_route_mac_nic old (register_foreign_mac_address new nic_id s)) = None"
proof -
  have "find (\<lambda>e. snd e = new) (foreign_mac_nic s) = None" using assms(1) by (auto simp: find_None_iff)
  then have f: "foreign_mac_nic (register_foreign_mac_address new nic_id s) =
      filter (\<lambda>(i, m). i \<noteq> nic_id \<and> m \<noteq> new) (foreign_mac_nic s) @ [(nic_id, new)]"
    by (simp add: register_foreign_mac_address_def)
  have "find (\<lambda>e. snd e = old) (foreign_mac_nic (register_foreign_mac_address new nic_id s)) = None"
    unfolding f find_None_iff using assms(2,3) by auto
  then show ?thesis by (simp add: get_route_mac_nic_def)
qed

definition mac1 :: MacAddress where "mac1 = MacAddress 2 0 0 0 0 1"

definition mac2 :: MacAddress where "mac2 = MacAddress 2 0 0 0 0 2"

end
