(* ===== verification/NetProtocols.thy ===== *)
theory NetProtocols
  imports RoutingTables
begin

text \<open>
  Parsing and building of the protocol layers (\<open>net/protocols/*.rs\<close>). A parser returns the
  header, or \<open>None\<close> for a packet it rejects; a builder returns the direction the packet takes. Both
  may panic (outer \<open>None\<close>), by an index out of range as well as by arithmetic.
\<close>

section \<open>State\<close>

datatype RoutingStep = Incoming | Bridge | Outgoing

record PacketInRouting =
  pir_data :: NetPacket
  routing_step :: RoutingStep
  pir_layer :: NetLayerType

record ProcessedPacket =
  pp_data :: NetPacket
  user_data_start :: nat

record NetSocket =
  sock_addresses :: "NetAddress AddressPair list"
  sock_queue :: "ProcessedPacket list"
  sock_count :: nat
  sock_id :: nat

text \<open>The net queue is only pushed to, appended to and swapped, so its counter is its length; a
  socket's queue is also read, which leaves the counter.\<close>

record net_state =
  net_initialized :: bool
  rt :: routing_state
  net_queue :: "PacketInRouting list"
  sockets :: "u64 \<rightharpoonup> NetSocket list"
  sent :: "(nat \<times> chunk list) list"

datatype IncomingFlowDirection = LayerUp NetLayerType nat | ToBridge | Both NetLayerType nat | InDrop

datatype LayerDownType = Normal NetLayerType | ToNic nat

datatype OutgoingFlowDirection = LayerDown LayerDownType | OutDrop

text \<open>\<open>layers_to_construct.pop()\<close>.\<close>

definition pop_layer :: "NetPacket \<Rightarrow> NetLayerFlowID option \<times> NetPacket" where
  "pop_layer p =
     (if layers_to_construct p = [] then (None, p)
      else (Some (last (layers_to_construct p)),
            p\<lparr>layers_to_construct := butlast (layers_to_construct p)\<rparr>))"

definition push_layer :: "NetLayerFlowID \<Rightarrow> NetPacket \<Rightarrow> NetPacket" where
  "push_layer f p = p\<lparr>layers_to_construct := layers_to_construct p @ [f]\<rparr>"

definition read_u16 :: "u8 list \<Rightarrow> nat \<Rightarrow> u16 option" where
  "read_u16 data i = index_at data i \<bind> (\<lambda>a. index_at data (i + 1) \<bind> (\<lambda>b. Some (u16_from_be a b)))"

definition read_u32 :: "u8 list \<Rightarrow> nat \<Rightarrow> u32 option" where
  "read_u32 data i =
     index_at data i \<bind> (\<lambda>a. index_at data (i + 1) \<bind> (\<lambda>b.
     index_at data (i + 2) \<bind> (\<lambda>c. index_at data (i + 3) \<bind> (\<lambda>d. Some (u32_from_be a b c d)))))"

definition first_chunk :: "NetPacket \<Rightarrow> chunk option" where
  "first_chunk p = index_at (chunks p) 0"

section \<open>Ethernet\<close>

definition ethernet_upper_layer_type :: "EthernetHeader \<Rightarrow> NetLayerType" where
  "ethernet_upper_layer_type h =
     (if upper_type h = 0x0800 then LIpv4 else if upper_type h = 0x86DD then LUnknown
      else if upper_type h = 0x0806 then LArp else LUnknown)"

definition ethernet_incoming :: "routing_state \<Rightarrow> EthernetHeader \<Rightarrow> IncomingFlowDirection" where
  "ethernet_incoming s h =
     (if is_broadcast (eth_destination h) then Both (ethernet_upper_layer_type h) (eth_offset h + 14)
      else if is_own_mac (eth_destination h) s then LayerUp (ethernet_upper_layer_type h) (eth_offset h + 14)
      else ToBridge)"

definition parse_ethernet_frame ::
  "NetPacket \<Rightarrow> routing_state \<Rightarrow> (EthernetHeader option \<times> NetPacket \<times> routing_state) option" where
  "parse_ethernet_frame p s =
     (if pkt_length p < 14 then Some (None, p, s)
      else ensure_length 14 p \<bind> (\<lambda>p1.
           first_chunk p1 \<bind> (\<lambda>data.
           slice_range data 0 6 \<bind> mac_of_bytes \<bind> (\<lambda>destination.
           slice_range data 6 12 \<bind> mac_of_bytes \<bind> (\<lambda>src.
           read_u16 data 12 \<bind> (\<lambda>ty.
           let s1 = (case source p1 of Nic nic \<Rightarrow> register_foreign_mac_address src nic s | _ \<Rightarrow> s)
           in Some (Some \<lparr>eth_offset = 0, crc_offset = pkt_length p - 4, eth_source = src,
                          eth_destination = destination, upper_type = ty\<rparr>,
                    append_address (address_pair (MacAddr src) (MacAddr destination)) p1, s1)))))))"

definition ethernet_write :: "EthernetFlowId \<Rightarrow> chunk \<Rightarrow> chunk option" where
  "ethernet_write data c =
     write_at c 0 (mac_bytes (ap_target (mac_addr data))) \<bind> (\<lambda>c1.
     write_at c1 6 (mac_bytes (ap_source (mac_addr data))) \<bind> (\<lambda>c2.
     write_at c2 12 (u16_to_be (ether_type data))))"

definition ethernet_construct ::
  "(nat \<Rightarrow> u8) \<Rightarrow> NetPacket \<Rightarrow> routing_state \<Rightarrow> (OutgoingFlowDirection \<times> NetPacket \<times> routing_state) option" where
  "ethernet_construct junk p s =
     (case pop_layer p of
        (Some (FEthernet data), p1) \<Rightarrow>
          (let (nic, s1) = (case out_interface data of
                 Some mac \<Rightarrow> (get_nic_of_own_address (MacAddr mac) s, s)
               | None \<Rightarrow> get_route_mac_nic (ap_target (mac_addr data)) s)
           in case nic of
                None \<Rightarrow> Some (OutDrop, p1, s1)
              | Some (i, ty) \<Rightarrow>
                  if ty \<noteq> EthernetNic then Some (OutDrop, p1, s1)
                  else ethernet_write data (fresh_chunk junk 14) \<bind> (\<lambda>c.
                       insert_chunk_front c p1 \<bind> (\<lambda>p2. Some (LayerDown (ToNic i), p2, s1))))
      | (_, p1) \<Rightarrow> Some (OutDrop, p1, s))"

section \<open>ARP\<close>

definition hardware_from_bytes :: "u16 \<Rightarrow> u8 list \<Rightarrow> HardwareAddr option option" where
  "hardware_from_bytes ty data =
     (if ty = 1 then slice_range data 0 6 \<bind> (\<lambda>b. Some (map_option EthernetHw (mac_of_bytes b)))
      else Some None)"

definition protocol_from_bytes :: "u16 \<Rightarrow> u8 list \<Rightarrow> ProtocolAddr option option" where
  "protocol_from_bytes ty data =
     (if ty = 0x0800 then slice_range data 0 4 \<bind> (\<lambda>b. Some (map_option Ipv4Proto (ip_of_bytes b)))
      else if ty = 0x86DD then slice_range data 0 16 \<bind> (\<lambda>b. Some (Some (Ipv6Proto b)))
      else Some None)"

fun hardware_length :: "HardwareAddr \<Rightarrow> nat" where
  "hardware_length (EthernetHw _) = 6"

fun protocol_length :: "ProtocolAddr \<Rightarrow> nat" where
  "protocol_length (Ipv4Proto _) = 4"
| "protocol_length (Ipv6Proto _) = 16"

text \<open>\<open>expr?\<close> in a function that returns an option: a missing value ends the function.\<close>

definition or_return :: "'a option option \<Rightarrow> ('a \<Rightarrow> 'b option option) \<Rightarrow> 'b option option" where
  "or_return m f = m \<bind> (\<lambda>x. case x of None \<Rightarrow> Some None | Some y \<Rightarrow> f y)"

text \<open>The fields of the header in the first chunk; the last address is cut with the hardware
  size, as in the source.\<close>

definition parse_arp_data :: "u8 list \<Rightarrow> nat \<Rightarrow> ArpHeader option option" where
  "parse_arp_data data off =
     read_u16 data off \<bind> (\<lambda>hardware_type.
     read_u16 data (off + 2) \<bind> (\<lambda>protocol_type.
     index_at data (off + 4) \<bind> (\<lambda>hs. index_at data (off + 5) \<bind> (\<lambda>ps.
     read_u16 data (off + 6) \<bind> (\<lambda>operation.
     let hw = unat hs; pr = unat ps; o1 = off + 8; o2 = o1 + hw; o3 = o2 + pr; o4 = o3 + hw in
     slice_range data o1 (o1 + hw) \<bind> (\<lambda>b1.
     or_return (hardware_from_bytes hardware_type b1) (\<lambda>sender_hardware.
     slice_range data o2 (o2 + pr) \<bind> (\<lambda>b2.
     or_return (protocol_from_bytes protocol_type b2) (\<lambda>sender_protocol.
     slice_range data o3 (o3 + hw) \<bind> (\<lambda>b3.
     or_return (hardware_from_bytes hardware_type b3) (\<lambda>target_hardware.
     slice_range data o4 (o4 + hw) \<bind> (\<lambda>b4.
     or_return (protocol_from_bytes protocol_type b4) (\<lambda>target_protocol.
     Some (Some \<lparr>arp_offset = off,
                 arp_flow_id = \<lparr>arp_operation = operation,
                                arp_protocol = address_pair sender_protocol target_protocol,
                                arp_hardware = address_pair sender_hardware target_hardware\<rparr>,
                 arp_size = o4 + pr - off\<rparr>))))))))))))))"

definition parse_arp :: "NetPacket \<Rightarrow> nat \<Rightarrow> (ArpHeader option \<times> NetPacket) option" where
  "parse_arp p off =
     ensure_length (off + 28) p \<bind> (\<lambda>p1.
     first_chunk p1 \<bind> (\<lambda>data. parse_arp_data data off \<bind> (\<lambda>h. Some (h, p1))))"

fun hw_bytes :: "HardwareAddr \<Rightarrow> u8 list" where
  "hw_bytes (EthernetHw m) = mac_bytes m"

fun proto_bytes :: "ProtocolAddr \<Rightarrow> u8 list" where
  "proto_bytes (Ipv4Proto a) = ip_bytes a"
| "proto_bytes (Ipv6Proto b) = b"

fun proto_type :: "ProtocolAddr \<Rightarrow> u16" where
  "proto_type (Ipv4Proto _) = 0x0800"
| "proto_type (Ipv6Proto _) = 0x86DD"

definition arp_write :: "ArpFlowId \<Rightarrow> nat \<Rightarrow> u8 list \<Rightarrow> u8 list option" where
  "arp_write data off c0 =
     (let hs = ap_source (arp_hardware data); ps = ap_source (arp_protocol data);
          ht = ap_target (arp_hardware data); pt = ap_target (arp_protocol data);
          a1 = off + 8; a2 = a1 + 6; a3 = a2 + protocol_length ps; a4 = a3 + 6
      in write_at c0 (off + 6) (u16_to_be (arp_operation data)) \<bind> (\<lambda>c1.
         write_at c1 off (u16_to_be 1) \<bind> (\<lambda>c2.
         write_at c2 (off + 4) [6] \<bind> (\<lambda>c3.
         write_at c3 a1 (hw_bytes hs) \<bind> (\<lambda>c4.
         write_at c4 (off + 2) (u16_to_be (proto_type ps)) \<bind> (\<lambda>c5.
         write_at c5 (off + 5) [word_of_nat (protocol_length ps)] \<bind> (\<lambda>c6.
         write_at c6 a2 (proto_bytes ps) \<bind> (\<lambda>c7.
         write_at c7 a3 (hw_bytes ht) \<bind> (\<lambda>c8.
         write_at c8 a4 (proto_bytes pt))))))))))"

definition arp_construct ::
  "(nat \<Rightarrow> u8) \<Rightarrow> NetPacket \<Rightarrow> (OutgoingFlowDirection \<times> NetPacket) option" where
  "arp_construct junk p =
     (case pop_layer p of
        (Some (FArp data), p1) \<Rightarrow>
          (case (ap_source (arp_hardware data), ap_target (arp_hardware data)) of
             (EthernetHw source_mac, EthernetHw dest_mac) \<Rightarrow>
               (let p2 = push_layer (FEthernet (ethernet_flow_new source_mac dest_mac 0x0806)) p1;
                    total_length = 8 + hardware_length (ap_source (arp_hardware data)) * 2
                                     + protocol_length (ap_source (arp_protocol data)) * 2
                in arp_write data 0 (fresh_chunk junk total_length) \<bind> (\<lambda>c.
                   insert_chunk_front c p2 \<bind> (\<lambda>p3. Some (LayerDown (Normal LEthernet), p3)))))
      | (_, p1) \<Rightarrow> Some (OutDrop, p1))"

definition arp_bridge_to_out :: "ArpHeader \<Rightarrow> NetLayerFlowID" where
  "arp_bridge_to_out h =
     FArp \<lparr>arp_operation = 2, arp_protocol = ap_reverse (arp_protocol (arp_flow_id h)),
           arp_hardware = ap_reverse (arp_hardware (arp_flow_id h))\<rparr>"

section \<open>IPv4\<close>

definition ipv4_upper_layer_type :: "Ipv4Header \<Rightarrow> NetLayerType" where
  "ipv4_upper_layer_type h =
     (if ip_protocol h = 1 then LIcmp else if ip_protocol h = 6 then LTcp
      else if ip_protocol h = 17 then LUdp else if ip_protocol h = 41 then LIpv6 else LUnknown)"

definition ipv4_upper_layer_offset :: "Ipv4Header \<Rightarrow> nat" where
  "ipv4_upper_layer_offset h = ip_offset h + unat (ihl h) * 4"

definition ipv4_incoming :: "Ipv4Header \<Rightarrow> IncomingFlowDirection" where
  "ipv4_incoming h =
     (case find (\<lambda>n. net_contains n (ap_target (ip_address h))) (in_interface_networks h) of
        Some _ \<Rightarrow> LayerUp (ipv4_upper_layer_type h) (ipv4_upper_layer_offset h)
      | None \<Rightarrow> ToBridge)"

definition ipv4_bridge_to_out :: "Ipv4Header \<Rightarrow> NetLayerFlowID option" where
  "ipv4_bridge_to_out h =
     checked_sub (unat (ip_ttl h)) 1 \<bind> (\<lambda>ttl.
     Some (FIpv4 \<lparr>fl_address = ip_address h, fl_protocol = ip_protocol h,
                  fl_diff_services = ip_diff_services h, fl_ttl = word_of_nat ttl,
                  fl_fragment_info = ip_fragment_info h\<rparr>))"

fun as_network :: "NetAddress \<Rightarrow> Ipv4Network option" where
  "as_network (Ipv4Net n) = Some n"
| "as_network _ = None"

definition interface_networks :: "NetPacketSource \<Rightarrow> routing_state \<Rightarrow> Ipv4Network list" where
  "interface_networks src s =
     (case src of
        Nic nic_id \<Rightarrow> (case get_nic_addresses_from_id nic_id s of
                        Some addrs \<Rightarrow> List.map_filter as_network addrs | None \<Rightarrow> [])
      | _ \<Rightarrow> [])"

text \<open>\<open>interface_addresses.sort()\<close> is a stable sort, longest prefix first.\<close>

definition sort_networks :: "Ipv4Network list \<Rightarrow> Ipv4Network list" where
  "sort_networks = sort_key (\<lambda>n. 32 - prefix_len n)"

definition parse_ipv4_fields ::
  "Ipv4Network list \<Rightarrow> nat \<Rightarrow> u8 \<Rightarrow> u8 list \<Rightarrow> Ipv4Header option" where
  "parse_ipv4_fields networks off v_ihl data =
     index_at data 1 \<bind> (\<lambda>ds.
     read_u16 data 2 \<bind> (\<lambda>total_length.
     read_u16 data 4 \<bind> (\<lambda>ident.
     index_at data 6 \<bind> (\<lambda>fl.
     read_u16 data 6 \<bind> (\<lambda>fo.
     index_at data 8 \<bind> (\<lambda>ttl. index_at data 9 \<bind> (\<lambda>protocol.
     read_u16 data 10 \<bind> (\<lambda>ck.
     slice_range data 12 16 \<bind> ip_of_bytes \<bind> (\<lambda>src.
     slice_range data 16 20 \<bind> ip_of_bytes \<bind> (\<lambda>destination.
     Some \<lparr>ip_offset = off, ihl = v_ihl AND 0x0F, ip_diff_services = drop_bit 2 ds,
           ip_total_length = total_length,
           ip_fragment_info = \<lparr>identification = ident, frag_flags = drop_bit 5 (fl AND 0xE0),
                              fragment_offset = ucast (fo AND 0x1FFF)\<rparr>,
           ip_ttl = ttl, ip_protocol = protocol, header_checksum = ck,
           ip_address = address_pair src destination,
           in_interface_networks = sort_networks networks, checksum_checked = False\<rparr>))))))))))"

definition parse_ipv4_packet ::
  "NetPacket \<Rightarrow> nat \<Rightarrow> routing_state \<Rightarrow> (Ipv4Header option \<times> NetPacket) option" where
  "parse_ipv4_packet p off s =
     (if pkt_length p < off + 1 then Some (None, p)
      else ensure_length (off + 1) p \<bind> (\<lambda>p1.
           first_chunk p1 \<bind> (\<lambda>data1. index_at data1 off \<bind> (\<lambda>v_ihl.
           if drop_bit 4 v_ihl \<noteq> 4 then Some (None, p1)
           else (let header_len = unat (v_ihl AND 0x0F) * 4 in
             if pkt_length p < header_len then Some (None, p1)
             else slice_range data1 off (off + header_len) \<bind> compute_internet_checksum \<bind> (\<lambda>checksum.
             if checksum \<noteq> 0 then Some (None, p1)
             else ensure_length header_len p1 \<bind> (\<lambda>p2.
             first_chunk p2 \<bind> (\<lambda>data2. slice_range data2 off (length data2) \<bind> (\<lambda>data.
             parse_ipv4_fields (interface_networks (source p2) s) off v_ihl data \<bind> (\<lambda>h.
             checked_sub (unat (ip_total_length h)) header_len \<bind> (\<lambda>upper.
             Some (Some h, append_address
               (address_pair (Ipv4Addr (ap_source (ip_address h))) (Ipv4Addr (ap_target (ip_address h))))
               (p2\<lparr>upper_layer_size := Some upper\<rparr>)))))))))))))"

definition ipv4_write :: "Ipv4FlowId \<Rightarrow> nat \<Rightarrow> nat \<Rightarrow> u8 list \<Rightarrow> u8 list option" where
  "ipv4_write data off upper_layers_length c0 =
     (let total_length = (word_of_nat (upper_layers_length + 20) :: u16);
          fi = fl_fragment_info data
      in write_at c0 off [0x45] \<bind> (\<lambda>c1.
         write_at c1 (off + 1) [push_bit 2 (fl_diff_services data)] \<bind> (\<lambda>c2.
         write_at c2 (off + 2) (u16_to_be total_length) \<bind> (\<lambda>c3.
         write_at c3 (off + 4) (u16_to_be (identification fi)) \<bind> (\<lambda>c4.
         write_at c4 (off + 6)
           (u16_to_be (push_bit 13 (ucast (frag_flags fi)) OR ucast (fragment_offset fi))) \<bind> (\<lambda>c5.
         write_at c5 (off + 8) [fl_ttl data] \<bind> (\<lambda>c6.
         write_at c6 (off + 9) [fl_protocol data] \<bind> (\<lambda>c7.
         write_at c7 (off + 10) (u16_to_be 0) \<bind> (\<lambda>c8.
         write_at c8 (off + 12) (ip_bytes (ap_source (fl_address data))) \<bind> (\<lambda>c9.
         write_at c9 (off + 16) (ip_bytes (ap_target (fl_address data))) \<bind> (\<lambda>c10.
         slice_range c10 off (off + 20) \<bind> compute_internet_checksum \<bind> (\<lambda>checksum.
         write_at c10 (off + 10) (u16_to_be checksum)))))))))))))"

datatype Ipv4Error = NetworkUnreachable | HostUnreachable | OtherNonFatal | OtherFatal

text \<open>The choice of the lower layer when the packet names none: the packet with the pushed layer and
  the direction.\<close>

definition ipv4_lower_layer ::
  "Ipv4FlowId \<Rightarrow> NetPacket \<Rightarrow> routing_state \<Rightarrow> Ipv4Error + OutgoingFlowDirection \<times> NetPacket" where
  "ipv4_lower_layer data p s =
     (case get_ipv4_route (ap_target (fl_address data)) s of
        None \<Rightarrow> Inl NetworkUnreachable
      | Some route \<Rightarrow>
     (case get_own_ipv4_mac (net_address (rt_network route)) s of
        None \<Rightarrow> Inl OtherFatal
      | Some own_mac \<Rightarrow>
     (case get_arp_entry (Ipv4Proto (first_hop_ip route)) (EthernetHw own_mac) s of
        None \<Rightarrow> Inl (if first_hop_ip route = ap_target (fl_address data) then HostUnreachable else NetworkUnreachable)
      | Some (EthernetHw remote_mac) \<Rightarrow>
     (case get_nic_info_from_own_addr (MacAddr own_mac) s of
        [] \<Rightarrow> Inl OtherFatal
      | (nic_id, _, EthernetNic) # _ \<Rightarrow>
          Inr (LayerDown (Normal LEthernet),
               push_layer (FEthernet \<lparr>mac_addr = address_pair own_mac remote_mac, ether_type = 0x0800,
                                      out_interface = None\<rparr>) p)
      | (nic_id, _, Ipv4Nic) # _ \<Rightarrow>
          (case get_nic_from_id nic_id s of
             None \<Rightarrow> Inl OtherFatal
           | Some (i, _) \<Rightarrow> Inr (LayerDown (ToNic i), p))))))"

definition ipv4_direction ::
  "Ipv4FlowId \<Rightarrow> NetPacket \<Rightarrow> routing_state \<Rightarrow> Ipv4Error + OutgoingFlowDirection \<times> NetPacket" where
  "ipv4_direction data p s =
     (if layers_to_construct p = [] then ipv4_lower_layer data p s
      else case last (layers_to_construct p) of
             FEthernet _ \<Rightarrow> Inr (LayerDown (Normal LEthernet), p)
           | FIpv4 _ \<Rightarrow> Inr (LayerDown (Normal LIpv4), p)
           | _ \<Rightarrow> Inl OtherFatal)"

definition ipv4_construct_internal ::
  "(nat \<Rightarrow> u8) \<Rightarrow> NetPacket \<Rightarrow> routing_state \<Rightarrow> ((Ipv4Error + OutgoingFlowDirection) \<times> NetPacket) option" where
  "ipv4_construct_internal junk p s =
     (case pop_layer p of
        (Some (FIpv4 data), p1) \<Rightarrow>
          (case ipv4_direction data p1 s of
             Inl e \<Rightarrow> Some (Inl e, p1)
           | Inr (d, p2) \<Rightarrow>
               ipv4_write data 0 (pkt_length p2) (fresh_chunk junk 20) \<bind> (\<lambda>c.
               insert_chunk_front c p2 \<bind> (\<lambda>p3. Some (Inr d, p3))))
      | (_, p1) \<Rightarrow> Some (Inl OtherNonFatal, p1))"

section \<open>ICMP\<close>

definition parse_icmp :: "NetPacket \<Rightarrow> nat \<Rightarrow> (IcmpHeader option \<times> NetPacket) option" where
  "parse_icmp p off =
     ensure_length (off + 8) p \<bind> (\<lambda>p1.
     case upper_layer_size p1 of
       None \<Rightarrow> Some (None, p1)
     | Some len \<Rightarrow>
         first_chunk p1 \<bind> (\<lambda>data.
         index_at data off \<bind> (\<lambda>ty. index_at data (off + 1) \<bind> (\<lambda>code.
         read_u16 data (off + 2) \<bind> (\<lambda>ck. read_u32 data (off + 4) \<bind> (\<lambda>d.
         slice_range data (off + 8) (off + len) \<bind> (\<lambda>payload.
         Some (Some \<lparr>icmp_offset = off, icmp_type = ty, icmp_code = code, icmp_checksum = ck,
                     icmp_data = d, icmp_payload = payload\<rparr>, p1))))))))"

definition icmp_write :: "IcmpFlowId \<Rightarrow> u8 list \<Rightarrow> u8 list option" where
  "icmp_write f c0 =
     write_at c0 0 [fl_icmp_type f] \<bind> (\<lambda>c1.
     write_at c1 1 [fl_code f] \<bind> (\<lambda>c2.
     write_at c2 2 (u16_to_be 0) \<bind> (\<lambda>c3.
     write_at c3 4 (u32_to_be (fl_data f)) \<bind> (\<lambda>c4.
     write_at c4 8 (fl_payload f) \<bind> (\<lambda>c5.
     compute_internet_checksum c5 \<bind> (\<lambda>checksum.
     write_at c5 2 (u16_to_be checksum)))))))"

definition icmp_construct :: "(nat \<Rightarrow> u8) \<Rightarrow> NetPacket \<Rightarrow> (OutgoingFlowDirection \<times> NetPacket) option" where
  "icmp_construct junk p =
     (case pop_layer p of
        (Some (FIcmp f), p1) \<Rightarrow>
          icmp_write f (fresh_chunk junk (8 + length (fl_payload f))) \<bind> (\<lambda>c.
          insert_chunk_front c p1 \<bind> (\<lambda>p2.
          Some (LayerDown (Normal LIpv4),
                push_layer (FIpv4 \<lparr>fl_address = fl_icmp_address f, fl_protocol = 1, fl_diff_services = 0,
                  fl_ttl = 64, fl_fragment_info = \<lparr>identification = 0, frag_flags = 0, fragment_offset = 0\<rparr>\<rparr>) p2)))
      | (_, p1) \<Rightarrow> Some (OutDrop, p1))"

section \<open>UDP\<close>

definition parse_udp :: "NetPacket \<Rightarrow> nat \<Rightarrow> (UdpHeader option \<times> NetPacket) option" where
  "parse_udp p off =
     ensure_length (off + 8) p \<bind> (\<lambda>p1.
     first_chunk p1 \<bind> (\<lambda>data.
     read_u16 data off \<bind> (\<lambda>sp. read_u16 data (off + 2) \<bind> (\<lambda>dp.
     read_u16 data (off + 4) \<bind> (\<lambda>len. read_u16 data (off + 6) \<bind> (\<lambda>ck.
     Some (Some \<lparr>udp_offset = off, udp_ports = address_pair sp dp, udp_length = len, udp_checksum = ck\<rparr>,
           append_address (address_pair (UdpPortAddr sp) (UdpPortAddr dp)) p1)))))))"

definition udp_header_bytes :: "UdpFlowId \<Rightarrow> nat \<Rightarrow> u8 list" where
  "udp_header_bytes data len =
     u16_to_be (source_port data) @ u16_to_be (dest_port data) @ u16_to_be (word_of_nat len) @ u16_to_be 0"

definition udp_pseudo_header :: "Ipv4FlowId \<Rightarrow> nat \<Rightarrow> u8 list" where
  "udp_pseudo_header f len =
     ip_bytes (ap_source (fl_address f)) @ ip_bytes (ap_target (fl_address f)) @ [0, 17] @ u16_to_be (word_of_nat len)"

text \<open>\<open>8 + packet.len() as u16\<close> may overflow; the eight header bytes are all written, so the
  new chunk's former content does not matter.\<close>

definition udp_construct :: "NetPacket \<Rightarrow> (OutgoingFlowDirection \<times> NetPacket) option" where
  "udp_construct p =
     (case pop_layer p of
        (Some (FUdp data), p1) \<Rightarrow>
          if layers_to_construct p1 = [] then Some (OutDrop, p1)
          else checked_add 16 8 (pkt_length p1 mod 2 ^ 16) \<bind> (\<lambda>len.
               (case last (layers_to_construct p1) of
                  FIpv4 f \<Rightarrow>
                    compute_internet_checksum
                      (udp_pseudo_header f len @ udp_header_bytes data len @ concat (chunks p1)) \<bind> (\<lambda>checksum.
                    write_at (udp_header_bytes data len) 6 (u16_to_be checksum) \<bind> (\<lambda>c.
                    insert_chunk_front c p1 \<bind> (\<lambda>p2. Some (LayerDown (Normal LIpv4), p2))))
                | FIpv6 \<Rightarrow> None
                | _ \<Rightarrow> Some (OutDrop, p1)))
      | (_, p1) \<Rightarrow> Some (OutDrop, p1))"

section \<open>Layers\<close>

fun layer_incoming :: "routing_state \<Rightarrow> NetLayerData \<Rightarrow> IncomingFlowDirection" where
  "layer_incoming s (DEthernet h) = ethernet_incoming s h"
| "layer_incoming s (DArp h) = ToBridge"
| "layer_incoming s (DIpv4 h) = ipv4_incoming h"
| "layer_incoming s (DIcmp h) = InDrop"
| "layer_incoming s (DUdp h) = ToBridge"
| "layer_incoming s _ = InDrop"

fun layer_upper_offset :: "NetLayerData \<Rightarrow> nat" where
  "layer_upper_offset (DEthernet h) = eth_offset h + 14"
| "layer_upper_offset (DArp h) = arp_offset h + arp_size h"
| "layer_upper_offset (DIpv4 h) = ipv4_upper_layer_offset h"
| "layer_upper_offset (DIcmp h) = icmp_offset h + 8 + length (icmp_payload h)"
| "layer_upper_offset (DUdp h) = udp_offset h + 8"
| "layer_upper_offset _ = 0"

fun layer_bridge_to_out :: "NetLayerData \<Rightarrow> NetLayerFlowID list option" where
  "layer_bridge_to_out (DEthernet h) =
     Some [FEthernet (ethernet_flow_new (eth_source h) (eth_destination h) (upper_type h))]"
| "layer_bridge_to_out (DArp h) = Some [arp_bridge_to_out h]"
| "layer_bridge_to_out (DIpv4 h) = ipv4_bridge_to_out h \<bind> (\<lambda>f. Some [f])"
| "layer_bridge_to_out _ = Some []"

definition bridge_to_out_set_layers :: "NetPacket \<Rightarrow> NetPacket option" where
  "bridge_to_out_set_layers p =
     (if parsed_layers p = [] \<or> \<not> has_layer (last (parsed_layers p)) then Some p
      else layer_bridge_to_out (last (parsed_layers p)) \<bind> (\<lambda>fs.
           Some (p\<lparr>layers_to_construct := layers_to_construct p @ fs\<rparr>)))"

definition parse_layer ::
  "NetPacket \<Rightarrow> NetLayerType \<Rightarrow> nat \<Rightarrow> routing_state \<Rightarrow> (NetLayerData option \<times> NetPacket \<times> routing_state) option" where
  "parse_layer p ty off s =
     (case ty of
        LEthernet \<Rightarrow> parse_ethernet_frame p s \<bind> (\<lambda>(h, p', s'). Some (map_option DEthernet h, p', s'))
      | LArp \<Rightarrow> parse_arp p off \<bind> (\<lambda>(h, p'). Some (map_option DArp h, p', s))
      | LIpv4 \<Rightarrow> parse_ipv4_packet p off s \<bind> (\<lambda>(h, p'). Some (map_option DIpv4 h, p', s))
      | LIcmp \<Rightarrow> parse_icmp p off \<bind> (\<lambda>(h, p'). Some (map_option DIcmp h, p', s))
      | LUdp \<Rightarrow> parse_udp p off \<bind> (\<lambda>(h, p'). Some (map_option DUdp h, p', s))
      | LUnknown \<Rightarrow> Some (Some (DUnknown off), p, s)
      | LNone \<Rightarrow> Some (Some DNone, p, s)
      | _ \<Rightarrow> Some (None, p, s))"

end
