(* ===== verification/NetRoundtrip.thy ===== *)
theory NetRoundtrip
  imports NetProtocols
begin

text \<open>
  What is written into a header is read back from it: round trips of the Ethernet, ARP, IPv4 and
  UDP codecs, whatever the allocated memory contained before, and the cases in which a parser
  panics on what it receives.
\<close>

section \<open>Reading behind a prefix\<close>

lemma index_at_prefix [simp]: "index_at (pre @ xs) (length pre + i) = index_at xs i"
  by (simp add: index_at_def nth_append)

lemma slice_range_prefix [simp]:
  "slice_range (pre @ xs) (length pre + i) (length pre + j) = slice_range xs i j"
  by (simp add: slice_range_def)

lemma read_u16_prefix [simp]: "read_u16 (pre @ xs) (length pre + i) = read_u16 xs i"
  by (simp only: read_u16_def add.assoc index_at_prefix)

lemmas read_prefix_0 = index_at_prefix [of _ _ 0, simplified] read_u16_prefix [of _ _ 0, simplified]

lemma fresh_chunk_numeral: "fresh_chunk junk n = map junk [0..<n]"
  by (simp add: fresh_chunk_def)

lemma one_chunk:
  assumes "chunks p = [c]"
  shows "ensure_length k p = Some p" and "first_chunk p = Some c"
  using assms by (simp_all add: ensure_length_def linearize_def first_chunk_def index_at_def)

section \<open>ARP\<close>

definition arp_bytes :: "u16 \<Rightarrow> MacAddress \<Rightarrow> Ipv4Address \<Rightarrow> MacAddress \<Rightarrow> Ipv4Address \<Rightarrow> u8 list" where
  "arp_bytes oper sm si tm ti =
     [0, 1, 8, 0, 6, 4] @ u16_to_be oper @ mac_bytes sm @ ip_bytes si @ mac_bytes tm @ ip_bytes ti"

lemma arp_write_bytes:
  "arp_write \<lparr>arp_operation = oper, arp_protocol = address_pair (Ipv4Proto si) (Ipv4Proto ti),
     arp_hardware = address_pair (EthernetHw sm) (EthernetHw tm)\<rparr> 0 (fresh_chunk junk 28) =
   Some (arp_bytes oper sm si tm ti)"
proof -
  obtain a1 a2 a3 a4 a5 a6 where sm: "sm = MacAddress a1 a2 a3 a4 a5 a6" by (cases sm)
  obtain b1 b2 b3 b4 b5 b6 where tm: "tm = MacAddress b1 b2 b3 b4 b5 b6" by (cases tm)
  obtain c1 c2 c3 c4 where si: "si = Ipv4Address c1 c2 c3 c4" by (cases si)
  obtain d1 d2 d3 d4 where ti: "ti = Ipv4Address d1 d2 d3 d4" by (cases ti)
  have one: "u16_to_be 1 = [0, 1]" by code_simp
  have ty: "u16_to_be 0x0800 = [8, 0]" by code_simp
  have op: "u16_to_be oper = [ucast (drop_bit 8 oper), ucast oper]" by (simp add: u16_to_be_def)
  show ?thesis
    by (simp add: arp_write_def arp_bytes_def address_pair_def Let_def fresh_chunk_def write_at_def
        sm tm si ti one ty op upt_rec)
qed

lemma slice_range_append_left:
  "j \<le> length xs \<Longrightarrow> slice_range (xs @ pad) i j = slice_range xs i j"
  by (simp add: slice_range_def)

lemma index_at_append_left: "i < length xs \<Longrightarrow> index_at (xs @ pad) i = index_at xs i"
  by (simp add: index_at_def nth_append)

lemma read_u16_append_left: "i + 1 < length xs \<Longrightarrow> read_u16 (xs @ pad) i = read_u16 xs i"
  by (simp add: read_u16_def index_at_append_left)

lemma length_mac_bytes [simp]: "length (mac_bytes m) = 6"
  by (cases m) simp

lemma length_ip_bytes [simp]: "length (ip_bytes a) = 4"
  by (cases a) simp

lemma length_arp_bytes [simp]: "length (arp_bytes oper sm si tm ti) = 28"
  by (simp add: arp_bytes_def)

lemma u16_be_constants: "u16_from_be 0 1 = 1" "u16_from_be 8 0 = 0x0800"
  by code_simp+

lemma arp_fields:
  "read_u16 (arp_bytes oper sm si tm ti) 0 = Some 1" "read_u16 (arp_bytes oper sm si tm ti) 2 = Some 0x0800"
  "index_at (arp_bytes oper sm si tm ti) 4 = Some 6" "index_at (arp_bytes oper sm si tm ti) 5 = Some 4"
  "read_u16 (arp_bytes oper sm si tm ti) 6 = Some oper"
  "slice_range (arp_bytes oper sm si tm ti) 8 14 = Some (mac_bytes sm)"
  "slice_range (arp_bytes oper sm si tm ti) 14 18 = Some (ip_bytes si)"
  "slice_range (arp_bytes oper sm si tm ti) 18 24 = Some (mac_bytes tm)"
  "drop 24 (arp_bytes oper sm si tm ti) = ip_bytes ti"
  using u16_be_constants
  by (simp_all add: arp_bytes_def read_u16_def index_at_def slice_range_def u16_to_be_def)

lemma mac_ip_of_bytes [simp]: "mac_of_bytes (mac_bytes m) = Some m" "ip_of_bytes (ip_bytes a) = Some a"
  by (cases m; cases a; simp)+

lemma slice_self: "length xs = n \<Longrightarrow> slice_range xs 0 n = Some xs"
  by (auto simp: slice_range_def)

lemma parse_arp_bytes:
  "parse_arp_data (pre @ arp_bytes oper sm si tm ti @ pad) (length pre) =
     (if length pad < 2 then None
      else Some (Some \<lparr>arp_offset = length pre,
             arp_flow_id = \<lparr>arp_operation = oper, arp_protocol = address_pair (Ipv4Proto si) (Ipv4Proto ti),
               arp_hardware = address_pair (EthernetHw sm) (EthernetHw tm)\<rparr>, arp_size = 28\<rparr>))"
proof -
  let ?c = "arp_bytes oper sm si tm ti"
  have last': "slice_range (?c @ pad) 24 30 = (if length pad < 2 then None else Some (ip_bytes ti @ take 2 pad))"
    using arp_fields(9) [of oper sm si tm ti] by (auto simp: slice_range_def)
  have pr: "slice_range (ip_bytes ti @ take 2 pad) 0 4 = Some (ip_bytes ti)"
    by (simp add: slice_range_def)
  show ?thesis
    by (simp add: parse_arp_data_def Let_def add.assoc read_prefix_0 index_at_append_left read_u16_append_left
        slice_range_append_left or_return_def hardware_from_bytes_def protocol_from_bytes_def slice_self
        arp_fields(1-8) last' pr del: index_at_Some add_2_eq_Suc add_2_eq_Suc')
qed

section \<open>IPv4\<close>

definition ip_head :: "Ipv4FlowId \<Rightarrow> nat \<Rightarrow> u8 list" where
  "ip_head data n =
     [0x45, push_bit 2 (fl_diff_services data)] @ u16_to_be (word_of_nat (n + 20)) @
     u16_to_be (identification (fl_fragment_info data)) @
     u16_to_be (push_bit 13 (ucast (frag_flags (fl_fragment_info data))) OR
                ucast (fragment_offset (fl_fragment_info data))) @ [fl_ttl data, fl_protocol data]"

definition ip_tail :: "Ipv4FlowId \<Rightarrow> u8 list" where
  "ip_tail data = ip_bytes (ap_source (fl_address data)) @ ip_bytes (ap_target (fl_address data))"

lemma ip_head_tail_length [simp]: "length (ip_head data n) = 10" "length (ip_tail data) = 8"
  by (simp_all add: ip_head_def ip_tail_def)

lemma ipv4_write_bytes:
  "\<exists>c. ipv4_write data 0 n (fresh_chunk junk 20) = Some (ip_head data n @ u16_to_be c @ ip_tail data) \<and>
     compute_internet_checksum (ip_head data n @ u16_to_be c @ ip_tail data) = Some 0"
proof -
  have "even (length (ip_head data n))" "even (length (ip_tail data))" "length (ip_head data n) + length (ip_tail data) + 2 \<le> 131072"
    by simp_all
  from checksum_fill [OF this] obtain c where
    c: "compute_internet_checksum (ip_head data n @ [0, 0] @ ip_tail data) = Some c"
       "compute_internet_checksum (ip_head data n @ u16_to_be c @ ip_tail data) = Some 0" by blast
  obtain a1 a2 a3 a4 where src: "ap_source (fl_address data) = Ipv4Address a1 a2 a3 a4"
    by (cases "ap_source (fl_address data)")
  obtain b1 b2 b3 b4 where dst: "ap_target (fl_address data) = Ipv4Address b1 b2 b3 b4"
    by (cases "ap_target (fl_address data)")
  have z: "u16_to_be 0 = [0, 0]" by code_simp
  have c1: "compute_internet_checksum (ip_head data n @ 0 # 0 # ip_tail data) = Some c" using c(1) by simp
  have "ipv4_write data 0 n (fresh_chunk junk 20) = Some (ip_head data n @ u16_to_be c @ ip_tail data)"
    using c1 by (simp add: ipv4_write_def Let_def fresh_chunk_def write_at_def slice_range_def src dst z u16_to_be_def
        ip_head_def ip_tail_def upt_rec)
  with c(2) show ?thesis by blast
qed

lemma bit_u8_bound: "take_bit k (f :: u8) = f \<Longrightarrow> bit f n \<Longrightarrow> n < k"
  by (metis bit_take_bit_iff)

lemma flags_roundtrip:
  fixes f :: u8 and fo :: u32
  assumes "take_bit 3 f = f" and "take_bit 13 fo = fo"
  defines "x \<equiv> (push_bit 13 (ucast f) OR ucast fo :: u16)"
  shows "drop_bit 5 (ucast (drop_bit 8 x) AND 0xE0) = f" and "ucast (x AND 0x1FFF) = fo"
proof -
  have E0: "(0xE0 :: u8) = push_bit 5 (mask 3)" by code_simp
  have m: "(0x1FFF :: u16) = mask 13" by code_simp
  have bf: "bit f n \<longleftrightarrow> n < 3 \<and> bit f n" for n using assms(1) by (metis bit_take_bit_iff)
  have bo: "bit fo n \<longleftrightarrow> n < 13 \<and> bit fo n" for n using assms(2) by (metis bit_take_bit_iff)
  show "drop_bit 5 (ucast (drop_bit 8 x) AND 0xE0) = f"
    unfolding E0
  proof (rule bit_word_eqI)
    fix n assume "n < LENGTH(8)"
    then show "bit (drop_bit 5 (ucast (drop_bit 8 x) AND push_bit 5 (mask 3)) :: u8) n = bit f n"
      using bf [of n] bo [of "13 + n"] by (auto simp: x_def bit_simps)
  qed
  show "ucast (x AND 0x1FFF) = fo"
    unfolding m
  proof (rule bit_word_eqI)
    fix n assume "n < LENGTH(32)"
    then show "bit (ucast (x AND mask 13) :: u32) n = bit fo n"
      using bo [of n] by (auto simp: x_def bit_simps)
  qed
qed

lemma ip_fields:
  assumes "take_bit 6 (fl_diff_services data) = fl_diff_services data"
    and "take_bit 3 (frag_flags (fl_fragment_info data)) = frag_flags (fl_fragment_info data)"
    and "take_bit 13 (fragment_offset (fl_fragment_info data)) = fragment_offset (fl_fragment_info data)"
  shows "parse_ipv4_fields nets off 0x45 (ip_head data n @ u16_to_be c @ ip_tail data @ rest) =
     Some \<lparr>ip_offset = off, ihl = 5, ip_diff_services = fl_diff_services data,
           ip_total_length = word_of_nat (n + 20), ip_fragment_info = fl_fragment_info data,
           ip_ttl = fl_ttl data, ip_protocol = fl_protocol data, header_checksum = c,
           ip_address = fl_address data, in_interface_networks = sort_networks nets, checksum_checked = False\<rparr>"
proof -
  obtain a1 a2 a3 a4 where src: "ap_source (fl_address data) = Ipv4Address a1 a2 a3 a4"
    by (cases "ap_source (fl_address data)")
  obtain b1 b2 b3 b4 where dst: "ap_target (fl_address data) = Ipv4Address b1 b2 b3 b4"
    by (cases "ap_target (fl_address data)")
  have ds: "drop_bit 2 (push_bit 2 (fl_diff_services data)) = fl_diff_services data"
  proof (rule bit_word_eqI)
    fix i assume "i < LENGTH(8)"
    moreover have "bit (fl_diff_services data) i \<Longrightarrow> i < 6" using assms(1) by (metis bit_take_bit_iff)
    ultimately show "bit (drop_bit 2 (push_bit 2 (fl_diff_services data))) i = bit (fl_diff_services data) i"
      by (auto simp: bit_simps)
  qed
  have ihl: "(0x45 :: u8) AND 0x0F = 5" by code_simp
  define x where "x = (push_bit 13 (ucast (frag_flags (fl_fragment_info data))) OR
                ucast (fragment_offset (fl_fragment_info data)) :: u16)"
  note fl = flags_roundtrip [OF assms(2,3), folded x_def]
  have hdr: "ip_head data n @ u16_to_be c @ ip_tail data @ rest =
      [0x45, push_bit 2 (fl_diff_services data),
       ucast (drop_bit 8 (word_of_nat (n + 20) :: u16)), ucast (word_of_nat (n + 20) :: u16),
       ucast (drop_bit 8 (identification (fl_fragment_info data))), ucast (identification (fl_fragment_info data)),
       ucast (drop_bit 8 x), ucast x, fl_ttl data, fl_protocol data, ucast (drop_bit 8 c), ucast c, a1, a2, a3, a4, b1, b2, b3, b4] @ rest"
    by (simp only: ip_head_def ip_tail_def u16_to_be_def src dst ip_bytes.simps append.simps x_def)
  show ?thesis
    unfolding hdr
    using fl src dst
    by (cases "fl_address data"; cases "fl_fragment_info data")
       (simp add: parse_ipv4_fields_def read_u16_def index_at_def slice_range_def ds ihl address_pair_def
        del: index_at_Some)
qed

section \<open>Properties\<close>

text \<open>C37: An ARP message written for Ethernet and IPv4 addresses, at any offset behind other bytes, is
  parsed back to exactly its fields when at least two more bytes follow; without them, as in an
  unpadded frame, the parser panics, because it cuts the last protocol address with the hardware
  size.\<close>

theorem arp_roundtrip:
  "\<exists>c. arp_write \<lparr>arp_operation = oper, arp_protocol = address_pair (Ipv4Proto si) (Ipv4Proto ti),
            arp_hardware = address_pair (EthernetHw sm) (EthernetHw tm)\<rparr> 0 (fresh_chunk junk 28) = Some c \<and>
     parse_arp_data (pre @ c @ pad) (length pre) =
       (if length pad < 2 then None
        else Some (Some \<lparr>arp_offset = length pre,
               arp_flow_id = \<lparr>arp_operation = oper, arp_protocol = address_pair (Ipv4Proto si) (Ipv4Proto ti),
                 arp_hardware = address_pair (EthernetHw sm) (EthernetHw tm)\<rparr>, arp_size = 28\<rparr>))"
  using arp_write_bytes parse_arp_bytes by blast

text \<open>C23: A 20-byte IPv4 header written for an identifier whose fields fit their bit widths and a payload
  of at most 65515 bytes carries a valid checksum and, in a packet of one chunk, is parsed back to
  exactly these fields, with the payload's length as the size of the upper layer.\<close>

theorem ipv4_roundtrip:
  assumes ds: "take_bit 6 (fl_diff_services data) = fl_diff_services data"
    and flags: "take_bit 3 (frag_flags (fl_fragment_info data)) = frag_flags (fl_fragment_info data)"
    and frag: "take_bit 13 (fragment_offset (fl_fragment_info data)) = fragment_offset (fl_fragment_info data)"
    and n: "n + 20 < 65536"
  shows "\<exists>c ck. ipv4_write data 0 n (fresh_chunk junk 20) = Some c \<and>
     (\<forall>p. packet_new [pre @ c @ payload] src = Some p \<longrightarrow>
       parse_ipv4_packet p (length pre) s =
         Some (Some \<lparr>ip_offset = length pre, ihl = 5, ip_diff_services = fl_diff_services data,
           ip_total_length = word_of_nat (n + 20), ip_fragment_info = fl_fragment_info data,
           ip_ttl = fl_ttl data, ip_protocol = fl_protocol data, header_checksum = ck,
           ip_address = fl_address data, in_interface_networks = sort_networks (interface_networks src s),
           checksum_checked = False\<rparr>,
         append_address (address_pair (Ipv4Addr (ap_source (fl_address data))) (Ipv4Addr (ap_target (fl_address data))))
           (p\<lparr>upper_layer_size := Some n\<rparr>)))"
proof -
  obtain ck where w: "ipv4_write data 0 n (fresh_chunk junk 20) = Some (ip_head data n @ u16_to_be ck @ ip_tail data)"
    and ck: "compute_internet_checksum (ip_head data n @ u16_to_be ck @ ip_tail data) = Some 0"
    using ipv4_write_bytes by blast
  let ?c = "ip_head data n @ u16_to_be ck @ ip_tail data"
  let ?h = "\<lparr>ip_offset = length pre, ihl = 5, ip_diff_services = fl_diff_services data,
           ip_total_length = word_of_nat (n + 20), ip_fragment_info = fl_fragment_info data,
           ip_ttl = fl_ttl data, ip_protocol = fl_protocol data, header_checksum = ck,
           ip_address = fl_address data, in_interface_networks = sort_networks (interface_networks src s),
           checksum_checked = False\<rparr>"
  have "parse_ipv4_packet p (length pre) s = Some (Some ?h,
      append_address (address_pair (Ipv4Addr (ap_source (fl_address data))) (Ipv4Addr (ap_target (fl_address data))))
        (p\<lparr>upper_layer_size := Some n\<rparr>))" if p: "packet_new [pre @ ?c @ payload] src = Some p" for p
  proof -
    have one: "chunks p = [pre @ ?c @ payload]" "source p = src" "pkt_length p = length pre + 20 + length payload"
      using p by (auto simp: packet_new_def bind_eq_Some_conv)
    have b0: "index_at (pre @ ?c @ payload) (length pre) = Some 0x45"
      by (simp add: read_prefix_0) (simp add: ip_head_def)
    have k: "drop_bit 4 (0x45 :: u8) = 4" "unat ((0x45 :: u8) AND 0x0F) * 4 = 20" by code_simp+
    have s1: "slice_range (pre @ ?c @ payload) (length pre) (length pre + 20) = Some ?c"
      by (simp add: slice_range_def)
    have s2: "slice_range (pre @ ?c @ payload) (length pre) (length (pre @ ?c @ payload)) =
        Some (ip_head data n @ u16_to_be ck @ ip_tail data @ payload)"
      by (simp add: slice_range_def)
    have "unat (word_of_nat m :: u16) = m" if "m < 65536" for m
      using that by (simp add: unat_of_nat take_bit_nat_eq_self)
    from this [OF n] have len: "unat (word_of_nat n + 20 :: u16) = n + 20" by simp
    show ?thesis
      unfolding parse_ipv4_packet_def Let_def
      using ip_fields [OF ds flags frag, of "interface_networks src s" "length pre" n ck payload]
      by (simp add: one_chunk [OF one(1)] b0 [unfolded append_assoc] s1 [unfolded append_assoc] ck k len one
          s2 [unfolded append_assoc one] slice_range_def checked_sub_def del: index_at_Some)
  qed
  with w show ?thesis by blast
qed

definition sample_flow :: Ipv4FlowId where
  "sample_flow = \<lparr>fl_address = address_pair (Ipv4Address 10 0 0 1) (Ipv4Address 10 0 0 2), fl_protocol = 17,
     fl_diff_services = 46, fl_ttl = 64,
     fl_fragment_info = \<lparr>identification = 7, frag_flags = 2, fragment_offset = 185\<rparr>\<rparr>"

theorem ipv4_roundtrip_witness:
  "\<exists>c ck p. ipv4_write sample_flow 0 4 (fresh_chunk (\<lambda>_. 0xAA) 20) = Some c \<and>
     packet_new [[1, 2] @ c @ [1, 2, 3, 4]] OtherSource = Some p \<and>
     map_option (map_option ip_fragment_info \<circ> fst) (parse_ipv4_packet p 2 empty_routing) =
       Some (Some \<lparr>identification = 7, frag_flags = 2, fragment_offset = 185\<rparr>)"
proof -
  have h: "take_bit 6 (fl_diff_services sample_flow) = fl_diff_services sample_flow"
    "take_bit 3 (frag_flags (fl_fragment_info sample_flow)) = frag_flags (fl_fragment_info sample_flow)"
    "take_bit 13 (fragment_offset (fl_fragment_info sample_flow)) = fragment_offset (fl_fragment_info sample_flow)"
    by code_simp+
  obtain c ck where w: "ipv4_write sample_flow 0 4 (fresh_chunk (\<lambda>_. 0xAA) 20) = Some c"
    and r: "\<And>p. packet_new [[1, 2] @ c @ [1, 2, 3, 4]] OtherSource = Some p \<Longrightarrow>
       map_option (map_option ip_fragment_info \<circ> fst) (parse_ipv4_packet p 2 empty_routing) =
       Some (Some \<lparr>identification = 7, frag_flags = 2, fragment_offset = 185\<rparr>)"
    using ipv4_roundtrip [OF h, of 4 "\<lambda>_. 0xAA" "[1, 2]" "[1, 2, 3, 4]" OtherSource empty_routing]
    by (auto simp: sample_flow_def numeral_2_eq_2)
  have "\<exists>p. packet_new [[1, 2] @ c @ [1, 2, 3, 4]] OtherSource = Some p"
    using w ipv4_write_bytes [of sample_flow 4 "\<lambda>_. 0xAA"]
    by (auto simp: packet_new_def checked_add_def)
  with w r show ?thesis by blast
qed

text \<open>The length check of the IPv4 parser forgets the offset of the header: a packet of one chunk that
  is at least as long as the header it announces but ends before the header does makes the kernel
  panic, where a packet with fewer bytes than the header is dropped.\<close>

theorem ipv4_truncated_panics:
  assumes "packet_new [data] src = Some p" and "off < length data"
    and "drop_bit 4 (data ! off) = 4" and "length data < off + unat (data ! off AND 0x0F) * 4"
  shows "parse_ipv4_packet p off s =
     (if length data < unat (data ! off AND 0x0F) * 4 then Some (None, p) else None)"
proof -
  have one: "chunks p = [data]" "pkt_length p = length data"
    using assms(1) by (auto simp: packet_new_def bind_eq_Some_conv)
  show ?thesis
    using assms(2-4)
    by (simp add: parse_ipv4_packet_def Let_def one_chunk [OF one(1)] one index_at_def slice_range_def del: index_at_Some)
qed

end
