(* ===== verification/NetFlow.thy ===== *)
theory NetFlow
  imports NetProtocols
begin

text \<open>
  Hooks, sockets and the flow of a packet through the layers (\<open>net/hook.rs\<close>, \<open>net/flow.rs\<close>,
  \<open>net/socket.rs\<close>, \<open>net/mod.rs\<close> and the hooks of the protocols). The hash of a list of addresses,
  keyed at random at boot, is an argument \<open>hash\<close>; the content of newly allocated memory is the
  argument \<open>junk\<close>. A loop that does not end and a panic are both \<open>None\<close>.
\<close>

section \<open>The net queue\<close>

definition max_packets :: nat where
  "max_packets = 512"

definition add_net_packet_to_queue :: "PacketInRouting \<Rightarrow> net_state \<Rightarrow> net_state option" where
  "add_net_packet_to_queue p s =
     (if \<not> net_initialized s then Some s
      else if max_packets \<le> length (net_queue s) then None
      else Some (s\<lparr>net_queue := net_queue s @ [p]\<rparr>))"

definition append_net_queue :: "PacketInRouting list \<Rightarrow> net_state \<Rightarrow> net_state option" where
  "append_net_queue other s =
     (if \<not> net_initialized s \<or> other = [] then Some s
      else if max_packets < length (net_queue s) + length other then None
      else Some (s\<lparr>net_queue := net_queue s @ other\<rparr>))"

primrec append_raw_net_queue ::
  "chunk list list \<Rightarrow> nat \<Rightarrow> RoutingStep \<Rightarrow> NetLayerType \<Rightarrow> net_state \<Rightarrow> net_state option" where
  "append_raw_net_queue [] nic_id step layer s = Some s"
| "append_raw_net_queue (c # other) nic_id step layer s =
     (if \<not> net_initialized s then Some s
      else packet_new c (Nic nic_id) \<bind> (\<lambda>p.
           add_net_packet_to_queue \<lparr>pir_data = p, routing_step = step, pir_layer = layer\<rparr> s \<bind>
           append_raw_net_queue other nic_id step layer))"

section \<open>ICMP errors\<close>

definition icmp_error_codes :: "u8 list" where
  "icmp_error_codes = [3, 4, 5, 11, 12]"

text \<open>\<open>(layer as &dyn Any).downcast_ref::<Ipv4Header>()\<close> on a reference to a \<open>NetLayerData\<close>: the
  dynamic type is \<open>NetLayerData\<close> and never \<open>Ipv4Header\<close>.\<close>

definition downcast_layer_data :: "NetLayerData \<Rightarrow> Ipv4Header option" where
  "downcast_layer_data l = None"

definition icmp_request :: "IcmpFlowId \<Rightarrow> NetPacketSource \<Rightarrow> PacketInRouting option" where
  "icmp_request f src =
     packet_new [] src \<bind> (\<lambda>p.
     Some \<lparr>pir_data = p\<lparr>layers_to_construct := [FIcmp f]\<rparr>, routing_step = Outgoing, pir_layer = LIcmp\<rparr>)"

definition send_icmp_error :: "NetPacket \<Rightarrow> u8 \<Rightarrow> u8 \<Rightarrow> u32 \<Rightarrow> net_state \<Rightarrow> (NetPacket \<times> net_state) option" where
  "send_icmp_error p ty code data s =
     (case find_map downcast_layer_data (rev (parsed_layers p)) of
        None \<Rightarrow> Some (p, s)
      | Some h \<Rightarrow>
          (let destination = ap_source (ip_address h);
               header_end = ip_offset h + unat (ihl h) * 4;
               is_broadcast_net = list_ex (\<lambda>n. broadcast_for n destination) (in_interface_networks h)
           in (if ipv4_upper_layer_type h = LIcmp
               then first_chunk p \<bind> (\<lambda>c. index_at c header_end \<bind> (\<lambda>b. Some (b \<in> set icmp_error_codes)))
               else Some False) \<bind> (\<lambda>is_icmp_error.
              if is_broadcast_net \<or> is_multicast destination \<or> is_icmp_error then Some (p, s)
              else case get_ipv4_route destination (rt s) of
                     None \<Rightarrow> Some (p, s)
                   | Some route \<Rightarrow>
                       ensure_length (header_end + 8) p \<bind> (\<lambda>p1.
                       first_chunk p1 \<bind> (\<lambda>c.
                       if length c < header_end + 8 then Some (p1, s)
                       else slice_range c (ip_offset h) (header_end + 8) \<bind> (\<lambda>payload.
                            icmp_request \<lparr>fl_icmp_type = ty, fl_code = code,
                              fl_icmp_address = address_pair (local_interface_ip route) destination,
                              fl_data = data, fl_payload = payload\<rparr> (other_packet p1) \<bind> (\<lambda>r.
                            add_net_packet_to_queue r s \<bind> (\<lambda>s'. Some (p1, s')))))))))"

text \<open>\<open>construct_layer\<close> of IPv4 with its handling of errors.\<close>

definition ipv4_construct ::
  "(nat \<Rightarrow> u8) \<Rightarrow> NetPacket \<Rightarrow> net_state \<Rightarrow> (OutgoingFlowDirection \<times> NetPacket \<times> net_state) option" where
  "ipv4_construct junk p s =
     ipv4_construct_internal junk p (rt s) \<bind> (\<lambda>(res, p1).
     case res of
       Inr d \<Rightarrow> Some (d, p1, s)
     | Inl OtherNonFatal \<Rightarrow> Some (OutDrop, p1, s)
     | Inl OtherFatal \<Rightarrow> None
     | Inl e \<Rightarrow>
         (case source p1 of
            Nic _ \<Rightarrow> None
          | Proc _ \<Rightarrow> None
          | OtherPacket core src \<Rightarrow>
              send_icmp_error (pkt_core.extend core \<lparr>source = src\<rparr>) 3 (if e = HostUnreachable then 1 else 0) 0 s \<bind>
              (\<lambda>(og, s'). Some (OutDrop, p1\<lparr>source := other_packet og\<rparr>, s'))
          | OtherSource \<Rightarrow> Some (OutDrop, p1, s)))"

definition construct_layer ::
  "(nat \<Rightarrow> u8) \<Rightarrow> NetPacket \<Rightarrow> NetLayerType \<Rightarrow> net_state \<Rightarrow> (OutgoingFlowDirection \<times> NetPacket \<times> net_state) option" where
  "construct_layer junk p ty s =
     (case ty of
        LEthernet \<Rightarrow> ethernet_construct junk p (rt s) \<bind> (\<lambda>(d, p', r). Some (d, p', s\<lparr>rt := r\<rparr>))
      | LArp \<Rightarrow> arp_construct junk p \<bind> (\<lambda>(d, p'). Some (d, p', s))
      | LIpv4 \<Rightarrow> ipv4_construct junk p s
      | LIcmp \<Rightarrow> icmp_construct junk p \<bind> (\<lambda>(d, p'). Some (d, p', s))
      | LUdp \<Rightarrow> udp_construct p \<bind> (\<lambda>(d, p'). Some (d, p', s))
      | _ \<Rightarrow> None)"

section \<open>The protocols' hooks\<close>

datatype HookResult = HookNothing | LayerModified | HookDrop

datatype HookFilter = HookContinue | FilterDrop

definition process_arp :: "NetPacket \<Rightarrow> net_state \<Rightarrow> (HookResult \<times> NetPacket \<times> net_state) option" where
  "process_arp p s =
     (case source p of
        Nic in_nic \<Rightarrow>
          get_highest_layer p \<bind> (\<lambda>layer.
          case layer of
            Some (DArp h) \<Rightarrow>
              (case get_nic_addresses_from_id in_nic (rt s) of
                 None \<Rightarrow> Some (HookDrop, p, s)
               | Some addrs \<Rightarrow>
                   (case find_map into_hardware addrs of
                      None \<Rightarrow> Some (HookDrop, p, s)
                    | Some self_hw \<Rightarrow>
                        (let f = arp_flow_id h;
                             r1 = update_arp_entry (ap_source (arp_hardware f)) self_hw (ap_source (arp_protocol f)) (rt s)
                         in if arp_operation f = 2
                            then Some (HookDrop, p, s\<lparr>rt := update_arp_entry (ap_target (arp_hardware f)) self_hw
                                                              (ap_target (arp_protocol f)) r1\<rparr>)
                            else if \<not> list_ex (\<lambda>a. into_protocol a = Some (ap_target (arp_protocol f))) addrs
                            then Some (HookDrop, p, s\<lparr>rt := r1\<rparr>)
                            else (let hw = (arp_hardware f)\<lparr>ap_target := self_hw\<rparr>;
                                      h' = h\<lparr>arp_flow_id := f\<lparr>arp_hardware := hw\<rparr>\<rparr>
                                  in Some (HookNothing,
                                           p\<lparr>parsed_layers := butlast (parsed_layers p) @ [DArp h']\<rparr>,
                                           s\<lparr>rt := r1\<rparr>)))))
          | _ \<Rightarrow> Some (HookDrop, p, s))
      | _ \<Rightarrow> Some (HookDrop, p, s))"

primrec bridge_copies ::
  "EthernetHeader \<Rightarrow> MacAddress \<Rightarrow> NetPacket \<Rightarrow> net_state \<Rightarrow> MacAddress list \<Rightarrow> PacketInRouting list option" where
  "bridge_copies h mac p s [] = Some []"
| "bridge_copies h mac p s (out_mac # out_macs) =
     (if out_mac = mac then bridge_copies h mac p s out_macs
      else case get_nic_of_own_address (MacAddr out_mac) (rt s) of
             None \<Rightarrow> bridge_copies h mac p s out_macs
           | Some (_, ty) \<Rightarrow>
               nuke_lower_layers (eth_offset h + 14) p \<bind> (\<lambda>(_, p1).
               panic_unless (ty = EthernetNic) \<bind> (\<lambda>_.
               bridge_copies h mac p s out_macs \<bind> (\<lambda>rest.
               Some (\<lparr>pir_data = p1\<lparr>layers_to_construct :=
                        [FEthernet \<lparr>mac_addr = address_pair (eth_source h) out_mac,
                                    ether_type = upper_type h, out_interface = Some out_mac\<rparr>]\<rparr>,
                      routing_step = Outgoing, pir_layer = LEthernet\<rparr> # rest)))))"

definition ethernet_bridge_hook :: "NetPacket \<Rightarrow> net_state \<Rightarrow> (HookResult \<times> NetPacket \<times> net_state) option" where
  "ethernet_bridge_hook p s =
     get_highest_layer p \<bind> (\<lambda>layer.
     case (layer, source p) of
       (Some (DEthernet h), Nic in_nic) \<Rightarrow>
         (case get_mac_of_own_nic in_nic (rt s) of
            None \<Rightarrow> Some (HookDrop, p, s)
          | Some mac \<Rightarrow>
              bridge_copies h mac p s (get_mac_bridges mac (rt s)) \<bind> (\<lambda>out_queue.
              append_net_queue out_queue s \<bind> (\<lambda>s'. Some (HookDrop, p, s'))))
     | _ \<Rightarrow> Some (HookDrop, p, s))"

definition ipv4_bridge_hook :: "NetPacket \<Rightarrow> net_state \<Rightarrow> (HookResult \<times> NetPacket \<times> net_state) option" where
  "ipv4_bridge_hook p s =
     get_highest_layer p \<bind> (\<lambda>layer.
     case layer of
       Some (DIpv4 h) \<Rightarrow>
         if ip_ttl h = 1 then send_icmp_error p 11 0 0 s \<bind> (\<lambda>(p', s'). Some (HookDrop, p', s'))
         else Some (HookNothing, p, s)
     | _ \<Rightarrow> Some (HookDrop, p, s))"

definition icmp_in_hook :: "NetPacket \<Rightarrow> net_state \<Rightarrow> (HookResult \<times> NetPacket \<times> net_state) option" where
  "icmp_in_hook p s =
     get_highest_layer p \<bind> (\<lambda>layer.
     case layer of
       Some (DIcmp h) \<Rightarrow>
         get_layer p 1 \<bind> (\<lambda>lower.
         case lower of
           Some (DIpv4 ip) \<Rightarrow>
             if icmp_type h = 8
             then icmp_request \<lparr>fl_icmp_type = 0, fl_code = 0, fl_icmp_address = ap_reverse (ip_address ip),
                    fl_data = icmp_data h, fl_payload = icmp_payload h\<rparr> (other_packet p) \<bind> (\<lambda>r.
                  add_net_packet_to_queue r s \<bind> (\<lambda>s'. Some (HookDrop, p, s')))
             else Some (HookDrop, p, s)
         | _ \<Rightarrow> Some (HookDrop, p, s))
     | _ \<Rightarrow> Some (HookDrop, p, s))"

definition udp_bridge_hook :: "NetPacket \<Rightarrow> net_state \<Rightarrow> (HookResult \<times> NetPacket \<times> net_state) option" where
  "udp_bridge_hook p s = Some (HookDrop, p, s)"

section \<open>The hook storage\<close>

text \<open>The functions that the kernel registers as hooks.\<close>

datatype NetHookFunction = ProcessArp | EthernetBridge | Ipv4Bridge | IcmpIn | UdpBridge

fun run_hook :: "NetHookFunction \<Rightarrow> NetPacket \<Rightarrow> net_state \<Rightarrow> (HookResult \<times> NetPacket \<times> net_state) option" where
  "run_hook ProcessArp = process_arp"
| "run_hook EthernetBridge = ethernet_bridge_hook"
| "run_hook Ipv4Bridge = ipv4_bridge_hook"
| "run_hook IcmpIn = icmp_in_hook"
| "run_hook UdpBridge = udp_bridge_hook"

datatype HookStage = BadPacket | Inbound NetLayerType | OnBridge NetLayerType | Outbound NetLayerType

record HookStorage =
  hook_index_counter :: nat
  hook_registrations :: "HookStage \<rightharpoonup> nat list"
  hooks :: "nat \<rightharpoonup> NetHookFunction"

definition hook_storage_new :: HookStorage where
  "hook_storage_new = \<lparr>hook_index_counter = 0, hook_registrations = Map.empty, hooks = Map.empty\<rparr>"

definition register_hook :: "NetHookFunction \<Rightarrow> HookStage \<Rightarrow> HookStorage \<Rightarrow> nat \<times> HookStorage" where
  "register_hook handler stage st =
     (let i = hook_index_counter st;
          regs = (case hook_registrations st stage of Some v \<Rightarrow> v @ [i] | None \<Rightarrow> [i])
      in (i, st\<lparr>hook_index_counter := i + 1, hooks := (hooks st)(i \<mapsto> handler),
                hook_registrations := (hook_registrations st)(stage \<mapsto> regs)\<rparr>))"

definition deregister_hook :: "nat \<Rightarrow> HookStorage \<Rightarrow> HookStorage" where
  "deregister_hook i st = st\<lparr>hooks := (hooks st)(i := None)\<rparr>"

definition clean_unused_hooks :: "HookStorage \<Rightarrow> HookStorage" where
  "clean_unused_hooks st =
     st\<lparr>hook_registrations := (\<lambda>stage. map_option (filter (\<lambda>i. hooks st i \<noteq> None)) (hook_registrations st stage))\<rparr>"

primrec run_hooks ::
  "HookStorage \<Rightarrow> nat list \<Rightarrow> HookResult \<Rightarrow> NetPacket \<Rightarrow> net_state \<Rightarrow> (HookResult \<times> NetPacket \<times> net_state) option" where
  "run_hooks st [] res p s = Some (res, p, s)"
| "run_hooks st (i # is) res p s =
     (case hooks st i of
        None \<Rightarrow> run_hooks st is res p s
      | Some handler \<Rightarrow>
          run_hook handler p s \<bind> (\<lambda>(r, p', s').
          case r of
            HookNothing \<Rightarrow> run_hooks st is res p' s'
          | LayerModified \<Rightarrow> run_hooks st is LayerModified p' s'
          | HookDrop \<Rightarrow> Some (HookDrop, p', s')))"

definition storage_call_hooks ::
  "HookStorage \<Rightarrow> HookStage \<Rightarrow> NetPacket \<Rightarrow> net_state \<Rightarrow> (HookResult \<times> NetPacket \<times> net_state) option" where
  "storage_call_hooks st stage p s =
     (case hook_registrations st stage of
        None \<Rightarrow> Some (HookNothing, p, s)
      | Some is \<Rightarrow> run_hooks st is HookNothing p s)"

text \<open>\<open>init\<close> of the five protocols.\<close>

definition protocols_init :: HookStorage where
  "protocols_init =
     fold (\<lambda>(f, stage) st. snd (register_hook f stage st))
       [(ProcessArp, OnBridge LArp), (EthernetBridge, OnBridge LEthernet), (Ipv4Bridge, OnBridge LIpv4),
        (IcmpIn, Inbound LIcmp), (UdpBridge, OnBridge LUdp)] hook_storage_new"

section \<open>Sockets\<close>

definition add_socket :: "(NetAddress AddressPair list \<Rightarrow> u64) \<Rightarrow> NetSocket \<Rightarrow> net_state \<Rightarrow> net_state" where
  "add_socket hash sock s =
     (let k = hash (sock_addresses sock); old = (case sockets s k of None \<Rightarrow> [] | Some v \<Rightarrow> v)
      in s\<lparr>sockets := (sockets s)(k \<mapsto> old @ [sock])\<rparr>)"

definition remove_socket :: "(NetAddress AddressPair list \<Rightarrow> u64) \<Rightarrow> NetSocket \<Rightarrow> net_state \<Rightarrow> net_state" where
  "remove_socket hash sock s =
     (let k = hash (sock_addresses sock)
      in case sockets s k of
           None \<Rightarrow> s
         | Some v \<Rightarrow> s\<lparr>sockets := (sockets s)(k \<mapsto> filter (\<lambda>o'. sock_id o' \<noteq> sock_id sock) v)\<rparr>)"

definition socket_push_packet :: "ProcessedPacket \<Rightarrow> NetSocket \<Rightarrow> NetSocket option" where
  "socket_push_packet pp sock =
     (if 1024 \<le> sock_count sock then None
      else Some (sock\<lparr>sock_queue := sock_queue sock @ [pp],
                      sock_count := (if sock_queue sock = [] then 1 else sock_count sock + 1)\<rparr>))"

definition socket_get_packet :: "NetSocket \<Rightarrow> ProcessedPacket option \<times> NetSocket" where
  "socket_get_packet sock =
     (case sock_queue sock of
        [] \<Rightarrow> (None, sock)
      | pp # rest \<Rightarrow> (Some pp, sock\<lparr>sock_queue := rest\<rparr>))"

definition into_processed :: "NetPacket \<Rightarrow> ProcessedPacket option" where
  "into_processed p =
     get_highest_layer p \<bind> (\<lambda>l.
     Some \<lparr>pp_data = p, user_data_start = (case l of None \<Rightarrow> 0 | Some d \<Rightarrow> layer_upper_offset d)\<rparr>)"

primrec deliver_to :: "NetAddress AddressPair list \<Rightarrow> NetPacket \<Rightarrow> NetSocket list \<Rightarrow> NetSocket list option" where
  "deliver_to addrs p [] = Some []"
| "deliver_to addrs p (sock # socks) =
     (if sock_addresses sock = addrs
      then into_processed p \<bind> (\<lambda>pp. socket_push_packet pp sock) else Some sock) \<bind> (\<lambda>sock'.
     deliver_to addrs p socks \<bind> (\<lambda>socks'. Some (sock' # socks')))"

text \<open>The combination \<open>i\<close> of lower addresses, with the top address behind them.\<close>

definition address_combination :: "NetAddress AddressPair list \<Rightarrow> nat \<Rightarrow> NetAddress AddressPair list" where
  "address_combination as i =
     map (\<lambda>j. ap_reverse (as ! j)) (filter (\<lambda>j. bit i j) [0..<length as]) @ [ap_reverse (last as)]"

primrec deliver_combinations ::
  "(NetAddress AddressPair list \<Rightarrow> u64) \<Rightarrow> NetPacket \<Rightarrow> nat list \<Rightarrow> net_state \<Rightarrow> net_state option" where
  "deliver_combinations hash p [] s = Some s"
| "deliver_combinations hash p (i # is) s =
     (let addrs = address_combination (addresses p) i; k = hash addrs
      in (case sockets s k of
            None \<Rightarrow> Some s
          | Some v \<Rightarrow> deliver_to addrs p v \<bind> (\<lambda>v'. Some (s\<lparr>sockets := (sockets s)(k \<mapsto> v')\<rparr>))) \<bind>
         deliver_combinations hash p is)"

definition call_hooks ::
  "(NetAddress AddressPair list \<Rightarrow> u64) \<Rightarrow> HookStorage \<Rightarrow> HookStage \<Rightarrow> NetPacket \<Rightarrow> net_state \<Rightarrow>
   (HookFilter \<times> NetPacket \<times> net_state) option" where
  "call_hooks hash st stage p s =
     storage_call_hooks st stage p s \<bind> (\<lambda>(r, p1, s1).
     case r of
       HookDrop \<Rightarrow> Some (FilterDrop, p1, s1)
     | LayerModified \<Rightarrow> None
     | HookNothing \<Rightarrow>
         (case stage of
            Inbound _ \<Rightarrow>
              (if addresses p1 = [] then Some s1
               else deliver_combinations hash p1 [0..<2 ^ (length (addresses p1) - 1)] s1) \<bind> (\<lambda>s2.
              Some (HookContinue, p1, s2))
          | _ \<Rightarrow> Some (HookContinue, p1, s1)))"

section \<open>The flow of a packet\<close>

definition process_inbound_packet ::
  "(NetAddress AddressPair list \<Rightarrow> u64) \<Rightarrow> HookStorage \<Rightarrow> NetPacket \<Rightarrow> NetLayerType \<Rightarrow> nat \<Rightarrow> net_state \<Rightarrow>
   (IncomingFlowDirection \<times> NetPacket \<times> net_state) option" where
  "process_inbound_packet hash st p ty off s =
     (if ty = LNone then Some (InDrop, p, s)
      else parse_layer p ty off (rt s) \<bind> (\<lambda>(parsed, p1, r).
           let s1 = s\<lparr>rt := r\<rparr> in
           case parsed of
             None \<Rightarrow> call_hooks hash st BadPacket p1 s1 \<bind> (\<lambda>(_, p2, s2). Some (InDrop, p2, s2))
           | Some l \<Rightarrow>
               is_known l \<bind> (\<lambda>known.
               call_hooks hash st (Inbound ty) (p1\<lparr>parsed_layers := parsed_layers p1 @ [l]\<rparr>) s1 \<bind>
               (\<lambda>(f, p2, s2).
               if f = FilterDrop then Some (InDrop, p2, s2)
               else if \<not> known then Some (InDrop, p2, s2)
               else Some (layer_incoming (rt s2) (last (parsed_layers p2)), p2, s2)))))"

definition process_bridge ::
  "(NetAddress AddressPair list \<Rightarrow> u64) \<Rightarrow> HookStorage \<Rightarrow> NetPacket \<Rightarrow> NetLayerType \<Rightarrow> net_state \<Rightarrow>
   (HookFilter \<times> NetPacket \<times> net_state) option" where
  "process_bridge hash st p ty s =
     call_hooks hash st (OnBridge ty) p s \<bind> (\<lambda>(f, p1, s1).
     if f = FilterDrop then Some (FilterDrop, p1, s1)
     else bridge_to_out_set_layers p1 \<bind> (\<lambda>p2.
          get_highest_layer p2 \<bind> (\<lambda>top. top \<bind> (\<lambda>l.
          nuke_lower_layers (layer_upper_offset l) p2 \<bind> (\<lambda>(_, p3).
          Some (HookContinue, (reset_packet p3)\<lparr>source := other_packet p1\<rparr>, s1))))))"

definition process_outbound_packet ::
  "(NetAddress AddressPair list \<Rightarrow> u64) \<Rightarrow> (nat \<Rightarrow> u8) \<Rightarrow> HookStorage \<Rightarrow> NetPacket \<Rightarrow> NetLayerType \<Rightarrow> net_state \<Rightarrow>
   (OutgoingFlowDirection \<times> NetPacket \<times> net_state) option" where
  "process_outbound_packet hash junk st p ty s =
     call_hooks hash st (Outbound ty) p s \<bind> (\<lambda>(f, p1, s1).
     if f = FilterDrop then Some (OutDrop, p1, s1) else construct_layer junk p1 ty s1)"

text \<open>One iteration of the loop of \<open>process_packet_flow\<close>: the entries it pushes, the last one on
  top, and the new state.\<close>

definition flow_step ::
  "(NetAddress AddressPair list \<Rightarrow> u64) \<Rightarrow> (nat \<Rightarrow> u8) \<Rightarrow> HookStorage \<Rightarrow> nat \<Rightarrow> PacketInRouting \<Rightarrow> net_state \<Rightarrow>
   ((nat \<times> PacketInRouting) list \<times> net_state) option" where
  "flow_step hash junk st off pr s =
     (case routing_step pr of
        Incoming \<Rightarrow>
          process_inbound_packet hash st (pir_data pr) (pir_layer pr) off s \<bind> (\<lambda>(d, p, s').
          Some (case d of
             LayerUp ty next' \<Rightarrow> [(next', pr\<lparr>pir_data := p, routing_step := Incoming, pir_layer := ty\<rparr>)]
           | ToBridge \<Rightarrow> [(0, pr\<lparr>pir_data := p, routing_step := Bridge\<rparr>)]
           | Both ty next' \<Rightarrow>
               [(next', pr\<lparr>pir_data := p, routing_step := Incoming, pir_layer := ty\<rparr>),
                (0, pr\<lparr>pir_data := p, routing_step := Bridge\<rparr>)]
           | InDrop \<Rightarrow> [], s'))
      | Bridge \<Rightarrow>
          process_bridge hash st (pir_data pr) (pir_layer pr) s \<bind> (\<lambda>(f, p, s').
          Some (if f = HookContinue then [(0, pr\<lparr>pir_data := p, routing_step := Outgoing\<rparr>)] else [], s'))
      | Outgoing \<Rightarrow>
          process_outbound_packet hash junk st (pir_data pr) (pir_layer pr) s \<bind> (\<lambda>(d, p, s').
          Some (case d of
             LayerDown (Normal ty) \<Rightarrow> ([(0, pr\<lparr>pir_data := p, routing_step := Outgoing, pir_layer := ty\<rparr>)], s')
           | LayerDown (ToNic i) \<Rightarrow> ([], s'\<lparr>sent := sent s' @ [(i, chunks p)]\<rparr>)
           | OutDrop \<Rightarrow> ([], s'))))"

partial_function (option) flow_loop ::
  "(NetAddress AddressPair list \<Rightarrow> u64) \<Rightarrow> (nat \<Rightarrow> u8) \<Rightarrow> HookStorage \<Rightarrow> (nat \<times> PacketInRouting) list \<Rightarrow> net_state \<Rightarrow>
   net_state option" where
  "flow_loop hash junk st work s =
     (case work of
        [] \<Rightarrow> Some s
      | (off, pr) # rest \<Rightarrow>
          flow_step hash junk st off pr s \<bind> (\<lambda>(new, s'). flow_loop hash junk st (rev new @ rest) s'))"

definition process_packet_flow ::
  "(NetAddress AddressPair list \<Rightarrow> u64) \<Rightarrow> (nat \<Rightarrow> u8) \<Rightarrow> HookStorage \<Rightarrow> PacketInRouting \<Rightarrow> net_state \<Rightarrow>
   net_state option" where
  "process_packet_flow hash junk st pr s =
     (if \<not> net_initialized s then Some s else flow_loop hash junk st [(0, pr)] s)"

text \<open>\<open>process_packets\<close>: the queue is swapped out, so packets queued meanwhile wait for the next
  run.\<close>

primrec process_all ::
  "(NetAddress AddressPair list \<Rightarrow> u64) \<Rightarrow> (nat \<Rightarrow> u8) \<Rightarrow> HookStorage \<Rightarrow> PacketInRouting list \<Rightarrow> net_state \<Rightarrow>
   net_state option" where
  "process_all hash junk st [] s = Some s"
| "process_all hash junk st (pr # prs) s =
     process_packet_flow hash junk st pr s \<bind> process_all hash junk st prs"

definition process_packets ::
  "(NetAddress AddressPair list \<Rightarrow> u64) \<Rightarrow> (nat \<Rightarrow> u8) \<Rightarrow> HookStorage \<Rightarrow> net_state \<Rightarrow> net_state option" where
  "process_packets hash junk st s =
     (if \<not> net_initialized s then Some s
      else process_all hash junk st (net_queue s) (s\<lparr>net_queue := []\<rparr>))"

end
