(* ===== verification/NetTermination.thy ===== *)
theory NetTermination
  imports NetFlow
begin

text \<open>
  The loop of \<open>process_packet_flow\<close> terminates: every entry of its work list has a weight, given by
  the routing step, the layer and the headers still to construct, and an iteration replaces an
  entry by entries of smaller total weight. The hooks and parsers keep what the weight depends on.
\<close>

section \<open>What hooks and parsers keep\<close>

lemma bind_SomeE:
  assumes "x \<bind> f = Some y"
  obtains z where "x = Some z" and "f z = Some y"
  using assms by (cases x) auto

fun data_type :: "NetLayerData \<Rightarrow> NetLayerType" where
  "data_type (DEthernet _) = LEthernet"
| "data_type (DArp _) = LArp"
| "data_type (DIpv4 _) = LIpv4"
| "data_type (DIcmp _) = LIcmp"
| "data_type (DUdp _) = LUdp"
| "data_type _ = LUnknown"

definition same_work :: "NetPacket \<Rightarrow> NetPacket \<Rightarrow> bool" where
  "same_work p q \<longleftrightarrow> layers_to_construct q = layers_to_construct p \<and>
     map data_type (parsed_layers q) = map data_type (parsed_layers p)"

lemma same_work_refl [simp]: "same_work p p"
  by (simp add: same_work_def)

lemma same_work_trans: "same_work p q \<Longrightarrow> same_work q r \<Longrightarrow> same_work p r"
  by (simp add: same_work_def)

lemma ensure_length_same: "ensure_length n p = Some q \<Longrightarrow> same_work p q"
  by (auto simp: ensure_length_def linearize_def same_work_def bind_eq_Some_conv split: if_splits)

lemma send_icmp_error_noop: "send_icmp_error p ty code data s = Some (p, s)"
proof -
  have "find_map downcast_layer_data ls = None" for ls
    by (induction ls) (simp_all add: downcast_layer_data_def)
  then show ?thesis by (simp add: send_icmp_error_def)
qed

lemma get_highest_layer_last:
  "get_highest_layer p = Some (Some l) \<Longrightarrow> parsed_layers p \<noteq> [] \<and> last (parsed_layers p) = l"
  by (auto simp: get_highest_layer_def bind_eq_Some_conv split: if_splits)

lemma process_arp_same: "process_arp p s = Some (r, q, s') \<Longrightarrow> same_work p q"
proof -
  assume a: "process_arp p s = Some (r, q, s')"
  have upd: "same_work p (p\<lparr>parsed_layers := butlast (parsed_layers p) @ [DArp h']\<rparr>)"
    if "get_highest_layer p = Some (Some (DArp h))" for h h'
  proof -
    from get_highest_layer_last [OF that] obtain ls where "parsed_layers p = ls @ [DArp h]"
      by (metis append_butlast_last_id)
    then show ?thesis by (simp add: same_work_def)
  qed
  show ?thesis
  proof (cases "\<exists>i h. source p = Nic i \<and> get_highest_layer p = Some (Some (DArp h))")
    case True
    then obtain i h where h: "source p = Nic i" "get_highest_layer p = Some (Some (DArp h))" by blast
    show ?thesis
      using a upd [OF h(2)] by (auto simp: process_arp_def h Let_def split: option.split_asm if_split_asm)
  next
    case False
    then have "q = p"
      using a by (auto simp: process_arp_def elim!: bind_SomeE
          split: NetPacketSource.split_asm option.split_asm NetLayerData.split_asm)
    then show ?thesis by simp
  qed
qed

lemma ethernet_bridge_hook_same: "ethernet_bridge_hook p s = Some (r, q, s') \<Longrightarrow> q = p"
  by (auto simp: ethernet_bridge_hook_def elim!: bind_SomeE
      split: option.split_asm NetLayerData.split_asm NetPacketSource.split_asm)

lemma ipv4_bridge_hook_same: "ipv4_bridge_hook p s = Some (r, q, s') \<Longrightarrow> q = p"
  by (auto simp: ipv4_bridge_hook_def send_icmp_error_noop elim!: bind_SomeE
      split: option.split_asm NetLayerData.split_asm if_split_asm)

lemma icmp_in_hook_same: "icmp_in_hook p s = Some (r, q, s') \<Longrightarrow> q = p"
  by (auto simp: icmp_in_hook_def elim!: bind_SomeE
      split: option.split_asm NetLayerData.split_asm if_split_asm)

lemma run_hook_same: "run_hook f p s = Some (r, q, s') \<Longrightarrow> same_work p q"
  by (cases f)
     (auto simp: udp_bridge_hook_def
      dest: process_arp_same ethernet_bridge_hook_same ipv4_bridge_hook_same icmp_in_hook_same)

lemma run_hooks_same: "run_hooks st is res p s = Some (r, q, s') \<Longrightarrow> same_work p q"
proof (induction "is" arbitrary: res p s)
  case (Cons i rest)
  show ?case
  proof (cases "hooks st i")
    case None
    then show ?thesis using Cons by simp
  next
    case (Some handler)
    then obtain r' q' s'' where h: "run_hook handler p s = Some (r', q', s'')"
      using Cons.prems by (auto simp: bind_eq_Some_conv)
    note k = run_hook_same [OF h]
    show ?thesis
      using Cons.prems Some h k Cons.IH same_work_trans by (cases r') auto
  qed
qed simp

lemma call_hooks_same:
  assumes "call_hooks hash st stage p s = Some (f, q, s')"
  shows "same_work p q"
proof -
  from assms obtain r s1 where h: "storage_call_hooks st stage p s = Some (r, q, s1)"
    by (auto simp: call_hooks_def elim!: bind_SomeE split: HookResult.split_asm HookStage.split_asm if_split_asm)
  then show ?thesis
    by (auto simp: storage_call_hooks_def dest: run_hooks_same split: option.splits)
qed

lemma append_address_same [simp]: "same_work p (append_address a q) \<longleftrightarrow> same_work p q"
  by (simp add: same_work_def append_address_def)

lemma parse_layer_same:
  assumes "parse_layer p ty off s = Some (parsed, q, s')"
  shows "same_work p q"
  using assms
  by (auto simp: parse_layer_def parse_ethernet_frame_def parse_arp_def parse_ipv4_packet_def parse_icmp_def
      parse_udp_def Let_def same_work_def append_address_def
      elim!: bind_SomeE dest!: ensure_length_same [unfolded same_work_def]
      split: NetLayerType.split_asm if_split_asm option.split_asm)

lemma parse_layer_type:
  assumes "parse_layer p ty off s = Some (Some l, q, s')"
  shows "data_type l = ty \<or> data_type l = LUnknown"
  using assms by (auto simp: parse_layer_def elim!: bind_SomeE split: NetLayerType.split_asm)

section \<open>Weights\<close>

fun step_weight :: "RoutingStep \<Rightarrow> NetLayerType \<Rightarrow> nat \<Rightarrow> nat" where
  "step_weight Incoming ty n = (if ty = LEthernet then 13 + 2 * n else if ty = LIpv4 then 7 + n else 6 + n)"
| "step_weight Bridge ty n = 5 + n"
| "step_weight Outgoing ty n =
     (if ty = LEthernet then 1 else if ty = LArp then 2 else if ty = LIpv4 then 2 + n else 3 + n)"

definition pir_weight :: "PacketInRouting \<Rightarrow> nat" where
  "pir_weight pr = step_weight (routing_step pr) (pir_layer pr) (length (layers_to_construct (pir_data pr)))"

definition work_weight :: "(nat \<times> PacketInRouting) list \<Rightarrow> nat" where
  "work_weight w = sum_list (map (pir_weight \<circ> snd) w)"

lemma work_weight_simps [simp]:
  "work_weight [] = 0"
  "work_weight (x # w) = pir_weight (snd x) + work_weight w"
  "work_weight (v @ w) = work_weight v + work_weight w"
  "work_weight (rev w) = work_weight w"
  by (simp_all add: work_weight_def flip: rev_map)

definition incoming_weight :: "nat \<Rightarrow> IncomingFlowDirection \<Rightarrow> nat" where
  "incoming_weight n d =
     (case d of LayerUp ty _ \<Rightarrow> step_weight Incoming ty n
      | ToBridge \<Rightarrow> 5 + n
      | Both ty _ \<Rightarrow> step_weight Incoming ty n + (5 + n)
      | InDrop \<Rightarrow> 0)"

lemma layer_incoming_weight:
  assumes "data_type l = ty \<or> data_type l = LUnknown"
  shows "incoming_weight n (layer_incoming s l) < step_weight Incoming ty n"
  using assms
  by (cases l) (auto simp: incoming_weight_def ethernet_incoming_def ethernet_upper_layer_type_def ipv4_incoming_def
      ipv4_upper_layer_type_def split: option.split)

lemma process_inbound_weight:
  assumes "process_inbound_packet hash st p ty off s = Some (d, q, s')"
  shows "layers_to_construct q = layers_to_construct p \<and> incoming_weight n d < step_weight Incoming ty n"
proof -
  have drop: "incoming_weight n InDrop < step_weight Incoming ty n" by (simp add: incoming_weight_def)
  show ?thesis
  proof (cases "ty = LNone")
    case True
    then show ?thesis using assms drop by (simp add: process_inbound_packet_def)
  next
    case False
    then obtain parsed p1 r where pl: "parse_layer p ty off (rt s) = Some (parsed, p1, r)"
      using assms by (auto simp: process_inbound_packet_def elim!: bind_SomeE)
    note k1 = parse_layer_same [OF pl]
    show ?thesis
    proof (cases parsed)
      case None
      then obtain f where "call_hooks hash st BadPacket p1 (s\<lparr>rt := r\<rparr>) = Some (f, q, s')" "d = InDrop"
        using assms False pl by (auto simp: process_inbound_packet_def Let_def elim!: bind_SomeE)
      with k1 call_hooks_same drop show ?thesis by (auto simp: same_work_def)
    next
      case (Some l)
      then obtain f known s2 where c: "call_hooks hash st (Inbound ty) (p1\<lparr>parsed_layers := parsed_layers p1 @ [l]\<rparr>)
            (s\<lparr>rt := r\<rparr>) = Some (f, q, s2)"
        and d: "d = InDrop \<or> d = layer_incoming (rt s2) (last (parsed_layers q))"
        using assms False pl
        by (auto simp: process_inbound_packet_def Let_def elim!: bind_SomeE split: if_split_asm)
      from call_hooks_same [OF c] have k2: "layers_to_construct q = layers_to_construct p1"
        "map data_type (parsed_layers q) = map data_type (parsed_layers p1) @ [data_type l]"
        by (simp_all add: same_work_def)
      then have "parsed_layers q \<noteq> []" by auto
      then have "data_type (last (parsed_layers q)) = data_type l"
        using k2(2) by (metis last_map last_snoc)
      then have "incoming_weight n (layer_incoming (rt s2) (last (parsed_layers q))) < step_weight Incoming ty n"
        using parse_layer_type [OF pl [unfolded Some]] by (metis layer_incoming_weight)
      with d drop k1 k2(1) show ?thesis by (auto simp: same_work_def)
    qed
  qed
qed

lemma process_bridge_weight:
  assumes "process_bridge hash st p ty s = Some (HookContinue, q, s')"
  shows "length (layers_to_construct q) \<le> length (layers_to_construct p) + 1"
proof -
  from assms obtain p1 f where c: "call_hooks hash st (OnBridge ty) p s = Some (f, p1, s')"
    and b: "\<exists>p2. bridge_to_out_set_layers p1 = Some p2 \<and> layers_to_construct q = layers_to_construct p2"
    by (auto simp: process_bridge_def nuke_lower_layers_def reset_packet_def Let_def
        elim!: bind_SomeE split: if_split_asm option.split_asm)
  have "length fs \<le> 1" if "layer_bridge_to_out l = Some fs" for l fs
    using that by (cases l) (auto elim!: bind_SomeE)
  with b call_hooks_same [OF c] show ?thesis
    by (fastforce simp: bridge_to_out_set_layers_def same_work_def elim!: bind_SomeE split: if_split_asm)
qed

lemma pop_layer_length:
  "pop_layer p = (Some f, q) \<Longrightarrow> length (layers_to_construct q) + 1 = length (layers_to_construct p)"
  by (auto simp: pop_layer_def split: if_split_asm)

lemma ipv4_construct_weight:
  assumes "ipv4_construct junk p s = Some (LayerDown (Normal ty), q, s')"
  shows "step_weight Outgoing ty (length (layers_to_construct q)) <
         step_weight Outgoing LIpv4 (length (layers_to_construct p))"
proof -
  from assms have i: "ipv4_construct_internal junk p (rt s) = Some (Inr (LayerDown (Normal ty)), q)"
    by (auto simp: ipv4_construct_def send_icmp_error_noop elim!: bind_SomeE
        split: sum.split_asm Ipv4Error.split_asm NetPacketSource.split_asm)
  then obtain data p1 p2 where p: "pop_layer p = (Some (FIpv4 data), p1)"
    and dir: "ipv4_direction data p1 (rt s) = Inr (LayerDown (Normal ty), p2)"
    and q: "layers_to_construct q = layers_to_construct p2"
    by (auto simp: ipv4_construct_internal_def insert_chunk_front_def elim!: bind_SomeE
        split: prod.split_asm option.split_asm NetLayerFlowID.split_asm sum.split_asm)
  have "ty = LEthernet \<or> (ty = LIpv4 \<and> p2 = p1)"
    using dir by (auto simp: ipv4_direction_def ipv4_lower_layer_def
        split: if_split_asm option.split_asm NetLayerFlowID.split_asm list.split_asm prod.split_asm NicType.split_asm HardwareAddr.split_asm)
  with pop_layer_length [OF p] q show ?thesis by auto
qed

lemma construct_layer_weight:
  assumes "construct_layer junk p ty s = Some (LayerDown (Normal ty'), q, s')"
  shows "step_weight Outgoing ty' (length (layers_to_construct q)) <
         step_weight Outgoing ty (length (layers_to_construct p))"
proof (cases "ty = LIpv4")
  case True
  then show ?thesis using assms ipv4_construct_weight by (auto simp: construct_layer_def)
next
  case False
  then show ?thesis
    using assms
    by (auto simp: construct_layer_def ethernet_construct_def arp_construct_def icmp_construct_def udp_construct_def
        insert_chunk_front_def push_layer_def Let_def dest!: pop_layer_length elim!: bind_SomeE
        split: NetLayerType.split_asm prod.split_asm option.split_asm NetLayerFlowID.split_asm if_split_asm
          HardwareAddr.split_asm)
qed

lemma process_outbound_weight:
  assumes "process_outbound_packet hash junk st p ty s = Some (LayerDown (Normal ty'), q, s')"
  shows "step_weight Outgoing ty' (length (layers_to_construct q)) <
         step_weight Outgoing ty (length (layers_to_construct p))"
proof -
  from assms obtain f p1 s1 where c: "call_hooks hash st (Outbound ty) p s = Some (f, p1, s1)"
    and l: "construct_layer junk p1 ty s1 = Some (LayerDown (Normal ty'), q, s')"
    by (auto simp: process_outbound_packet_def elim!: bind_SomeE split: if_split_asm)
  from call_hooks_same [OF c] have "layers_to_construct p1 = layers_to_construct p" by (simp add: same_work_def)
  with construct_layer_weight [OF l] show ?thesis by (simp only:)
qed

lemma flow_step_weight:
  assumes "flow_step hash junk st off pr s = Some (new, s')"
  shows "work_weight new < pir_weight pr"
proof (cases "routing_step pr")
  case Incoming
  then obtain d q s1 where d: "process_inbound_packet hash st (pir_data pr) (pir_layer pr) off s = Some (d, q, s1)"
    and w: "work_weight new = incoming_weight (length (layers_to_construct q)) d"
    using assms by (auto simp: flow_step_def incoming_weight_def pir_weight_def elim!: bind_SomeE
        split: IncomingFlowDirection.split)
  from process_inbound_weight [OF d, of "length (layers_to_construct q)"] w Incoming show ?thesis
    by (auto simp: pir_weight_def simp del: step_weight.simps)
next
  case Bridge
  then obtain f q where b: "process_bridge hash st (pir_data pr) (pir_layer pr) s = Some (f, q, s')"
    and n: "new = (if f = HookContinue then [(0, pr\<lparr>pir_data := q, routing_step := Outgoing\<rparr>)] else [])"
    using assms by (auto simp: flow_step_def elim!: bind_SomeE)
  show ?thesis
  proof (cases "f = HookContinue")
    case True
    then show ?thesis using process_bridge_weight [of hash st] b n Bridge by (fastforce simp: pir_weight_def)
  next
    case False
    then show ?thesis using n Bridge by (simp add: pir_weight_def)
  qed
next
  case Outgoing
  then obtain d q s1 where o: "process_outbound_packet hash junk st (pir_data pr) (pir_layer pr) s = Some (d, q, s1)"
    and n: "new = (case d of LayerDown (Normal ty) \<Rightarrow> [(0, pr\<lparr>pir_data := q, routing_step := Outgoing, pir_layer := ty\<rparr>)]
              | _ \<Rightarrow> [])"
    using assms by (auto simp: flow_step_def elim!: bind_SomeE split: OutgoingFlowDirection.splits LayerDownType.splits)
  have pos: "0 < pir_weight pr" using Outgoing by (simp add: pir_weight_def)
  show ?thesis
    using process_outbound_weight [of hash junk st "pir_data pr" "pir_layer pr" s] o n Outgoing pos
    by (auto simp: pir_weight_def split: OutgoingFlowDirection.split LayerDownType.split)
qed

section \<open>Termination\<close>

type_synonym flow_config = "(nat \<times> PacketInRouting) list \<times> net_state"

text \<open>One iteration that does not panic.\<close>

inductive flow_next ::
  "(NetAddress AddressPair list \<Rightarrow> u64) \<Rightarrow> (nat \<Rightarrow> u8) \<Rightarrow> HookStorage \<Rightarrow> flow_config \<Rightarrow> flow_config \<Rightarrow> bool"
  for hash junk st where
  flow_next_step: "flow_step hash junk st off pr s = Some (new, s') \<Longrightarrow>
     flow_next hash junk st ((off, pr) # rest, s) (rev new @ rest, s')"

inductive_cases flow_nextE: "flow_next hash junk st (w, s) (w', s')"

lemma flow_next_weight: "flow_next hash junk st (w, s) (w', s') \<Longrightarrow> work_weight w' < work_weight w"
  by (auto elim!: flow_nextE dest: flow_step_weight)

lemma flow_run_bounded: "(flow_next hash junk st ^^ k) (w, s) (w', s') \<Longrightarrow> k + work_weight w' \<le> work_weight w"
proof (induction k arbitrary: w' s')
  case (Suc k)
  then obtain w1 s1 where "(flow_next hash junk st ^^ k) (w, s) (w1, s1)" "flow_next hash junk st (w1, s1) (w', s')"
    by auto
  with Suc.IH flow_next_weight show ?case by fastforce
qed simp

lemma flow_loop_returns_or_panics:
  "(\<exists>s'. flow_loop hash junk st w s = Some s') \<or>
   (\<exists>off pr rest s'. (flow_next hash junk st)\<^sup>*\<^sup>* (w, s) ((off, pr) # rest, s') \<and> flow_step hash junk st off pr s' = None)"
proof (induction "work_weight w" arbitrary: w s rule: less_induct)
  case less
  show ?case
  proof (cases w)
    case Nil
    then show ?thesis by (simp add: flow_loop.simps)
  next
    case (Cons x rest)
    obtain off pr where x: "x = (off, pr)" by (cases x)
    show ?thesis
    proof (cases "flow_step hash junk st off pr s")
      case None
      then show ?thesis using Cons x by blast
    next
      case (Some r)
      then obtain new s1 where r: "flow_step hash junk st off pr s = Some (new, s1)" by (cases r) auto
      have n: "flow_next hash junk st (w, s) (rev new @ rest, s1)"
        unfolding Cons x by (rule flow_next_step [OF r])
      have l: "flow_loop hash junk st w s = flow_loop hash junk st (rev new @ rest) s1"
        unfolding Cons x by (subst flow_loop.simps) (simp add: r)
      show ?thesis
        using less [OF flow_next_weight [OF n]] converse_rtranclp_into_rtranclp [of "flow_next hash junk st", OF n]
        unfolding l by blast
    qed
  qed
qed

text \<open>C24: Processing a frame received by a network interface always ends: with any registration of the five hook functions, the
  loop makes at most thirteen iterations, and it returns a new state unless one of them panics.\<close>

theorem packet_flow_terminates:
  assumes "packet_new cs (Nic i) = Some p" and "net_initialized s"
  defines "pr \<equiv> \<lparr>pir_data = p, routing_step = Incoming, pir_layer = LEthernet\<rparr>"
  shows "((flow_next hash junk st ^^ k) ([(0, pr)], s) (w', s') \<longrightarrow> k \<le> 13) \<and>
     ((\<exists>s'. process_packet_flow hash junk st pr s = Some s') \<or>
      (\<exists>off pr' rest s'. (flow_next hash junk st)\<^sup>*\<^sup>* ([(0, pr)], s) ((off, pr') # rest, s') \<and>
         flow_step hash junk st off pr' s' = None))"
proof -
  have "layers_to_construct p = []" using assms(1) by (auto simp: packet_new_def elim!: bind_SomeE)
  then have "work_weight [(0, pr)] = 13" by (simp add: pr_def pir_weight_def)
  then show ?thesis
    using flow_run_bounded [of k hash junk st "[(0, pr)]" s w' s'] flow_loop_returns_or_panics [of hash junk st "[(0, pr)]" s]
      assms(2) by (auto simp: process_packet_flow_def)
qed

definition idle_net :: net_state where
  "idle_net = \<lparr>net_initialized = True, rt = empty_routing, net_queue = [], sockets = Map.empty, sent = []\<rparr>"

definition short_frame :: PacketInRouting where
  "short_frame = \<lparr>pir_data = the (packet_new [[1, 2, 3]] (Nic 0)), routing_step = Incoming, pir_layer = LEthernet\<rparr>"

theorem packet_flow_terminates_witness:
  "\<exists>k s'. (flow_next (\<lambda>_. 0) (\<lambda>_. 0) protocols_init ^^ k) ([(0, short_frame)], idle_net) ([], s') \<and> k \<le> 13"
proof -
  have p: "\<exists>p. packet_new [[1, 2, 3]] (Nic 0) = Some p" by (simp add: packet_new_def checked_add_def)
  have "flow_step (\<lambda>_. 0) (\<lambda>_. 0) protocols_init 0 short_frame idle_net = Some ([], idle_net)"
    by (simp add: flow_step_def short_frame_def process_inbound_packet_def parse_layer_def parse_ethernet_frame_def
        packet_new_def checked_add_def call_hooks_def storage_call_hooks_def protocols_init_def register_hook_def
        hook_storage_new_def Let_def idle_net_def)
  from flow_next_step [OF this, of "[]"]
  have "(flow_next (\<lambda>_. 0) (\<lambda>_. 0) protocols_init ^^ 1) ([(0, short_frame)], idle_net) ([], idle_net)"
    by (simp add: eq_OO)
  then show ?thesis
    using p packet_flow_terminates [of "[[1, 2, 3]]" 0 _ idle_net 1 "\<lambda>_. 0" "\<lambda>_. 0" protocols_init "[]" idle_net]
    by (intro exI [of _ 1] exI [of _ idle_net]) (auto simp: short_frame_def idle_net_def)
qed

end
