(* ===== verification/NetScenarios.thy ===== *)
theory NetScenarios
  imports NetRoundtrip NetTermination
begin

text \<open>
  Whole runs of the network stack, from the received frame to what is handed to the network
  interface: an ARP request for the kernel's address is answered, a packet that needs the default
  route and an echo request with an odd payload panic.
\<close>

section \<open>An ARP request\<close>

definition broadcast_mac :: MacAddress where
  "broadcast_mac = MacAddress 255 255 255 255 255 255"

definition eth_bytes :: "MacAddress \<Rightarrow> MacAddress \<Rightarrow> u16 \<Rightarrow> u8 list" where
  "eth_bytes dst src ty = mac_bytes dst @ mac_bytes src @ u16_to_be ty"

lemma length_eth_bytes [simp]: "length (eth_bytes dst src ty) = 14"
  by (simp add: eth_bytes_def)

lemma ethernet_write_bytes:
  "ethernet_write f (fresh_chunk junk 14) =
     Some (eth_bytes (ap_target (mac_addr f)) (ap_source (mac_addr f)) (ether_type f))"
proof -
  obtain a1 a2 a3 a4 a5 a6 where s: "ap_source (mac_addr f) = MacAddress a1 a2 a3 a4 a5 a6"
    by (cases "ap_source (mac_addr f)")
  obtain b1 b2 b3 b4 b5 b6 where t: "ap_target (mac_addr f) = MacAddress b1 b2 b3 b4 b5 b6"
    by (cases "ap_target (mac_addr f)")
  show ?thesis
    by (simp add: ethernet_write_def eth_bytes_def fresh_chunk_def write_at_def s t u16_to_be_def upt_rec)
qed

lemma ethernet_fields:
  "slice_range (eth_bytes dst src ty @ rest) 0 6 = Some (mac_bytes dst)"
  "slice_range (eth_bytes dst src ty @ rest) 6 12 = Some (mac_bytes src)"
  "read_u16 (eth_bytes dst src ty @ rest) 12 = Some ty"
  by (simp_all add: eth_bytes_def slice_range_def read_u16_def index_at_def nth_append)

text \<open>The state after the first interface, number 7 with the address \<open>own\<close>, was registered.\<close>

definition booted_net :: "MacAddress \<Rightarrow> net_state" where
  "booted_net own = idle_net\<lparr>rt := register_nic own 7 EthernetNic empty_routing\<rparr>"

definition arp_request :: "MacAddress \<Rightarrow> Ipv4Address \<Rightarrow> MacAddress \<Rightarrow> u8 list \<Rightarrow> u8 list" where
  "arp_request m si tm pad =
     eth_bytes broadcast_mac m 0x0806 @ arp_bytes 1 m si tm (Ipv4Address 10 0 0 2) @ pad"

definition arp_packet :: "MacAddress \<Rightarrow> Ipv4Address \<Rightarrow> MacAddress \<Rightarrow> u8 list \<Rightarrow> NetPacket" where
  "arp_packet m si tm pad =
     \<lparr>chunks = [arp_request m si tm pad], parsed_layers = [], pkt_length = 42 + length pad,
      layers_to_construct = [], upper_layer_size = None, addresses = [], source = Nic 7\<rparr>"

lemma arp_packet_fields [simp]:
  "chunks (arp_packet m si tm pad) = [arp_request m si tm pad]" "parsed_layers (arp_packet m si tm pad) = []"
  "pkt_length (arp_packet m si tm pad) = 42 + length pad" "layers_to_construct (arp_packet m si tm pad) = []"
  "addresses (arp_packet m si tm pad) = []" "source (arp_packet m si tm pad) = Nic 7"
  by (simp_all add: arp_packet_def)

definition arp_frame_header :: "MacAddress \<Rightarrow> u8 list \<Rightarrow> EthernetHeader" where
  "arp_frame_header m pad =
     \<lparr>eth_offset = 0, crc_offset = 38 + length pad, eth_source = m, eth_destination = broadcast_mac,
      upper_type = 0x0806\<rparr>"

lemma arp_frame_header_fields [simp]:
  "eth_offset (arp_frame_header m pad) = 0" "eth_source (arp_frame_header m pad) = m"
  "eth_destination (arp_frame_header m pad) = broadcast_mac" "upper_type (arp_frame_header m pad) = 0x0806"
  by (simp_all add: arp_frame_header_def)

definition arp_packet_eth :: "MacAddress \<Rightarrow> Ipv4Address \<Rightarrow> MacAddress \<Rightarrow> u8 list \<Rightarrow> NetPacket" where
  "arp_packet_eth m si tm pad = (arp_packet m si tm pad)\<lparr>parsed_layers := [DEthernet (arp_frame_header m pad)],
     addresses := [address_pair (MacAddr m) (MacAddr broadcast_mac)]\<rparr>"

definition learned_net :: "MacAddress \<Rightarrow> MacAddress \<Rightarrow> net_state" where
  "learned_net own m = (booted_net own)\<lparr>rt := register_foreign_mac_address m 7 (rt (booted_net own))\<rparr>"

lemma learned_net_fields [simp]:
  "sockets (learned_net own m) = Map.empty" "net_queue (learned_net own m) = []" "sent (learned_net own m) = []"
  "net_initialized (learned_net own m) = True"
  "nic_info (rt (learned_net own m)) = [(7, [MacAddr own, Ipv4Net default_interface], EthernetNic)]"
  "foreign_mac_nic (rt (learned_net own m)) = [(7, m)]" "nic_storage (rt (learned_net own m)) = [7 \<mapsto> EthernetNic]"
  "mac_bridge_domains (rt (learned_net own m)) = []" "foreign_arp_table (rt (learned_net own m)) = Map.empty"
  by (simp_all add: learned_net_def booted_net_def idle_net_def register_nic_def empty_routing_def
      register_foreign_mac_address_def Let_def)

lemma protocol_hooks:
  "hook_registrations protocols_init =
     [OnBridge LArp \<mapsto> [0], OnBridge LEthernet \<mapsto> [1], OnBridge LIpv4 \<mapsto> [2], Inbound LIcmp \<mapsto> [3], OnBridge LUdp \<mapsto> [4]]"
  "hooks protocols_init = [0 \<mapsto> ProcessArp, 1 \<mapsto> EthernetBridge, 2 \<mapsto> Ipv4Bridge, 3 \<mapsto> IcmpIn, 4 \<mapsto> UdpBridge]"
  by (simp_all add: protocols_init_def register_hook_def hook_storage_new_def Let_def numeral_eq_Suc)

lemma deliver_no_sockets: "sockets s = Map.empty \<Longrightarrow> deliver_combinations hash p is s = Some s"
  by (induction "is") (simp_all add: Let_def)

lemma arp_step_1:
  "flow_step hash junk protocols_init 0
     \<lparr>pir_data = arp_packet m si tm pad, routing_step = Incoming, pir_layer = LEthernet\<rparr> (booted_net own) =
   Some ([(14, \<lparr>pir_data = arp_packet_eth m si tm pad, routing_step = Incoming, pir_layer = LArp\<rparr>),
          (0, \<lparr>pir_data = arp_packet_eth m si tm pad, routing_step = Bridge, pir_layer = LEthernet\<rparr>)],
         learned_net own m)"
proof -
  let ?p = "arp_packet m si tm pad"
  have parse: "parse_layer ?p LEthernet 0 (rt (booted_net own)) =
      Some (Some (DEthernet (arp_frame_header m pad)),
            append_address (address_pair (MacAddr m) (MacAddr broadcast_mac)) ?p, rt (learned_net own m))"
    by (simp add: parse_layer_def parse_ethernet_frame_def one_chunk arp_request_def
        ethernet_fields arp_frame_header_def learned_net_def)
  have st: "(booted_net own)\<lparr>rt := rt (learned_net own m)\<rparr> = learned_net own m" by (simp add: learned_net_def)
  have pk: "(append_address (address_pair (MacAddr m) (MacAddr broadcast_mac)) ?p)
      \<lparr>parsed_layers := [DEthernet (arp_frame_header m pad)]\<rparr> = arp_packet_eth m si tm pad"
    by (simp add: arp_packet_eth_def append_address_def arp_packet_def)
  have pl: "parsed_layers (append_address a ?p) = []" for a by (simp add: append_address_def)
  have top: "parsed_layers (arp_packet_eth m si tm pad) = [DEthernet (arp_frame_header m pad)]"
    by (simp add: arp_packet_eth_def)
  have b: "is_broadcast broadcast_mac" by (simp add: is_broadcast_def broadcast_mac_def)
  show ?thesis
    by (simp add: flow_step_def process_inbound_packet_def parse st pk pl top call_hooks_def storage_call_hooks_def
        protocol_hooks deliver_no_sockets ethernet_incoming_def b Let_def
        ethernet_upper_layer_type_def del: deliver_combinations.simps)
qed

lemma arp_packet_eth_fields [simp]:
  "chunks (arp_packet_eth m si tm pad) = [arp_request m si tm pad]"
  "parsed_layers (arp_packet_eth m si tm pad) = [DEthernet (arp_frame_header m pad)]"
  "pkt_length (arp_packet_eth m si tm pad) = 42 + length pad" "layers_to_construct (arp_packet_eth m si tm pad) = []"
  "addresses (arp_packet_eth m si tm pad) = [address_pair (MacAddr m) (MacAddr broadcast_mac)]"
  "source (arp_packet_eth m si tm pad) = Nic 7"
  by (simp_all add: arp_packet_eth_def)

text \<open>The frame is not forwarded, because no bridge is configured.\<close>

lemma arp_step_2:
  "flow_step hash junk protocols_init 0
     \<lparr>pir_data = arp_packet_eth m si tm pad, routing_step = Bridge, pir_layer = LEthernet\<rparr> (learned_net own m) =
   Some ([], learned_net own m)"
  by (simp add: flow_step_def process_bridge_def call_hooks_def storage_call_hooks_def protocol_hooks
      ethernet_bridge_hook_def get_highest_layer_def get_mac_of_own_nic_def get_mac_bridges_def append_net_queue_def)

definition arp_header_of :: "MacAddress \<Rightarrow> Ipv4Address \<Rightarrow> MacAddress \<Rightarrow> ArpHeader" where
  "arp_header_of m si tm =
     \<lparr>arp_offset = 14, arp_flow_id = \<lparr>arp_operation = 1,
        arp_protocol = address_pair (Ipv4Proto si) (Ipv4Proto (Ipv4Address 10 0 0 2)),
        arp_hardware = address_pair (EthernetHw m) (EthernetHw tm)\<rparr>, arp_size = 28\<rparr>"

definition arp_packet_arp :: "MacAddress \<Rightarrow> Ipv4Address \<Rightarrow> MacAddress \<Rightarrow> u8 list \<Rightarrow> NetPacket" where
  "arp_packet_arp m si tm pad = (arp_packet_eth m si tm pad)
     \<lparr>parsed_layers := [DEthernet (arp_frame_header m pad), DArp (arp_header_of m si tm)]\<rparr>"

lemma arp_step_3:
  assumes "2 \<le> length pad"
  shows "flow_step hash junk protocols_init 14
     \<lparr>pir_data = arp_packet_eth m si tm pad, routing_step = Incoming, pir_layer = LArp\<rparr> (learned_net own m) =
   Some ([(0, \<lparr>pir_data = arp_packet_arp m si tm pad, routing_step = Bridge, pir_layer = LArp\<rparr>)], learned_net own m)"
proof -
  have "parse_arp_data (arp_request m si tm pad) 14 = Some (Some (arp_header_of m si tm))"
    using parse_arp_bytes [of "eth_bytes broadcast_mac m 0x0806" 1 m si tm "Ipv4Address 10 0 0 2" pad] assms
    by (simp add: arp_request_def arp_header_of_def)
  then have parse: "parse_layer (arp_packet_eth m si tm pad) LArp 14 r =
      Some (Some (DArp (arp_header_of m si tm)), arp_packet_eth m si tm pad, r)" for r
    by (simp add: parse_layer_def parse_arp_def one_chunk)
  have pk: "(arp_packet_eth m si tm pad)\<lparr>parsed_layers := [DEthernet (arp_frame_header m pad), DArp (arp_header_of m si tm)]\<rparr> =
      arp_packet_arp m si tm pad" by (simp add: arp_packet_arp_def)
  have top: "parsed_layers (arp_packet_arp m si tm pad) = [DEthernet (arp_frame_header m pad), DArp (arp_header_of m si tm)]"
    by (simp add: arp_packet_arp_def)
  show ?thesis
    by (simp add: flow_step_def process_inbound_packet_def parse pk top call_hooks_def storage_call_hooks_def
        protocol_hooks deliver_no_sockets Let_def del: deliver_combinations.simps)
qed

text \<open>The ARP hook records the sender and puts the own address into the answer.\<close>

definition answering_net :: "MacAddress \<Rightarrow> MacAddress \<Rightarrow> Ipv4Address \<Rightarrow> net_state" where
  "answering_net own m si = (learned_net own m)
     \<lparr>rt := update_arp_entry (EthernetHw m) (EthernetHw own) (Ipv4Proto si) (rt (learned_net own m))\<rparr>"

definition arp_answer :: "MacAddress \<Rightarrow> MacAddress \<Rightarrow> Ipv4Address \<Rightarrow> ArpFlowId" where
  "arp_answer own m si =
     \<lparr>arp_operation = 2, arp_protocol = address_pair (Ipv4Proto (Ipv4Address 10 0 0 2)) (Ipv4Proto si),
      arp_hardware = address_pair (EthernetHw own) (EthernetHw m)\<rparr>"

lemma arp_step_4:
  assumes "length pad < 1500" and "pad \<noteq> []"
  shows "\<exists>p. flow_step hash junk protocols_init 0
       \<lparr>pir_data = arp_packet_arp m si tm pad, routing_step = Bridge, pir_layer = LArp\<rparr> (learned_net own m) =
     Some ([(0, \<lparr>pir_data = p, routing_step = Outgoing, pir_layer = LArp\<rparr>)], answering_net own m si) \<and>
     chunks p = [shift_chunk 42 (arp_request m si tm pad)] \<and> pkt_length p = length pad \<and>
     layers_to_construct p = [FArp (arp_answer own m si)]"
proof -
  let ?h = "(arp_header_of m si tm)\<lparr>arp_flow_id := (arp_flow_id (arp_header_of m si tm))
      \<lparr>arp_hardware := address_pair (EthernetHw m) (EthernetHw own)\<rparr>\<rparr>"
  let ?p = "(arp_packet_arp m si tm pad)\<lparr>parsed_layers := [DEthernet (arp_frame_header m pad), DArp ?h]\<rparr>"
  have hook: "process_arp (arp_packet_arp m si tm pad) (learned_net own m) = Some (HookNothing, ?p, answering_net own m si)"
    by (simp add: process_arp_def arp_packet_arp_def get_highest_layer_def get_nic_addresses_from_id_def
        arp_header_of_def address_pair_def default_interface_def answering_net_def Let_def)
  have calls: "call_hooks hash protocols_init (OnBridge LArp) (arp_packet_arp m si tm pad) (learned_net own m) =
      Some (HookContinue, ?p, answering_net own m si)"
    by (simp add: call_hooks_def storage_call_hooks_def protocol_hooks hook)
  have out: "bridge_to_out_set_layers ?p = Some (?p\<lparr>layers_to_construct := [FArp (arp_answer own m si)]\<rparr>)"
    by (simp add: bridge_to_out_set_layers_def arp_bridge_to_out_def arp_packet_arp_def arp_answer_def arp_header_of_def
        ap_reverse_def address_pair_def)
  have fields: "chunks (arp_packet_arp m si tm pad) = [arp_request m si tm pad]"
    "pkt_length (arp_packet_arp m si tm pad) = 42 + length pad"
    "arp_offset (arp_header_of m si tm) = 14" "arp_size (arp_header_of m si tm) = 28"
    by (simp_all add: arp_packet_arp_def arp_header_of_def)
  have len: "length (arp_request m si tm pad) = 42 + length pad" by (simp add: arp_request_def)
  show ?thesis
    using assms
    by (auto simp: flow_step_def process_bridge_def calls out get_highest_layer_def nuke_lower_layers_def
        fields reset_packet_def Let_def checked_add_def checked_sub_def len)
qed

lemma arp_step_5:
  assumes "layers_to_construct p = [FArp (arp_answer own m si)]" and "pkt_length p < 1500"
  shows "\<exists>q. flow_step hash junk protocols_init 0
       \<lparr>pir_data = p, routing_step = Outgoing, pir_layer = LArp\<rparr> s =
     Some ([(0, \<lparr>pir_data = q, routing_step = Outgoing, pir_layer = LEthernet\<rparr>)], s) \<and>
     chunks q = arp_bytes 2 own (Ipv4Address 10 0 0 2) m si # chunks p \<and> pkt_length q = 28 + pkt_length p \<and>
     layers_to_construct q = [FEthernet (ethernet_flow_new own m 0x0806)]"
proof -
  have w: "arp_write (arp_answer own m si) 0 (fresh_chunk junk 28) = Some (arp_bytes 2 own (Ipv4Address 10 0 0 2) m si)"
    unfolding arp_answer_def by (rule arp_write_bytes)
  have addr: "arp_hardware (arp_answer own m si) = address_pair (EthernetHw own) (EthernetHw m)"
    "arp_protocol (arp_answer own m si) = address_pair (Ipv4Proto (Ipv4Address 10 0 0 2)) (Ipv4Proto si)"
    by (simp_all add: arp_answer_def)
  show ?thesis
    using assms
    by (simp add: flow_step_def process_outbound_packet_def call_hooks_def storage_call_hooks_def protocol_hooks
        construct_layer_def arp_construct_def pop_layer_def addr address_pair_def w push_layer_def Let_def
        insert_chunk_front_def checked_add_def)
qed

lemma arp_step_6:
  assumes "layers_to_construct p = [FEthernet (ethernet_flow_new own m 0x0806)]" and "pkt_length p < 1600"
    and "\<not> is_broadcast m"
  shows "flow_step hash junk protocols_init 0
       \<lparr>pir_data = p, routing_step = Outgoing, pir_layer = LEthernet\<rparr> (answering_net own m si) =
     Some ([], (answering_net own m si)\<lparr>sent := [(7, eth_bytes m own 0x0806 # chunks p)]\<rparr>)"
proof -
  have f: "mac_addr (ethernet_flow_new own m 0x0806) = address_pair own m"
    "ether_type (ethernet_flow_new own m 0x0806) = 0x0806" "out_interface (ethernet_flow_new own m 0x0806) = None"
    by (simp_all add: ethernet_flow_new_def)
  have r: "foreign_mac_nic (rt (answering_net own m si)) = [(7, m)]" "sent (answering_net own m si) = []"
    "nic_storage (rt (answering_net own m si)) 7 = Some EthernetNic"
    by (simp_all add: answering_net_def update_arp_entry_def)
  have g: "get_route_mac_nic m (rt (answering_net own m si)) = (Some (7, EthernetNic), rt (answering_net own m si))"
    using assms(3) r by (simp add: get_route_mac_nic_def)
  show ?thesis
    using assms r
    by (simp add: flow_step_def process_outbound_packet_def call_hooks_def storage_call_hooks_def protocol_hooks
        construct_layer_def ethernet_construct_def pop_layer_def f address_pair_def g ethernet_write_bytes
        insert_chunk_front_def checked_add_def)
qed

text \<open>C8: When the first interface is registered, an ARP request for the kernel's address that arrives there
  in a frame with at least two bytes of padding is answered by exactly one frame to the asking
  machine, with the kernel's MAC address, and the asking machine enters the ARP table. Behind
  the answer follow bytes of the request, which the removal of the headers left in the packet.\<close>

theorem arp_request_answered:
  assumes "2 \<le> length pad" and "length pad < 1500" and "\<not> is_broadcast m"
  shows "packet_new [arp_request m si tm pad] (Nic 7) = Some (arp_packet m si tm pad) \<and>
    (\<exists>s'. process_packet_flow hash junk protocols_init
          \<lparr>pir_data = arp_packet m si tm pad, routing_step = Incoming, pir_layer = LEthernet\<rparr> (booted_net own) = Some s' \<and>
       sent s' = [(7, [eth_bytes m own 0x0806, arp_bytes 2 own (Ipv4Address 10 0 0 2) m si,
                       shift_chunk 42 (arp_request m si tm pad)])] \<and>
       get_arp_entry (Ipv4Proto si) (EthernetHw own) (rt s') = Some (EthernetHw m))"
proof -
  have new: "packet_new [arp_request m si tm pad] (Nic 7) = Some (arp_packet m si tm pad)"
    using assms(2) by (simp add: packet_new_def checked_add_def arp_packet_def arp_request_def)
  from assms(1) have "pad \<noteq> []" by auto
  from arp_step_4 [OF assms(2) this] obtain p where
    p: "flow_step hash junk protocols_init 0
       \<lparr>pir_data = arp_packet_arp m si tm pad, routing_step = Bridge, pir_layer = LArp\<rparr> (learned_net own m) =
     Some ([(0, \<lparr>pir_data = p, routing_step = Outgoing, pir_layer = LArp\<rparr>)], answering_net own m si)"
     "chunks p = [shift_chunk 42 (arp_request m si tm pad)]" "pkt_length p = length pad"
     "layers_to_construct p = [FArp (arp_answer own m si)]" by blast
  from arp_step_5 [OF p(4), of hash junk "answering_net own m si"] p(3) assms(2) obtain q where
    q: "flow_step hash junk protocols_init 0
       \<lparr>pir_data = p, routing_step = Outgoing, pir_layer = LArp\<rparr> (answering_net own m si) =
     Some ([(0, \<lparr>pir_data = q, routing_step = Outgoing, pir_layer = LEthernet\<rparr>)], answering_net own m si)"
     "chunks q = arp_bytes 2 own (Ipv4Address 10 0 0 2) m si # chunks p" "pkt_length q = 28 + pkt_length p"
     "layers_to_construct q = [FEthernet (ethernet_flow_new own m 0x0806)]" by auto
  have ql: "pkt_length q < 1600" using q(3) p(3) assms(2) by simp
  have init: "net_initialized (booted_net own)" by (simp add: booted_net_def idle_net_def)
  have "process_packet_flow hash junk protocols_init
      \<lparr>pir_data = arp_packet m si tm pad, routing_step = Incoming, pir_layer = LEthernet\<rparr> (booted_net own) =
    Some ((answering_net own m si)\<lparr>sent := [(7, eth_bytes m own 0x0806 # chunks q)]\<rparr>)"
    by (simp add: process_packet_flow_def init flow_loop.simps arp_step_1 arp_step_2 arp_step_3 [OF assms(1)] p(1) q(1)
        arp_step_6 [OF q(4) ql assms(3)])
  then show ?thesis
    using new p(2) q(2) by (simp add: get_arp_entry_def answering_net_def update_arp_entry_def)
qed

theorem arp_request_answered_witness:
  "\<exists>s'. process_packet_flow (\<lambda>_. 0) (\<lambda>_. 0) protocols_init
      \<lparr>pir_data = arp_packet mac2 (Ipv4Address 10 0 0 1) (MacAddress 0 0 0 0 0 0) (replicate 18 0),
       routing_step = Incoming, pir_layer = LEthernet\<rparr> (booted_net mac1) = Some s' \<and>
     map (take 2 \<circ> snd) (sent s') = [[eth_bytes mac2 mac1 0x0806, arp_bytes 2 mac1 (Ipv4Address 10 0 0 2) mac2 (Ipv4Address 10 0 0 1)]]"
proof -
  have "\<not> is_broadcast mac2" by (simp add: is_broadcast_def mac2_def)
  then show ?thesis
    using arp_request_answered [of "replicate 18 0" mac2 "Ipv4Address 10 0 0 1" "MacAddress 0 0 0 0 0 0" "\<lambda>_. 0" "\<lambda>_. 0" mac1]
    by auto
qed

section \<open>The default route\<close>

text \<open>As long as only the built-in network and the built-in default route are configured, sending an
  IPv4 packet to any address outside the built-in network panics the kernel: the lookup of the
  own MAC address uses the address of the route's network instead of that of the interface.\<close>

theorem default_route_panics:
  assumes "layers_to_construct p = [FIpv4 f]"
    and "\<not> net_contains default_interface (ap_target (fl_address f))"
  shows "ipv4_construct junk p (booted_net own) = None"
proof -
  have "u32_from_be 0 0 0 0 = 0" by code_simp
  then have "net_contains (rt_network default_route) a" for a
    by (simp add: net_contains_def default_route_def)
  then have "get_ipv4_route (ap_target (fl_address f)) (rt (booted_net own)) = Some default_route"
    using assms(2) by (simp add: get_ipv4_route_def booted_net_def register_nic_def empty_routing_def Let_def)
  moreover have "get_own_ipv4_mac (net_address (rt_network default_route)) (rt (booted_net own)) = None"
    by (simp add: get_own_ipv4_mac_def booted_net_def register_nic_def empty_routing_def Let_def
        default_route_def default_interface_def)
  ultimately have "ipv4_direction f (p\<lparr>layers_to_construct := []\<rparr>) (rt (booted_net own)) = Inl OtherFatal"
    by (simp add: ipv4_direction_def ipv4_lower_layer_def)
  then show ?thesis
    using assms(1) by (simp add: ipv4_construct_def ipv4_construct_internal_def pop_layer_def)
qed

section \<open>Echo replies\<close>

lemma icmp_write_bytes:
  "icmp_write f (fresh_chunk junk (8 + length (fl_payload f))) =
     compute_internet_checksum ([fl_icmp_type f, fl_code f] @ [0, 0] @ u32_to_be (fl_data f) @ fl_payload f) \<bind>
     (\<lambda>c. Some ([fl_icmp_type f, fl_code f] @ u16_to_be c @ u32_to_be (fl_data f) @ fl_payload f))"
proof -
  let ?n = "length (fl_payload f)"
  have "[0..<8 + ?n] = [0..<8] @ [8..<8 + ?n]" by (rule upt_add_eq_append) simp
  then have "fresh_chunk junk (8 + ?n) = map junk [0..<8] @ map junk [8..<8 + ?n]"
    by (simp only: fresh_chunk_def map_append)
  then obtain rest where rest: "fresh_chunk junk (8 + ?n) = map junk [0..<8] @ rest" "length rest = ?n"
    by (metis diff_add_inverse length_map length_upt)
  have ups: "[0..<8] = [0, 1, 2, 3, 4, 5, 6, 7 :: nat]" by (simp add: upt_rec)
  have z: "u16_to_be 0 = [0, 0]" by code_simp
  show ?thesis
    unfolding rest(1) ups
    by (simp add: icmp_write_def write_at_def z u32_to_be_def rest(2) u16_to_be_def)
qed

lemma odd_checksum: "odd (length bs) \<Longrightarrow> compute_internet_checksum bs = None"
proof -
  have "odd (length bs) \<Longrightarrow> sum_words s bs = None" for s
    by (induction s bs rule: sum_words.induct) auto
  then show "odd (length bs) \<Longrightarrow> compute_internet_checksum bs = None"
    by (simp add: compute_internet_checksum_def)
qed

text \<open>C39: The ICMP message that answers an echo request is built with a checksum that verifies when its
  payload has an even length; an echo request with an odd payload makes the kernel panic.\<close>

theorem echo_reply_iff_even:
  assumes "layers_to_construct p = ls @ [FIcmp f]" and "length (fl_payload f) \<le> 65536"
    and "pkt_length p < 65536"
  shows "if even (length (fl_payload f))
     then \<exists>d q c. icmp_construct junk p = Some (d, q) \<and> chunks q = c # chunks p \<and> compute_internet_checksum c = Some 0
     else icmp_construct junk p = None"
proof (cases "even (length (fl_payload f))")
  case True
  let ?xs = "[fl_icmp_type f, fl_code f]" and ?ys = "u32_to_be (fl_data f) @ fl_payload f"
  have "even (length ?xs)" "even (length ?ys)" "length ?xs + length ?ys + 2 \<le> 131072" using True assms(2) by simp_all
  from checksum_fill [OF this] obtain c where
    c: "compute_internet_checksum (?xs @ [0, 0] @ ?ys) = Some c" "compute_internet_checksum (?xs @ u16_to_be c @ ?ys) = Some 0"
    by blast
  let ?c = "?xs @ u16_to_be c @ ?ys"
  have w: "icmp_write f (fresh_chunk junk (8 + length (fl_payload f))) = Some ?c"
    using c(1) by (simp add: icmp_write_bytes)
  have "\<exists>d q. icmp_construct junk p = Some (d, q) \<and> chunks q = ?c # chunks p"
    using assms w by (simp add: icmp_construct_def pop_layer_def insert_chunk_front_def push_layer_def checked_add_def)
  with c(2) True show ?thesis by auto
next
  case False
  then have "icmp_write f (fresh_chunk junk (8 + length (fl_payload f))) = None"
    by (simp add: icmp_write_bytes odd_checksum)
  then show ?thesis using assms(1) False by (simp add: icmp_construct_def pop_layer_def)
qed

theorem echo_reply_iff_even_witness:
  "\<exists>p r. packet_new [] OtherSource = Some p \<and>
     icmp_request \<lparr>fl_icmp_type = 0, fl_code = 0, fl_icmp_address = address_pair (Ipv4Address 10 0 0 2) (Ipv4Address 10 0 0 1),
       fl_data = 1, fl_payload = [1, 2, 3]\<rparr> OtherSource = Some r \<and>
     icmp_construct (\<lambda>_. 0) (pir_data r) = None"
proof -
  let ?f = "\<lparr>fl_icmp_type = 0, fl_code = 0, fl_icmp_address = address_pair (Ipv4Address 10 0 0 2) (Ipv4Address 10 0 0 1),
       fl_data = 1, fl_payload = [1, 2, 3]\<rparr>"
  obtain p where p: "packet_new [] OtherSource = Some p" "pkt_length p = 0" by (simp add: packet_new_def)
  then show ?thesis
    using echo_reply_iff_even [of "p\<lparr>layers_to_construct := [FIcmp ?f]\<rparr>" "[]" ?f "\<lambda>_. 0"]
    by (simp add: icmp_request_def)
qed

end
