(* ===== verification/Interleaving.thy ===== *)
theory Interleaving
  imports Prelude
begin

text \<open>
  Concurrent use of a shared object: a list of threads, each at a program point, and the shared
  memory. One step lets one thread execute one atomic operation; \<open>next i pc m\<close> lists the program
  points and memories thread \<open>i\<close> can go to. Operations are atomic and seen by all threads in the
  same order. The contract \<open>counted_lock\<close> of a lock counts the threads at each kind of program
  point and relates the counts to the memory; mutual exclusion follows from it once for all locks.
\<close>

type_synonym ('pc, 'm) system = "'m \<times> 'pc list"

inductive sys_step ::
  "(nat \<Rightarrow> 'pc \<Rightarrow> 'm \<Rightarrow> ('pc \<times> 'm) list) \<Rightarrow> ('pc, 'm) system \<Rightarrow> ('pc, 'm) system \<Rightarrow> bool"
  for next_of where
  thread_step: "i < length pcs \<Longrightarrow> (pc', m') \<in> set (next_of i (pcs ! i) m) \<Longrightarrow>
     sys_step next_of (m, pcs) (m', pcs[i := pc'])"

inductive_cases sys_stepE: "sys_step next_of (m, pcs) s'"

text \<open>A run given by its schedule: which thread moves and which of its moves it takes.\<close>

fun run_schedule ::
  "(nat \<Rightarrow> 'pc \<Rightarrow> 'm \<Rightarrow> ('pc \<times> 'm) list) \<Rightarrow> (nat \<times> nat) list \<Rightarrow> ('pc, 'm) system \<Rightarrow> ('pc, 'm) system option" where
  "run_schedule next_of [] s = Some s"
| "run_schedule next_of ((i, c) # sched) (m, pcs) =
     (if i < length pcs \<and> c < length (next_of i (pcs ! i) m)
      then run_schedule next_of sched
             (snd (next_of i (pcs ! i) m ! c), pcs[i := fst (next_of i (pcs ! i) m ! c)])
      else None)"

lemma run_schedule_reaches: "run_schedule next_of sched s = Some s' \<Longrightarrow> (sys_step next_of)\<^sup>*\<^sup>* s s'"
proof (induction next_of sched s rule: run_schedule.induct)
  case (2 next_of i c sched m pcs)
  let ?r = "next_of i (pcs ! i) m ! c"
  from 2(2) have c: "i < length pcs" "c < length (next_of i (pcs ! i) m)" by (auto split: if_splits)
  then have "(fst ?r, snd ?r) \<in> set (next_of i (pcs ! i) m)" by simp
  then have "sys_step next_of (m, pcs) (snd ?r, pcs[i := fst ?r])" using c(1) by (rule thread_step [rotated])
  moreover have "(sys_step next_of)\<^sup>*\<^sup>* (snd ?r, pcs[i := fst ?r]) s'" using 2 c by simp
  ultimately show ?case by (rule converse_rtranclp_into_rtranclp)
qed simp

lemma sys_step_length: "sys_step next_of (m, pcs) (m', pcs') \<Longrightarrow> length pcs' = length pcs"
  by (auto elim!: sys_stepE)

section \<open>Counting threads\<close>

definition census :: "('k \<Rightarrow> 'pc \<Rightarrow> nat) \<Rightarrow> 'pc list \<Rightarrow> 'k \<Rightarrow> nat" where
  "census cnt pcs k = sum_list (map (cnt k) pcs)"

lemma sum_list_nth_le: "i < length xs \<Longrightarrow> f (xs ! i) \<le> sum_list (map f xs)" for f :: "'a \<Rightarrow> nat"
  by (metis elem_le_sum_list length_map nth_map)

lemma census_ge: "i < length pcs \<Longrightarrow> cnt k (pcs ! i) \<le> census cnt pcs k"
  unfolding census_def by (rule sum_list_nth_le)

lemma census_update:
  assumes "i < length pcs"
  shows "census cnt (pcs[i := pc]) k = census cnt pcs k - cnt k (pcs ! i) + cnt k pc"
  using assms unfolding census_def
proof (induction pcs arbitrary: i)
  case (Cons p pcs)
  show ?case
  proof (cases i)
    case (Suc j)
    then have j: "j < length pcs" using Cons.prems by simp
    from sum_list_nth_le [OF this, of "cnt k"] Cons.IH [OF j] Suc show ?thesis by simp
  qed simp
qed simp

lemma census_two:
  assumes "i < length pcs" and "j < length pcs" and "i \<noteq> j"
  shows "cnt k (pcs ! i) + cnt k (pcs ! j) \<le> census cnt pcs k"
proof -
  show ?thesis
    using assms unfolding census_def
  proof (induction pcs arbitrary: i j)
    case (Cons p pcs)
    show ?case
    proof (cases i)
      case 0
      then obtain j' where j': "j = Suc j'" "j' < length pcs" using Cons.prems by (cases j) auto
      with 0 sum_list_nth_le [of j' pcs "cnt k"] show ?thesis by simp
    next
      case (Suc i')
      show ?thesis
      proof (cases j)
        case 0
        with Suc Cons.prems sum_list_nth_le [of i' pcs "cnt k"] show ?thesis by simp
      next
        case (Suc j')
        with \<open>i = Suc i'\<close> Cons show ?thesis by (simp add: trans_le_add2)
      qed
    qed
  qed simp
qed

lemma census_le_length: "(\<And>pc. cnt k pc \<le> 1) \<Longrightarrow> census cnt pcs k \<le> length pcs"
  unfolding census_def by (induction pcs) (auto intro: le_trans [OF add_mono])

section \<open>The contract of a lock\<close>

locale counted_lock =
  fixes next_of :: "nat \<Rightarrow> 'pc \<Rightarrow> 'm \<Rightarrow> ('pc \<times> 'm) list"
    and cnt :: "'k \<Rightarrow> 'pc \<Rightarrow> nat"
    and pc_ok :: "'pc \<Rightarrow> bool"
    and ok :: "'m \<Rightarrow> ('k \<Rightarrow> nat) \<Rightarrow> bool"
    and limit :: nat
  assumes cnt_le: "cnt k pc \<le> 1"
    and law: "(pc', m') \<in> set (next_of i pc m) \<Longrightarrow> pc_ok pc \<Longrightarrow> (\<And>k. cnt k pc \<le> T k) \<Longrightarrow>
      (\<And>k. T k - cnt k pc + cnt k pc' \<le> limit) \<Longrightarrow>
      ok m T \<Longrightarrow> pc_ok pc' \<and> ok m' (\<lambda>k. T k - cnt k pc + cnt k pc')"
begin

lemma step_ok:
  assumes "sys_step next_of (m, pcs) (m', pcs')" and "length pcs \<le> limit"
    and "ok m (census cnt pcs)" and "\<forall>pc \<in> set pcs. pc_ok pc"
  shows "ok m' (census cnt pcs') \<and> (\<forall>pc \<in> set pcs'. pc_ok pc)"
proof -
  from assms(1) obtain i pc' where i: "i < length pcs" "(pc', m') \<in> set (next_of i (pcs ! i) m)" "pcs' = pcs[i := pc']"
    by (auto elim!: sys_stepE)
  have eq: "census cnt pcs' k = census cnt pcs k - cnt k (pcs ! i) + cnt k pc'" for k
    unfolding i(3) by (rule census_update [OF i(1)])
  have "census cnt pcs' k \<le> limit" for k
    using census_le_length [of cnt k pcs'] cnt_le assms(2) i(3) by (metis le_trans length_list_update)
  then have "pc_ok pc' \<and> ok m' (\<lambda>k. census cnt pcs k - cnt k (pcs ! i) + cnt k pc')"
    using i assms(3,4) by (intro law [OF i(2)]) (auto intro: census_ge simp flip: eq)
  moreover have "census cnt pcs' = (\<lambda>k. census cnt pcs k - cnt k (pcs ! i) + cnt k pc')"
    by (rule ext) (rule eq)
  ultimately show ?thesis
    using assms(4) i(3) by (auto dest: set_update_subset_insert [THEN subsetD])
qed

lemma reach_ok:
  assumes "(sys_step next_of)\<^sup>*\<^sup>* (m, pcs) (m', pcs')" and "length pcs \<le> limit"
    and "ok m (census cnt pcs)" and "\<forall>pc \<in> set pcs. pc_ok pc"
  shows "ok m' (census cnt pcs') \<and> (\<forall>pc \<in> set pcs'. pc_ok pc) \<and> length pcs' = length pcs"
  using assms(1)
proof (induction "(m', pcs')" arbitrary: m' pcs' rule: rtranclp_induct)
  case base
  then show ?case using assms by simp
next
  case (step y)
  obtain m1 pcs1 where y: "y = (m1, pcs1)" by (cases y)
  from step(3) [OF y] step(2) [unfolded y] assms(2) show ?case
    using step_ok [of m1 pcs1] sys_step_length [of next_of m1 pcs1] by simp
qed

end

text \<open>A lock whose memory allows one writer or any number of readers.\<close>

locale exclusive_lock = counted_lock +
  fixes writing holding :: "'a \<Rightarrow> bool" and rd wr :: 'c
  assumes writer_counts: "writing pc \<Longrightarrow> cnt wr pc = 1"
    and holder_counts: "holding pc \<Longrightarrow> cnt wr pc = 1 \<or> cnt rd pc = 1"
    and exclusive: "ok m T \<Longrightarrow> T wr = 0 \<or> (T wr = 1 \<and> T rd = 0)"
begin

lemma no_other_holder:
  assumes "ok m (census cnt pcs)" and "i < length pcs" and "j < length pcs" and "i \<noteq> j"
    and "writing (pcs ! i)"
  shows "\<not> holding (pcs ! j)"
proof
  assume "holding (pcs ! j)"
  with holder_counts consider "cnt wr (pcs ! j) = 1" | "cnt rd (pcs ! j) = 1" by blast
  then show False
  proof cases
    case 1
    with census_two [of i pcs j cnt wr] assms writer_counts exclusive [OF assms(1)] show False by simp
  next
    case 2
    with census_ge [of j pcs cnt rd] census_ge [of i pcs cnt wr] assms writer_counts exclusive [OF assms(1)] show False
      by fastforce
  qed
qed

lemma mutual_exclusion:
  assumes "(sys_step next_of)\<^sup>*\<^sup>* (m, pcs) (m', pcs')" and "length pcs \<le> limit"
    and "ok m (census cnt pcs)" and "\<forall>pc \<in> set pcs. pc_ok pc"
    and "i < length pcs" and "j < length pcs" and "i \<noteq> j" and "writing (pcs' ! i)"
  shows "\<not> holding (pcs' ! j)"
  using reach_ok [OF assms(1-4)] assms(5-8) no_other_holder by metis

end

end
