(* ===== verification/SpinLocks.thy ===== *)
theory SpinLocks
  imports Interleaving
begin

text \<open>
  The spinning locks of \<open>std/src/sync\<close>: \<open>NoIntSpinlock\<close> (\<open>no_int_spinlock.rs\<close>), \<open>RWSpinlock\<close>
  (\<open>rw_lock.rs\<close>) and \<open>OnceLock\<close> (\<open>once_lock.rs\<close>). A program point is the next atomic operation of
  a thread inside a lock operation; a thread that loads a value keeps it. The interrupt flag and
  the lock statistics, which every lock updates on its own processor, are in \<open>LockStatistics\<close>.
\<close>

section \<open>NoIntSpinlock\<close>

datatype spin_pc = SpinIdle | SpinTry | SpinHeld

fun spin_next :: "nat \<Rightarrow> spin_pc \<Rightarrow> u8 \<Rightarrow> (spin_pc \<times> u8) list" where
  "spin_next i SpinIdle m = [(SpinTry, m)]"
| "spin_next i SpinTry m = (if m = 0 then [(SpinHeld, 1)] else [(SpinTry, m)])"
| "spin_next i SpinHeld m = [(SpinIdle, 0)]"

datatype lock_kind = Rd | Wr

fun spin_count :: "lock_kind \<Rightarrow> spin_pc \<Rightarrow> nat" where
  "spin_count Wr SpinHeld = 1"
| "spin_count _ _ = 0"

definition spin_ok :: "u8 \<Rightarrow> (lock_kind \<Rightarrow> nat) \<Rightarrow> bool" where
  "spin_ok m T \<longleftrightarrow> T Rd = 0 \<and> T Wr \<le> 1 \<and> (m = 0 \<longleftrightarrow> T Wr = 0)"

interpretation spin: exclusive_lock spin_next spin_count "\<lambda>_. True" spin_ok "length pcs"
  "\<lambda>pc. pc = SpinHeld" "\<lambda>pc. pc = SpinHeld" Rd Wr for pcs :: "spin_pc list"
proof unfold_locales
  show "spin_count k pc \<le> 1" for k pc by (cases k; cases pc) simp_all
  show "True \<and> spin_ok m' (\<lambda>k. T k - spin_count k pc + spin_count k pc')"
    if "(pc', m') \<in> set (spin_next i pc m)" and "\<And>k. spin_count k pc \<le> T k" and "spin_ok m T" for pc' m' i pc m T
    using that(1,3) that(2) [of Wr] by (cases pc) (auto simp: spin_ok_def split: if_splits)
qed (auto simp: spin_ok_def)

section \<open>RWSpinlock\<close>

text \<open>\<open>DropLoaded rd s\<close> is the destructor of a read or write guard after its load; \<open>UpLoaded\<close>, \<open>UpSet\<close>
  and \<open>UpWait\<close> are \<open>upgrade_to_write\<close> before \<open>fetch_or\<close>, before \<open>fetch_sub\<close> and in its loop;
  \<open>DownLoaded\<close> is \<open>downgrade_to_read\<close> before its store. A failed assertion is \<open>RwPanicked\<close>.\<close>

datatype rw_pc =
    RwIdle | ReadLoad | ReadCas u16 | Reading | WriteLoad | WriteCas | Writing
  | DropLoaded bool u16 | DownLoaded | UpLoaded | UpSet | UpWait | RwPanicked

fun rw_next :: "bool \<Rightarrow> nat \<Rightarrow> rw_pc \<Rightarrow> u16 \<Rightarrow> (rw_pc \<times> u16) list" where
  "rw_next upgrades i RwIdle m = [(ReadLoad, m), (WriteLoad, m)]"
| "rw_next upgrades i ReadLoad m = (if m AND 0x8000 \<noteq> 0 then [(ReadLoad, m)] else [(ReadCas m, m)])"
| "rw_next upgrades i (ReadCas s) m = (if m = s then [(Reading, s + 1)] else [(ReadLoad, m)])"
| "rw_next upgrades i Reading m =
     (DropLoaded True m, m) #
     (if upgrades then [(if m AND 0x8000 = 0 \<and> 1 \<le> m then UpLoaded else RwPanicked, m)] else [])"
| "rw_next upgrades i WriteLoad m = (if m \<noteq> 0 then [(WriteLoad, m)] else [(WriteCas, m)])"
| "rw_next upgrades i WriteCas m = (if m = 0 then [(Writing, 0x8000)] else [(WriteLoad, m)])"
| "rw_next upgrades i Writing m =
     [(DropLoaded False m, m), (if m AND 0x8000 = 0x8000 then DownLoaded else RwPanicked, m)]"
| "rw_next upgrades i (DropLoaded rd s) m = (if s AND 0x8000 \<noteq> 0 then [(RwIdle, 0)] else [(RwIdle, m - 1)])"
| "rw_next upgrades i DownLoaded m = [(Reading, 1)]"
| "rw_next upgrades i UpLoaded m = [(UpSet, m OR 0x8000)]"
| "rw_next upgrades i UpSet m = [(UpWait, m - 1)]"
| "rw_next upgrades i UpWait m = (if m = 0x8000 then [(Writing, m)] else [(UpWait, m)])"
| "rw_next upgrades i RwPanicked m = []"

definition is_only_lock :: "u16 \<Rightarrow> bool" where
  "is_only_lock m \<longleftrightarrow> m = 0x8000 \<or> m = 1"

fun rw_count :: "lock_kind \<Rightarrow> rw_pc \<Rightarrow> nat" where
  "rw_count Rd Reading = 1"
| "rw_count Rd (DropLoaded True s) = 1"
| "rw_count Wr Writing = 1"
| "rw_count Wr (DropLoaded False s) = 1"
| "rw_count Wr DownLoaded = 1"
| "rw_count _ _ = 0"

fun rw_pc_ok :: "rw_pc \<Rightarrow> bool" where
  "rw_pc_ok (ReadCas s) = (s AND 0x8000 = 0)"
| "rw_pc_ok (DropLoaded rd s) = ((s AND 0x8000 = 0) = rd)"
| "rw_pc_ok pc = (pc \<notin> {UpLoaded, UpSet, UpWait, RwPanicked})"

definition rw_ok :: "u16 \<Rightarrow> (lock_kind \<Rightarrow> nat) \<Rightarrow> bool" where
  "rw_ok m T \<longleftrightarrow>
     (if T Wr = 0 then unat m = T Rd \<and> T Rd < 32768 else T Wr = 1 \<and> T Rd = 0 \<and> m = 0x8000)"

lemma u16_bit15: "m AND 0x8000 = 0 \<longleftrightarrow> unat (m :: u16) < 32768"
proof -
  have c: "(0x8000 :: u16) = 2 ^ 15" by simp
  have "m AND 0x8000 = 0 \<longleftrightarrow> \<not> bit (unat m) 15"
    unfolding c by (simp only: and_exp_eq_0_iff_not_bit) (simp add: bit_unsigned_iff bit_imp_le_length)
  also have "\<dots> \<longleftrightarrow> even (unat m div 32768)" by (simp add: bit_iff_odd)
  also have "\<dots> \<longleftrightarrow> unat m < 32768"
  proof -
    have "unat m < 65536" using unsigned_less [of m] by simp
    then have "unat m div 32768 < 2" by (simp add: less_mult_imp_div_less)
    then have "even (unat m div 32768) \<longleftrightarrow> unat m div 32768 = 0" by (cases "unat m div 32768") auto
    then show ?thesis by (simp add: div_eq_0_iff)
  qed
  finally show ?thesis .
qed

lemma rw_count_le: "rw_count k pc \<le> 1"
  by (induction k pc rule: rw_count.induct) simp_all

lemma rw_ok_bits:
  assumes "rw_ok m T"
  shows "m AND 0x8000 = 0 \<longleftrightarrow> T Wr = 0"
  using assms by (auto simp: rw_ok_def u16_bit15 split: if_splits)

lemma rw_law:
  assumes "(pc', m') \<in> set (rw_next False i pc m)" and "rw_pc_ok pc" and "\<And>k. rw_count k pc \<le> T k"
    and "\<And>k. T k - rw_count k pc + rw_count k pc' \<le> 32767" and "rw_ok m T"
  shows "rw_pc_ok pc' \<and> rw_ok m' (\<lambda>k. T k - rw_count k pc + rw_count k pc')"
proof -
  note facts = assms(1,2) assms(3) [of Rd] assms(3) [of Wr] assms(4) [of Rd] assms(5) rw_ok_bits [OF assms(5)]
  have inc: "unat (m + 1) = unat m + 1" if "unat m < 32767"
    using that by (simp add: unat_word_ariths)
  have dec: "unat (m - 1) = unat m - 1" if "1 \<le> unat m"
    using that by (simp add: unat_sub word_le_nat_alt)
  show ?thesis
  proof (cases pc)
    case (ReadCas s)
    then show ?thesis using facts inc by (auto simp: rw_ok_def u16_bit15 split: if_splits)
  next
    case (DropLoaded rd s)
    then show ?thesis using facts dec by (cases rd) (auto simp: rw_ok_def u16_bit15 split: if_splits)
  qed (use facts in \<open>auto simp: rw_ok_def split: if_splits\<close>)
qed

interpretation rw: exclusive_lock "rw_next False" rw_count rw_pc_ok rw_ok 32767
  "\<lambda>pc. pc = Writing" "\<lambda>pc. pc = Writing \<or> pc = Reading" Rd Wr
proof unfold_locales
  show "rw_count k pc \<le> 1" for k pc by (rule rw_count_le)
  show "rw_pc_ok pc' \<and> rw_ok m' (\<lambda>k. T k - rw_count k pc + rw_count k pc')"
    if "(pc', m') \<in> set (rw_next False i pc m)" and "rw_pc_ok pc" and "\<And>k. rw_count k pc \<le> T k"
      and "\<And>k. T k - rw_count k pc + rw_count k pc' \<le> 32767" and "rw_ok m T" for pc' m' i pc m T
    using that by (rule rw_law)
qed (auto simp: rw_ok_def split: if_splits)

section \<open>Properties\<close>

text \<open>\<open>NoIntSpinlock\<close> is mutually exclusive: in every interleaving of any number of threads, no two
  threads hold the lock at the same time.\<close>

theorem spinlock_mutual_exclusion:
  assumes "(sys_step spin_next)\<^sup>*\<^sup>* (0, replicate n SpinIdle) (m, pcs)"
    and "i < n" and "j < n" and "i \<noteq> j" and "pcs ! i = SpinHeld"
  shows "pcs ! j \<noteq> SpinHeld"
proof -
  have "census spin_count (replicate n SpinIdle) k = 0" for k by (cases k) (simp_all add: census_def sum_list_replicate)
  then show ?thesis
    using spin.mutual_exclusion [of 0 "replicate n SpinIdle" m pcs "replicate n SpinIdle" i j] assms
    by (simp add: spin_ok_def)
qed

text \<open>C16: Without upgrades, \<open>RWSpinlock\<close> is a readers-writer lock for up to 32767 threads: in every
  interleaving of \<open>lock_read\<close>, \<open>lock_write\<close>, \<open>downgrade_to_read\<close> and the destructors, a thread
  that writes excludes every other reader and writer, and no assertion of the lock fails.\<close>

theorem rw_lock_mutual_exclusion:
  assumes "(sys_step (rw_next False))\<^sup>*\<^sup>* (0, replicate n RwIdle) (m, pcs)" and "n \<le> 32767"
    and "i < n" and "j < n" and "i \<noteq> j"
  shows "(pcs ! i = Writing \<longrightarrow> pcs ! j \<noteq> Writing \<and> pcs ! j \<noteq> Reading) \<and> pcs ! i \<noteq> RwPanicked"
proof -
  have z: "census rw_count (replicate n RwIdle) k = 0" for k by (cases k) (simp_all add: census_def sum_list_replicate)
  have ok: "rw_ok 0 (census rw_count (replicate n RwIdle))" by (simp add: rw_ok_def z)
  have pc: "\<forall>pc \<in> set (replicate n RwIdle). rw_pc_ok pc" by auto
  from rw.reach_ok [OF assms(1) _ ok pc] assms(2,3) have "rw_pc_ok (pcs ! i)" by simp
  then show ?thesis
    using rw.mutual_exclusion [OF assms(1) _ ok pc, of i j] assms by auto
qed

theorem rw_lock_mutual_exclusion_witness:
  "\<exists>m pcs. (sys_step (rw_next False))\<^sup>*\<^sup>* (0, replicate 2 RwIdle) (m, pcs) \<and> pcs ! 0 = Writing \<and> pcs ! 1 \<noteq> Reading"
proof -
  have "run_schedule (rw_next False) [(0, 1), (0, 0), (0, 0), (1, 0), (1, 0)] (0, replicate 2 RwIdle) =
      Some (0x8000, [Writing, ReadLoad])" by code_simp
  from run_schedule_reaches [OF this]
  have r: "(sys_step (rw_next False))\<^sup>*\<^sup>* (0, replicate 2 RwIdle) (0x8000, [Writing, ReadLoad])" .
  have "[Writing, ReadLoad] ! 1 \<noteq> Reading" using rw_lock_mutual_exclusion [OF r, of 0 1] by simp
  with r show ?thesis by (intro exI [of _ "0x8000"] exI [of _ "[Writing, ReadLoad]"] conjI) simp_all
qed

text \<open>C33: \<open>upgrade_to_write\<close> breaks the lock: while one of two readers waits for the other one to leave,
  the destructor of the other one sees the write bit and stores zero; a third thread then takes
  the write lock, and its value makes the waiting thread believe it is alone: two threads write.\<close>

theorem rw_upgrade_two_writers:
  "(sys_step (rw_next True))\<^sup>*\<^sup>* (0, [RwIdle, RwIdle, RwIdle]) (0x8000, [Writing, RwIdle, Writing])"
proof -
  have "run_schedule (rw_next True)
      [(0, 0), (0, 0), (0, 0), (1, 0), (1, 0), (1, 0), (0, 1), (0, 0), (0, 0), (1, 0), (1, 0), (2, 1), (2, 0), (2, 0), (0, 0)]
      (0, [RwIdle, RwIdle, RwIdle]) = Some (0x8000, [Writing, RwIdle, Writing])" by code_simp
  then show ?thesis by (rule run_schedule_reaches)
qed

end
