(* ===== verification/AsyncLocks.thy ===== *)
theory AsyncLocks
  imports SpinLocks
begin

text \<open>
  The locks for asynchronous tasks, \<open>AsyncSpinlock\<close> (\<open>async_lock.rs\<close>) and \<open>AsyncRWlock\<close>
  (\<open>async_rw_lock.rs\<close>). A task that cannot proceed registers its waker and is parked until it is
  woken; the list of wakers is guarded by a spinlock, so an access to it is one step. The tasks
  that are woken and not yet polled again are part of the memory. A task that blocks a processor
  (\<open>is_blocking_task\<close>, here \<open>bl i\<close>) registers no waker: it is polled in a loop.
\<close>

section \<open>AsyncSpinlock\<close>

record 's async_mem =
  astate :: 's
  wakers :: "nat list"
  woken :: "nat list"

text \<open>\<open>AsyncWait\<close>: the exchange failed and the waker is not yet registered. \<open>AsyncWake\<close>: the destructor
  after its store.\<close>

datatype async_pc = AsyncIdle | AsyncPoll | AsyncWait | AsyncParked | AsyncHeld | AsyncWake

fun async_next :: "(nat \<Rightarrow> bool) \<Rightarrow> nat \<Rightarrow> async_pc \<Rightarrow> u8 async_mem \<Rightarrow> (async_pc \<times> u8 async_mem) list" where
  "async_next bl i AsyncIdle m = [(AsyncPoll, m)]"
| "async_next bl i AsyncPoll m = (if astate m = 0 then [(AsyncHeld, m\<lparr>astate := 1\<rparr>)] else [(AsyncWait, m)])"
| "async_next bl i AsyncWait m = [if bl i then (AsyncPoll, m) else (AsyncParked, m\<lparr>wakers := i # wakers m\<rparr>)]"
| "async_next bl i AsyncParked m =
     (if i \<in> set (woken m) then [(AsyncPoll, m\<lparr>woken := filter (\<lambda>j. j \<noteq> i) (woken m)\<rparr>)] else [])"
| "async_next bl i AsyncHeld m = [(AsyncWake, m\<lparr>astate := 0\<rparr>)]"
| "async_next bl i AsyncWake m =
     (case wakers m of
        [] \<Rightarrow> [(AsyncIdle, m)]
      | w # ws \<Rightarrow> [(AsyncIdle, m\<lparr>wakers := ws, woken := w # woken m\<rparr>)])"

definition async_new :: "('s :: zero) async_mem" where
  "async_new = \<lparr>astate = 0, wakers = [], woken = []\<rparr>"

fun async_count :: "lock_kind \<Rightarrow> async_pc \<Rightarrow> nat" where
  "async_count Wr AsyncHeld = 1"
| "async_count _ _ = 0"

definition async_ok :: "u8 async_mem \<Rightarrow> (lock_kind \<Rightarrow> nat) \<Rightarrow> bool" where
  "async_ok m T \<longleftrightarrow> T Rd = 0 \<and> T Wr \<le> 1 \<and> (astate m = 0 \<longleftrightarrow> T Wr = 0)"

interpretation async: exclusive_lock "async_next bl" async_count "\<lambda>_. True" async_ok "length pcs"
  "\<lambda>pc. pc = AsyncHeld" "\<lambda>pc. pc = AsyncHeld" Rd Wr for bl and pcs :: "async_pc list"
proof unfold_locales
  show "async_count k pc \<le> 1" for k pc by (cases k; cases pc) simp_all
  show "True \<and> async_ok m' (\<lambda>k. T k - async_count k pc + async_count k pc')"
    if "(pc', m') \<in> set (async_next bl i pc m)" and "\<And>k. async_count k pc \<le> T k" and "async_ok m T" for pc' m' i pc m T
    using that(1,3) that(2) [of Wr] by (cases pc) (auto simp: async_ok_def split: if_splits list.splits)
qed (auto simp: async_ok_def)

section \<open>AsyncRWlock\<close>

text \<open>\<open>BeforeSet up\<close>, \<open>BeforeCas up s\<close> and \<open>AfterSet up\<close> are the two futures of \<open>lock_write\<close> and, with
  \<open>up\<close>, of \<open>upgrade_to_write\<close>, whose read guard is dropped at the end (\<open>UpGot\<close> to \<open>UpWake\<close>). A
  future that waits first registers its waker (\<open>Register\<close>), with the point at which it is polled
  again, unless its task blocks. \<open>ReadLeft\<close> is the destructor of a read guard after \<open>fetch_sub\<close>, \<open>WakeAll\<close> before
  \<open>wake_all_tasks\<close>.\<close>

datatype arw_pc =
    ArwIdle | PollRead | PollCas u16 | ArwReading | BeforeSet bool | BeforeCas bool u16 | AfterSet bool
  | ArwWriting | ArwDrop bool u16 | ReadLeft | WakeAll | DownWake | UpGot | UpDrop u16 | UpLeft | UpWake
  | Register arw_pc | Parked arw_pc

fun arw_next :: "(nat \<Rightarrow> bool) \<Rightarrow> nat \<Rightarrow> arw_pc \<Rightarrow> u16 async_mem \<Rightarrow> (arw_pc \<times> u16 async_mem) list" where
  "arw_next bl i ArwIdle m = [(PollRead, m), (BeforeSet False, m)]"
| "arw_next bl i PollRead m =
     (if astate m AND 0x8000 \<noteq> 0 then [(Register PollRead, m)] else [(PollCas (astate m), m)])"
| "arw_next bl i (PollCas s) m =
     (if astate m = s then [(ArwReading, m\<lparr>astate := s + 1\<rparr>)] else [(Register PollRead, m)])"
| "arw_next bl i ArwReading m = [(ArwDrop True (astate m), m), (BeforeSet True, m)]"
| "arw_next bl i (BeforeSet up) m =
     (if astate m AND 0x8000 = 0x8000 then [(Register (BeforeSet up), m)] else [(BeforeCas up (astate m), m)])"
| "arw_next bl i (BeforeCas up s) m =
     (if astate m = s then [(AfterSet up, m\<lparr>astate := s OR 0x8000\<rparr>)] else [(BeforeSet up, m)])"
| "arw_next bl i (AfterSet up) m =
     (if astate m \<noteq> (if up then 0x8001 else 0x8000) then [(Register (AfterSet up), m)]
      else [(if up then UpGot else ArwWriting, m)])"
| "arw_next bl i ArwWriting m = [(ArwDrop False (astate m), m), (DownWake, m\<lparr>astate := 1\<rparr>)]"
| "arw_next bl i (ArwDrop rd s) m =
     (if s = 0x8000 then [(WakeAll, m\<lparr>astate := 0\<rparr>)] else [(ReadLeft, m\<lparr>astate := astate m - 1\<rparr>)])"
| "arw_next bl i ReadLeft m = (if astate m \<noteq> 0 then [(ArwIdle, m)] else [(WakeAll, m)])"
| "arw_next bl i WakeAll m = [(ArwIdle, m\<lparr>wakers := [], woken := wakers m @ woken m\<rparr>)]"
| "arw_next bl i DownWake m = [(ArwReading, m\<lparr>wakers := [], woken := wakers m @ woken m\<rparr>)]"
| "arw_next bl i UpGot m = [(UpDrop (astate m), m)]"
| "arw_next bl i (UpDrop s) m =
     (if s = 0x8000 then [(UpWake, m\<lparr>astate := 0\<rparr>)] else [(UpLeft, m\<lparr>astate := astate m - 1\<rparr>)])"
| "arw_next bl i UpLeft m = (if astate m \<noteq> 0 then [(ArwWriting, m)] else [(UpWake, m)])"
| "arw_next bl i UpWake m = [(ArwWriting, m\<lparr>wakers := [], woken := wakers m @ woken m\<rparr>)]"
| "arw_next bl i (Register pc) m = [if bl i then (pc, m) else (Parked pc, m\<lparr>wakers := i # wakers m\<rparr>)]"
| "arw_next bl i (Parked pc) m =
     (if i \<in> set (woken m) then [(pc, m\<lparr>woken := filter (\<lambda>j. j \<noteq> i) (woken m)\<rparr>)] else [])"

datatype arw_kind = ARd | AWr | APend | AUp

primrec arw_count :: "arw_kind \<Rightarrow> arw_pc \<Rightarrow> nat" where
  "arw_count ARd pc =
     (case pc of ArwReading \<Rightarrow> 1 | ArwDrop rd _ \<Rightarrow> of_bool rd | BeforeSet up \<Rightarrow> of_bool up
      | BeforeCas up _ \<Rightarrow> of_bool up | AfterSet up \<Rightarrow> of_bool up | DownWake \<Rightarrow> 1
      | Register (BeforeSet up) \<Rightarrow> of_bool up | Register (AfterSet up) \<Rightarrow> of_bool up
      | Parked (BeforeSet up) \<Rightarrow> of_bool up | Parked (AfterSet up) \<Rightarrow> of_bool up | _ \<Rightarrow> 0)"
| "arw_count AWr pc =
     (case pc of ArwWriting \<Rightarrow> 1 | ArwDrop rd _ \<Rightarrow> of_bool (\<not> rd) | UpLeft \<Rightarrow> 1 | UpWake \<Rightarrow> 1 | _ \<Rightarrow> 0)"
| "arw_count APend pc =
     (case pc of AfterSet _ \<Rightarrow> 1 | Register (AfterSet _) \<Rightarrow> 1 | Parked (AfterSet _) \<Rightarrow> 1 | _ \<Rightarrow> 0)"
| "arw_count AUp pc = (case pc of UpGot \<Rightarrow> 1 | UpDrop _ \<Rightarrow> 1 | _ \<Rightarrow> 0)"

fun arw_pc_ok :: "arw_pc \<Rightarrow> bool" where
  "arw_pc_ok (PollCas s) = (s AND 0x8000 = 0)"
| "arw_pc_ok (BeforeCas up s) = (s AND 0x8000 = 0)"
| "arw_pc_ok (ArwDrop rd s) = (rd = (s \<noteq> 0x8000))"
| "arw_pc_ok (UpDrop s) = (s \<noteq> 0x8000)"
| "arw_pc_ok UpWake = False"
| "arw_pc_ok (Register pc) = (case pc of PollRead \<Rightarrow> True | BeforeSet _ \<Rightarrow> True | AfterSet _ \<Rightarrow> True | _ \<Rightarrow> False)"
| "arw_pc_ok (Parked pc) = (case pc of PollRead \<Rightarrow> True | BeforeSet _ \<Rightarrow> True | AfterSet _ \<Rightarrow> True | _ \<Rightarrow> False)"
| "arw_pc_ok _ = True"

definition arw_ok :: "u16 async_mem \<Rightarrow> (arw_kind \<Rightarrow> nat) \<Rightarrow> bool" where
  "arw_ok m T \<longleftrightarrow>
     T AWr + T AUp + T APend \<le> 1 \<and> T ARd < 32768 \<and>
     unat (astate m) = (T AWr + T AUp + T APend) * 32768 + T ARd + T AUp \<and>
     (T AWr + T AUp = 1 \<longrightarrow> T ARd = 0)"

lemma arw_count_le: "arw_count k pc \<le> 1"
  by (cases k) (auto split: arw_pc.split)

lemma u16_bit15_set: "m AND 0x8000 = 0x8000 \<longleftrightarrow> m AND 0x8000 \<noteq> (0 :: u16)"
proof -
  have "m AND 2 ^ k = (if bit m k then 2 ^ k else 0)" for k
    by (rule bit_word_eqI) (auto simp: bit_simps)
  from this [of 15] show ?thesis by (auto split: if_splits)
qed

lemma unat_or_bit15: "s AND 0x8000 = 0 \<Longrightarrow> unat (s OR 0x8000 :: u16) = unat s + 32768"
  by (simp add: u16_bit15 disjunctive_add_eq_or [symmetric] unat_word_ariths)

lemma arw_ok_values:
  assumes "arw_ok m T"
  shows "1 \<le> T ARd \<Longrightarrow> astate m \<noteq> 0x8000" and "1 \<le> T AWr \<Longrightarrow> astate m = 0x8000"
    and "1 \<le> T APend \<Longrightarrow> astate m = 0x8001 \<Longrightarrow> T ARd = 1"
proof -
  let ?s = "T AWr + T AUp + T APend"
  have s: "?s = 0 \<or> ?s = 1" using assms by (auto simp: arw_ok_def)
  have u: "unat (astate m) = ?s * 32768 + T ARd + T AUp" "T ARd < 32768" "T AWr + T AUp = 1 \<longrightarrow> T ARd = 0"
    using assms by (simp_all add: arw_ok_def)
  have "unat (0x8000 :: u16) = 32768" by simp
  then have w: "astate m = 0x8000 \<longleftrightarrow> unat (astate m) = 32768" by (metis unsigned_word_eqI)
  show "1 \<le> T ARd \<Longrightarrow> astate m \<noteq> 0x8000" using s u unfolding w by auto
  show "1 \<le> T AWr \<Longrightarrow> astate m = 0x8000" using s u unfolding w by auto
  show "1 \<le> T APend \<Longrightarrow> astate m = 0x8001 \<Longrightarrow> T ARd = 1" using s u by auto
qed

lemma arw_law:
  assumes "(pc', m') \<in> set (arw_next bl i pc m)" and "arw_pc_ok pc" and "\<And>k. arw_count k pc \<le> T k"
    and "\<And>k. T k - arw_count k pc + arw_count k pc' \<le> 32767" and "arw_ok m T"
  shows "arw_pc_ok pc' \<and> arw_ok m' (\<lambda>k. T k - arw_count k pc + arw_count k pc')"
proof -
  note facts = assms(1,2) assms(3) [of ARd] assms(3) [of AWr] assms(3) [of AUp] assms(3) [of APend]
    assms(4) [of ARd] assms(5)
  note vals = arw_ok_values [OF assms(5)]
  have inc: "unat (astate m + 1) = unat (astate m) + 1" if "unat (astate m) < 65535"
    using that by (simp add: unat_word_ariths)
  have dec: "unat (astate m - 1) = unat (astate m) - 1" if "1 \<le> unat (astate m)"
    using that by (simp add: unat_sub word_le_nat_alt)
  show ?thesis
  proof (cases pc)
    case ArwReading
    then show ?thesis using facts vals(1) by (auto simp: arw_ok_def)
  next
    case ArwWriting
    then show ?thesis using facts vals(2) by (auto simp: arw_ok_def)
  next
    case (AfterSet up)
    then show ?thesis using facts vals(3) by (cases up) (auto simp: arw_ok_def split: if_splits)
  next
    case (PollCas s)
    then show ?thesis using facts inc by (auto simp: arw_ok_def u16_bit15 split: if_splits)
  next
    case (BeforeCas up s)
    then show ?thesis using facts unat_or_bit15 [of s] by (auto simp: arw_ok_def u16_bit15 split: if_splits)
  next
    case (ArwDrop rd s)
    then show ?thesis using facts dec by (cases rd) (auto simp: arw_ok_def split: if_splits)
  next
    case (UpDrop s)
    then show ?thesis using facts dec by (auto simp: arw_ok_def split: if_splits)
  next
    case (Register q)
    then show ?thesis using facts by (cases q) (auto simp: arw_ok_def split: if_splits)
  next
    case (Parked q)
    then show ?thesis using facts by (cases q) (auto simp: arw_ok_def split: if_splits)
  qed (use facts in \<open>auto simp: arw_ok_def u16_bit15 u16_bit15_set split: if_splits\<close>)
qed

interpretation arw: exclusive_lock "arw_next bl" arw_count arw_pc_ok arw_ok 32767
  "\<lambda>pc. pc = ArwWriting" "\<lambda>pc. pc = ArwWriting \<or> pc = ArwReading" ARd AWr for bl
proof unfold_locales
  show "arw_count k pc \<le> 1" for k pc by (rule arw_count_le)
  show "arw_pc_ok pc' \<and> arw_ok m' (\<lambda>k. T k - arw_count k pc + arw_count k pc')"
    if "(pc', m') \<in> set (arw_next bl i pc m)" and "arw_pc_ok pc" and "\<And>k. arw_count k pc \<le> T k"
      and "\<And>k. T k - arw_count k pc + arw_count k pc' \<le> 32767" and "arw_ok m T" for pc' m' i pc m T
    using that by (rule arw_law)
qed (auto simp: arw_ok_def)

section \<open>A writer that is never woken\<close>

text \<open>The points from which tasks are woken.\<close>

fun arw_wakes :: "arw_pc \<Rightarrow> bool" where
  "arw_wakes WakeAll = True"
| "arw_wakes DownWake = True"
| "arw_wakes UpWake = True"
| "arw_wakes _ = False"

lemma pending_step:
  assumes "(pc', m') \<in> set (arw_next bl j pc m)" and "arw_pc_ok pc" and "\<not> arw_wakes pc" and "astate m AND 0x8000 = 0x8000"
    and "arw_count AWr pc = 0" and "arw_count AUp pc = 0" and "arw_count APend pc = 0" and "arw_count ARd pc = 1 \<longrightarrow> astate m \<noteq> 0x8000"
  shows "\<not> arw_wakes pc' \<and> set (woken m') \<subseteq> set (woken m) \<and> arw_count ARd pc' \<le> arw_count ARd pc \<and> pc' \<noteq> ArwWriting"
proof -
  have bit: "astate m \<noteq> 0" using assms(4) by auto
  show ?thesis
  proof (cases pc)
    case (ArwDrop rd s)
    then show ?thesis using assms by (cases rd) auto
  next
    case (Register q)
    then show ?thesis using assms by (cases q) (auto split: if_splits)
  next
    case (Parked q)
    then show ?thesis using assms by (cases q) (auto split: if_splits)
  qed (use assms bit in \<open>auto split: if_splits\<close>)
qed

text \<open>Task \<open>i\<close> waits for the readers to leave, and nobody is about to wake it.\<close>

definition starved :: "nat \<Rightarrow> bool \<Rightarrow> arw_pc list \<Rightarrow> u16 async_mem \<times> arw_pc list \<Rightarrow> bool" where
  "starved i up pcs0 s \<longleftrightarrow>
     (case s of (m, pcs) \<Rightarrow> length pcs = length pcs0 \<and> i < length pcs \<and> pcs ! i = Parked (AfterSet up) \<and> i \<notin> set (woken m) \<and>
       (\<forall>pc \<in> set pcs. \<not> arw_wakes pc) \<and>
       (\<forall>j < length pcs. arw_count ARd (pcs ! j) \<le> arw_count ARd (pcs0 ! j) \<and> pcs ! j \<noteq> ArwWriting))"

lemma starved_step:
  assumes step: "sys_step (arw_next bl) (m, pcs) (m', pcs')" and ok: "arw_ok m (census arw_count pcs)" "\<forall>pc \<in> set pcs. arw_pc_ok pc"
    and st: "starved i up pcs0 (m, pcs)"
  shows "starved i up pcs0 (m', pcs')"
proof -
  from step obtain j pc' where j: "j < length pcs" "(pc', m') \<in> set (arw_next bl j (pcs ! j) m)" "pcs' = pcs[j := pc']"
    by (auto elim!: sys_stepE)
  have i: "i < length pcs" "pcs ! i = Parked (AfterSet up)" "i \<notin> set (woken m)" using st by (simp_all add: starved_def)
  have ne: "j \<noteq> i" using i j(2) by auto
  have "1 \<le> census arw_count pcs APend" using census_ge [OF i(1), of arw_count APend] i(2) by simp
  with ok(1) have T: "census arw_count pcs APend = 1" "census arw_count pcs AWr = 0" "census arw_count pcs AUp = 0"
    and u: "32768 \<le> unat (astate m)" by (auto simp: arw_ok_def)
  have bit: "astate m AND 0x8000 = 0x8000" using u by (simp add: u16_bit15_set u16_bit15)
  have zero: "arw_count AWr (pcs ! j) = 0" "arw_count AUp (pcs ! j) = 0" "arw_count APend (pcs ! j) = 0"
    using census_ge [OF j(1), of arw_count AWr] census_ge [OF j(1), of arw_count AUp] T
      census_two [OF i(1) j(1) ne [symmetric], of arw_count APend] i(2) by simp_all
  have rd: "arw_count ARd (pcs ! j) = 1 \<longrightarrow> astate m \<noteq> 0x8000"
    using arw_ok_values(1) [OF ok(1)] census_ge [OF j(1), of arw_count ARd] by auto
  have n: "\<not> arw_wakes pc'" "set (woken m') \<subseteq> set (woken m)" "arw_count ARd pc' \<le> arw_count ARd (pcs ! j)" "pc' \<noteq> ArwWriting"
    using pending_step [OF j(2) _ _ bit zero rd] ok(2) st j(1) by (auto simp: starved_def)
  then show ?thesis using st j(1,3) ne i
    by (auto simp: starved_def nth_list_update dest!: set_update_subset_insert [THEN subsetD] intro: le_trans)
qed

lemma starved_forever:
  assumes run: "(sys_step (arw_next bl))\<^sup>*\<^sup>* (m, pcs) (m', pcs')" and n: "length pcs \<le> 32767"
    and ok: "arw_ok m (census arw_count pcs)" "\<forall>pc \<in> set pcs. arw_pc_ok pc" and st: "starved i up pcs0 (m, pcs)"
  shows "starved i up pcs0 (m', pcs')"
  using run
proof (induction "(m', pcs')" arbitrary: m' pcs' rule: rtranclp_induct)
  case base
  then show ?case using st by simp
next
  case (step y)
  obtain m1 pcs1 where y: "y = (m1, pcs1)" by (cases y)
  from arw.reach_ok [OF step(1) [unfolded y] n ok] step(3) [OF y] step(2) [unfolded y] show ?case
    by (blast intro: starved_step)
qed

section \<open>Properties\<close>

text \<open>C28: \<open>AsyncRWlock\<close> is a readers-writer lock for up to 32767 tasks: in every interleaving of reads,
  writes, upgrades, downgrades and destructors, a task that writes excludes every other reader
  and writer.\<close>

theorem async_rw_mutual_exclusion:
  assumes "(sys_step (arw_next bl))\<^sup>*\<^sup>* (async_new, replicate n ArwIdle) (m, pcs)" and "n \<le> 32767"
    and "i < n" and "j < n" and "i \<noteq> j" and "pcs ! i = ArwWriting"
  shows "pcs ! j \<noteq> ArwWriting \<and> pcs ! j \<noteq> ArwReading"
proof -
  have z: "census arw_count (replicate n ArwIdle) k = 0" for k
    by (cases k) (simp_all add: census_def sum_list_replicate)
  have ok: "arw_ok async_new (census arw_count (replicate n ArwIdle))" by (simp add: arw_ok_def z async_new_def)
  have pc: "\<forall>pc \<in> set (replicate n ArwIdle). arw_pc_ok pc" by auto
  show ?thesis using arw.mutual_exclusion [OF assms(1) _ ok pc, of i j] assms by auto
qed

lemma arw_writer_run:
  "run_schedule (arw_next (\<lambda>_. False)) [(0, 1), (0, 0), (0, 0), (0, 0)] (async_new, [ArwIdle, ArwIdle]) =
     Some (\<lparr>astate = 0x8000, wakers = [], woken = []\<rparr>, [ArwWriting, ArwIdle])"
  by code_simp

theorem async_rw_mutual_exclusion_witness:
  "\<exists>m pcs. (sys_step (arw_next (\<lambda>_. False)))\<^sup>*\<^sup>* (async_new, replicate 2 ArwIdle) (m, pcs) \<and> pcs ! 0 = ArwWriting \<and> pcs ! 1 \<noteq> ArwReading"
proof -
  let ?m = "\<lparr>astate = 0x8000, wakers = [], woken = []\<rparr>" and ?pcs = "[ArwWriting, ArwIdle]"
  have e: "replicate 2 ArwIdle = [ArwIdle, ArwIdle]" by (simp add: numeral_2_eq_2)
  have r: "(sys_step (arw_next (\<lambda>_. False)))\<^sup>*\<^sup>* (async_new, replicate 2 ArwIdle) (?m, ?pcs)"
    unfolding e by (rule run_schedule_reaches [OF arw_writer_run])
  have "?pcs ! 1 \<noteq> ArwReading" using async_rw_mutual_exclusion [OF r, of 0 1] by simp
  with r show ?thesis by (intro exI [of _ ?m] exI [of _ ?pcs] conjI) simp_all
qed

text \<open>C29: Once the future of a writer (or, with \<open>up\<close>, of a reader that upgrades) has set the write bit and is parked
  behind the readers, \<open>AsyncRWlock\<close> is lost, unless a wake-up is still under way: no destructor of a
  read guard wakes it, because each finds the write bit and takes it for another reader. In every
  continuation, with any number of other tasks, blocking ones included, it stays parked, no task ever
  writes, and no task reads that did not hold the lock for reading before. In the witness the reader leaves, and the writer
  stays parked at a lock that is free for it.\<close>

theorem async_rw_writer_lost:
  assumes "(sys_step (arw_next bl))\<^sup>*\<^sup>* (async_new, replicate n ArwIdle) (m, pcs)" and "n \<le> 32767"
    and "i < n" and "pcs ! i = Parked (AfterSet up)" and "i \<notin> set (woken m)" and "\<forall>pc \<in> set pcs. \<not> arw_wakes pc"
    and "(sys_step (arw_next bl))\<^sup>*\<^sup>* (m, pcs) (m', pcs')" and "j < n"
  shows "pcs' ! i = Parked (AfterSet up) \<and> pcs' ! j \<noteq> ArwWriting \<and> (pcs' ! j = ArwReading \<longrightarrow> arw_count ARd (pcs ! j) = 1)"
proof -
  have z: "census arw_count (replicate n ArwIdle) k = 0" for k
    by (cases k) (simp_all add: census_def sum_list_replicate)
  have "arw_ok async_new (census arw_count (replicate n ArwIdle))" by (simp add: arw_ok_def z async_new_def)
  from arw.reach_ok [OF assms(1) _ this] assms(2) have ok: "arw_ok m (census arw_count pcs)" "\<forall>pc \<in> set pcs. arw_pc_ok pc" "length pcs = n"
    by auto
  have "1 \<le> census arw_count pcs APend" using census_ge [of i pcs arw_count APend] assms(3,4) ok(3) by simp
  with ok(1) have "census arw_count pcs AWr = 0" by (auto simp: arw_ok_def)
  then have "pcs ! k \<noteq> ArwWriting" if "k < n" for k using census_ge [of k pcs arw_count AWr] that ok(3) by auto
  then have "starved i up pcs (m, pcs)" using assms(3-6) ok(3) by (simp add: starved_def)
  from starved_forever [OF assms(7) _ ok(1,2) this] assms(2,8) ok(3)
  have "pcs' ! i = Parked (AfterSet up)" "pcs' ! j \<noteq> ArwWriting" "arw_count ARd (pcs' ! j) \<le> arw_count ARd (pcs ! j)"
    by (auto simp: starved_def)
  then show ?thesis using arw_count_le [of ARd "pcs ! j"] by auto
qed

theorem async_rw_writer_lost_witness:
  "\<exists>m pcs m' pcs'. (sys_step (arw_next (\<lambda>_. False)))\<^sup>*\<^sup>* (async_new, replicate 2 ArwIdle) (m, pcs) \<and>
     pcs = [ArwReading, Parked (AfterSet False)] \<and> (sys_step (arw_next (\<lambda>_. False)))\<^sup>*\<^sup>* (m, pcs) (m', pcs') \<and>
     astate m' = 0x8000 \<and> pcs' ! 0 = ArwIdle \<and> pcs' ! 1 = Parked (AfterSet False)"
proof -
  let ?R = "(sys_step (arw_next (\<lambda>_. False)))\<^sup>*\<^sup>*"
  let ?m = "\<lparr>astate = 0x8001, wakers = [1], woken = []\<rparr>" and ?pcs = "[ArwReading, Parked (AfterSet False)]"
  let ?m' = "\<lparr>astate = 0x8000, wakers = [1], woken = []\<rparr>" and ?pcs' = "[ArwIdle, Parked (AfterSet False)]"
  have "run_schedule (arw_next (\<lambda>_. False)) [(0, 0), (0, 0), (0, 0), (1, 1), (1, 0), (1, 0), (1, 0), (1, 0)] (async_new, [ArwIdle, ArwIdle]) =
      Some (?m, ?pcs)" by code_simp
  from run_schedule_reaches [OF this] have r: "?R (async_new, replicate 2 ArwIdle) (?m, ?pcs)" by (simp add: numeral_2_eq_2)
  have "run_schedule (arw_next (\<lambda>_. False)) [(0, 0), (0, 0), (0, 0)] (?m, ?pcs) = Some (?m', ?pcs')" by code_simp
  from run_schedule_reaches [OF this] have r': "?R (?m, ?pcs) (?m', ?pcs')" .
  have "?pcs' ! 1 = Parked (AfterSet False)" using async_rw_writer_lost [OF r _ _ _ _ _ r', of 1 False 0] by simp
  with r r' show ?thesis by (intro exI [of _ ?m] exI [of _ ?pcs] exI [of _ ?m'] exI [of _ ?pcs']) simp
qed

text \<open>\<open>AsyncSpinlock\<close> can lose a wake-up: a task whose attempt fails and that registers its waker only
  after the holder has released the lock and found no waker stays parked although the lock is
  free and nobody else uses it.\<close>

theorem async_lost_wakeup:
  "\<exists>m. (sys_step (async_next (\<lambda>_. False)))\<^sup>*\<^sup>* (async_new, [AsyncIdle, AsyncIdle]) (m, [AsyncParked, AsyncIdle]) \<and>
     astate m = 0 \<and> wakers m = [0] \<and> async_next (\<lambda>_. False) 0 AsyncParked m = []"
proof -
  have "run_schedule (async_next (\<lambda>_. False)) [(1, 0), (1, 0), (0, 0), (0, 0), (1, 0), (1, 0), (0, 0)] (async_new, [AsyncIdle, AsyncIdle]) =
      Some (\<lparr>astate = 0, wakers = [0], woken = []\<rparr>, [AsyncParked, AsyncIdle])" by code_simp
  from run_schedule_reaches [OF this] show ?thesis by fastforce
qed

text \<open>Two tasks never hold an \<open>AsyncSpinlock\<close> at the same time.\<close>

lemma async_spinlock_mutual_exclusion:
  assumes "(sys_step (async_next bl))\<^sup>*\<^sup>* (async_new, replicate n AsyncIdle) (m, pcs)"
    and "i < n" and "j < n" and "i \<noteq> j" and "pcs ! i = AsyncHeld"
  shows "pcs ! j \<noteq> AsyncHeld"
proof -
  have "census async_count (replicate n AsyncIdle) k = 0" for k
    by (cases k) (simp_all add: census_def sum_list_replicate)
  then show ?thesis
    using async.mutual_exclusion [of bl async_new "replicate n AsyncIdle" m pcs "replicate n AsyncIdle" i j] assms
    by (simp add: async_ok_def async_new_def)
qed

end
