(* ===== verification/LockStatistics.thy ===== *)
theory LockStatistics
  imports Prelude
begin

text \<open>
  The lock statistics of a processor (\<open>std/src/sync/lock_info.rs\<close>), the interrupt flag that every
  spinning lock saves and restores through them, and \<open>LocalLock\<close> (\<open>local_lock.rs\<close>), the lock for
  data of one processor. The flags register is the interrupt flag. The fields that exist only in
  debug builds are modelled; whether the heap is initialised is the argument \<open>heap\<close>.
\<close>

type_synonym LockLocationInfo = "string \<times> nat \<times> nat"

record LockInfo =
  num_no_int_spinlocks :: nat
  prev_int_state :: bool
  blocking_task :: bool
  locations :: "LockLocationInfo set"
  memory_locked :: nat

definition lock_info_new :: LockInfo where
  "lock_info_new = \<lparr>num_no_int_spinlocks = 0, prev_int_state = True, blocking_task = False, locations = {},
     memory_locked = 0\<rparr>"

text \<open>\<open>str::contains\<close>.\<close>

definition str_contains :: "string \<Rightarrow> string \<Rightarrow> bool" where
  "str_contains s pat \<longleftrightarrow> list_ex (\<lambda>i. take (length pat) (drop i s) = pat) [0..<length s + 1]"

definition is_mem_loc :: "LockLocationInfo \<Rightarrow> bool" where
  "is_mem_loc loc = str_contains (fst loc) ''memory''"

definition inc_spinlocks :: "bool \<Rightarrow> bool \<Rightarrow> LockLocationInfo \<Rightarrow> LockInfo \<Rightarrow> LockInfo option" where
  "inc_spinlocks heap prev loc info =
     checked_add 16 (num_no_int_spinlocks info) 1 \<bind> (\<lambda>n.
     let info1 = (if num_no_int_spinlocks info = 0
                  then info\<lparr>num_no_int_spinlocks := n, prev_int_state := prev\<rparr>
                  else info\<lparr>num_no_int_spinlocks := n\<rparr>)
     in (if is_mem_loc loc
         then checked_add 64 (memory_locked info1) 1 \<bind> (\<lambda>ml. Some (info1\<lparr>memory_locked := ml\<rparr>))
         else Some info1) \<bind> (\<lambda>info2.
        Some (if memory_locked info2 = 0 \<and> heap then info2\<lparr>locations := insert loc (locations info2)\<rparr> else info2)))"

definition dec_spinlocks :: "bool \<Rightarrow> LockLocationInfo \<Rightarrow> LockInfo \<Rightarrow> (bool \<times> LockInfo) option" where
  "dec_spinlocks heap loc info =
     checked_sub (num_no_int_spinlocks info) 1 \<bind> (\<lambda>n.
     let info1 = info\<lparr>num_no_int_spinlocks := n\<rparr>
     in (if is_mem_loc loc
         then checked_sub (memory_locked info1) 1 \<bind> (\<lambda>ml. Some (info1\<lparr>memory_locked := ml\<rparr>))
         else Some info1) \<bind> (\<lambda>info2.
        let info3 = (if heap then info2\<lparr>locations := locations info2 - {loc}\<rparr> else info2)
        in Some (if num_no_int_spinlocks info3 = 0 then prev_int_state info3 else False, info3)))"

definition mark_blocking_task :: "LockInfo \<Rightarrow> LockInfo option" where
  "mark_blocking_task info =
     panic_unless (\<not> blocking_task info) \<bind> (\<lambda>_. Some (info\<lparr>blocking_task := True\<rparr>))"

definition unblocking_task :: "LockInfo \<Rightarrow> LockInfo" where
  "unblocking_task info = info\<lparr>blocking_task := False\<rparr>"

definition assert_no_locks :: "LockInfo \<Rightarrow> unit option" where
  "assert_no_locks info = panic_unless (num_no_int_spinlocks info = 0)"

section \<open>Guards of one processor\<close>

text \<open>The interrupt flag, the statistics and the locations of the guards the processor holds.\<close>

record cpu =
  int_flag :: bool
  lock_info :: LockInfo
  held :: "LockLocationInfo list"

text \<open>Taking a lock: the flag is saved and cleared; dropping a guard may set it again.\<close>

definition take_guard :: "bool \<Rightarrow> LockLocationInfo \<Rightarrow> cpu \<Rightarrow> cpu option" where
  "take_guard heap loc c =
     inc_spinlocks heap (int_flag c) loc (lock_info c) \<bind> (\<lambda>info.
     Some (c\<lparr>int_flag := False, lock_info := info, held := loc # held c\<rparr>))"

definition drop_guard :: "bool \<Rightarrow> LockLocationInfo \<Rightarrow> cpu \<Rightarrow> cpu option" where
  "drop_guard heap loc c =
     dec_spinlocks heap loc (lock_info c) \<bind> (\<lambda>(enable, info).
     Some (c\<lparr>int_flag := (if enable then True else int_flag c), lock_info := info, held := remove1 loc (held c)\<rparr>))"

section \<open>LocalLock\<close>

definition local_lock_read :: "nat \<Rightarrow> nat option" where
  "local_lock_read state =
     (if state = 255 \<or> state = 254 then None else checked_add 8 state 1)"

definition local_lock_write :: "nat \<Rightarrow> nat option" where
  "local_lock_write state = (if state \<noteq> 0 then None else Some 255)"

definition local_drop_read :: "nat \<Rightarrow> nat option" where
  "local_drop_read state = checked_sub state 1"

definition local_drop_write :: "nat \<Rightarrow> nat" where
  "local_drop_write state = 0"

section \<open>Invariant\<close>

datatype guard_op = Take LockLocationInfo | Release LockLocationInfo

fun guard_op_run :: "bool \<Rightarrow> guard_op \<Rightarrow> cpu \<Rightarrow> cpu option" where
  "guard_op_run heap (Take loc) c = take_guard heap loc c"
| "guard_op_run heap (Release loc) c = (if loc \<in> set (held c) then drop_guard heap loc c else Some c)"

fun guard_run :: "bool \<Rightarrow> guard_op list \<Rightarrow> cpu \<Rightarrow> cpu option" where
  "guard_run heap [] c = Some c"
| "guard_run heap (g # gs) c = guard_op_run heap g c \<bind> guard_run heap gs"

definition cpu_ok :: "bool \<Rightarrow> cpu \<Rightarrow> bool" where
  "cpu_ok initial c \<longleftrightarrow>
     num_no_int_spinlocks (lock_info c) = length (held c) \<and>
     memory_locked (lock_info c) = length (filter is_mem_loc (held c)) \<and>
     (if held c = [] then int_flag c = initial else \<not> int_flag c \<and> prev_int_state (lock_info c) = initial)"

lemma cpu_ok_length: "cpu_ok b c \<Longrightarrow> memory_locked (lock_info c) \<le> num_no_int_spinlocks (lock_info c)"
  by (simp add: cpu_ok_def)

lemma take_guard_ok:
  assumes "cpu_ok b c" and "length (held c) < 65535"
  shows "\<exists>c'. take_guard heap loc c = Some c' \<and> cpu_ok b c' \<and> held c' = loc # held c"
proof -
  have "length (filter is_mem_loc (held c)) \<le> length (held c)" by simp
  then have "length (filter is_mem_loc (held c)) < 65535" using assms(2) by linarith
  then show ?thesis
    using assms by (auto simp: take_guard_def inc_spinlocks_def cpu_ok_def checked_add_def Let_def)
qed

lemma length_filter_remove1:
  "x \<in> set xs \<Longrightarrow> length (filter P xs) = length (filter P (remove1 x xs)) + (if P x then 1 else 0)"
  by (induction xs) auto

lemma drop_guard_ok:
  assumes "cpu_ok b c" and "loc \<in> set (held c)"
  shows "\<exists>c'. drop_guard heap loc c = Some c' \<and> cpu_ok b c' \<and> held c' = remove1 loc (held c)"
proof -
  have n: "length (held c) = Suc (length (remove1 loc (held c)))"
    using assms(2) by (simp add: length_remove1) (metis One_nat_def Suc_pred length_pos_if_in_set)
  have f: "length (filter is_mem_loc (held c)) =
      length (filter is_mem_loc (remove1 loc (held c))) + (if is_mem_loc loc then 1 else 0)"
    using assms(2) by (rule length_filter_remove1)
  have e: "remove1 loc (held c) = [] \<longleftrightarrow> length (held c) = 1" using n by (metis One_nat_def length_0_conv nat.inject)
  have h: "held c \<noteq> []" using assms(2) by auto
  show ?thesis
    using assms(1) n f e h
    by (auto simp: drop_guard_def dec_spinlocks_def cpu_ok_def checked_sub_def Let_def)
qed

lemma guard_run_ok:
  assumes "cpu_ok b c" and "length (held c) + length gs \<le> 65535"
  shows "\<exists>c'. guard_run heap gs c = Some c' \<and> cpu_ok b c'"
  using assms
proof (induction gs arbitrary: c)
  case (Cons g gs)
  have "\<exists>c1. guard_op_run heap g c = Some c1 \<and> cpu_ok b c1 \<and> length (held c1) \<le> length (held c) + 1"
  proof (cases g)
    case (Take loc)
    then show ?thesis using take_guard_ok [OF Cons.prems(1), of heap loc] Cons.prems(2) by auto
  next
    case (Release loc)
    show ?thesis
    proof (cases "loc \<in> set (held c)")
      case True
      with drop_guard_ok [OF Cons.prems(1) True, of heap] Release show ?thesis
        by (auto simp: length_remove1)
    qed (use Release Cons.prems in auto)
  qed
  then obtain c1 where "guard_op_run heap g c = Some c1" "cpu_ok b c1" "length (held c1) \<le> length (held c) + 1"
    by blast
  with Cons.IH [of c1] Cons.prems(2) show ?case by simp
qed simp

text \<open>However a processor takes and drops spinning locks (at most 65535 operations, the guards dropped
  in any order), the statistics never overflow or underflow, interrupts are off while it holds a
  guard, and when the last guard is dropped they are as they were before the first.\<close>

theorem interrupts_restored:
  assumes "length gs \<le> 65535"
  shows "\<exists>c. guard_run heap gs \<lparr>int_flag = b, lock_info = lock_info_new, held = []\<rparr> = Some c \<and>
     (if held c = [] then int_flag c = b else \<not> int_flag c)"
proof -
  let ?c = "\<lparr>int_flag = b, lock_info = lock_info_new, held = []\<rparr>"
  have "cpu_ok b ?c" by (simp add: cpu_ok_def lock_info_new_def)
  from guard_run_ok [OF this] assms obtain c where "guard_run heap gs ?c = Some c" "cpu_ok b c" by auto
  then show ?thesis by (auto simp: cpu_ok_def split: if_splits)
qed

end
