(* ===== verification/ArcCounts.thy ===== *)
theory ArcCounts
  imports Interleaving
begin


text \<open>The operation a thread is inside: \<open>clone\<close> after the first addition, \<open>upgrade\<close> before an exchange
  and after a successful one, the destructors before the data is dropped, before the second
  counter is decremented, and before the object is freed. \<open>Trace n op\<close> is the trace line with \<open>n\<close> counters
  still to be read and \<open>op\<close> to follow. A dropped handle is no longer owned.\<close>

datatype arc_op = NoOp | CloneStrong | UpgradeCas nat | UpgradeAll | DropData | DropAll | FreeBox | Trace nat arc_op

datatype arc_pc = Owner nat nat arc_op






definition traced :: "bool \<Rightarrow> arc_op \<Rightarrow> arc_op" where
  "traced tr op = (if tr then Trace 2 op else op)"









section \<open>Invariant\<close>


fun frees :: "arc_op \<Rightarrow> bool" where
  "frees FreeBox = True"
| "frees (Trace n op) = frees op"
| "frees _ = False"


fun arc_pc_ok :: "bool \<Rightarrow> arc_pc \<Rightarrow> bool" where
  "arc_pc_ok tr (Owner a w CloneStrong) = (0 < a)"
| "arc_pc_ok tr (Owner a w (UpgradeCas cur)) = (0 < w \<and> 0 < cur)"
| "arc_pc_ok tr (Owner a w UpgradeAll) = (0 < w)"
| "arc_pc_ok tr (Owner a w (Trace n op)) = (tr \<and> (op = NoOp \<or> op = FreeBox))"
| "arc_pc_ok tr _ = True"




lemma traced_facts [simp]:
  "frees (traced tr op) = frees op" "traced tr op = UpgradeAll \<longleftrightarrow> \<not> tr \<and> op = UpgradeAll"
  "traced tr op = CloneStrong \<longleftrightarrow> \<not> tr \<and> op = CloneStrong" "traced tr op = DropData \<longleftrightarrow> \<not> tr \<and> op = DropData"
  "traced tr op = DropAll \<longleftrightarrow> \<not> tr \<and> op = DropAll"
  "op = NoOp \<or> op = FreeBox \<Longrightarrow> arc_pc_ok tr (Owner a w (traced tr op))"
  by (auto simp: traced_def)







section \<open>Properties\<close>





end
