(* ===== verification/ProcessState.thy ===== *)
theory ProcessState
  imports Prelude "HOL-Library.Monad_Syntax"
begin

text \<open>
  The saved state of a process and its way through the kernel's entry and exit code:
  \<open>kernel/src/arch/x86_64/syscall.rs\<close> (system calls), \<open>arch/x86_64/interrupts/macros.rs\<close> and
  \<open>arch/x86_64/interrupts/mod.rs\<close> (interrupts), and the process object of
  \<open>kernel/src/proc/process_data.rs\<close>. The assembly sequences are functions between the user's register
  file and the save area in memory; what the \<open>syscall\<close>, \<open>sysretq\<close> and \<open>iretq\<close> instructions do is part
  of the language.

  The lock around the mutable part of a process is a flag: taking it while it is held spins forever,
  which is \<open>None\<close> like every other way of not returning.
\<close>

section \<open>Registers\<close>

record cpu_regs =
  RAX :: u64
  RBX :: u64
  RCX :: u64
  RDX :: u64
  RSI :: u64
  RDI :: u64
  RBP :: u64
  RSP :: u64
  R8 :: u64
  R9 :: u64
  R10 :: u64
  R11 :: u64
  R12 :: u64
  R13 :: u64
  R14 :: u64
  R15 :: u64
  RIP :: u64
  RFLAGS :: u64

record SyscallCpuState =
  sc_rcx :: u64
  sc_rbp :: u64
  sc_rsp :: u64
  sc_r11 :: u64
  sc_rax :: u64
  sc_rbx :: u64
  sc_rdx :: u64
  sc_rdi :: u64
  sc_rsi :: u64
  sc_r8 :: u64
  sc_r9 :: u64
  sc_r10 :: u64
  sc_r12 :: u64
  sc_r13 :: u64
  sc_r14 :: u64
  sc_r15 :: u64

text \<open>\<open>syscall\<close> leaves the return address in \<open>rcx\<close> and the flags in \<open>r11\<close>, and clears the flags of the mask
  0x700 that \<open>cpu_syscall_init\<close> sets; \<open>sysretq\<close> takes both back.\<close>

definition syscall_instr :: "cpu_regs \<Rightarrow> cpu_regs" where
  "syscall_instr m = m\<lparr>RCX := RIP m, R11 := RFLAGS m, RFLAGS := RFLAGS m AND NOT 0x700\<rparr>"

definition sysretq :: "cpu_regs \<Rightarrow> cpu_regs" where
  "sysretq m = m\<lparr>RIP := RCX m, RFLAGS := (R11 m AND 0x3C7FD7) OR 2\<rparr>"

definition syscall_entry :: "cpu_regs \<Rightarrow> SyscallCpuState" where
  "syscall_entry m =
     \<lparr>sc_rcx = RCX m, sc_rbp = RBP m, sc_rsp = RSP m, sc_r11 = R11 m, sc_rax = RAX m, sc_rbx = RBX m,
      sc_rdx = RDX m, sc_rdi = RDI m, sc_rsi = RSI m, sc_r8 = R8 m, sc_r9 = R9 m, sc_r10 = R10 m,
      sc_r12 = R12 m, sc_r13 = R13 m, sc_r14 = R14 m, sc_r15 = R15 m\<rparr>"

definition return_syscalled :: "SyscallCpuState \<Rightarrow> cpu_regs \<Rightarrow> cpu_regs" where
  "return_syscalled s m =
     sysretq (m\<lparr>RCX := sc_rcx s, RBP := sc_rbp s, RSP := sc_rsp s, R11 := sc_r11 s, RAX := sc_rax s,
       RBX := sc_rbx s, RDX := sc_rdx s, RSI := sc_rsi s, R8 := sc_r8 s, R9 := sc_r9 s, R10 := sc_r10 s,
       R12 := sc_r12 s, R13 := sc_r13 s, R14 := sc_r14 s, R15 := sc_r15 s, RDI := sc_rdi s\<rparr>)"

definition get_arg :: "SyscallCpuState \<Rightarrow> nat \<Rightarrow> u64 option" where
  "get_arg s i =
     (if i = 0 then Some (sc_rdx s) else if i = 1 then Some (sc_rdi s) else if i = 2 then Some (sc_rsi s)
      else if i = 3 then Some (sc_r8 s) else if i = 4 then Some (sc_r9 s) else if i = 5 then Some (sc_r10 s)
      else if i = 6 then Some (sc_r12 s) else if i = 7 then Some (sc_r13 s) else if i = 8 then Some (sc_r14 s)
      else if i = 9 then Some (sc_r15 s) else None)"

definition get_syscall_number :: "SyscallCpuState \<Rightarrow> u64" where
  "get_syscall_number s = sc_rax s"

definition get_namespace_id :: "SyscallCpuState \<Rightarrow> u64" where
  "get_namespace_id s = sc_rbx s"

text \<open>the word \<open>i\<close> places behind \<open>rdx\<close> in the save area; a place outside of it would be a wild write.\<close>

definition write_arg :: "nat \<Rightarrow> u64 \<Rightarrow> SyscallCpuState \<Rightarrow> SyscallCpuState option" where
  "write_arg i v s =
     (if i = 0 then Some (s\<lparr>sc_rdx := v\<rparr>) else if i = 1 then Some (s\<lparr>sc_rdi := v\<rparr>)
      else if i = 2 then Some (s\<lparr>sc_rsi := v\<rparr>) else if i = 3 then Some (s\<lparr>sc_r8 := v\<rparr>)
      else if i = 4 then Some (s\<lparr>sc_r9 := v\<rparr>) else if i = 5 then Some (s\<lparr>sc_r10 := v\<rparr>)
      else if i = 6 then Some (s\<lparr>sc_r12 := v\<rparr>) else if i = 7 then Some (s\<lparr>sc_r13 := v\<rparr>)
      else if i = 8 then Some (s\<lparr>sc_r14 := v\<rparr>) else if i = 9 then Some (s\<lparr>sc_r15 := v\<rparr>) else None)"

fun write_args :: "nat \<Rightarrow> u64 list \<Rightarrow> SyscallCpuState \<Rightarrow> SyscallCpuState option" where
  "write_args i [] s = Some s"
| "write_args i (v # vs) s = write_arg i v s \<bind> write_args (i + 1) vs"

section \<open>Interrupt frames\<close>

record InterruptFrame =
  if_rip :: u64
  if_cs :: u64
  if_rflags :: u64
  if_rsp :: u64
  if_ss :: u64

record InterruptProcessorState =
  ip_r15 :: u64
  ip_r14 :: u64
  ip_r13 :: u64
  ip_r12 :: u64
  ip_r11 :: u64
  ip_r10 :: u64
  ip_r9 :: u64
  ip_r8 :: u64
  ip_rbp :: u64
  ip_rdi :: u64
  ip_rsi :: u64
  ip_rdx :: u64
  ip_rcx :: u64
  ip_rbx :: u64
  ip_rax :: u64
  err_code :: u64
  interrupt_frame :: InterruptFrame

text \<open>The wrapper of \<open>handler!\<close> under the frame that the processor pushed: the error code is the
  processor's for the exceptions that have one and 0 for the others.\<close>

definition interrupt_entry :: "u64 option \<Rightarrow> InterruptFrame \<Rightarrow> cpu_regs \<Rightarrow> InterruptProcessorState" where
  "interrupt_entry code f m =
     \<lparr>ip_r15 = R15 m, ip_r14 = R14 m, ip_r13 = R13 m, ip_r12 = R12 m, ip_r11 = R11 m, ip_r10 = R10 m,
      ip_r9 = R9 m, ip_r8 = R8 m, ip_rbp = RBP m, ip_rdi = RDI m, ip_rsi = RSI m, ip_rdx = RDX m,
      ip_rcx = RCX m, ip_rbx = RBX m, ip_rax = RAX m,
      err_code = (case code of Some e \<Rightarrow> e | None \<Rightarrow> 0), interrupt_frame = f\<rparr>"

text \<open>the processor's part on entry, \<open>cs\<close> and \<open>ss\<close> given, and \<open>iretq\<close>.\<close>

definition pushed_frame :: "u64 \<Rightarrow> u64 \<Rightarrow> cpu_regs \<Rightarrow> InterruptFrame" where
  "pushed_frame c s m = \<lparr>if_rip = RIP m, if_cs = c, if_rflags = RFLAGS m, if_rsp = RSP m, if_ss = s\<rparr>"

definition iretq :: "InterruptFrame \<Rightarrow> cpu_regs \<Rightarrow> cpu_regs" where
  "iretq f m = m\<lparr>RIP := if_rip f, RFLAGS := if_rflags f, RSP := if_rsp f\<rparr>"

definition return_interrupted :: "InterruptProcessorState \<Rightarrow> cpu_regs \<Rightarrow> cpu_regs" where
  "return_interrupted s m =
     iretq (interrupt_frame s) (m\<lparr>R15 := ip_r15 s, R14 := ip_r14 s, R13 := ip_r13 s, R12 := ip_r12 s,
       R11 := ip_r11 s, R10 := ip_r10 s, R9 := ip_r9 s, R8 := ip_r8 s, RBP := ip_rbp s, RDI := ip_rdi s,
       RSI := ip_rsi s, RDX := ip_rdx s, RCX := ip_rcx s, RBX := ip_rbx s, RAX := ip_rax s\<rparr>)"

record RegisterState =
  rs_rax :: u64
  rs_rbx :: u64
  rs_rcx :: u64
  rs_rdx :: u64
  rs_rsi :: u64
  rs_rdi :: u64
  rs_rsp :: u64
  rs_rbp :: u64
  rs_r8 :: u64
  rs_r9 :: u64
  rs_r10 :: u64
  rs_r11 :: u64
  rs_r12 :: u64
  rs_r13 :: u64
  rs_r14 :: u64
  rs_r15 :: u64

definition new_full ::
  "u64 \<Rightarrow> u64 \<Rightarrow> u64 \<Rightarrow> u64 \<Rightarrow> u64 \<Rightarrow> u64 \<Rightarrow> u64 \<Rightarrow> u64 \<Rightarrow> u64 \<Rightarrow> u64 \<Rightarrow> u64 \<Rightarrow> u64 \<Rightarrow> u64 \<Rightarrow> u64 \<Rightarrow> u64 \<Rightarrow> u64 \<Rightarrow> u64 \<Rightarrow>
   InterruptProcessorState" where
  "new_full r15 r14 r13 r12 r11 r10 r9 r8 rbp rsp rdi rsi rdx rcx rbx rax rip =
     \<lparr>ip_r15 = r15, ip_r14 = r14, ip_r13 = r13, ip_r12 = r12, ip_r11 = r11, ip_r10 = r10, ip_r9 = r9,
      ip_r8 = r8, ip_rbp = rbp, ip_rdi = rdi, ip_rsi = rsi, ip_rdx = rdx, ip_rcx = rcx, ip_rbx = rbx,
      ip_rax = rax, err_code = 0,
      interrupt_frame = \<lparr>if_rip = rip, if_cs = 0x23, if_rflags = 0x202, if_rsp = rsp, if_ss = 0x1B\<rparr>\<rparr>"

definition interrupt_state_new :: "u64 \<Rightarrow> u64 \<Rightarrow> InterruptProcessorState" where
  "interrupt_state_new rip rsp = new_full 0 0 0 0 0 0 0 0 0 rsp 0 0 0 0 0 0 rip"

definition set_arg_registers :: "u64 \<Rightarrow> u64 \<Rightarrow> u64 \<Rightarrow> InterruptProcessorState \<Rightarrow> InterruptProcessorState" where
  "set_arg_registers argc argv envp s = s\<lparr>ip_rdi := argc, ip_rsi := argv, ip_rdx := envp\<rparr>"

definition state_from_registers :: "RegisterState \<Rightarrow> u64 \<Rightarrow> InterruptProcessorState" where
  "state_from_registers r start_ptr =
     new_full (rs_r15 r) (rs_r14 r) (rs_r13 r) (rs_r12 r) (rs_r11 r) (rs_r10 r) (rs_r9 r) (rs_r8 r) (rs_rbp r)
       (rs_rsp r) (rs_rdi r) (rs_rsi r) (rs_rdx r) (rs_rcx r) (rs_rbx r) (rs_rax r) start_ptr"

section \<open>Process objects\<close>

datatype CpuStateType = Interrupt InterruptProcessorState | Syscall SyscallCpuState | CpuNone

record 'n ProcessData =
  pd_pid :: nat
  sleeping :: bool
  is_32_bit :: bool
  pd_page_tree_root :: nat
  cmdline :: string
  internal_locked :: bool
  cpu_state :: CpuStateType
  namespaces :: 'n
  exit_hooks :: "nat list"

definition process_new :: "nat \<Rightarrow> bool \<Rightarrow> string \<Rightarrow> CpuStateType \<Rightarrow> nat \<Rightarrow> 'n \<Rightarrow> 'n ProcessData" where
  "process_new pid b cmd st root ns =
     \<lparr>pd_pid = pid, sleeping = False, is_32_bit = b, pd_page_tree_root = root, cmdline = cmd,
      internal_locked = False, cpu_state = st, namespaces = ns, exit_hooks = []\<rparr>"

definition get_mutable :: "'n ProcessData \<Rightarrow> 'n ProcessData option" where
  "get_mutable p = (if internal_locked p then None else Some (p\<lparr>internal_locked := True\<rparr>))"

definition drop_mutable :: "'n ProcessData \<Rightarrow> 'n ProcessData" where
  "drop_mutable p = p\<lparr>internal_locked := False\<rparr>"

definition call_exit_hooks :: "'n ProcessData \<Rightarrow> nat list \<times> 'n ProcessData" where
  "call_exit_hooks p = (exit_hooks p, p\<lparr>exit_hooks := []\<rparr>)"

definition add_exit_hook :: "nat \<Rightarrow> 'n ProcessData \<Rightarrow> 'n ProcessData" where
  "add_exit_hook h p = p\<lparr>exit_hooks := exit_hooks p @ [h]\<rparr>"

definition set_legacy_syscall_return :: "u64 \<Rightarrow> u64 \<Rightarrow> 'n ProcessData \<Rightarrow> 'n ProcessData option" where
  "set_legacy_syscall_return v e p =
     get_mutable p \<bind> (\<lambda>q.
     case cpu_state q of
       Syscall s \<Rightarrow> Some (drop_mutable (q\<lparr>cpu_state := Syscall (s\<lparr>sc_rax := v, sc_rdx := e\<rparr>)\<rparr>))
     | _ \<Rightarrow> None)"

definition set_syscall_return :: "u64 list \<Rightarrow> 'n ProcessData \<Rightarrow> 'n ProcessData option" where
  "set_syscall_return vs p =
     get_mutable p \<bind> (\<lambda>q.
     case cpu_state q of
       Syscall s \<Rightarrow>
         panic_unless (length vs \<le> 10) \<bind> (\<lambda>_.
         write_args 0 vs s \<bind> (\<lambda>s'. Some (drop_mutable (q\<lparr>cpu_state := Syscall s'\<rparr>))))
     | _ \<Rightarrow> None)"

definition set_cpu_data :: "CpuStateType \<Rightarrow> 'n ProcessData \<Rightarrow> 'n ProcessData option" where
  "set_cpu_data st p = get_mutable p \<bind> (\<lambda>q. Some (drop_mutable (q\<lparr>cpu_state := st\<rparr>)))"

definition take_cpu_state :: "'n ProcessData \<Rightarrow> (CpuStateType \<times> 'n ProcessData) option" where
  "take_cpu_state p = get_mutable p \<bind> (\<lambda>q. Some (cpu_state q, drop_mutable (q\<lparr>cpu_state := CpuNone\<rparr>)))"

definition set_sleeping :: "bool \<Rightarrow> 'n ProcessData \<Rightarrow> 'n ProcessData" where
  "set_sleeping b p = p\<lparr>sleeping := b\<rparr>"

definition set_page_tree :: "nat \<Rightarrow> 'n ProcessData \<Rightarrow> 'n ProcessData" where
  "set_page_tree root p = p\<lparr>pd_page_tree_root := root\<rparr>"

section \<open>Round trips\<close>

lemma write_arg_Some: "i < 10 \<Longrightarrow> \<exists>s'. write_arg i v s = Some s'"
  by (simp add: write_arg_def)

lemma get_arg_write_arg:
  "write_arg i v s = Some s' \<Longrightarrow> get_arg s' j = (if j = i then Some v else get_arg s j)"
  by (auto simp: write_arg_def get_arg_def split: if_splits)

lemma write_arg_frame:
  "write_arg i v s = Some s' \<Longrightarrow> sc_rcx s' = sc_rcx s \<and> sc_rbp s' = sc_rbp s \<and> sc_rsp s' = sc_rsp s \<and>
     sc_r11 s' = sc_r11 s \<and> sc_rax s' = sc_rax s \<and> sc_rbx s' = sc_rbx s"
  by (auto simp: write_arg_def split: if_splits)

lemma write_args_spec:
  assumes "i + length vs \<le> 10"
  shows "\<exists>s'. write_args i vs s = Some s' \<and>
    (\<forall>j. get_arg s' j = (if i \<le> j \<and> j < i + length vs then Some (vs ! (j - i)) else get_arg s j)) \<and>
    sc_rcx s' = sc_rcx s \<and> sc_rbp s' = sc_rbp s \<and> sc_rsp s' = sc_rsp s \<and> sc_r11 s' = sc_r11 s \<and>
    sc_rax s' = sc_rax s \<and> sc_rbx s' = sc_rbx s"
  using assms
proof (induction vs arbitrary: i s)
  case (Cons v vs)
  from Cons.prems obtain s1 where s1: "write_arg i v s = Some s1" using write_arg_Some by fastforce
  from Cons.IH [of "i + 1" s1] Cons.prems obtain s2 where
    s2: "write_args (i + 1) vs s1 = Some s2"
    "\<And>j. get_arg s2 j = (if i + 1 \<le> j \<and> j < i + 1 + length vs then Some (vs ! (j - (i + 1))) else get_arg s1 j)"
    "sc_rcx s2 = sc_rcx s1 \<and> sc_rbp s2 = sc_rbp s1 \<and> sc_rsp s2 = sc_rsp s1 \<and> sc_r11 s2 = sc_r11 s1 \<and>
     sc_rax s2 = sc_rax s1 \<and> sc_rbx s2 = sc_rbx s1" by auto
  have "get_arg s2 j = (if i \<le> j \<and> j < i + length (v # vs) then Some ((v # vs) ! (j - i)) else get_arg s j)" for j
    by (auto simp: s2(2) get_arg_write_arg [OF s1] nth_Cons')
  with s1 s2(1,3) write_arg_frame [OF s1] show ?case by simp
qed auto

text \<open>C25: A system call returns to its caller with every register as it was: the save area that
  \<open>syscall_entry\<close> fills is read back by \<open>return_syscalled\<close> into the same registers, so only \<open>rcx\<close> and \<open>r11\<close>,
  which the instruction itself uses, differ. The return values \<open>vs\<close> (at most ten) arrive in the argument
  registers, value \<open>i\<close> where argument \<open>i\<close> was passed, and the other registers keep their values.\<close>

theorem syscall_return_roundtrip:
  assumes "cpu_state p = Syscall (syscall_entry (syscall_instr m))" and "\<not> internal_locked p"
    and "length vs \<le> 10"
  shows "\<exists>s. set_syscall_return vs p = Some (p\<lparr>cpu_state := Syscall s\<rparr>) \<and>
    (\<forall>i. get_arg (syscall_entry (return_syscalled s m')) i =
       (if i < length vs then Some (vs ! i) else get_arg (syscall_entry m) i)) \<and>
    RAX (return_syscalled s m') = RAX m \<and> RBX (return_syscalled s m') = RBX m \<and>
    RBP (return_syscalled s m') = RBP m \<and> RSP (return_syscalled s m') = RSP m \<and>
    RIP (return_syscalled s m') = RIP m \<and> RFLAGS (return_syscalled s m') = (RFLAGS m AND 0x3C7FD7) OR 2"
proof -
  let ?s0 = "syscall_entry (syscall_instr m)"
  have args0: "get_arg ?s0 i = get_arg (syscall_entry m) i" for i
    by (simp add: get_arg_def syscall_entry_def syscall_instr_def)
  from assms(3) obtain s where s: "write_args 0 vs ?s0 = Some s"
    "\<And>j. get_arg s j = (if j < length vs then Some (vs ! j) else get_arg ?s0 j)"
    "sc_rcx s = sc_rcx ?s0 \<and> sc_rbp s = sc_rbp ?s0 \<and> sc_rsp s = sc_rsp ?s0 \<and> sc_r11 s = sc_r11 ?s0 \<and>
     sc_rax s = sc_rax ?s0 \<and> sc_rbx s = sc_rbx ?s0"
    using write_args_spec [of 0 vs ?s0] by auto
  have "get_arg (syscall_entry (return_syscalled s m')) i = get_arg s i" for i
    by (simp add: get_arg_def syscall_entry_def return_syscalled_def sysretq_def)
  moreover have "set_syscall_return vs p = Some (p\<lparr>cpu_state := Syscall s\<rparr>)"
    using assms s(1) by (simp add: set_syscall_return_def get_mutable_def drop_mutable_def panic_unless_def)
  ultimately show ?thesis using s(2,3) args0
    by (intro exI [of _ s]) (simp add: syscall_entry_def syscall_instr_def return_syscalled_def sysretq_def)
qed

definition zero_regs :: cpu_regs where
  "zero_regs = \<lparr>RAX = 0, RBX = 0, RCX = 0, RDX = 0, RSI = 0, RDI = 0, RBP = 0, RSP = 0, R8 = 0, R9 = 0, R10 = 0,
     R11 = 0, R12 = 0, R13 = 0, R14 = 0, R15 = 0, RIP = 0, RFLAGS = 0\<rparr>"

theorem syscall_return_roundtrip_witness:
  "\<exists>s. set_syscall_return [7, 8] (process_new 1 False ''init''
        (Syscall (syscall_entry (syscall_instr (zero_regs\<lparr>RIP := 0x401000\<rparr>)))) 0x1000 ()) =
      Some (process_new 1 False ''init'' (Syscall s) 0x1000 ()) \<and>
    RDX (return_syscalled s zero_regs) = 7 \<and> RDI (return_syscalled s zero_regs) = 8 \<and>
    RIP (return_syscalled s zero_regs) = 0x401000"
proof -
  let ?m = "zero_regs\<lparr>RIP := 0x401000\<rparr>"
  let ?p = "process_new 1 False ''init'' (Syscall (syscall_entry (syscall_instr ?m))) 0x1000 ()"
  have p: "cpu_state ?p = Syscall (syscall_entry (syscall_instr ?m))" "\<not> internal_locked ?p" "length [7 :: u64, 8] \<le> 10"
    by (simp_all add: process_new_def)
  from syscall_return_roundtrip [OF p, of zero_regs] obtain s where
    s: "set_syscall_return [7, 8] ?p = Some (?p\<lparr>cpu_state := Syscall s\<rparr>)"
    "\<And>i. get_arg (syscall_entry (return_syscalled s zero_regs)) i =
       (if i < length [7 :: u64, 8] then Some ([7, 8] ! i) else get_arg (syscall_entry ?m) i)"
    "RIP (return_syscalled s zero_regs) = RIP ?m" by blast
  from s(2) [of 0] s(2) [of 1] s(1,3) show ?thesis
    by (intro exI [of _ s]) (simp add: get_arg_def syscall_entry_def process_new_def)
qed

text \<open>An interrupt in user mode resumes with every register as it was: the save area of the wrapper of
  \<open>handler!\<close>, read by \<open>return_interrupted\<close>, restores all of them, whatever the kernel left in the
  registers, and with or without an error code.\<close>

theorem interrupt_return_roundtrip:
  "return_interrupted (interrupt_entry code (pushed_frame c s m) m) m' = m"
  by (simp add: return_interrupted_def interrupt_entry_def pushed_frame_def iretq_def)

text \<open>A process that is created from a register state starts in user mode at the given address with
  exactly these registers.\<close>

lemma return_interrupted_new_process:
  "return_interrupted (state_from_registers r start_ptr) m =
     \<lparr>RAX = rs_rax r, RBX = rs_rbx r, RCX = rs_rcx r, RDX = rs_rdx r, RSI = rs_rsi r, RDI = rs_rdi r,
      RBP = rs_rbp r, RSP = rs_rsp r, R8 = rs_r8 r, R9 = rs_r9 r, R10 = rs_r10 r, R11 = rs_r11 r, R12 = rs_r12 r,
      R13 = rs_r13 r, R14 = rs_r14 r, R15 = rs_r15 r, RIP = start_ptr, RFLAGS = 0x202\<rparr>"
  by (simp add: return_interrupted_def state_from_registers_def new_full_def iretq_def)

end
