(* ===== verification/Scheduler.thy ===== *)
theory Scheduler
  imports ProcessState
begin

text \<open>
  The process scheduler: \<open>kernel/src/proc/scheduler.rs\<close>, the context switch of \<open>context_switch.rs\<close> and
  \<open>dispatcher.rs\<close>, and the points where processors enter and leave the kernel
  (\<open>proc/syscall/mod.rs\<close>, \<open>interrupts/mod.rs\<close>).

  Processes are shared objects: the scheduler's map, the local data of a processor and running system
  calls all hold references to one \<open>ProcessData\<close>, so they are addresses into a store. Every scheduler
  operation holds the scheduler's lock, so it is one step, and the steps of several processors
  interleave freely; \<open>cpu_phase\<close> is the place in the kernel at which a processor is.
\<close>

section \<open>State\<close>

datatype phase =
    Choosing                  \<comment> \<open>in the loop of \<open>no_ret_context_switch\<close>\<close>
  | Dispatching nat           \<comment> \<open>between \<open>schedule\<close> and \<open>dispatch\<close>\<close>
  | InUser nat
  | InSyscall nat
  | InInterrupt nat

record 'n proc_sys =
  objects :: "nat \<Rightarrow> 'n ProcessData option"
  next_object :: nat
  process_id_counter :: nat
  tasks :: "nat \<Rightarrow> nat option"
  sleeping_tasks :: "nat list"
  active_tasks :: "(nat \<times> nat) list"
  ready_to_run :: "nat list"
  current_process :: "nat \<Rightarrow> nat option"
  int_depth :: "nat \<Rightarrow> nat"
  page_root :: "nat \<Rightarrow> nat"
  generic_page_tree :: nat
  cpu_phase :: "nat \<Rightarrow> phase"

definition scheduler_new :: "nat \<Rightarrow> 'n proc_sys" where
  "scheduler_new root =
     \<lparr>objects = (\<lambda>_. None), next_object = 0, process_id_counter = 0, tasks = (\<lambda>_. None), sleeping_tasks = [],
      active_tasks = [], ready_to_run = [], current_process = (\<lambda>_. None), int_depth = (\<lambda>_. 1),
      page_root = (\<lambda>_. root), generic_page_tree = root, cpu_phase = (\<lambda>_. Choosing)\<rparr>"

definition upd_process :: "nat \<Rightarrow> ('n ProcessData \<Rightarrow> 'n ProcessData) \<Rightarrow> 'n proc_sys \<Rightarrow> 'n proc_sys" where
  "upd_process a f s = s\<lparr>objects := (objects s)(a := map_option f (objects s a))\<rparr>"

definition switch_to_generic_mem_tree :: "nat \<Rightarrow> 'n proc_sys \<Rightarrow> 'n proc_sys" where
  "switch_to_generic_mem_tree c s = s\<lparr>page_root := (page_root s)(c := generic_page_tree s)\<rparr>"

section \<open>Operations of the scheduler\<close>

definition accept_new_process :: "nat \<Rightarrow> 'n ProcessData \<Rightarrow> 'n proc_sys \<Rightarrow> 'n proc_sys" where
  "accept_new_process pid d s =
     s\<lparr>objects := (objects s)(next_object s \<mapsto> d), next_object := next_object s + 1,
       tasks := (tasks s)(pid \<mapsto> next_object s), ready_to_run := ready_to_run s @ [pid]\<rparr>"

definition create_process ::
  "InterruptProcessorState \<Rightarrow> string \<Rightarrow> nat \<Rightarrow> 'n \<Rightarrow> 'n proc_sys \<Rightarrow> nat \<times> 'n proc_sys" where
  "create_process st name root ns s =
     (let pid = process_id_counter s mod 2 ^ 32
      in (pid, accept_new_process pid (process_new pid False name (Interrupt st) root ns)
                 (s\<lparr>process_id_counter := process_id_counter s + 1\<rparr>)))"

text \<open>\<open>position\<close> followed by \<open>swap_remove\<close>, as in every queue of the scheduler.\<close>

definition swap_remove_first :: "('a \<Rightarrow> bool) \<Rightarrow> 'a list \<Rightarrow> 'a list" where
  "swap_remove_first f xs = (case position f xs of None \<Rightarrow> xs | Some i \<Rightarrow> swap_remove xs i)"

definition remove_process :: "nat \<Rightarrow> 'n proc_sys \<Rightarrow> nat option \<times> 'n proc_sys" where
  "remove_process pid s =
     (tasks s pid,
      s\<lparr>sleeping_tasks := swap_remove_first (\<lambda>p. p = pid) (sleeping_tasks s),
        ready_to_run := swap_remove_first (\<lambda>p. p = pid) (ready_to_run s),
        tasks := (tasks s)(pid := None)\<rparr>)"

definition wake_proc :: "nat \<Rightarrow> 'n proc_sys \<Rightarrow> 'n proc_sys" where
  "wake_proc pid s =
     (let s1 = (case tasks s pid of Some a \<Rightarrow> upd_process a (set_sleeping False) s | None \<Rightarrow> s)
      in case position (\<lambda>p. p = pid) (sleeping_tasks s1) of
           None \<Rightarrow> s1
         | Some pos \<Rightarrow>
             (let s2 = s1\<lparr>sleeping_tasks := swap_remove (sleeping_tasks s1) pos\<rparr>
              in if tasks s pid \<noteq> None then s2\<lparr>ready_to_run := ready_to_run s2 @ [pid]\<rparr>
                 else snd (remove_process pid s2)))"

definition schedule :: "nat \<Rightarrow> 'n proc_sys \<Rightarrow> nat option \<times> 'n proc_sys" where
  "schedule c s =
     (case ready_to_run s of
        [] \<Rightarrow> (None, switch_to_generic_mem_tree c s)
      | pid # rest \<Rightarrow>
          (let s1 = s\<lparr>ready_to_run := rest\<rparr>
           in case tasks s1 pid of
                Some a \<Rightarrow>
                  (Some a, s1\<lparr>active_tasks := active_tasks s1 @ [(pid, c)],
                             current_process := (current_process s1)(c := Some a)\<rparr>)
              | None \<Rightarrow> (None, switch_to_generic_mem_tree c s1)))"

definition release_process :: "nat \<Rightarrow> nat \<Rightarrow> 'n proc_sys \<Rightarrow> 'n proc_sys" where
  "release_process pid c s =
     (let s1 = (case position (\<lambda>(p, _). p = pid) (active_tasks s) of
                  Some pos \<Rightarrow> s\<lparr>active_tasks := swap_remove (active_tasks s) pos\<rparr>
                | None \<Rightarrow> snd (remove_process pid s));
          s2 = (case tasks s1 pid of
                  Some a \<Rightarrow> (if map_option sleeping (objects s1 a) = Some True
                             then s1\<lparr>sleeping_tasks := sleeping_tasks s1 @ [pid]\<rparr>
                             else s1\<lparr>ready_to_run := ready_to_run s1 @ [pid]\<rparr>)
                | None \<Rightarrow> s1);
          s3 = switch_to_generic_mem_tree c s2
      in s3\<lparr>current_process := (current_process s3)(c := None)\<rparr>)"

definition release_current_proc :: "nat \<Rightarrow> nat \<Rightarrow> 'n proc_sys \<Rightarrow> 'n proc_sys option" where
  "release_current_proc a c s = map_option (\<lambda>d. release_process (pd_pid d) c s) (objects s a)"

definition save_cpu_state :: "CpuStateType \<Rightarrow> nat \<Rightarrow> 'n proc_sys \<Rightarrow> 'n proc_sys option" where
  "save_cpu_state st a s =
     objects s a \<bind> (\<lambda>d. set_cpu_data st d \<bind> (\<lambda>d'. Some (s\<lparr>objects := (objects s)(a \<mapsto> d')\<rparr>)))"

definition kill_process :: "nat \<Rightarrow> 'n proc_sys \<Rightarrow> nat list \<times> 'n proc_sys" where
  "kill_process pid s =
     (case remove_process pid s of
        (None, s1) \<Rightarrow> ([], s1)
      | (Some a, s1) \<Rightarrow>
          (case objects s1 a of
             None \<Rightarrow> ([], s1)
           | Some d \<Rightarrow> (fst (call_exit_hooks d), s1\<lparr>objects := (objects s1)(a \<mapsto> snd (call_exit_hooks d))\<rparr>)))"

text \<open>\<open>dispatch\<close>: the page tree of the process is loaded and its state taken; a process without a state
  is a panic. The result is the state the processor returns with.\<close>

definition dispatch :: "nat \<Rightarrow> nat \<Rightarrow> 'n proc_sys \<Rightarrow> (CpuStateType \<times> 'n proc_sys) option" where
  "dispatch c a s =
     objects s a \<bind> (\<lambda>d. take_cpu_state d \<bind> (\<lambda>(st, d').
     checked_sub (int_depth s c) 1 \<bind> (\<lambda>depth.
     panic_unless (st \<noteq> CpuNone) \<bind> (\<lambda>_.
     Some (st, s\<lparr>objects := (objects s)(a \<mapsto> d'), page_root := (page_root s)(c := pd_page_tree_root d),
                 int_depth := (int_depth s)(c := depth)\<rparr>)))))"

text \<open>the beginning of \<open>main_syscall_handler\<close>, up to the saving of the registers, and its end.\<close>

definition syscall_begin :: "nat \<Rightarrow> SyscallCpuState \<Rightarrow> 'n proc_sys \<Rightarrow> (nat \<times> 'n proc_sys) option" where
  "syscall_begin c st s =
     current_process s c \<bind> (\<lambda>a.
     save_cpu_state (Syscall st) a (s\<lparr>int_depth := (int_depth s)(c := 1),
       current_process := (current_process s)(c := None)\<rparr>) \<bind> (\<lambda>s1.
     Some (a, s1)))"

text \<open>\<open>general_interrupt_handler\<close> around the main handler, for interrupts that are not atomic: entry, and
  the end, which leaves user processes to the scheduler and returns \<open>True\<close> exactly when it does.\<close>

definition interrupt_begin :: "nat \<Rightarrow> 'n proc_sys \<Rightarrow> 'n proc_sys" where
  "interrupt_begin c s = s\<lparr>int_depth := (int_depth s)(c := int_depth s c + 1)\<rparr>"

definition interrupt_end :: "nat \<Rightarrow> InterruptProcessorState \<Rightarrow> 'n proc_sys \<Rightarrow> (bool \<times> 'n proc_sys) option" where
  "interrupt_end c st s =
     (if int_depth s c \<le> 1
      then (case current_process s c of
              Some a \<Rightarrow> save_cpu_state (Interrupt st) a s \<bind> (\<lambda>s1. release_current_proc a c s1 \<bind> (\<lambda>s2. Some (True, s2)))
            | None \<Rightarrow> Some (True, s))
      else checked_sub (int_depth s c) 1 \<bind> (\<lambda>depth. Some (False, s\<lparr>int_depth := (int_depth s)(c := depth)\<rparr>)))"

section \<open>Interleaved execution\<close>

datatype 'n sched_event =
    Create InterruptProcessorState string nat 'n
  | Wake nat
  | Kill nat
  | EnterSyscall nat SyscallCpuState
  | Sleep nat
  | Return nat "u64 list"
  | LeaveSyscall nat
  | EnterInterrupt nat
  | LeaveInterrupt nat InterruptProcessorState
  | Schedule nat
  | Dispatch nat

definition set_phase :: "nat \<Rightarrow> phase \<Rightarrow> 'n proc_sys \<Rightarrow> 'n proc_sys" where
  "set_phase c p s = s\<lparr>cpu_phase := (cpu_phase s)(c := p)\<rparr>"

text \<open>\<open>None\<close> is a panic; an event that the phase of its processor does not allow changes nothing. \<open>Return\<close> is
  a task that stores the results of a system call. It is allowed only while the saved state of the
  process is that of a system call: for any other state \<open>set_syscall_return\<close> itself panics, as its
  model says, and the runs here have no such call.\<close>

fun sched_step :: "'n sched_event \<Rightarrow> 'n proc_sys \<Rightarrow> 'n proc_sys option" where
  "sched_step (Create st name root ns) s = Some (snd (create_process st name root ns s))"
| "sched_step (Wake pid) s = Some (wake_proc pid s)"
| "sched_step (Kill pid) s = Some (snd (kill_process pid s))"
| "sched_step (EnterSyscall c st) s =
     (case cpu_phase s c of
        InUser a \<Rightarrow> syscall_begin c st s \<bind> (\<lambda>(b, s1). Some (set_phase c (InSyscall b) s1))
      | _ \<Rightarrow> Some s)"
| "sched_step (Sleep c) s =
     (case cpu_phase s c of InSyscall a \<Rightarrow> Some (upd_process a (set_sleeping True) s) | _ \<Rightarrow> Some s)"
| "sched_step (Return a vs) s =
     (case objects s a of
        Some d \<Rightarrow> (case cpu_state d of
                     Syscall _ \<Rightarrow> set_syscall_return vs d \<bind> (\<lambda>d'. Some (s\<lparr>objects := (objects s)(a \<mapsto> d')\<rparr>))
                   | _ \<Rightarrow> Some s)
      | None \<Rightarrow> Some s)"
| "sched_step (LeaveSyscall c) s =
     (case cpu_phase s c of
        InSyscall a \<Rightarrow> release_current_proc a c s \<bind> (\<lambda>s1. Some (set_phase c Choosing s1))
      | _ \<Rightarrow> Some s)"
| "sched_step (EnterInterrupt c) s =
     (case cpu_phase s c of
        InUser a \<Rightarrow> Some (set_phase c (InInterrupt a) (interrupt_begin c s))
      | _ \<Rightarrow> Some s)"
| "sched_step (LeaveInterrupt c st) s =
     (case cpu_phase s c of
        InInterrupt a \<Rightarrow> interrupt_end c st s \<bind> (\<lambda>(switch, s1).
          Some (set_phase c (if switch then Choosing else InUser a) s1))
      | _ \<Rightarrow> Some s)"
| "sched_step (Schedule c) s =
     (case cpu_phase s c of
        Choosing \<Rightarrow> (case schedule c s of
                       (Some a, s1) \<Rightarrow> Some (set_phase c (Dispatching a) s1)
                     | (None, s1) \<Rightarrow> Some s1)
      | _ \<Rightarrow> Some s)"
| "sched_step (Dispatch c) s =
     (case cpu_phase s c of
        Dispatching a \<Rightarrow> dispatch c a s \<bind> (\<lambda>(_, s1). Some (set_phase c (InUser a) s1))
      | _ \<Rightarrow> Some s)"

fun sched_run :: "'n sched_event list \<Rightarrow> 'n proc_sys \<Rightarrow> 'n proc_sys option" where
  "sched_run [] s = Some s"
| "sched_run (e # es) s = sched_step e s \<bind> sched_run es"

end
