(* ===== verification/SchedulerSafety.thy ===== *)
theory SchedulerSafety
  imports Scheduler
begin

text \<open>
  What the scheduler guarantees under every interleaving of the processors: no process runs on two
  processors or waits in a queue while it runs, none is lost, a woken process becomes ready, and a ready
  process is scheduled after at most as many decisions as there are processes in front of it.
\<close>

section \<open>Queues\<close>

lemma swap_remove_first_distinct:
  assumes "distinct xs"
  shows "distinct (swap_remove_first (\<lambda>p. p = x) xs)" and "set (swap_remove_first (\<lambda>p. p = x) xs) = set xs - {x}"
  using assms position_Some [of "\<lambda>p. p = x" xs] distinct_swap_remove [of xs]
  by (auto simp: swap_remove_first_def position_None split: option.splits)

lemma map_swap_remove: "xs \<noteq> [] \<Longrightarrow> map f (swap_remove xs i) = swap_remove (map f xs) i"
  by (simp add: swap_remove_def map_butlast map_update last_map)

text \<open>No later element of a queue is delayed by the removal of another one.\<close>

lemma swap_remove_nth_earlier:
  assumes "i < length xs" and "k < length xs" and "k \<noteq> i"
  shows "\<exists>j\<le>k. j < length (swap_remove xs i) \<and> swap_remove xs i ! j = xs ! k"
proof (cases "k = length xs - 1")
  case True
  with assms have "i < length xs - 1" "xs \<noteq> []" by auto
  with True show ?thesis
    by (intro exI [of _ i]) (auto simp: swap_remove_def nth_butlast last_conv_nth)
next
  case False
  with assms show ?thesis by (intro exI [of _ k]) (auto simp: swap_remove_def nth_butlast)
qed

section \<open>Invariant\<close>

fun phase_proc :: "phase \<Rightarrow> nat option" where
  "phase_proc Choosing = None"
| "phase_proc (Dispatching a) = Some a"
| "phase_proc (InUser a) = Some a"
| "phase_proc (InSyscall a) = Some a"
| "phase_proc (InInterrupt a) = Some a"

definition objects_ok :: "'n proc_sys \<Rightarrow> bool" where
  "objects_ok s \<longleftrightarrow> next_object s = process_id_counter s \<and> process_id_counter s \<le> 2 ^ 32 \<and>
     (\<forall>a. objects s a \<noteq> None \<longleftrightarrow> a < process_id_counter s) \<and>
     (\<forall>a d. objects s a = Some d \<longrightarrow> pd_pid d = a \<and> \<not> internal_locked d) \<and>
     (\<forall>p a. tasks s p = Some a \<longrightarrow> a = p \<and> p < process_id_counter s)"

definition queue_sets :: "nat set \<Rightarrow> nat set \<Rightarrow> nat set \<Rightarrow> nat set \<Rightarrow> bool" where
  "queue_sets asleep ready active live \<longleftrightarrow> asleep \<inter> ready = {} \<and> (asleep \<union> ready) \<inter> active = {} \<and>
     asleep \<union> ready \<subseteq> live \<and> live \<subseteq> asleep \<union> ready \<union> active"

definition queues_ok :: "'n proc_sys \<Rightarrow> bool" where
  "queues_ok s \<longleftrightarrow> distinct (sleeping_tasks s) \<and> distinct (ready_to_run s) \<and> distinct (map fst (active_tasks s)) \<and>
     queue_sets (set (sleeping_tasks s)) (set (ready_to_run s)) (fst ` set (active_tasks s)) (dom (tasks s)) \<and>
     fst ` set (active_tasks s) \<subseteq> {..<process_id_counter s}"

lemma queue_sets_steps:
  assumes "queue_sets S R A D"
  shows "p \<notin> D \<Longrightarrow> p \<notin> A \<Longrightarrow> queue_sets S (insert p R) A (insert p D)"
    and "queue_sets (S - {p}) (R - {p}) A (D - {p})"
    and "p \<in> S \<Longrightarrow> queue_sets (S - {p}) (insert p R) A D"
    and "p \<in> R \<Longrightarrow> queue_sets S (R - {p}) (insert p A) D"
    and "p \<in> A \<Longrightarrow> p \<in> D \<Longrightarrow> queue_sets (insert p S) R (A - {p}) D"
    and "p \<in> A \<Longrightarrow> p \<in> D \<Longrightarrow> queue_sets S (insert p R) (A - {p}) D"
    and "p \<in> A \<Longrightarrow> p \<notin> D \<Longrightarrow> queue_sets S R (A - {p}) D"
  using assms unfolding queue_sets_def by blast+

definition states_ok :: "'n proc_sys \<Rightarrow> bool" where
  "states_ok s \<longleftrightarrow>
     (\<forall>p\<in>set (sleeping_tasks s). \<exists>d. objects s p = Some d \<and> sleeping d \<and> cpu_state d \<noteq> CpuNone) \<and>
     (\<forall>p\<in>set (ready_to_run s). \<exists>d. objects s p = Some d \<and> \<not> sleeping d \<and> cpu_state d \<noteq> CpuNone)"

definition phases_ok :: "'n proc_sys \<Rightarrow> bool" where
  "phases_ok s \<longleftrightarrow>
     (\<forall>p c. (p, c) \<in> set (active_tasks s) \<longleftrightarrow> phase_proc (cpu_phase s c) = Some p) \<and>
     (\<forall>c a. cpu_phase s c = Dispatching a \<longrightarrow> (\<exists>d. objects s a = Some d \<and> cpu_state d \<noteq> CpuNone)) \<and>
     (\<forall>c a. cpu_phase s c = InSyscall a \<longrightarrow> (\<exists>d st. objects s a = Some d \<and> cpu_state d = Syscall st)) \<and>
     (\<forall>c. current_process s c = (case cpu_phase s c of Choosing \<Rightarrow> None | InSyscall _ \<Rightarrow> None | p \<Rightarrow> phase_proc p)) \<and>
     (\<forall>c. int_depth s c = (case cpu_phase s c of InUser _ \<Rightarrow> 0 | _ \<Rightarrow> 1))"

definition sched_ok :: "'n proc_sys \<Rightarrow> bool" where
  "sched_ok s \<longleftrightarrow> objects_ok s \<and> queues_ok s \<and> states_ok s \<and> phases_ok s"

lemmas sched_ok_defs = sched_ok_def objects_ok_def queues_ok_def queue_sets_def states_ok_def phases_ok_def

lemma scheduler_new_ok: "sched_ok (scheduler_new root)"
  by (simp add: sched_ok_defs scheduler_new_def)

text \<open>Operations are described by what they do to the fields, so that each part of the invariant is shown
  on its own.\<close>

lemma phases_okD:
  assumes "phases_ok s"
  shows phases_active: "(p, c) \<in> set (active_tasks s) \<longleftrightarrow> phase_proc (cpu_phase s c) = Some p"
    and phases_dispatching: "cpu_phase s c = Dispatching a \<Longrightarrow> \<exists>d. objects s a = Some d \<and> cpu_state d \<noteq> CpuNone"
    and phases_syscall: "cpu_phase s c = InSyscall a \<Longrightarrow> \<exists>d st. objects s a = Some d \<and> cpu_state d = Syscall st"
    and phases_current: "current_process s c =
      (case cpu_phase s c of Choosing \<Rightarrow> None | InSyscall _ \<Rightarrow> None | p \<Rightarrow> phase_proc p)"
    and phases_depth: "int_depth s c = (case cpu_phase s c of InUser _ \<Rightarrow> 0 | _ \<Rightarrow> 1)"
  using assms by (simp_all add: phases_ok_def)

lemma phases_ok_cong:
  assumes "phases_ok s" and "active_tasks s' = active_tasks s" and "cpu_phase s' = cpu_phase s"
    and "current_process s' = current_process s" and "int_depth s' = int_depth s"
    and "\<And>a d. objects s a = Some d \<Longrightarrow> \<exists>d'. objects s' a = Some d' \<and>
      (cpu_state d \<noteq> CpuNone \<longrightarrow> cpu_state d' \<noteq> CpuNone) \<and> (\<forall>st. cpu_state d = Syscall st \<longrightarrow> (\<exists>st'. cpu_state d' = Syscall st'))"
  shows "phases_ok s'"
proof -
  have "\<exists>d. objects s' a = Some d \<and> cpu_state d \<noteq> CpuNone" if ph: "cpu_phase s c = Dispatching a" for c a
  proof -
    from phases_dispatching [OF assms(1) ph] obtain d where d: "objects s a = Some d" "cpu_state d \<noteq> CpuNone" by blast
    from assms(6) [OF d(1)] d(2) show ?thesis by blast
  qed
  moreover have "\<exists>d st. objects s' a = Some d \<and> cpu_state d = Syscall st" if ph: "cpu_phase s c = InSyscall a" for c a
  proof -
    from phases_syscall [OF assms(1) ph] obtain d st where d: "objects s a = Some d" "cpu_state d = Syscall st" by blast
    from assms(6) [OF d(1)] d(2) show ?thesis by blast
  qed
  ultimately show ?thesis using assms(1-5) by (simp add: phases_ok_def)
qed

lemma create_ok:
  assumes ok: "sched_ok s" and less: "process_id_counter s < 2 ^ 32"
  shows "sched_ok (snd (create_process st name root ns s))"
proof -
  let ?p = "process_id_counter s"
  let ?d = "process_new ?p False name (Interrupt st) root ns"
  let ?s = "s\<lparr>process_id_counter := ?p + 1, objects := (objects s)(?p \<mapsto> ?d), next_object := ?p + 1,
       tasks := (tasks s)(?p \<mapsto> ?p), ready_to_run := ready_to_run s @ [?p]\<rparr>"
  have o: "objects_ok s" and q: "queues_ok s" and st: "states_ok s" and ph: "phases_ok s"
    using ok by (simp_all add: sched_ok_def)
  have eq: "snd (create_process st name root ns s) = ?s"
    using less o by (simp add: create_process_def accept_new_process_def Let_def objects_ok_def)
  have new: "tasks s ?p = None" "objects s ?p = None"
    using o by (auto simp: objects_ok_def) (metis not_None_eq less_irrefl)
  then have out: "?p \<notin> fst ` set (active_tasks s)" "?p \<notin> set (sleeping_tasks s)" "?p \<notin> set (ready_to_run s)"
    using q by (auto simp: queues_ok_def queue_sets_def)
  have "objects_ok ?s" using o less unfolding objects_ok_def by (auto simp: process_new_def less_Suc_eq)
  moreover have "queues_ok ?s"
    using q out new queue_sets_steps(1) [of _ _ _ "dom (tasks s)" ?p] by (auto simp: queues_ok_def less_Suc_eq)
  moreover have "states_ok ?s" using st out unfolding states_ok_def by (auto simp: process_new_def)
  moreover have "phases_ok ?s" by (rule phases_ok_cong [OF ph]) (use new in auto)
  ultimately show ?thesis by (simp add: eq sched_ok_def)
qed

lemma sched_okD:
  assumes "sched_ok s"
  shows "objects_ok s" "queues_ok s" "states_ok s" "phases_ok s"
  using assms by (simp_all add: sched_ok_def)

lemma objects_okD:
  assumes "objects_ok s"
  shows objects_task: "tasks s p = Some a \<Longrightarrow> a = p"
    and objects_pid: "objects s a = Some d \<Longrightarrow> pd_pid d = a"
    and objects_unlocked: "objects s a = Some d \<Longrightarrow> \<not> internal_locked d"
    and objects_live: "tasks s p = Some a \<Longrightarrow> \<exists>d. objects s a = Some d"
    and objects_defined: "a < process_id_counter s \<Longrightarrow> \<exists>d. objects s a = Some d"
  using assms by (auto simp: objects_ok_def)

text \<open>A change of one object that keeps its identity keeps the invariant, if it respects the queue in which
  the process waits and the phase of its processor.\<close>

lemma object_update_ok:
  assumes ok: "sched_ok s" and d: "objects s a = Some d" "pd_pid d' = pd_pid d" "\<not> internal_locked d'"
    and sl: "sleeping d' = sleeping d \<or> a \<notin> set (sleeping_tasks s) \<union> set (ready_to_run s)"
    and st: "cpu_state d \<noteq> CpuNone \<longrightarrow> cpu_state d' \<noteq> CpuNone"
      "\<forall>st. cpu_state d = Syscall st \<longrightarrow> (\<exists>st'. cpu_state d' = Syscall st')"
  shows "sched_ok (s\<lparr>objects := (objects s)(a \<mapsto> d')\<rparr>)"
proof -
  let ?s = "s\<lparr>objects := (objects s)(a \<mapsto> d')\<rparr>"
  note o = sched_okD [OF ok]
  have "objects_ok ?s" using o(1) d unfolding objects_ok_def by auto
  moreover have "queues_ok ?s" using o(2) by (simp add: queues_ok_def)
  moreover have "states_ok ?s" using o(3) d sl st(1) unfolding states_ok_def by fastforce
  moreover have "phases_ok ?s" by (rule phases_ok_cong [OF o(4)]) (use d st in auto)
  ultimately show ?thesis by (simp add: sched_ok_def)
qed

lemma remove_ok:
  assumes ok: "sched_ok s"
  shows "sched_ok (snd (remove_process pid s))"
proof -
  let ?s = "snd (remove_process pid s)"
  note o = sched_okD [OF ok]
  have f: "sleeping_tasks ?s = swap_remove_first (\<lambda>p. p = pid) (sleeping_tasks s)"
    "ready_to_run ?s = swap_remove_first (\<lambda>p. p = pid) (ready_to_run s)" "tasks ?s = (tasks s)(pid := None)"
    "objects ?s = objects s" "active_tasks ?s = active_tasks s" "process_id_counter ?s = process_id_counter s"
    "next_object ?s = next_object s"
    by (simp_all add: remove_process_def)
  have dist: "distinct (sleeping_tasks s)" "distinct (ready_to_run s)" using o(2) by (simp_all add: queues_ok_def)
  note sets = swap_remove_first_distinct [OF dist(1), of pid] swap_remove_first_distinct [OF dist(2), of pid]
  have "objects_ok ?s" using o(1) by (auto simp: objects_ok_def f)
  moreover have "queues_ok ?s" using o(2) queue_sets_steps(2) by (simp add: queues_ok_def f sets)
  moreover have "states_ok ?s" using o(3) by (auto simp: states_ok_def f sets)
  moreover have "phases_ok ?s" by (rule phases_ok_cong [OF o(4)]) (auto simp: remove_process_def)
  ultimately show ?thesis by (simp add: sched_ok_def)
qed

lemma kill_ok:
  assumes ok: "sched_ok s"
  shows "sched_ok (snd (kill_process pid s))"
proof -
  obtain a s1 where r: "remove_process pid s = (a, s1)" by force
  have s1: "sched_ok s1" using remove_ok [OF ok, of pid] r by simp
  show ?thesis
  proof (cases "a \<bind> objects s1")
    case None
    with s1 show ?thesis by (auto simp: kill_process_def r split: option.split)
  next
    case (Some d)
    then obtain b where b: "a = Some b" "objects s1 b = Some d" by (cases a) auto
    have "sched_ok (s1\<lparr>objects := (objects s1)(b \<mapsto> snd (call_exit_hooks d))\<rparr>)"
      by (rule object_update_ok [OF s1 b(2)])
        (use objects_unlocked [OF sched_okD(1) [OF s1] b(2)] in \<open>auto simp: call_exit_hooks_def\<close>)
    then show ?thesis by (simp add: kill_process_def r b)
  qed
qed

lemma wake_ok:
  assumes ok: "sched_ok s"
  shows "sched_ok (wake_proc pid s)"
proof (cases "tasks s pid")
  case None
  then have "position (\<lambda>p. p = pid) (sleeping_tasks s) = None"
    using sched_okD(2) [OF ok] by (auto simp: queues_ok_def queue_sets_def position_None)
  with ok None show ?thesis by (simp add: wake_proc_def)
next
  case (Some a)
  note o = sched_okD [OF ok]
  from objects_task [OF o(1) Some] have a: "a = pid" .
  from objects_live [OF o(1) Some] a obtain d where d: "objects s pid = Some d" by blast
  let ?d = "set_sleeping False d"
  have dd: "pd_pid ?d = pd_pid d" "internal_locked ?d = internal_locked d" "cpu_state ?d = cpu_state d" "\<not> sleeping ?d"
    by (simp_all add: set_sleeping_def)
  have upd: "upd_process pid (set_sleeping False) s = s\<lparr>objects := (objects s)(pid \<mapsto> ?d)\<rparr>"
    using d by (simp add: upd_process_def)
  show ?thesis
  proof (cases "pid \<in> set (sleeping_tasks s)")
    case False
    then have "position (\<lambda>p. p = pid) (sleeping_tasks s) = None" by (auto simp: position_None)
    then have eq: "wake_proc pid s = s\<lparr>objects := (objects s)(pid \<mapsto> ?d)\<rparr>"
      using Some a upd by (simp add: wake_proc_def)
    have "\<not> sleeping d" if "pid \<in> set (ready_to_run s)"
      using o(3) that d by (auto simp: states_ok_def)
    with False show ?thesis unfolding eq
      by (intro object_update_ok [OF ok d]) (use objects_unlocked [OF o(1) d] dd in auto)
  next
    case True
    then obtain i where i: "position (\<lambda>p. p = pid) (sleeping_tasks s) = Some i"
      using position_None [of "\<lambda>p. p = pid" "sleeping_tasks s"] by (cases "position (\<lambda>p. p = pid) (sleeping_tasks s)") auto
    let ?s = "s\<lparr>objects := (objects s)(pid \<mapsto> ?d),
       sleeping_tasks := swap_remove_first (\<lambda>p. p = pid) (sleeping_tasks s), ready_to_run := ready_to_run s @ [pid]\<rparr>"
    have eq: "wake_proc pid s = ?s"
      using Some a upd i by (simp add: wake_proc_def Let_def swap_remove_first_def)
    have "distinct (sleeping_tasks s)" using o(2) by (simp add: queues_ok_def)
    note sets = swap_remove_first_distinct [OF this, of pid]
    have "objects_ok ?s" using o(1) d dd unfolding objects_ok_def by auto
    moreover have "queues_ok ?s"
    proof -
      from True o(2) have "pid \<notin> set (ready_to_run s)" unfolding queues_ok_def queue_sets_def by blast
      with o(2) True queue_sets_steps(3) show ?thesis by (simp add: queues_ok_def sets)
    qed
    moreover have "states_ok ?s" using o(2,3) d dd True sets unfolding states_ok_def queues_ok_def queue_sets_def by auto
    moreover have "phases_ok ?s" by (rule phases_ok_cong [OF o(4)]) (use d dd in auto)
    ultimately show ?thesis by (simp add: eq sched_ok_def)
  qed
qed

text \<open>Steps in which a processor takes or gives up a process.\<close>

lemma switch_generic_ok: "sched_ok s \<Longrightarrow> sched_ok (switch_to_generic_mem_tree c s)"
  by (simp add: switch_to_generic_mem_tree_def sched_ok_defs)

lemma schedule_ok:
  assumes ok: "sched_ok s" and ph: "cpu_phase s c = Choosing"
  shows "case schedule c s of (Some a, s1) \<Rightarrow> sched_ok (set_phase c (Dispatching a) s1) | (None, s1) \<Rightarrow> sched_ok s1"
proof (cases "ready_to_run s")
  case Nil
  with switch_generic_ok [OF ok] show ?thesis by (simp add: schedule_def)
next
  case (Cons pid rest)
  note o = sched_okD [OF ok]
  from o(2) Cons obtain a where t: "tasks s pid = Some a" by (auto simp: queues_ok_def queue_sets_def)
  with objects_task [OF o(1)] have t: "tasks s pid = Some pid" by metis
  let ?s = "s\<lparr>ready_to_run := rest, active_tasks := active_tasks s @ [(pid, c)],
     current_process := (current_process s)(c := Some pid), cpu_phase := (cpu_phase s)(c := Dispatching pid)\<rparr>"
  have eq: "schedule c s = (Some pid, s\<lparr>ready_to_run := rest, active_tasks := active_tasks s @ [(pid, c)],
     current_process := (current_process s)(c := Some pid)\<rparr>)"
    using Cons t by (simp add: schedule_def)
  have idle: "(p, c) \<notin> set (active_tasks s)" for p using phases_active [OF o(4)] ph by simp
  have pid: "pid < process_id_counter s" using o(1) t by (auto simp: objects_ok_def)
  have "objects_ok ?s" using o(1) by (simp add: objects_ok_def)
  moreover have "queues_ok ?s"
  proof -
    have qs: "queue_sets (set (sleeping_tasks s)) (insert pid (set rest)) (fst ` set (active_tasks s)) (dom (tasks s))"
      and "pid \<notin> set rest" using o(2) Cons by (simp_all add: queues_ok_def)
    then have "pid \<notin> fst ` set (active_tasks s)"
      and "queue_sets (set (sleeping_tasks s)) (set rest) (insert pid (fst ` set (active_tasks s))) (dom (tasks s))"
      using queue_sets_steps(4) [OF qs, of pid] unfolding queue_sets_def by auto
    with o(2) Cons pid show ?thesis by (simp add: queues_ok_def)
  qed
  moreover have "states_ok ?s" using o(3) Cons by (simp add: states_ok_def)
  moreover have "phases_ok ?s"
    unfolding phases_ok_def
  proof (intro conjI)
    show "\<forall>p c'. (p, c') \<in> set (active_tasks ?s) \<longleftrightarrow> phase_proc (cpu_phase ?s c') = Some p"
      using phases_active [OF o(4)] idle by auto
    show "\<forall>c' a. cpu_phase ?s c' = Dispatching a \<longrightarrow> (\<exists>d. objects ?s a = Some d \<and> cpu_state d \<noteq> CpuNone)"
      using phases_dispatching [OF o(4)] o(3) Cons by (auto simp: states_ok_def)
    show "\<forall>c' a. cpu_phase ?s c' = InSyscall a \<longrightarrow> (\<exists>d st. objects ?s a = Some d \<and> cpu_state d = Syscall st)"
      using phases_syscall [OF o(4)] by simp
  qed (use phases_current [OF o(4)] phases_depth [OF o(4)] ph in \<open>simp_all split: phase.split\<close>)
  ultimately show ?thesis by (simp add: eq set_phase_def sched_ok_def)
qed

lemma active_unique:
  "queues_ok s \<Longrightarrow> (a, c) \<in> set (active_tasks s) \<Longrightarrow> (a, c') \<in> set (active_tasks s) \<Longrightarrow> c' = c"
  unfolding queues_ok_def by (metis eq_key_imp_eq_value)

lemma active_not_queued:
  "queues_ok s \<Longrightarrow> (a, c) \<in> set (active_tasks s) \<Longrightarrow> a \<notin> set (sleeping_tasks s) \<union> set (ready_to_run s)"
proof -
  assume q: "queues_ok s" and act: "(a, c) \<in> set (active_tasks s)"
  from act have "a \<in> fst ` set (active_tasks s)" by (rule rev_image_eqI) simp
  with q show ?thesis unfolding queues_ok_def queue_sets_def by blast
qed

text \<open>Between phases that hold the same process.\<close>

lemma phase_step_ok:
  assumes ok: "sched_ok s" and ph: "phase_proc (cpu_phase s c) = Some a" "phase_proc p = Some a"
    and d: "objects s a = Some d" "pd_pid d' = pd_pid d" "\<not> internal_locked d'"
    and st: "\<forall>b. p = Dispatching b \<longrightarrow> cpu_state d' \<noteq> CpuNone" "\<forall>b. p = InSyscall b \<longrightarrow> (\<exists>st. cpu_state d' = Syscall st)"
    and s': "s' = s\<lparr>objects := (objects s)(a \<mapsto> d'), cpu_phase := (cpu_phase s)(c := p),
        current_process := (current_process s)(c := case p of InSyscall _ \<Rightarrow> None | q \<Rightarrow> phase_proc q),
        int_depth := (int_depth s)(c := case p of InUser _ \<Rightarrow> 0 | _ \<Rightarrow> 1), page_root := r\<rparr>"
  shows "sched_ok s'"
proof -
  note o = sched_okD [OF ok]
  have act: "(a, c) \<in> set (active_tasks s)" using phases_active [OF o(4)] ph(1) by simp
  have only: "c' = c" if "phase_proc (cpu_phase s c') = Some a" for c'
    using active_unique [OF o(2) act] phases_active [OF o(4)] that by blast
  have out: "a \<notin> set (sleeping_tasks s)" "a \<notin> set (ready_to_run s)" using active_not_queued [OF o(2) act] by auto
  have f: "objects s' = (objects s)(a \<mapsto> d')" "cpu_phase s' = (cpu_phase s)(c := p)"
    "active_tasks s' = active_tasks s" "current_process s' = (current_process s)(c := case p of InSyscall _ \<Rightarrow> None | q \<Rightarrow> phase_proc q)"
    "int_depth s' = (int_depth s)(c := case p of InUser _ \<Rightarrow> 0 | _ \<Rightarrow> 1)" by (simp_all add: s')
  have "objects_ok s'" using o(1) d unfolding objects_ok_def s' by auto
  moreover have "queues_ok s'" using o(2) by (simp add: queues_ok_def s')
  moreover have "states_ok s'" using o(3) out unfolding states_ok_def s' by auto
  moreover have "phases_ok s'"
    unfolding phases_ok_def
  proof (intro conjI allI impI)
    fix c' b
    have other: "objects s' b = objects s b \<and> cpu_phase s' c' = cpu_phase s c'"
      if "phase_proc (cpu_phase s' c') = Some b" "c' \<noteq> c"
      using only [of c'] that by (auto simp: f)
    have same: "b = a \<and> p = cpu_phase s' c' \<and> objects s' b = Some d'"
      if "phase_proc (cpu_phase s' c') = Some b" "c' = c"
      using ph(2) that by (simp add: f)
    show "\<exists>d. objects s' b = Some d \<and> cpu_state d \<noteq> CpuNone" if ds: "cpu_phase s' c' = Dispatching b"
    proof (cases "c' = c")
      case True
      with same ds have "objects s' b = Some d'" "p = Dispatching b" by auto
      with st(1) show ?thesis by blast
    next
      case False
      with other ds phases_dispatching [OF o(4), of c' b] show ?thesis by simp
    qed
    show "\<exists>d st. objects s' b = Some d \<and> cpu_state d = Syscall st" if ds: "cpu_phase s' c' = InSyscall b"
    proof (cases "c' = c")
      case True
      with same ds have "objects s' b = Some d'" "p = InSyscall b" by auto
      with st(2) show ?thesis by blast
    next
      case False
      with other ds phases_syscall [OF o(4), of c' b] show ?thesis by simp
    qed
    show "(b, c') \<in> set (active_tasks s') \<longleftrightarrow> phase_proc (cpu_phase s' c') = Some b"
      using phases_active [OF o(4), of b c'] ph by (cases "c' = c") (auto simp: f)
    show "current_process s' c' = (case cpu_phase s' c' of Choosing \<Rightarrow> None | InSyscall _ \<Rightarrow> None | p \<Rightarrow> phase_proc p)"
      using phases_current [OF o(4), of c'] ph(2) by (cases "c' = c") (auto simp: f split: phase.split)
    show "int_depth s' c' = (case cpu_phase s' c' of InUser _ \<Rightarrow> 0 | _ \<Rightarrow> 1)"
      using phases_depth [OF o(4), of c'] by (cases "c' = c") (auto simp: f)
  qed
  ultimately show ?thesis by (simp add: sched_ok_def)
qed

text \<open>A released process goes back to the queue that its sleeping flag names.\<close>

lemma release_ok:
  assumes ok: "sched_ok s" and ph: "phase_proc (cpu_phase s c) = Some a" and d: "objects s a = Some d" "cpu_state d \<noteq> CpuNone"
    and depth: "int_depth s c = 1"
  shows "sched_ok (set_phase c Choosing (release_process a c s))"
proof -
  note o = sched_okD [OF ok]
  let ?s = "set_phase c Choosing (release_process a c s)"
  have act: "(a, c) \<in> set (active_tasks s)" using phases_active [OF o(4)] ph by simp
  then obtain i where i: "position (\<lambda>(p, _). p = a) (active_tasks s) = Some i"
    using position_None [of "\<lambda>(p, _). p = a" "active_tasks s"]
    by (cases "position (\<lambda>(p, _). p = a) (active_tasks s)") auto
  from position_Some [OF i] have il: "i < length (active_tasks s)" "fst (active_tasks s ! i) = a" by auto
  then obtain c' where "active_tasks s ! i = (a, c')" by (metis prod.collapse)
  with active_unique [OF o(2) act] il have ai: "active_tasks s ! i = (a, c)" by (metis nth_mem)
  have dist: "distinct (map fst (active_tasks s))" using o(2) by (simp add: queues_ok_def)
  have "distinct (active_tasks s)" using dist by (simp add: distinct_map)
  note act' = distinct_swap_remove [OF this il(1)]
  have map': "distinct (map fst (swap_remove (active_tasks s) i))"
    using distinct_swap_remove(1) [OF dist, of i] il map_swap_remove [of "active_tasks s" fst i] by fastforce
  let ?q = "\<lambda>b xs. if tasks s a = Some a \<and> sleeping d = b then xs @ [a] else xs"
  have f: "objects ?s = objects s" "tasks ?s = tasks s" "next_object ?s = next_object s"
    "process_id_counter ?s = process_id_counter s" "active_tasks ?s = swap_remove (active_tasks s) i"
    "sleeping_tasks ?s = ?q True (sleeping_tasks s)" "ready_to_run ?s = ?q False (ready_to_run s)"
    "current_process ?s = (current_process s)(c := None)" "cpu_phase ?s = (cpu_phase s)(c := Choosing)"
    "int_depth ?s = int_depth s"
    using i d(1) objects_task [OF o(1), of a]
    by (auto simp: set_phase_def release_process_def switch_to_generic_mem_tree_def Let_def split: option.splits)
  have out: "a \<notin> set (sleeping_tasks s)" "a \<notin> set (ready_to_run s)" using active_not_queued [OF o(2) act] by auto
  have fst': "fst ` set (swap_remove (active_tasks s) i) = fst ` set (active_tasks s) - {a}"
  proof -
    have "p \<noteq> a" if "(p, e) \<in> set (active_tasks s) - {(a, c)}" for p e
      using active_unique [OF o(2) act, of e] that by auto
    then show ?thesis using act'(2) ai by (auto simp: image_iff) (metis fst_conv)
  qed
  have live: "tasks s a = None \<or> tasks s a = Some a" using objects_task [OF o(1), of a] by (cases "tasks s a") auto
  have "objects_ok ?s" using o(1) by (simp add: objects_ok_def f)
  moreover have "queues_ok ?s"
  proof -
    have qs: "queue_sets (set (sleeping_tasks s)) (set (ready_to_run s)) (fst ` set (active_tasks s)) (dom (tasks s))"
      using o(2) by (simp add: queues_ok_def)
    have "a \<in> fst ` set (active_tasks s)" using act by force
    note steps = queue_sets_steps(5-7) [OF qs this]
    have "queue_sets (set (sleeping_tasks ?s)) (set (ready_to_run ?s)) (fst ` set (active_tasks ?s)) (dom (tasks ?s))"
      unfolding f fst' using live steps by (cases "sleeping d") (auto simp: domIff)
    moreover have "fst ` set (active_tasks ?s) \<subseteq> {..<process_id_counter s}"
      unfolding f fst' using o(2) by (auto simp: queues_ok_def)
    ultimately show ?thesis using o(2) out map' by (simp add: queues_ok_def f)
  qed
  moreover have "states_ok ?s" using o(3) d by (auto simp: states_ok_def f)
  moreover have "phases_ok ?s"
    unfolding phases_ok_def
  proof (intro conjI allI impI)
    fix c' b
    show "(b, c') \<in> set (active_tasks ?s) \<longleftrightarrow> phase_proc (cpu_phase ?s c') = Some b"
      using phases_active [OF o(4), of b c'] ph act'(2) ai by (cases "c' = c") (auto simp: f)
    show "\<exists>d. objects ?s b = Some d \<and> cpu_state d \<noteq> CpuNone" if "cpu_phase ?s c' = Dispatching b"
      using phases_dispatching [OF o(4), of c' b] that by (cases "c' = c") (simp_all add: f)
    show "\<exists>d st. objects ?s b = Some d \<and> cpu_state d = Syscall st" if "cpu_phase ?s c' = InSyscall b"
      using phases_syscall [OF o(4), of c' b] that by (cases "c' = c") (simp_all add: f)
    show "current_process ?s c' = (case cpu_phase ?s c' of Choosing \<Rightarrow> None | InSyscall _ \<Rightarrow> None | p \<Rightarrow> phase_proc p)"
      using phases_current [OF o(4), of c'] by (cases "c' = c") (simp_all add: f)
    show "int_depth ?s c' = (case cpu_phase ?s c' of InUser _ \<Rightarrow> 0 | _ \<Rightarrow> 1)"
      using phases_depth [OF o(4), of c'] depth by (cases "c' = c") (simp_all add: f)
  qed
  ultimately show ?thesis by (simp add: sched_ok_def)
qed

lemma release_counter [simp]: "process_id_counter (release_process pid c s) = process_id_counter s"
  by (simp add: release_process_def switch_to_generic_mem_tree_def remove_process_def Let_def split: option.split)

lemma release_current_ok:
  assumes ok: "sched_ok s" and ph: "phase_proc (cpu_phase s c) = Some a" and d: "objects s a = Some d" "cpu_state d \<noteq> CpuNone"
    and depth: "int_depth s c = 1"
  shows "\<exists>s'. release_current_proc a c s = Some s' \<and> sched_ok (set_phase c Choosing s')"
  using release_ok [OF assms] d objects_pid [OF sched_okD(1) [OF ok] d(1)] by (simp add: release_current_proc_def)

lemma phase_object:
  assumes ok: "sched_ok s" and ph: "phase_proc (cpu_phase s c) = Some a"
  shows "\<exists>d. objects s a = Some d \<and> pd_pid d = a \<and> \<not> internal_locked d"
proof -
  note o = sched_okD [OF ok]
  have "(a, c) \<in> set (active_tasks s)" using phases_active [OF o(4)] ph by simp
  then have "a < process_id_counter s" using o(2) by (force simp: queues_ok_def)
  with objects_defined [OF o(1)] objects_pid [OF o(1)] objects_unlocked [OF o(1)] show ?thesis by blast
qed

text \<open>Every event keeps the invariant and none of them panics, except a return of more than ten values.\<close>

lemma enter_syscall_ok:
  assumes ok: "sched_ok s"
  shows "\<exists>s'. sched_step (EnterSyscall c st) s = Some s' \<and> sched_ok s' \<and> process_id_counter s' = process_id_counter s"
proof (cases "cpu_phase s c")
  case (InUser a)
  note o = sched_okD [OF ok]
  have ph: "phase_proc (cpu_phase s c) = Some a" using InUser by simp
  from phase_object [OF ok ph] obtain d where d: "objects s a = Some d" "pd_pid d = a" "\<not> internal_locked d" by blast
  let ?d = "d\<lparr>cpu_state := Syscall st, internal_locked := False\<rparr>"
  let ?s = "s\<lparr>objects := (objects s)(a \<mapsto> ?d), cpu_phase := (cpu_phase s)(c := InSyscall a),
     current_process := (current_process s)(c := None), int_depth := (int_depth s)(c := 1), page_root := page_root s\<rparr>"
  have "sched_step (EnterSyscall c st) s = Some ?s"
    using InUser d phases_current [OF o(4), of c]
    by (simp add: syscall_begin_def save_cpu_state_def set_cpu_data_def get_mutable_def drop_mutable_def set_phase_def)
  moreover have "sched_ok ?s" 
    by (rule phase_step_ok [where p = "InSyscall a" and d' = ?d and r = "page_root s", OF ok ph _ d(1)]) (use d in simp_all)
  ultimately show ?thesis by simp
qed (use ok in auto)

lemma interrupt_events_ok:
  assumes ok: "sched_ok s"
  shows "\<exists>s'. sched_step (EnterInterrupt c) s = Some s' \<and> sched_ok s' \<and> process_id_counter s' = process_id_counter s"
    and "\<exists>s'. sched_step (LeaveInterrupt c st) s = Some s' \<and> sched_ok s' \<and> process_id_counter s' = process_id_counter s"
proof -
  note o = sched_okD [OF ok]
  show "\<exists>s'. sched_step (EnterInterrupt c) s = Some s' \<and> sched_ok s' \<and> process_id_counter s' = process_id_counter s"
  proof (cases "cpu_phase s c")
    case (InUser a)
    have ph: "phase_proc (cpu_phase s c) = Some a" using InUser by simp
    from phase_object [OF ok ph] obtain d where d: "objects s a = Some d" "pd_pid d = a" "\<not> internal_locked d" by blast
    have "sched_ok (set_phase c (InInterrupt a) (interrupt_begin c s))"
      by (rule phase_step_ok [where p = "InInterrupt a" and d' = d and r = "page_root s", OF ok ph _ d(1) refl d(3)])
        (use InUser d phases_current [OF o(4), of c] phases_depth [OF o(4), of c]
         in \<open>simp_all add: set_phase_def interrupt_begin_def fun_upd_idem map_upd_triv\<close>)
    with InUser show ?thesis by (simp add: set_phase_def interrupt_begin_def)
  qed (use ok in auto)
  show "\<exists>s'. sched_step (LeaveInterrupt c st) s = Some s' \<and> sched_ok s' \<and> process_id_counter s' = process_id_counter s"
  proof (cases "cpu_phase s c")
    case (InInterrupt a)
    have ph: "phase_proc (cpu_phase s c) = Some a" using InInterrupt by simp
    have act: "(a, c) \<in> set (active_tasks s)" using phases_active [OF o(4)] ph by simp
    have depth: "int_depth s c = 1" "current_process s c = Some a"
      using phases_depth [OF o(4), of c] phases_current [OF o(4), of c] InInterrupt by simp_all
    from phase_object [OF ok ph] obtain d where d: "objects s a = Some d" "pd_pid d = a" "\<not> internal_locked d" by blast
    let ?d = "d\<lparr>cpu_state := Interrupt st, internal_locked := False\<rparr>"
    let ?s = "s\<lparr>objects := (objects s)(a \<mapsto> ?d)\<rparr>"
    have s1: "save_cpu_state (Interrupt st) a s = Some ?s"
      using d by (simp add: save_cpu_state_def set_cpu_data_def get_mutable_def drop_mutable_def)
    have ok1: "sched_ok ?s"
      by (rule phase_step_ok [where p = "InInterrupt a" and d' = ?d and r = "page_root s", OF ok ph _ d(1)])
        (use InInterrupt d depth in \<open>simp_all add: fun_upd_idem\<close>)
    obtain s2 where s2: "release_current_proc a c ?s = Some s2" "sched_ok (set_phase c Choosing s2)"
      using release_current_ok [OF ok1, of c a ?d] ph depth by auto
    then have "process_id_counter s2 = process_id_counter s" by (auto simp: release_current_proc_def)
    with s1 s2 InInterrupt depth show ?thesis by (simp add: interrupt_end_def set_phase_def)
  qed (use ok in auto)
qed

lemma choosing_events_ok:
  assumes ok: "sched_ok s"
  shows "\<exists>s'. sched_step (Schedule c) s = Some s' \<and> sched_ok s' \<and> process_id_counter s' = process_id_counter s"
    and "\<exists>s'. sched_step (Dispatch c) s = Some s' \<and> sched_ok s' \<and> process_id_counter s' = process_id_counter s"
    and "\<exists>s'. sched_step (LeaveSyscall c) s = Some s' \<and> sched_ok s' \<and> process_id_counter s' = process_id_counter s"
proof -
  note o = sched_okD [OF ok]
  have cnt: "process_id_counter (snd (schedule c s)) = process_id_counter s"
    by (simp add: schedule_def switch_to_generic_mem_tree_def Let_def split: list.split option.split)
  show "\<exists>s'. sched_step (Schedule c) s = Some s' \<and> sched_ok s' \<and> process_id_counter s' = process_id_counter s"
  proof (cases "cpu_phase s c")
    case Choosing
    with schedule_ok [OF ok Choosing] cnt show ?thesis
      by (cases "schedule c s"; cases "fst (schedule c s)") (simp_all add: set_phase_def)
  qed (use ok in auto)
  show "\<exists>s'. sched_step (Dispatch c) s = Some s' \<and> sched_ok s' \<and> process_id_counter s' = process_id_counter s"
  proof (cases "cpu_phase s c")
    case (Dispatching a)
    have ph: "phase_proc (cpu_phase s c) = Some a" using Dispatching by simp
    from phase_object [OF ok ph] obtain d where d: "objects s a = Some d" "pd_pid d = a" "\<not> internal_locked d" by blast
    with phases_dispatching [OF o(4) Dispatching] have st: "cpu_state d \<noteq> CpuNone" by simp
    let ?d = "d\<lparr>cpu_state := CpuNone, internal_locked := False\<rparr>"
    let ?s = "s\<lparr>objects := (objects s)(a \<mapsto> ?d), page_root := (page_root s)(c := pd_page_tree_root d),
       int_depth := (int_depth s)(c := 0)\<rparr>"
    have "dispatch c a s = Some (cpu_state d, ?s)"
      using d st phases_depth [OF o(4), of c] Dispatching
      by (simp add: dispatch_def take_cpu_state_def get_mutable_def drop_mutable_def checked_sub_def)
    moreover have "sched_ok (set_phase c (InUser a) ?s)"
      by (rule phase_step_ok [where p = "InUser a" and d' = ?d and r = "(page_root s)(c := pd_page_tree_root d)", OF ok ph _ d(1)])
        (use Dispatching d phases_current [OF o(4), of c] in \<open>simp_all add: set_phase_def fun_upd_idem\<close>)
    ultimately show ?thesis using Dispatching by (simp add: set_phase_def)
  qed (use ok in auto)
  show "\<exists>s'. sched_step (LeaveSyscall c) s = Some s' \<and> sched_ok s' \<and> process_id_counter s' = process_id_counter s"
  proof (cases "cpu_phase s c")
    case (InSyscall a)
    from phases_syscall [OF o(4) InSyscall] obtain d st where d: "objects s a = Some d" "cpu_state d = Syscall st" by blast
    then obtain s1 where s1: "release_current_proc a c s = Some s1" "sched_ok (set_phase c Choosing s1)"
      using release_current_ok [OF ok, of c a d] InSyscall phases_depth [OF o(4), of c] by auto
    then have "process_id_counter s1 = process_id_counter s" by (auto simp: release_current_proc_def)
    with s1 InSyscall show ?thesis by (simp add: set_phase_def)
  qed (use ok in auto)
qed

lemma other_events_ok:
  assumes ok: "sched_ok s"
  shows "\<exists>s'. sched_step (Sleep c) s = Some s' \<and> sched_ok s' \<and> process_id_counter s' = process_id_counter s"
    and "length vs \<le> 10 \<Longrightarrow>
      \<exists>s'. sched_step (Return a vs) s = Some s' \<and> sched_ok s' \<and> process_id_counter s' = process_id_counter s"
proof -
  note o = sched_okD [OF ok]
  show "\<exists>s'. sched_step (Sleep c) s = Some s' \<and> sched_ok s' \<and> process_id_counter s' = process_id_counter s"
  proof (cases "cpu_phase s c")
    case (InSyscall a)
    have ph: "phase_proc (cpu_phase s c) = Some a" using InSyscall by simp
    then have act: "(a, c) \<in> set (active_tasks s)" using phases_active [OF o(4)] by simp
    from phase_object [OF ok ph] obtain d where d: "objects s a = Some d" "pd_pid d = a" "\<not> internal_locked d" by blast
    have "sched_ok (s\<lparr>objects := (objects s)(a \<mapsto> set_sleeping True d)\<rparr>)"
      by (rule object_update_ok [OF ok d(1)])
        (use d active_not_queued [OF o(2) act] in \<open>simp_all add: set_sleeping_def\<close>)
    with InSyscall d show ?thesis by (simp add: upd_process_def)
  qed (use ok in auto)
  assume vs: "length vs \<le> 10"
  show "\<exists>s'. sched_step (Return a vs) s = Some s' \<and> sched_ok s' \<and> process_id_counter s' = process_id_counter s"
  proof (cases "\<exists>d st. objects s a = Some d \<and> cpu_state d = Syscall st")
    case True
    then obtain d st where d: "objects s a = Some d" "cpu_state d = Syscall st" by blast
    have l: "\<not> internal_locked d" by (rule objects_unlocked [OF o(1) d(1)])
    obtain st' where st': "write_args 0 vs st = Some st'" using write_args_spec [of 0 vs st] vs by auto
    let ?d = "d\<lparr>cpu_state := Syscall st', internal_locked := False\<rparr>"
    have "set_syscall_return vs d = Some ?d"
      using d l st' vs by (simp add: set_syscall_return_def get_mutable_def drop_mutable_def panic_unless_def)
    moreover have "sched_ok (s\<lparr>objects := (objects s)(a \<mapsto> ?d)\<rparr>)"
      by (rule object_update_ok [OF ok d(1)]) (use d in simp_all)
    ultimately show ?thesis using d by simp
  next
    case False
    then have "sched_step (Return a vs) s = Some s" by (auto split: option.split CpuStateType.split)
    with ok show ?thesis by simp
  qed
qed

section \<open>Runs\<close>

fun event_ok :: "'n sched_event \<Rightarrow> bool" where
  "event_ok (Return a vs) \<longleftrightarrow> length vs \<le> 10"
| "event_ok _ \<longleftrightarrow> True"

fun is_create :: "'n sched_event \<Rightarrow> bool" where
  "is_create (Create st name root ns) \<longleftrightarrow> True"
| "is_create _ \<longleftrightarrow> False"

lemma sched_step_ok:
  assumes ok: "sched_ok s" and e: "event_ok e" and room: "process_id_counter s + (if is_create e then 1 else 0) \<le> 2 ^ 32"
  shows "\<exists>s'. sched_step e s = Some s' \<and> sched_ok s' \<and>
    process_id_counter s' = process_id_counter s + (if is_create e then 1 else 0)"
proof (cases e)
  case (Create st name root ns)
  with create_ok [OF ok, of st name root ns] room show ?thesis
    by (simp add: create_process_def accept_new_process_def Let_def)
next
  case (Wake pid)
  have "process_id_counter (wake_proc pid s) = process_id_counter s"
    by (simp add: wake_proc_def upd_process_def remove_process_def Let_def split: option.split)
  with Wake wake_ok [OF ok] show ?thesis by simp
next
  case (Kill pid)
  have "process_id_counter (snd (kill_process pid s)) = process_id_counter s"
    by (simp add: kill_process_def remove_process_def split: option.split)
  with Kill kill_ok [OF ok] show ?thesis by simp
qed (use e other_events_ok [OF ok] choosing_events_ok [OF ok] interrupt_events_ok [OF ok] enter_syscall_ok [OF ok]
     in simp_all)

lemma sched_run_ok:
  assumes "sched_ok s" and "\<forall>e\<in>set es. event_ok e" and "process_id_counter s + length (filter is_create es) \<le> 2 ^ 32"
  shows "\<exists>s'. sched_run es s = Some s' \<and> sched_ok s'"
  using assms
proof (induction es arbitrary: s)
  case (Cons e es)
  from sched_step_ok [OF Cons.prems(1), of e] Cons.prems(2,3) obtain s1 where
    "sched_step e s = Some s1" "sched_ok s1"
    "process_id_counter s1 = process_id_counter s + (if is_create e then 1 else 0)"
    by (auto split: if_splits)
  with Cons.IH [of s1] Cons.prems(2,3) show ?case by (auto split: if_splits)
qed simp

lemma reachable_ok:
  "sched_run es (scheduler_new root) = Some s \<Longrightarrow> \<forall>e\<in>set es. event_ok e \<Longrightarrow>
   length (filter is_create es) \<le> 2 ^ 32 \<Longrightarrow> sched_ok s"
  using sched_run_ok [OF scheduler_new_ok, of es root] by (simp add: scheduler_new_def)

text \<open>C5: Under every interleaving of the processors' entries, exits, wake-ups, kills and scheduling
  decisions (with at most \<open>2 ^ 32\<close> processes created) nothing panics, in particular no process is dispatched
  without a saved state (results are stored only for a process whose saved state is a system call, and
  at most ten of them); no process is on two processors, none is queued twice or while it runs, and
  every process that has not been killed runs or waits in exactly one of the two queues.\<close>

theorem scheduler_no_process_lost_or_doubled:
  assumes "\<forall>e\<in>set es. event_ok e" and "length (filter is_create es) \<le> 2 ^ 32"
  shows "\<exists>s. sched_run es (scheduler_new root) = Some s \<and>
    distinct (sleeping_tasks s @ ready_to_run s @ map fst (active_tasks s)) \<and>
    (\<forall>p c. (p, c) \<in> set (active_tasks s) \<longleftrightarrow> phase_proc (cpu_phase s c) = Some p) \<and>
    (\<forall>p. tasks s p \<noteq> None \<longrightarrow>
       p \<in> set (sleeping_tasks s) \<or> p \<in> set (ready_to_run s) \<or> (\<exists>c. phase_proc (cpu_phase s c) = Some p))"
proof -
  from sched_run_ok [OF scheduler_new_ok assms(1), of root] assms(2) obtain s where
    s: "sched_run es (scheduler_new root) = Some s" "sched_ok s" by (auto simp: scheduler_new_def)
  note o = sched_okD [OF s(2)]
  have "distinct (sleeping_tasks s @ ready_to_run s @ map fst (active_tasks s))"
    using o(2) by (auto simp: queues_ok_def queue_sets_def)
  moreover have "p \<in> set (sleeping_tasks s) \<or> p \<in> set (ready_to_run s) \<or> (\<exists>c. phase_proc (cpu_phase s c) = Some p)"
    if "tasks s p \<noteq> None" for p
  proof -
    have "dom (tasks s) \<subseteq> set (sleeping_tasks s) \<union> set (ready_to_run s) \<union> fst ` set (active_tasks s)"
      using o(2) by (simp add: queues_ok_def queue_sets_def)
    with that consider "p \<in> set (sleeping_tasks s)" | "p \<in> set (ready_to_run s)" | c where "(p, c) \<in> set (active_tasks s)"
      by (auto simp: domIff)
    then show ?thesis using phases_active [OF o(4), of p] by cases blast+
  qed
  ultimately show ?thesis using s(1) phases_active [OF o(4)] by blast
qed

theorem scheduler_no_process_lost_or_doubled_witness:
  "\<exists>s. sched_run [Create (interrupt_state_new 0x401000 0x7FF000) ''init'' 0x5000 (), Schedule 0, Dispatch 0, EnterInterrupt 0,
        LeaveInterrupt 0 (interrupt_state_new 0x401010 0x7FF000)] (scheduler_new 0x1000) = Some s \<and>
     distinct (sleeping_tasks s @ ready_to_run s @ map fst (active_tasks s))"
  using scheduler_no_process_lost_or_doubled [of "[Create (interrupt_state_new 0x401000 0x7FF000) ''init'' 0x5000 (), Schedule 0,
      Dispatch 0, EnterInterrupt 0, LeaveInterrupt 0 (interrupt_state_new 0x401010 0x7FF000)]" "0x1000"]
  by (simp del: sched_run.simps) blast

text \<open>C12: A wake-up is never lost: after \<open>wake_proc\<close> a live process is ready, or it is still on a processor
  and becomes ready when it is released, even if it has already been marked as sleeping there.\<close>

theorem wake_up_not_lost:
  assumes "sched_run es (scheduler_new root) = Some s" and "\<forall>e\<in>set es. event_ok e"
    and "length (filter is_create es) \<le> 2 ^ 32" and "tasks s p \<noteq> None"
  shows "p \<in> set (ready_to_run (wake_proc p s)) \<or>
    (\<exists>c. phase_proc (cpu_phase s c) = Some p \<and> p \<in> set (ready_to_run (release_process p c (wake_proc p s))))"
proof -
  have ok: "sched_ok s" using reachable_ok assms(1-3) by blast
  note o = sched_okD [OF ok] and o' = sched_okD [OF wake_ok [OF ok, of p]]
  from assms(4) objects_task [OF o(1)] have t: "tasks s p = Some p" by (metis not_None_eq)
  from objects_live [OF o(1) t] obtain d where d: "objects s p = Some d" by blast
  let ?s = "wake_proc p s"
  have f: "tasks ?s = tasks s" "cpu_phase ?s = cpu_phase s" "active_tasks ?s = active_tasks s"
    "objects ?s = (objects s)(p \<mapsto> set_sleeping False d)"
    using t d by (simp_all add: wake_proc_def upd_process_def Let_def split: option.split)
  have "p \<notin> set (sleeping_tasks ?s)"
  proof
    assume "p \<in> set (sleeping_tasks ?s)"
    with o'(3) obtain d' where "objects ?s p = Some d'" "sleeping d'" unfolding states_ok_def by blast
    then show False by (auto simp: f set_sleeping_def)
  qed
  moreover have "p \<in> set (sleeping_tasks ?s) \<union> set (ready_to_run ?s) \<union> fst ` set (active_tasks s)"
    using o'(2) t by (auto simp: queues_ok_def queue_sets_def f)
  ultimately consider "p \<in> set (ready_to_run ?s)" | c where "(p, c) \<in> set (active_tasks s)" by auto
  then show ?thesis
  proof cases
    case 2
    then have "position (\<lambda>(q, _). q = p) (active_tasks s) \<noteq> None" by (auto simp: position_None)
    then have "p \<in> set (ready_to_run (release_process p c ?s))"
      using t by (auto simp: release_process_def switch_to_generic_mem_tree_def f set_sleeping_def Let_def)
    with 2 phases_active [OF o(4)] show ?thesis by blast
  qed simp
qed

theorem wake_up_not_lost_witness:
  "\<exists>s :: unit proc_sys. 0 \<in> set (ready_to_run (wake_proc 0 s)) \<or>
    (\<exists>c. phase_proc (cpu_phase s c) = Some 0 \<and> 0 \<in> set (ready_to_run (release_process 0 c (wake_proc 0 s))))"
  using wake_up_not_lost [of "[Create (interrupt_state_new 0x401000 0x7FF000) ''init'' 0x5000 ()]" "0x1000"
      "snd (create_process (interrupt_state_new 0x401000 0x7FF000) ''init'' 0x5000 () (scheduler_new 0x1000))" 0]
  by (auto simp: create_process_def accept_new_process_def Let_def scheduler_new_def)

section \<open>Bounded waiting\<close>

text \<open>the decisions of a run: the calls of \<open>schedule\<close> that find a ready process; \<open>chosen p\<close> when one of them
  picks \<open>p\<close>.\<close>

fun decides :: "'n sched_event \<Rightarrow> 'n proc_sys \<Rightarrow> nat option" where
  "decides (Schedule c) s =
     (if cpu_phase s c = Choosing then (case ready_to_run s of [] \<Rightarrow> None | p # _ \<Rightarrow> Some p) else None)"
| "decides _ s = None"

fun decisions :: "'n sched_event list \<Rightarrow> 'n proc_sys \<Rightarrow> nat list" where
  "decisions [] s = []"
| "decisions (e # es) s =
     (case decides e s of None \<Rightarrow> [] | Some p \<Rightarrow> [p]) @
     (case sched_step e s of None \<Rightarrow> [] | Some s' \<Rightarrow> decisions es s')"

definition waits_at :: "nat \<Rightarrow> nat \<Rightarrow> 'n proc_sys \<Rightarrow> bool" where
  "waits_at p i s \<longleftrightarrow> i < length (ready_to_run s) \<and> ready_to_run s ! i = p"

lemma waits_at_append: "waits_at p i s \<Longrightarrow> ready_to_run s' = ready_to_run s @ xs \<Longrightarrow> \<exists>j\<le>i. waits_at p j s'"
  by (auto simp: waits_at_def nth_append intro: exI [of _ i])

lemma decides_ready:
  assumes "sched_ok s" and "decides e s = Some q" and "sched_step e s = Some s'"
  shows "ready_to_run s = q # ready_to_run s'"
proof -
  from assms(2) obtain c rest where e: "e = Schedule c" "cpu_phase s c = Choosing" "ready_to_run s = q # rest"
    by (cases e) (auto split: if_splits list.splits)
  with assms(1) obtain a where "tasks s q = Some a" by (auto simp: sched_ok_def queues_ok_def queue_sets_def)
  with assms(3) e show ?thesis by (auto simp: schedule_def set_phase_def)
qed

lemma release_ready:
  assumes "sched_ok s" and "phase_proc (cpu_phase s c) = Some a"
  shows "\<exists>xs. ready_to_run (release_process a c s) = ready_to_run s @ xs"
proof -
  have "(a, c) \<in> set (active_tasks s)" using phases_active [OF sched_okD(4)] assms by blast
  then have "position (\<lambda>(p, _). p = a) (active_tasks s) \<noteq> None" by (auto simp: position_None)
  then show ?thesis
    by (auto simp: release_process_def switch_to_generic_mem_tree_def Let_def split: option.splits)
qed

lemma leave_ready:
  assumes ok: "sched_ok s" and e: "e = LeaveSyscall c \<or> e = LeaveInterrupt c st" "sched_step e s = Some s'"
  shows "\<exists>xs. ready_to_run s' = ready_to_run s @ xs"
proof -
  note o = sched_okD [OF ok]
  consider "s' = s" | a where "e = LeaveSyscall c" "cpu_phase s c = InSyscall a"
    | a where "e = LeaveInterrupt c st" "cpu_phase s c = InInterrupt a"
    using e by (auto split: phase.splits)
  then show ?thesis
  proof cases
    case (2 a)
    with phase_object [OF ok, of c a] obtain d where "objects s a = Some d" "pd_pid d = a" by auto
    with 2 e(2) release_ready [OF ok, of c a] show ?thesis by (auto simp: release_current_proc_def set_phase_def)
  next
    case (3 a)
    have ph: "phase_proc (cpu_phase s c) = Some a" using 3 by simp
    from phase_object [OF ok ph] obtain d where d: "objects s a = Some d" "pd_pid d = a" "\<not> internal_locked d" by blast
    have "(a, c) \<in> set (active_tasks s)" using phases_active [OF o(4)] ph by simp
    then have "position (\<lambda>(p, _). p = a) (active_tasks s) \<noteq> None" by (auto simp: position_None)
    then have "\<exists>xs. ready_to_run (release_process a c (s\<lparr>objects := ob\<rparr>)) = ready_to_run s @ xs" for ob
      by (auto simp: release_process_def switch_to_generic_mem_tree_def Let_def split: option.splits)
    with 3 e(2) d phases_depth [OF o(4), of c] phases_current [OF o(4), of c] show ?thesis
      by (simp add: interrupt_end_def save_cpu_state_def set_cpu_data_def get_mutable_def drop_mutable_def
          release_current_proc_def set_phase_def) (metis proc_sys.select_convs(7) proc_sys.surjective proc_sys.update_convs(12))
  qed (intro exI [of _ "[]"], simp)
qed

lemma undecided_ready:
  assumes ok: "sched_ok s" and e: "decides e s = None" "sched_step e s = Some s'"
  shows "(\<exists>xs. ready_to_run s' = ready_to_run s @ xs) \<or>
    (\<exists>q. e = Kill q \<and> ready_to_run s' = swap_remove_first (\<lambda>r. r = q) (ready_to_run s))"
proof (cases e)
  case (Kill q)
  with e(2) show ?thesis by (auto simp: kill_process_def remove_process_def split: option.splits)
next
  case (Wake q)
  have "q \<notin> set (sleeping_tasks s)" if "tasks s q = None"
    using sched_okD(2) [OF ok] that by (auto simp: queues_ok_def queue_sets_def)
  with e(2) Wake show ?thesis
    by (auto simp: wake_proc_def upd_process_def Let_def split: option.splits dest: position_Some)
next
  case (Create st name root ns)
  with e(2) show ?thesis by (auto simp: create_process_def accept_new_process_def Let_def)
next
  case (EnterSyscall c st)
  with e(2) show ?thesis
    by (auto simp: syscall_begin_def save_cpu_state_def set_phase_def bind_eq_Some_conv split: phase.splits)
next
  case (Dispatch c)
  with e(2) show ?thesis by (auto simp: dispatch_def set_phase_def bind_eq_Some_conv split: phase.splits)
next
  case (Schedule c)
  with e show ?thesis
    by (auto simp: schedule_def switch_to_generic_mem_tree_def split: phase.splits list.splits)
next
  case (LeaveSyscall c)
  with e(2) leave_ready [OF ok, of e c] show ?thesis by blast
next
  case (LeaveInterrupt c st)
  with e(2) leave_ready [OF ok, of e c st] show ?thesis by blast
qed (use e in \<open>auto simp: upd_process_def set_phase_def interrupt_begin_def bind_eq_Some_conv
       split: phase.splits option.splits CpuStateType.splits\<close>)

lemma undecided_keeps_place:
  assumes ok: "sched_ok s" and e: "decides e s = None" "sched_step e s = Some s'" "e \<noteq> Kill p" and w: "waits_at p i s"
  shows "\<exists>j\<le>i. waits_at p j s'"
  using undecided_ready [OF ok e(1,2)]
proof (elim disjE exE conjE)
  fix q
  assume q: "e = Kill q" and s': "ready_to_run s' = swap_remove_first (\<lambda>r. r = q) (ready_to_run s)"
  show ?thesis
  proof (cases "position (\<lambda>r. r = q) (ready_to_run s)")
    case None
    with s' waits_at_append [OF w, of s' "[]"] show ?thesis by (simp add: swap_remove_first_def)
  next
    case (Some k)
    with position_Some [OF Some] w q e(3) have "k < length (ready_to_run s)" "i < length (ready_to_run s)" "i \<noteq> k"
      by (auto simp: waits_at_def)
    from swap_remove_nth_earlier [OF this] w s' Some show ?thesis by (auto simp: waits_at_def swap_remove_first_def)
  qed
qed (rule waits_at_append [OF w])

lemma sched_run_counter:
  assumes "sched_ok s" and "\<forall>e\<in>set es. event_ok e" and "process_id_counter s + length (filter is_create es) \<le> 2 ^ 32"
    and "sched_run es s = Some s'"
  shows "process_id_counter s' = process_id_counter s + length (filter is_create es)"
  using assms
proof (induction es arbitrary: s)
  case (Cons e es)
  from sched_step_ok [OF Cons.prems(1), of e] Cons.prems(2,3) obtain s1 where
    "sched_step e s = Some s1" "sched_ok s1"
    "process_id_counter s1 = process_id_counter s + (if is_create e then 1 else 0)"
    by (auto split: if_splits)
  with Cons.IH [of s1] Cons.prems(2-4) show ?case by (auto split: if_splits)
qed simp

lemma waiting_run:
  assumes "sched_ok s" and "\<forall>e\<in>set es. event_ok e" and "process_id_counter s + length (filter is_create es) \<le> 2 ^ 32"
    and "waits_at p i s" and "Kill p \<notin> set es" and "i < length (decisions es s)"
  shows "p \<in> set (take (i + 1) (decisions es s))"
  using assms
proof (induction es arbitrary: s i)
  case (Cons e es)
  from sched_step_ok [OF Cons.prems(1), of e] Cons.prems(2,3) obtain s1 where
    s1: "sched_step e s = Some s1" "sched_ok s1"
    "process_id_counter s1 = process_id_counter s + (if is_create e then 1 else 0)"
    by (auto split: if_splits)
  have room: "process_id_counter s1 + length (filter is_create es) \<le> 2 ^ 32" using s1(3) Cons.prems(3) by (auto split: if_splits)
  show ?case
  proof (cases "decides e s")
    case None
    have "e \<noteq> Kill p" using Cons.prems(5) by auto
    from undecided_keeps_place [OF Cons.prems(1) None s1(1) this Cons.prems(4)] obtain j where "j \<le> i" "waits_at p j s1" by blast
    moreover have "p \<in> set (take (j + 1) (decisions es s1))"
      using Cons.IH [OF s1(2) _ room \<open>waits_at p j s1\<close>] Cons.prems(2,5,6) None s1(1) \<open>j \<le> i\<close> by simp
    ultimately show ?thesis
      using None s1(1) set_take_subset_set_take [of "j + 1" "i + 1" "decisions es s1"] by auto
  next
    case (Some q)
    have r: "ready_to_run s = q # ready_to_run s1" by (rule decides_ready [OF Cons.prems(1) Some s1(1)])
    show ?thesis
    proof (cases i)
      case 0
      with Cons.prems(4) r Some s1(1) show ?thesis by (simp add: waits_at_def)
    next
      case (Suc k)
      with Cons.prems(4) r have "waits_at p k s1" by (simp add: waits_at_def)
      from Cons.IH [OF s1(2) _ room this] Cons.prems(2,5,6) Some s1(1) Suc show ?thesis by simp
    qed
  qed
qed simp

text \<open>C13: A ready process waits a bounded time: if \<open>i\<close> processes are in front of it and it is not killed, it is
  among the next \<open>i + 1\<close> processes that the processors pick, whatever else happens in between.\<close>

theorem bounded_waiting:
  assumes "sched_run es0 (scheduler_new root) = Some s" and "\<forall>e\<in>set (es0 @ es). event_ok e"
    and "length (filter is_create (es0 @ es)) \<le> 2 ^ 32"
    and "ready_to_run s ! i = p" and "i < length (ready_to_run s)" and "Kill p \<notin> set es"
    and "i < length (decisions es s)"
  shows "p \<in> set (take (i + 1) (decisions es s))"
proof -
  from sched_run_ok [OF scheduler_new_ok, of es0 root] assms(1-3) have ok: "sched_ok s" by (simp add: scheduler_new_def)
  have cnt: "process_id_counter s = length (filter is_create es0)"
    using sched_run_counter [OF scheduler_new_ok _ _ assms(1)] assms(2,3) by (simp add: scheduler_new_def)
  have "waits_at p i s" using assms(4,5) by (simp add: waits_at_def)
  with ok cnt assms(2,3,6,7) show ?thesis
    by (intro waiting_run) auto
qed

theorem bounded_waiting_witness:
  "let st = interrupt_state_new 0x401000 0x7FF000; s = the (sched_run [Create st ''a'' 1 (), Create st ''b'' 2 ()] (scheduler_new 0))
   in 1 \<in> set (take 2 (decisions [Schedule 0, Wake 0, Schedule 1] s))"
proof -
  let ?st = "interrupt_state_new 0x401000 0x7FF000"
  obtain s where s: "sched_run [Create ?st ''a'' 1 (), Create ?st ''b'' 2 ()] (scheduler_new 0) = Some s" by simp
  then have "1 \<in> set (take (1 + 1) (decisions [Schedule 0, Wake 0, Schedule 1] s))"
    by (intro bounded_waiting [OF s])
      (auto simp: create_process_def accept_new_process_def scheduler_new_def schedule_def set_phase_def wake_proc_def
        upd_process_def process_new_def Let_def)
  with s show ?thesis by (simp add: numeral_2_eq_2)
qed

end
