(* ===== verification/SyscallNamespace.thy ===== *)
theory SyscallNamespace
  imports BinarySearch
begin

text \<open>
  The registry of system call packs (\<open>proc/syscall/syscall_registry.rs\<close>) and the namespaces that
  map them to numbers (\<open>proc/namespaces/syscall_namespace.rs\<close>). A handler is a number that stands
  for the function; numbers of system calls and identifiers are naturals of 32 and 64 bits, masks
  are words.
\<close>

section \<open>The registry\<close>

record SyscallPack =
  handlers :: "(nat \<times> string) list"

definition get_handler :: "SyscallPack \<Rightarrow> nat \<Rightarrow> (nat \<times> string) option" where
  "get_handler pack i = index_at (handlers pack) i"

record syscall_registry =
  registered_packs :: "(string \<times> nat \<times> SyscallPack) list"
  pack_id_counter :: nat

definition register_syscall_pack :: "string \<Rightarrow> SyscallPack \<Rightarrow> syscall_registry \<Rightarrow> syscall_registry option" where
  "register_syscall_pack name pack reg =
     panic_unless (length (handlers pack) < 32) \<bind> (\<lambda>_.
     Some (reg\<lparr>registered_packs := registered_packs reg @ [(name, pack_id_counter reg, pack)],
               pack_id_counter := pack_id_counter reg + 1\<rparr>))"

definition get_syscall_pack :: "string \<Rightarrow> syscall_registry \<Rightarrow> (SyscallPack \<times> nat) option" where
  "get_syscall_pack name reg =
     map_option (\<lambda>(_, i, pack). (pack, i)) (find (\<lambda>(n, _, _). n = name) (registered_packs reg))"

text \<open>\<open>unknown({})\<close> with the decimal number is the argument \<open>unknown\<close>.\<close>

definition get_names :: "(nat \<Rightarrow> string) \<Rightarrow> nat list \<Rightarrow> syscall_registry \<Rightarrow> string list" where
  "get_names unknown ids reg =
     map (\<lambda>i. case find (\<lambda>(_, j, _). j = i) (registered_packs reg) of
                None \<Rightarrow> unknown i | Some (name, _, _) \<Rightarrow> name) ids"

definition get_all_pack_info :: "syscall_registry \<Rightarrow> (string \<times> u8) list" where
  "get_all_pack_info reg =
     map (\<lambda>(name, _, pack). (name, word_of_nat (length (handlers pack)))) (registered_packs reg)"

section \<open>Namespaces\<close>

record MappedSyscallPack =
  base :: nat
  mask :: u32
  pack_id :: nat
  pack :: SyscallPack

record SyscallNamespace =
  sys_ns_id :: nat
  mapped_syscalls :: "MappedSyscallPack list"

definition sys_create_empty :: "nat \<Rightarrow> SyscallNamespace" where
  "sys_create_empty i = \<lparr>sys_ns_id = i, mapped_syscalls = []\<rparr>"

definition sys_create_from :: "nat \<Rightarrow> SyscallNamespace \<Rightarrow> SyscallNamespace" where
  "sys_create_from i other = (sys_create_empty i)\<lparr>mapped_syscalls := mapped_syscalls other\<rparr>"

definition base_cmp :: "nat \<Rightarrow> MappedSyscallPack \<Rightarrow> Ordering" where
  "base_cmp n e = nat_cmp (base e) n"

definition map_syscall_pack ::
  "nat \<Rightarrow> SyscallPack \<Rightarrow> nat \<Rightarrow> SyscallNamespace \<Rightarrow> unit kresult \<times> SyscallNamespace" where
  "map_syscall_pack base_index p i ns =
     (if 2 ^ 32 - 1 - 31 < base_index then (Inl InvalidArgument, ns)
      else if base_index mod 32 \<noteq> 0 then (Inl InvalidArgument, ns)
      else case binary_search_by (base_cmp base_index) (mapped_syscalls ns) of
             Inr _ \<Rightarrow> (Inl InvalidArgument, ns)
           | Inl pos \<Rightarrow>
               (Inr (), ns\<lparr>mapped_syscalls :=
                  insert_at pos \<lparr>base = base_index, mask = - 1, pack_id = i, pack = p\<rparr> (mapped_syscalls ns)\<rparr>))"

definition sys_default :: "nat \<Rightarrow> syscall_registry \<Rightarrow> SyscallNamespace option" where
  "sys_default i reg =
     get_syscall_pack ''syscall_management'' reg \<bind> (\<lambda>(p, pid).
     case map_syscall_pack 0xFFFFFFE0 p pid (sys_create_empty i) of
       (Inr (), ns) \<Rightarrow> Some ns
     | _ \<Rightarrow> None)"

text \<open>The search compares identifiers although the list is ordered by base.\<close>

definition unmap_syscall_pack_by_offset :: "nat \<Rightarrow> SyscallNamespace \<Rightarrow> unit kresult \<times> SyscallNamespace" where
  "unmap_syscall_pack_by_offset offset ns =
     (case binary_search_by (\<lambda>m. nat_cmp (pack_id m) offset) (mapped_syscalls ns) of
        Inr pos \<Rightarrow> (Inr (), ns\<lparr>mapped_syscalls := take pos (mapped_syscalls ns) @ drop (pos + 1) (mapped_syscalls ns)\<rparr>)
      | Inl _ \<Rightarrow> (Inl InvalidArgument, ns))"

text \<open>\<open>get_pack\<close> and \<open>get_pack_mut\<close>: the position of the pack that contains a number.\<close>

definition get_pack :: "nat \<Rightarrow> MappedSyscallPack list \<Rightarrow> nat option" where
  "get_pack n ms =
     (let pos = (case binary_search_by (base_cmp n) ms of Inr pos \<Rightarrow> pos | Inl pos \<Rightarrow> pos - 1)
      in index_at ms pos \<bind> (\<lambda>found.
         if n < base found \<or> base found + 32 \<le> n then None else Some pos))"

definition disable_syscall :: "nat \<Rightarrow> SyscallNamespace \<Rightarrow> unit kresult \<times> SyscallNamespace" where
  "disable_syscall n ns =
     (case get_pack n (mapped_syscalls ns) of
        None \<Rightarrow> (Inl InvalidArgument, ns)
      | Some pos \<Rightarrow>
          (let p = mapped_syscalls ns ! pos
           in if n < base p then (Inl InvalidArgument, ns)
              else (Inr (), ns\<lparr>mapped_syscalls := (mapped_syscalls ns)
                     [pos := p\<lparr>mask := mask p OR NOT (push_bit (n - base p) 1)\<rparr>]\<rparr>)))"

definition disable_syscall_by_mask :: "nat \<Rightarrow> u32 \<Rightarrow> SyscallNamespace \<Rightarrow> unit kresult \<times> SyscallNamespace" where
  "disable_syscall_by_mask pack_offset m ns =
     (case position (\<lambda>p. base p = pack_offset) (mapped_syscalls ns) of
        None \<Rightarrow> (Inl InvalidArgument, ns)
      | Some pos \<Rightarrow>
          (Inr (), ns\<lparr>mapped_syscalls := (mapped_syscalls ns)
             [pos := (mapped_syscalls ns ! pos)\<lparr>mask := mask (mapped_syscalls ns ! pos) OR m\<rparr>]\<rparr>))"

definition pack_handler :: "nat \<Rightarrow> MappedSyscallPack \<Rightarrow> nat option" where
  "pack_handler n p =
     (if n < base p then None
      else if mask p AND push_bit (n - base p) 1 = 0 then None
      else map_option fst (get_handler (pack p) (n - base p)))"

definition get_syscall_handler :: "nat \<Rightarrow> SyscallNamespace \<Rightarrow> nat option" where
  "get_syscall_handler n ns =
     get_pack n (mapped_syscalls ns) \<bind> (\<lambda>pos. pack_handler n (mapped_syscalls ns ! pos))"

definition get_mapped_syscalls :: "SyscallNamespace \<Rightarrow> (nat \<times> u32 \<times> nat) list" where
  "get_mapped_syscalls ns = map (\<lambda>m. (base m, mask m, pack_id m)) (mapped_syscalls ns)"

section \<open>The invariant of a namespace\<close>

definition sys_wf :: "SyscallNamespace \<Rightarrow> bool" where
  "sys_wf ns \<longleftrightarrow> sorted_wrt (\<lambda>p q. base p < base q) (mapped_syscalls ns) \<and>
     list_all (\<lambda>p. base p mod 32 = 0 \<and> base p + 31 < 2 ^ 32) (mapped_syscalls ns)"

lemma base_cmp_monotone:
  assumes "sorted_wrt (\<lambda>p q. base p < base q) ms"
  shows "greater_up (base_cmp n) ms" and "less_down (base_cmp n) ms"
proof -
  have "base (ms ! i) \<le> base (ms ! j)" if "i \<le> j" "j < length ms" for i j
    using assms that by (cases "i = j") (auto simp: sorted_wrt_iff_nth_less intro: less_imp_le)
  then show "greater_up (base_cmp n) ms" "less_down (base_cmp n) ms"
    by (auto simp: greater_up_def less_down_def base_cmp_def intro: less_le_trans le_less_trans)
qed

lemma bases_apart:
  assumes "sys_wf ns" and "i < j" and "j < length (mapped_syscalls ns)"
  shows "base (mapped_syscalls ns ! i) + 32 \<le> base (mapped_syscalls ns ! j)"
proof -
  let ?a = "base (mapped_syscalls ns ! i)" and ?b = "base (mapped_syscalls ns ! j)"
  have "?a < ?b" "?a mod 32 = 0" "?b mod 32 = 0"
    using assms by (auto simp: sys_wf_def sorted_wrt_iff_nth_less list_all_length)
  then show ?thesis by presburger
qed

lemma get_pack_iff:
  assumes wf: "sys_wf ns"
  shows "get_pack n (mapped_syscalls ns) = Some pos \<longleftrightarrow>
    pos < length (mapped_syscalls ns) \<and> base (mapped_syscalls ns ! pos) \<le> n \<and> n < base (mapped_syscalls ns ! pos) + 32"
proof -
  let ?ms = "mapped_syscalls ns"
  have sorted: "sorted_wrt (\<lambda>p q. base p < base q) ?ms" using wf by (simp add: sys_wf_def)
  note spec = binary_search_by_spec [OF base_cmp_monotone(1) [OF sorted, of n] base_cmp_monotone(2) [OF sorted, of n]]
  define q where "q = (case binary_search_by (base_cmp n) ?ms of Inr pos \<Rightarrow> pos | Inl pos \<Rightarrow> pos - 1)"
  have found: "q = i" if i: "i < length ?ms" "base (?ms ! i) \<le> n" "n < base (?ms ! i) + 32" for i
  proof (cases "binary_search_by (base_cmp n) ?ms")
    case (Inr p)
    then have "p < length ?ms" "base (?ms ! p) = n" using spec by (auto simp: base_cmp_def)
    then have "p = i" using bases_apart [OF wf, of p i] bases_apart [OF wf, of i p] i by (cases p i rule: linorder_cases) auto
    then show ?thesis by (simp add: q_def Inr)
  next
    case (Inl p)
    then have p: "p \<le> length ?ms" "\<And>k. k < p \<Longrightarrow> base (?ms ! k) < n" "\<And>k. p \<le> k \<Longrightarrow> k < length ?ms \<Longrightarrow> n < base (?ms ! k)"
      using spec by (auto simp: base_cmp_def)
    have "i < p" using p(3) [of i] i by (meson leD leI)
    moreover have "p \<le> i + 1"
    proof (rule ccontr)
      assume "\<not> p \<le> i + 1"
      then have "base (?ms ! (i + 1)) < n" using p(2) by simp
      moreover have "i + 1 < length ?ms" using p(1) \<open>\<not> p \<le> i + 1\<close> by linarith
      ultimately show False using bases_apart [OF wf, of i "i + 1"] i by linarith
    qed
    ultimately show ?thesis by (simp add: q_def Inl)
  qed
  have "get_pack n ?ms = (if q < length ?ms \<and> base (?ms ! q) \<le> n \<and> n < base (?ms ! q) + 32 then Some q else None)"
    unfolding get_pack_def Let_def q_def [symmetric] by (simp add: index_at_def not_le)
  then show ?thesis using found by (metis option.distinct(1) option.inject)
qed

lemma pack_handler_mono:
  assumes "base p' = base p" and "pack p' = pack p" and "\<And>b. bit (mask p) b \<Longrightarrow> bit (mask p') b"
    and "pack_handler n p = Some h"
  shows "pack_handler n p' = Some h"
  using assms by (auto simp: pack_handler_def push_bit_of_1 and_exp_eq_0_iff_not_bit split: if_splits)

section \<open>Properties\<close>

text \<open>The handler a number stands for, by a search through all packs.\<close>

definition handler_by_scan :: "nat \<Rightarrow> SyscallNamespace \<Rightarrow> nat option" where
  "handler_by_scan n ns =
     find (\<lambda>p. base p \<le> n \<and> n < base p + 32) (mapped_syscalls ns) \<bind> pack_handler n"

text \<open>C40: In a well-formed namespace, the lookup of a system call by binary search finds the same handler as
  a scan through all mapped packs, for every number.\<close>

theorem syscall_lookup_equivalent:
  assumes "sys_wf ns"
  shows "get_syscall_handler n ns = handler_by_scan n ns"
proof (cases "get_pack n (mapped_syscalls ns)")
  case None
  then have "find (\<lambda>p. base p \<le> n \<and> n < base p + 32) (mapped_syscalls ns) = None"
    using get_pack_iff [OF assms, of n] by (auto simp: find_None_iff in_set_conv_nth)
  with None show ?thesis by (simp add: get_syscall_handler_def handler_by_scan_def)
next
  case (Some pos)
  then have pos: "pos < length (mapped_syscalls ns)" "base (mapped_syscalls ns ! pos) \<le> n" "n < base (mapped_syscalls ns ! pos) + 32"
    using get_pack_iff [OF assms, of n] by auto
  moreover have "\<forall>i < pos. \<not> (base (mapped_syscalls ns ! i) \<le> n \<and> n < base (mapped_syscalls ns ! i) + 32)"
    using bases_apart [OF assms _ pos(1)] pos(2) by fastforce
  ultimately have "find (\<lambda>p. base p \<le> n \<and> n < base p + 32) (mapped_syscalls ns) = Some (mapped_syscalls ns ! pos)"
    by (auto simp: find_Some_iff intro!: exI [of _ pos])
  with Some show ?thesis by (simp add: get_syscall_handler_def handler_by_scan_def)
qed

definition two_packs :: SyscallNamespace where
  "two_packs = snd (map_syscall_pack 0 \<lparr>handlers = [(7, ''exec''), (8, ''exit'')]\<rparr> 2
     (snd (map_syscall_pack 64 \<lparr>handlers = [(9, ''open'')]\<rparr> 1 (sys_create_empty 1))))"

lemma two_packs_eq:
  "two_packs = \<lparr>sys_ns_id = 1, mapped_syscalls =
     [\<lparr>base = 0, mask = - 1, pack_id = 2, pack = \<lparr>handlers = [(7, ''exec''), (8, ''exit'')]\<rparr>\<rparr>,
      \<lparr>base = 64, mask = - 1, pack_id = 1, pack = \<lparr>handlers = [(9, ''open'')]\<rparr>\<rparr>]\<rparr>"
  by (simp add: two_packs_def map_syscall_pack_def sys_create_empty_def binary_search_by_def base_cmp_def nat_cmp_def
      insert_at_def bs_loop.simps)

lemma two_packs_wf: "sys_wf two_packs"
  by (simp add: two_packs_eq sys_wf_def)

theorem syscall_lookup_equivalent_witness:
  "get_syscall_handler 1 two_packs = handler_by_scan 1 two_packs \<and> handler_by_scan 1 two_packs = Some 8"
proof -
  have "handler_by_scan 1 two_packs = Some 8"
    by (simp add: two_packs_eq handler_by_scan_def pack_handler_def get_handler_def index_at_def)
  with syscall_lookup_equivalent [OF two_packs_wf, of 1] show ?thesis by simp
qed

text \<open>\<open>disable_syscall\<close> does not disable anything: it sets the bits of all other system calls of the pack
  instead of clearing the bit of the given one, so whenever it succeeds, the system call and all
  others that were available stay available.\<close>

theorem disable_syscall_disables_nothing:
  assumes "sys_wf ns" and "disable_syscall n ns = (Inr (), ns')" and "get_syscall_handler k ns = Some h"
  shows "get_syscall_handler k ns' = Some h"
proof -
  let ?ms = "mapped_syscalls ns"
  from assms(2) obtain pos where pos: "get_pack n ?ms = Some pos"
    and ns': "ns' = ns\<lparr>mapped_syscalls := ?ms[pos := (?ms ! pos)\<lparr>mask := mask (?ms ! pos) OR
      NOT (push_bit (n - base (?ms ! pos)) 1)\<rparr>]\<rparr>"
    by (auto simp: disable_syscall_def Let_def split: option.splits if_splits)
  have len: "pos < length ?ms" using get_pack_iff [OF assms(1)] pos by blast
  have same: "base (mapped_syscalls ns' ! i) = base (?ms ! i)" "pack (mapped_syscalls ns' ! i) = pack (?ms ! i)"
    "bit (mask (?ms ! i)) b \<Longrightarrow> bit (mask (mapped_syscalls ns' ! i)) b" if "i < length ?ms" for i b
    using that len by (auto simp: ns' nth_list_update bit_or_iff)
  have wf': "sys_wf ns'"
    using assms(1) same(1) by (auto simp: sys_wf_def sorted_wrt_iff_nth_less list_all_length ns')
  from assms(3) obtain q where q: "get_pack k ?ms = Some q" "pack_handler k (?ms ! q) = Some h"
    by (auto simp: get_syscall_handler_def bind_eq_Some_conv)
  then have qi: "q < length ?ms" "base (?ms ! q) \<le> k" "k < base (?ms ! q) + 32" using get_pack_iff [OF assms(1)] by auto
  then have "get_pack k (mapped_syscalls ns') = Some q" using get_pack_iff [OF wf', of k q] same(1) by (simp add: ns')
  moreover have "pack_handler k (mapped_syscalls ns' ! q) = Some h"
    by (rule pack_handler_mono [OF same(1,2) same(3)]) (use qi q in simp_all)
  ultimately show ?thesis by (simp add: get_syscall_handler_def)
qed

end
