(* ===== verification/Namespaces.thy ===== *)
theory Namespaces
  imports MemoryNamespace SyscallNamespace
begin

text \<open>
  The namespaces of a process: \<open>kernel/src/proc/namespaces/mod.rs\<close> and the table of open files of
  \<open>filesystem_namespace.rs\<close>. A namespace is a shared object with an id of its own from a global counter,
  so the id stands for the reference.
\<close>

section \<open>Open files\<close>

record InodeIdentifier =
  device_id :: nat
  inode_index :: nat

record FileHandle =
  fh_inode :: InodeIdentifier
  parent_chain :: "InodeIdentifier list"
  fh_position :: nat
  reached_eof :: bool
  file_flags :: u8

record FilesystemNamespace =
  fs_ns_id :: nat
  open_files :: "nat \<Rightarrow> nat option"
  file_handle_counter :: nat
  cwd :: FileHandle

definition fs_namespace_new :: "nat \<Rightarrow> FileHandle \<Rightarrow> FilesystemNamespace" where
  "fs_namespace_new i h = \<lparr>fs_ns_id = i, open_files = (\<lambda>_. None), file_handle_counter = 0, cwd = h\<rparr>"

text \<open>The descriptor counter is a \<open>u64\<close>. Handles are addresses of \<open>Arc<FileHandle>\<close> objects.\<close>

definition open_next :: "nat \<Rightarrow> FilesystemNamespace \<Rightarrow> (nat \<times> FilesystemNamespace) option" where
  "open_next a ns =
     checked_add 64 (file_handle_counter ns) 1 \<bind> (\<lambda>n.
     Some (file_handle_counter ns,
           ns\<lparr>file_handle_counter := n, open_files := (open_files ns)(file_handle_counter ns \<mapsto> a)\<rparr>))"

definition open_file_handle :: "nat \<Rightarrow> nat option \<Rightarrow> FilesystemNamespace \<Rightarrow> (nat \<times> FilesystemNamespace) option" where
  "open_file_handle a requested ns =
     (case requested of
        None \<Rightarrow> open_next a ns
      | Some fd \<Rightarrow>
          if open_files ns fd \<noteq> None then open_next a ns
          else if file_handle_counter ns \<le> fd
          then checked_add 64 fd 1 \<bind> (\<lambda>n.
               Some (fd, ns\<lparr>file_handle_counter := n, open_files := (open_files ns)(fd \<mapsto> a)\<rparr>))
          else Some (fd, ns\<lparr>open_files := (open_files ns)(fd \<mapsto> a)\<rparr>))"

definition get_file_handle :: "nat \<Rightarrow> FilesystemNamespace \<Rightarrow> nat option" where
  "get_file_handle fd ns = open_files ns fd"

definition get_inode :: "(nat \<Rightarrow> FileHandle option) \<Rightarrow> nat \<Rightarrow> FilesystemNamespace \<Rightarrow> InodeIdentifier option" where
  "get_inode hs fd ns = open_files ns fd \<bind> (\<lambda>a. map_option fh_inode (hs a))"

definition get_parent_chain :: "(nat \<Rightarrow> FileHandle option) \<Rightarrow> nat \<Rightarrow> FilesystemNamespace \<Rightarrow> InodeIdentifier list option" where
  "get_parent_chain hs fd ns = open_files ns fd \<bind> (\<lambda>a. map_option parent_chain (hs a))"

definition get_whole_chain :: "(nat \<Rightarrow> FileHandle option) \<Rightarrow> nat \<Rightarrow> FilesystemNamespace \<Rightarrow> InodeIdentifier list option" where
  "get_whole_chain hs fd ns = open_files ns fd \<bind> (\<lambda>a. map_option (\<lambda>h. parent_chain h @ [fh_inode h]) (hs a))"

definition close_file_handle :: "nat \<Rightarrow> FilesystemNamespace \<Rightarrow> nat option \<times> FilesystemNamespace" where
  "close_file_handle fd ns = (open_files ns fd, ns\<lparr>open_files := (open_files ns)(fd := None)\<rparr>)"

definition get_cwd_chain :: "FilesystemNamespace \<Rightarrow> InodeIdentifier list" where
  "get_cwd_chain ns = parent_chain (cwd ns) @ [fh_inode (cwd ns)]"

definition fs_create_empty :: "nat \<Rightarrow> FilesystemNamespace kresult" where
  "fs_create_empty i = Inl InvalidOperation"

text \<open>\<open>FileHandle::clone_from\<close> keeps inode, chain, position and flags; the data of the driver is new.\<close>

definition fs_create_from :: "nat \<Rightarrow> FilesystemNamespace \<Rightarrow> FilesystemNamespace" where
  "fs_create_from i other =
     \<lparr>fs_ns_id = i, open_files = open_files other, file_handle_counter = file_handle_counter other, cwd = cwd other\<rparr>"

definition fs_wf :: "FilesystemNamespace \<Rightarrow> bool" where
  "fs_wf ns \<longleftrightarrow> file_handle_counter ns < 2 ^ 64 \<and> (\<forall>fd. open_files ns fd \<noteq> None \<longrightarrow> fd < file_handle_counter ns)"

text \<open>Opening a file never replaces an open one: the returned descriptor was free, it becomes the only
  new entry, and it is the requested one whenever that was free. The counter stays above all open
  descriptors, and the kernel panics exactly when it would leave 64 bits, in particular when a process
  requests the free descriptor \<open>2 ^ 64 - 1\<close>.\<close>

theorem open_file_handle_fresh:
  assumes "fs_wf ns"
  shows "case open_file_handle a req ns of
      Some (fd, ns') \<Rightarrow> open_files ns fd = None \<and> open_files ns' = (open_files ns)(fd \<mapsto> a) \<and> fs_wf ns' \<and>
        (\<forall>r. req = Some r \<and> open_files ns r = None \<longrightarrow> fd = r)
    | None \<Rightarrow> (case req of Some r \<Rightarrow> r \<ge> 2 ^ 64 - 1 \<or> open_files ns r \<noteq> None \<and> file_handle_counter ns = 2 ^ 64 - 1
                         | None \<Rightarrow> file_handle_counter ns = 2 ^ 64 - 1)"
proof -
  let ?c = "file_handle_counter ns"
  have free: "open_files ns ?c = None" using assms unfolding fs_wf_def by (metis less_irrefl)
  have nxt: "open_next a ns = (if ?c = 2 ^ 64 - 1 then None else
      Some (?c, ns\<lparr>file_handle_counter := ?c + 1, open_files := (open_files ns)(?c \<mapsto> a)\<rparr>))"
    using assms by (auto simp: open_next_def checked_add_def fs_wf_def)
  have wf1: "fs_wf (ns\<lparr>file_handle_counter := ?c + 1, open_files := (open_files ns)(?c \<mapsto> a)\<rparr>)" if "?c \<noteq> 2 ^ 64 - 1"
    using assms that by (auto simp: fs_wf_def less_Suc_eq)
  show ?thesis
  proof (cases "\<exists>fd. req = Some fd \<and> open_files ns fd = None")
    case False
    then have "open_file_handle a req ns = open_next a ns" by (cases req) (auto simp: open_file_handle_def)
    with False nxt wf1 free show ?thesis by (auto split: option.splits)
  next
    case True
    then obtain fd where fd: "req = Some fd" "open_files ns fd = None" by blast
    show ?thesis
    proof (cases "?c \<le> fd")
      case True
      then have "fs_wf (ns\<lparr>file_handle_counter := fd + 1, open_files := (open_files ns)(fd \<mapsto> a)\<rparr>)" if "fd + 1 < 2 ^ 64"
        using assms that by (auto simp: fs_wf_def less_Suc_eq intro: order.strict_trans2)
      with True fd show ?thesis by (auto simp: open_file_handle_def checked_add_def)
    next
      case False
      then have "fs_wf (ns\<lparr>open_files := (open_files ns)(fd \<mapsto> a)\<rparr>)" using assms by (auto simp: fs_wf_def)
      with False fd show ?thesis by (simp add: open_file_handle_def)
    qed
  qed
qed

definition root_handle :: FileHandle where
  "root_handle = \<lparr>fh_inode = \<lparr>device_id = 1, inode_index = 2\<rparr>, parent_chain = [], fh_position = 0, reached_eof = False,
     file_flags = 1\<rparr>"

section \<open>The namespaces of a process\<close>

datatype NamespaceType = TSyscall | TMem | TFs

datatype NamespaceHolder = HSyscall nat | HMem nat | HFs nat

fun holder_id :: "NamespaceHolder \<Rightarrow> nat" where
  "holder_id (HSyscall i) = i"
| "holder_id (HMem i) = i"
| "holder_id (HFs i) = i"

fun holder_type :: "NamespaceHolder \<Rightarrow> NamespaceType" where
  "holder_type (HSyscall _) = TSyscall"
| "holder_type (HMem _) = TMem"
| "holder_type (HFs _) = TFs"

definition type_from_id :: "nat \<Rightarrow> NamespaceType option" where
  "type_from_id i = (if i = 0 then Some TSyscall else if i = 1 then Some TMem else if i = 2 then Some TFs else None)"

fun type_to_id :: "NamespaceType \<Rightarrow> nat" where
  "type_to_id TSyscall = 0"
| "type_to_id TMem = 1"
| "type_to_id TFs = 2"

record ProcNamespaces =
  owned_namespaces :: "NamespaceHolder list"
  memory_namespace :: nat
  syscall_namespace :: nat
  filesystem_namespace :: nat

definition proc_namespaces_new :: "nat \<Rightarrow> nat \<Rightarrow> nat \<Rightarrow> ProcNamespaces" where
  "proc_namespaces_new m s f =
     \<lparr>owned_namespaces = sort_key holder_id [HMem m, HSyscall s, HFs f],
      memory_namespace = m, syscall_namespace = s, filesystem_namespace = f\<rparr>"

definition get_namespace_holder :: "nat \<Rightarrow> ProcNamespaces \<Rightarrow> NamespaceHolder option" where
  "get_namespace_holder i ns =
     (case binary_search_by_key i holder_id (owned_namespaces ns) of
        Inr p \<Rightarrow> index_at (owned_namespaces ns) p
      | Inl _ \<Rightarrow> None)"

record NamespaceIds =
  ids_memory :: nat
  ids_syscall :: nat
  ids_filesystem :: nat

definition clone_from_ids :: "NamespaceIds \<Rightarrow> ProcNamespaces \<Rightarrow> ProcNamespaces kresult" where
  "clone_from_ids ids ns =
     (let m = (if ids_memory ids = 0 then memory_namespace ns else ids_memory ids);
          s = (if ids_syscall ids = 0 then syscall_namespace ns else ids_syscall ids);
          f = (if ids_filesystem ids = 0 then filesystem_namespace ns else ids_filesystem ids)
      in case (get_namespace_holder m ns, get_namespace_holder s ns, get_namespace_holder f ns) of
           (Some (HMem m'), Some (HSyscall s'), Some (HFs f')) \<Rightarrow> Inr (proc_namespaces_new m' s' f')
         | _ \<Rightarrow> Inl InvalidArgument)"

fun get_default_namespace :: "NamespaceType \<Rightarrow> ProcNamespaces \<Rightarrow> nat" where
  "get_default_namespace TSyscall ns = syscall_namespace ns"
| "get_default_namespace TMem ns = memory_namespace ns"
| "get_default_namespace TFs ns = filesystem_namespace ns"

definition try_unwrap :: "NamespaceType \<Rightarrow> NamespaceHolder \<Rightarrow> nat option" where
  "try_unwrap t h = (if holder_type h = t then Some (holder_id h) else None)"

definition get_indexed_namespace :: "NamespaceType \<Rightarrow> nat \<Rightarrow> ProcNamespaces \<Rightarrow> nat option" where
  "get_indexed_namespace t i ns = get_namespace_holder i ns \<bind> try_unwrap t"

definition get_namespace :: "NamespaceType \<Rightarrow> nat \<Rightarrow> ProcNamespaces \<Rightarrow> nat option" where
  "get_namespace t i ns = (if i = 0 then Some (get_default_namespace t ns) else get_indexed_namespace t i ns)"

text \<open>\<open>change_namespace\<close>: the result says whether a closure is returned that would set the page tree of the
  process to the root of the namespace.\<close>

definition change_namespace :: "nat \<Rightarrow> ProcNamespaces \<Rightarrow> (nat option + unit) \<times> ProcNamespaces" where
  "change_namespace i ns =
     (case get_namespace_holder i ns of
        None \<Rightarrow> (Inr (), ns)
      | Some (HSyscall s) \<Rightarrow> (Inl None, ns\<lparr>syscall_namespace := s\<rparr>)
      | Some (HMem m) \<Rightarrow> (Inl (Some m), ns\<lparr>memory_namespace := m\<rparr>)
      | Some (HFs f) \<Rightarrow> (Inl None, ns\<lparr>filesystem_namespace := f\<rparr>))"

definition add_namespace :: "NamespaceHolder \<Rightarrow> ProcNamespaces \<Rightarrow> ProcNamespaces" where
  "add_namespace h ns =
     (let i = (case binary_search_by_key (holder_id h) holder_id (owned_namespaces ns) of Inl e \<Rightarrow> e | Inr p \<Rightarrow> p)
      in ns\<lparr>owned_namespaces := insert_at i h (owned_namespaces ns)\<rparr>)"

definition is_in_use :: "nat \<Rightarrow> ProcNamespaces \<Rightarrow> bool" where
  "is_in_use i ns \<longleftrightarrow> syscall_namespace ns = i \<or> memory_namespace ns = i"

definition remove_namespace :: "nat \<Rightarrow> ProcNamespaces \<Rightarrow> bool \<times> ProcNamespaces" where
  "remove_namespace i ns =
     (case binary_search_by_key i holder_id (owned_namespaces ns) of
        Inl _ \<Rightarrow> (False, ns)
      | Inr p \<Rightarrow>
          if is_in_use i ns then (False, ns)
          else (True, ns\<lparr>owned_namespaces := take p (owned_namespaces ns) @ drop (p + 1) (owned_namespaces ns)\<rparr>))"

section \<open>What the operations keep\<close>

abbreviation ids_sorted :: "ProcNamespaces \<Rightarrow> bool" where
  "ids_sorted ns \<equiv> sorted_wrt (\<lambda>a b. holder_id a < holder_id b) (owned_namespaces ns)"

definition namespaces_wf :: "ProcNamespaces \<Rightarrow> bool" where
  "namespaces_wf ns \<longleftrightarrow> ids_sorted ns \<and>
     HMem (memory_namespace ns) \<in> set (owned_namespaces ns) \<and>
     HSyscall (syscall_namespace ns) \<in> set (owned_namespaces ns) \<and>
     HFs (filesystem_namespace ns) \<in> set (owned_namespaces ns)"

lemma new_wf: "distinct [m, s, f] \<Longrightarrow> namespaces_wf (proc_namespaces_new m s f)"
proof -
  assume d: "distinct [m, s, f]"
  let ?l = "sort_key holder_id [HMem m, HSyscall s, HFs f]"
  have "sorted (map holder_id ?l)" by simp
  moreover have "distinct (map holder_id ?l)" using d by (auto simp: distinct_map inj_on_def)
  ultimately have "sorted_wrt (<) (map holder_id ?l)" by (simp add: strict_sorted_iff)
  then show ?thesis by (simp add: namespaces_wf_def proc_namespaces_new_def sorted_wrt_map)
qed

lemma get_namespace_holder_iff:
  assumes "ids_sorted ns"
  shows "get_namespace_holder i ns = Some h \<longleftrightarrow> h \<in> set (owned_namespaces ns) \<and> holder_id h = i"
proof
  assume "get_namespace_holder i ns = Some h"
  then obtain p where "binary_search_by_key i holder_id (owned_namespaces ns) = Inr p"
    "p < length (owned_namespaces ns)" "h = owned_namespaces ns ! p"
    by (auto simp: get_namespace_holder_def split: sum.splits)
  with search_key [OF sorted_by_key_weak [OF assms], of i] show "h \<in> set (owned_namespaces ns) \<and> holder_id h = i" by auto
next
  assume h: "h \<in> set (owned_namespaces ns) \<and> holder_id h = i"
  with search_key_found [OF assms, of h] show "get_namespace_holder i ns = Some h"
    by (auto simp: get_namespace_holder_def)
qed

lemma add_namespace_wf:
  assumes "namespaces_wf ns" and "holder_id h \<notin> holder_id ` set (owned_namespaces ns)"
  shows "namespaces_wf (add_namespace h ns)" and "set (owned_namespaces (add_namespace h ns)) = insert h (set (owned_namespaces ns))"
proof -
  from search_key_absent [OF _ assms(2), of h] assms(1) obtain p where
    p: "binary_search_by_key (holder_id h) holder_id (owned_namespaces ns) = Inl p"
    "sorted_wrt (\<lambda>a b. holder_id a < holder_id b) (insert_at p h (owned_namespaces ns))"
    by (auto simp: namespaces_wf_def)
  have set: "set (insert_at p h xs) = insert h (set xs)" for xs
    by (metis Un_insert_right append_take_drop_id insert_at_def list.simps(15) set_append)
  from p assms(1) show "namespaces_wf (add_namespace h ns)"
    by (simp add: namespaces_wf_def add_namespace_def set)
  from p show "set (owned_namespaces (add_namespace h ns)) = insert h (set (owned_namespaces ns))"
    by (simp add: add_namespace_def set)
qed

lemma change_namespace_wf: "namespaces_wf ns \<Longrightarrow> namespaces_wf (snd (change_namespace i ns))"
  by (auto simp: change_namespace_def namespaces_wf_def get_namespace_holder_iff split: option.splits NamespaceHolder.splits)

lemma remove_at_sorted:
  assumes "sorted_wrt (\<lambda>a b. f a < (f b :: nat)) xs" and "p < length xs"
  shows "sorted_wrt (\<lambda>a b. f a < f b) (take p xs @ drop (p + 1) xs)"
    and "set (take p xs @ drop (p + 1) xs) = set xs - {xs ! p}"
proof -
  have xs: "xs = take p xs @ xs ! p # drop (p + 1) xs" using assms(2) by (simp add: id_take_nth_drop)
  with assms(1) have s: "sorted_wrt (\<lambda>a b. f a < f b) (take p xs @ xs ! p # drop (p + 1) xs)" by metis
  then show "sorted_wrt (\<lambda>a b. f a < f b) (take p xs @ drop (p + 1) xs)" by (simp add: sorted_wrt_append)
  from s have "xs ! p \<notin> set (take p xs) \<union> set (drop (p + 1) xs)" by (auto simp: sorted_wrt_append)
  moreover have "set xs = set (take p xs) \<union> {xs ! p} \<union> set (drop (p + 1) xs)" by (subst xs) auto
  ultimately show "set (take p xs @ drop (p + 1) xs) = set xs - {xs ! p}" by auto
qed

lemma remove_namespace_effect:
  assumes "namespaces_wf ns" and "h \<in> set (owned_namespaces ns)" and "\<not> is_in_use (holder_id h) ns"
  shows "\<exists>ns'. remove_namespace (holder_id h) ns = (True, ns') \<and> ids_sorted ns' \<and>
    set (owned_namespaces ns') = set (owned_namespaces ns) - {h} \<and> memory_namespace ns' = memory_namespace ns \<and>
    syscall_namespace ns' = syscall_namespace ns \<and> filesystem_namespace ns' = filesystem_namespace ns"
proof -
  have sorted: "ids_sorted ns" using assms(1) by (simp add: namespaces_wf_def)
  from search_key_found [OF sorted assms(2)] obtain p where
    p: "binary_search_by_key (holder_id h) holder_id (owned_namespaces ns) = Inr p" "p < length (owned_namespaces ns)"
    "owned_namespaces ns ! p = h" by blast
  with remove_at_sorted [OF sorted p(2)] assms(3) show ?thesis by (simp add: remove_namespace_def)
qed

text \<open>Removing a namespace keeps the defaults of the process usable only for system calls and memory:
  the file system namespace in use can be removed, because \<open>is_in_use\<close> does not look at it, and from then
  on every attempt to start a process with the default namespaces fails.\<close>

theorem remove_fs_namespace_breaks_exec:
  assumes "namespaces_wf ns"
  shows "\<exists>ns'. remove_namespace (filesystem_namespace ns) ns = (True, ns') \<and>
    clone_from_ids \<lparr>ids_memory = 0, ids_syscall = 0, ids_filesystem = 0\<rparr> ns' = Inl InvalidArgument \<and>
    clone_from_ids \<lparr>ids_memory = 0, ids_syscall = 0, ids_filesystem = 0\<rparr> ns =
      Inr (proc_namespaces_new (memory_namespace ns) (syscall_namespace ns) (filesystem_namespace ns))"
proof -
  let ?f = "HFs (filesystem_namespace ns)"
  have uniq: "h = h'" if "h \<in> set (owned_namespaces ns)" "h' \<in> set (owned_namespaces ns)" "holder_id h = holder_id h'" for h h'
    using get_namespace_holder_iff [of ns "holder_id h" h] get_namespace_holder_iff [of ns "holder_id h" h'] assms that
    by (simp add: namespaces_wf_def)
  have m: "?f \<in> set (owned_namespaces ns)" using assms by (simp add: namespaces_wf_def)
  have "\<not> is_in_use (holder_id ?f) ns"
    using uniq [OF m, of "HSyscall (syscall_namespace ns)"] uniq [OF m, of "HMem (memory_namespace ns)"] assms
    by (auto simp: is_in_use_def namespaces_wf_def)
  from remove_namespace_effect [OF assms m this] obtain ns' where
    r: "remove_namespace (filesystem_namespace ns) ns = (True, ns')" "ids_sorted ns'"
    "set (owned_namespaces ns') = set (owned_namespaces ns) - {?f}"
    "filesystem_namespace ns' = filesystem_namespace ns" by auto
  have "get_namespace_holder (filesystem_namespace ns') ns' = None"
  proof (rule ccontr)
    assume "get_namespace_holder (filesystem_namespace ns') ns' \<noteq> None"
    then obtain h where "h \<in> set (owned_namespaces ns')" "holder_id h = filesystem_namespace ns"
      using get_namespace_holder_iff [OF r(2)] r(4) by auto
    with uniq [OF m, of h] r(3) show False by auto
  qed
  then have "clone_from_ids \<lparr>ids_memory = 0, ids_syscall = 0, ids_filesystem = 0\<rparr> ns' = Inl InvalidArgument"
    by (auto simp: clone_from_ids_def Let_def split: option.splits NamespaceHolder.splits)
  moreover have "get_namespace_holder (memory_namespace ns) ns = Some (HMem (memory_namespace ns))"
    "get_namespace_holder (syscall_namespace ns) ns = Some (HSyscall (syscall_namespace ns))"
    "get_namespace_holder (filesystem_namespace ns) ns = Some ?f"
    using assms by (simp_all add: namespaces_wf_def get_namespace_holder_iff)
  ultimately show ?thesis using r(1) by (simp add: clone_from_ids_def)
qed

end
