(* ===== verification/Timers.thy ===== *)
theory Timers
  imports BinarySearch "HOL-Library.Monad_Syntax"
begin

text \<open>
  Time and timed events: \<open>std/src/time.rs\<close> and the events of a processor in
  \<open>kernel/src/arch/x86_64/interrupts/lapic_timer.rs\<close>. A \<open>Duration\<close> is its number of nanoseconds, which is
  below \<open>2 ^ 64 * 10 ^ 9\<close> because the seconds are a \<open>u64\<close>; leaving that range is a panic. The readings of the
  clock are a function of the number of readings made so far, and callbacks are logged in the order in
  which they run.
\<close>

section \<open>Durations and instants\<close>

type_synonym Duration = nat

type_synonym Instant = nat

definition duration_limit :: nat where
  "duration_limit = 2 ^ 64 * 10 ^ 9"

definition duration_new :: "nat \<Rightarrow> nat \<Rightarrow> Duration option" where
  "duration_new s n =
     (if n < 10 ^ 9 then Some (s * 10 ^ 9 + n)
      else checked_add 64 s (n div 10 ^ 9) \<bind> (\<lambda>s'. Some (s' * 10 ^ 9 + n mod 10 ^ 9)))"

definition as_secs :: "Duration \<Rightarrow> nat" where
  "as_secs d = d div 10 ^ 9"

definition subsec_nanos :: "Duration \<Rightarrow> nat" where
  "subsec_nanos d = d mod 10 ^ 9"

definition duration_add :: "Duration \<Rightarrow> Duration \<Rightarrow> Duration option" where
  "duration_add a b = (if a + b < duration_limit then Some (a + b) else None)"

definition instant_add :: "Instant \<Rightarrow> Duration \<Rightarrow> Instant option" where
  "instant_add t d = duration_add t d"

definition instant_sub :: "Instant \<Rightarrow> Instant \<Rightarrow> Duration option" where
  "instant_sub t u = checked_sub t u"

definition duration_since :: "Instant \<Rightarrow> Instant \<Rightarrow> Duration option" where
  "duration_since t earlier = checked_sub t earlier"

record FfiDuration =
  ffi_seconds :: nat
  ffi_nanos :: nat

definition ffi_from_duration :: "Duration \<Rightarrow> FfiDuration" where
  "ffi_from_duration d = \<lparr>ffi_seconds = as_secs d, ffi_nanos = subsec_nanos d\<rparr>"

definition duration_from_ffi :: "FfiDuration \<Rightarrow> Duration option" where
  "duration_from_ffi f = duration_new (ffi_seconds f) (ffi_nanos f)"

lemma duration_new_total:
  assumes "s < 2 ^ 64" and "n < 2 ^ 32"
  shows "duration_new s n = (if s * 10 ^ 9 + n < duration_limit then Some (s * 10 ^ 9 + n) else None)"
proof -
  have split: "s * 10 ^ 9 + n = (s + n div 10 ^ 9) * 10 ^ 9 + n mod 10 ^ 9"
    by (simp add: distrib_right)
  have lim: "(a * 10 ^ 9 + b < duration_limit) = (a < 2 ^ 64)" if "b < 10 ^ 9" for a b :: nat
    using that by (simp add: duration_limit_def) linarith
  show ?thesis
    unfolding duration_new_def checked_add_def
    using lim [of n s] lim [of "n mod 10 ^ 9" "s + n div 10 ^ 9"] split assms(1) by auto
qed

lemma ffi_duration_roundtrip: "d < duration_limit \<Longrightarrow> duration_from_ffi (ffi_from_duration d) = Some d"
  by (simp add: duration_from_ffi_def ffi_from_duration_def as_secs_def subsec_nanos_def duration_new_def)

section \<open>The local timer\<close>

fun bit_length :: "nat \<Rightarrow> nat" where
  "bit_length n = (if n = 0 then 0 else Suc (bit_length (n div 2)))"

declare bit_length.simps [simp del]

definition leading_zeros :: "nat \<Rightarrow> nat" where
  "leading_zeros n = 64 - bit_length n"

definition saturating_mul :: "nat \<Rightarrow> nat \<Rightarrow> nat \<Rightarrow> nat" where
  "saturating_mul w a b = min (a * b) (2 ^ w - 1)"

text \<open>the ticks of a duration, and \<open>set_timeout\<close>: the division configuration and the initial count that
  are written to the registers; an initial count of 0 stops the timer.\<close>

definition timeout_ticks :: "nat \<Rightarrow> Duration \<Rightarrow> nat" where
  "timeout_ticks frequency d =
     saturating_add 64 (saturating_mul 64 (as_secs d) frequency) (saturating_mul 64 (subsec_nanos d) frequency div 10 ^ 9)"

definition set_timeout :: "nat \<Rightarrow> Duration \<Rightarrow> nat \<times> nat" where
  "set_timeout frequency d =
     (let ticks = timeout_ticks frequency d; z = leading_zeros ticks;
          (division, t) =
            (if 32 \<le> z then (11, ticks)
             else if z = 31 then (0, ticks div 2) else if z = 30 then (1, ticks div 4)
             else if z = 29 then (2, ticks div 8) else if z = 28 then (3, ticks div 16)
             else if z = 27 then (8, ticks div 32) else if z = 26 then (9, ticks div 64)
             else if z = 25 then (10, ticks div 128) else (10, 2 ^ 32 - 1))
      in (division, t mod 2 ^ 32))"

text \<open>the divisor that a division configuration selects.\<close>

definition divisor :: "nat \<Rightarrow> nat" where
  "divisor c =
     (if c = 11 then 1 else if c = 0 then 2 else if c = 1 then 4 else if c = 2 then 8 else if c = 3 then 16
      else if c = 8 then 32 else if c = 9 then 64 else 128)"

section \<open>Scheduled events\<close>

record 'c event =
  ev_time :: Instant
  ev_callback :: 'c
  ev_id :: nat

record 'c event_queue =
  event_id_counter :: nat
  scheduled_events :: "'c event list"
  fired :: "'c list"
  clock_reads :: nat
  timer_setting :: "nat \<times> nat"

fun run_due :: "(nat \<Rightarrow> Instant) \<Rightarrow> nat \<Rightarrow> 'c event list \<Rightarrow> 'c list \<Rightarrow> nat \<times> 'c event list \<times> 'c list" where
  "run_due clk k [] done = (k, [], done)"
| "run_due clk k (e # es) done =
     (if clk k < ev_time e then (k, e # es, done) else run_due clk (k + 1) es (done @ [ev_callback e]))"

definition handle_scheduled_events ::
  "(nat \<Rightarrow> Instant) \<Rightarrow> nat \<Rightarrow> 'c event_queue \<Rightarrow> 'c event_queue option" where
  "handle_scheduled_events clk frequency q =
     (case run_due clk (clock_reads q) (scheduled_events q) (fired q) of
        (k, es, done) \<Rightarrow>
          (let q1 = q\<lparr>scheduled_events := es, fired := done, clock_reads := k + 1\<rparr>
           in case es of
                [] \<Rightarrow> Some q1
              | e # _ \<Rightarrow> instant_sub (ev_time e) (clk k) \<bind> (\<lambda>d. Some (q1\<lparr>timer_setting := set_timeout frequency d\<rparr>))))"

definition schedule_event ::
  "(nat \<Rightarrow> Instant) \<Rightarrow> nat \<Rightarrow> Instant \<Rightarrow> 'c \<Rightarrow> 'c event_queue \<Rightarrow> (nat \<times> 'c event_queue) option" where
  "schedule_event clk frequency t cb q =
     (let i = event_id_counter q;
          e = \<lparr>ev_time = t, ev_callback = cb, ev_id = i\<rparr>;
          pos = (case binary_search_by_key t ev_time (scheduled_events q) of Inl p \<Rightarrow> p | Inr p \<Rightarrow> p)
      in checked_add 64 i 1 \<bind> (\<lambda>n.
         handle_scheduled_events clk frequency
           (q\<lparr>event_id_counter := n, scheduled_events := insert_at pos e (scheduled_events q)\<rparr>) \<bind> (\<lambda>q'.
         Some (i, q'))))"

definition cancel_scheduled_event ::
  "(nat \<Rightarrow> Instant) \<Rightarrow> nat \<Rightarrow> nat \<Rightarrow> 'c event_queue \<Rightarrow> (bool \<times> 'c event_queue) option" where
  "cancel_scheduled_event clk frequency i q =
     (case position (\<lambda>e. ev_id e = i) (scheduled_events q) of
        Some p \<Rightarrow>
          handle_scheduled_events clk frequency
            (q\<lparr>scheduled_events := take p (scheduled_events q) @ drop (p + 1) (scheduled_events q)\<rparr>) \<bind> (\<lambda>q'.
          Some (True, q'))
      | None \<Rightarrow> Some (False, q))"

section \<open>Bounds of the timer setting\<close>

lemma bit_length_le: "bit_length n \<le> k \<longleftrightarrow> n < 2 ^ k"
proof (induction k arbitrary: n)
  case 0
  then show ?case by (subst bit_length.simps) auto
next
  case (Suc k)
  show ?case by (subst bit_length.simps) (auto simp: Suc)
qed

lemma leading_zeros_ge: "z \<le> 64 \<Longrightarrow> n < 2 ^ 64 \<Longrightarrow> z \<le> leading_zeros n \<longleftrightarrow> n < 2 ^ (64 - z)"
  using bit_length_le [of n 64] bit_length_le [of n "64 - z"] by (auto simp: leading_zeros_def)

lemma timeout_ticks_less: "timeout_ticks frequency d < 2 ^ 64"
  by (simp add: timeout_ticks_def saturating_add_def min_def)

lemma set_timeout_ranges:
  fixes frequency d
  defines "T \<equiv> timeout_ticks frequency d"
  shows "set_timeout frequency d =
    (if T < 2 ^ 32 then (11, T) else if T < 2 ^ 33 then (0, T div 2) else if T < 2 ^ 34 then (1, T div 4)
     else if T < 2 ^ 35 then (2, T div 8) else if T < 2 ^ 36 then (3, T div 16) else if T < 2 ^ 37 then (8, T div 32)
     else if T < 2 ^ 38 then (9, T div 64) else if T < 2 ^ 39 then (10, T div 128) else (10, 2 ^ 32 - 1))"
proof -
  have lt: "T < 2 ^ 64" unfolding T_def by (rule timeout_ticks_less)
  have z: "z \<le> leading_zeros T \<longleftrightarrow> T < 2 ^ (64 - z)" if "z \<le> 64" for z using leading_zeros_ge [OF that lt] .
  have eq: "leading_zeros T = z \<longleftrightarrow> T < 2 ^ (64 - z) \<and> \<not> T < 2 ^ (64 - Suc z)" if "z < 64" for z
    using z [of z] z [of "Suc z"] that by auto
  show ?thesis
    unfolding set_timeout_def Let_def T_def [symmetric] by (simp add: z eq)
qed

lemma divided_count:
  assumes "0 < (m :: nat)" and "m \<le> T" and "T < m * b"
  shows "T div m < b \<and> T div m * m \<le> T \<and> T < (T div m + 1) * m \<and> T div m \<noteq> 0"
proof -
  have "T < (T div m + 1) * m"
    using dividend_less_div_times [OF assms(1), of T] by (simp add: distrib_right)
  with assms show ?thesis by (simp add: less_mult_imp_div_less mult.commute div_greater_zero_iff)
qed

text \<open>Up to saturation the ticks are the duration in nanoseconds times the frequency, divided by \<open>10 ^ 9\<close> and
  rounded down.\<close>

lemma div_mult_split:
  assumes "0 < (g :: nat)"
  shows "d div g * f + d mod g * f div g = d * f div g"
proof -
  have "d * f = (d mod g + d div g * g) * f" by simp
  also have "\<dots> = d mod g * f + d div g * f * g" by (simp only: distrib_right distrib_left ac_simps)
  finally have "d * f div g = (d mod g * f + d div g * f * g) div g" by (rule arg_cong)
  also have "\<dots> = d div g * f + d mod g * f div g" using assms by simp
  finally show ?thesis by simp
qed

lemma split_ticks: "d div 10 ^ 9 * f + d mod 10 ^ 9 * f div 10 ^ 9 = d * f div (10 ^ 9 :: nat)"
  by (rule div_mult_split) simp

lemma timeout_ticks_le: "timeout_ticks f d \<le> d * f div 10 ^ 9"
proof -
  have "saturating_mul 64 (subsec_nanos d) f div 10 ^ 9 \<le> subsec_nanos d * f div 10 ^ 9"
    by (intro div_le_mono) (simp add: saturating_mul_def)
  moreover have "saturating_mul 64 (as_secs d) f \<le> as_secs d * f" by (simp add: saturating_mul_def)
  ultimately have "timeout_ticks f d \<le> as_secs d * f + subsec_nanos d * f div 10 ^ 9"
    by (simp add: timeout_ticks_def saturating_add_def)
  then show ?thesis by (simp only: as_secs_def subsec_nanos_def split_ticks)
qed

lemma timeout_ticks_exact:
  assumes "f * 10 ^ 9 < 2 ^ 64" and "d * f div 10 ^ 9 < 2 ^ 64"
  shows "timeout_ticks f d = d * f div 10 ^ 9"
proof -
  have "subsec_nanos d \<le> 10 ^ 9" by (simp add: subsec_nanos_def less_imp_le)
  then have "f * subsec_nanos d \<le> f * 10 ^ 9" by (rule mult_le_mono2)
  from le_less_trans [OF this assms(1)] have "subsec_nanos d * f < 2 ^ 64" by (simp only: mult.commute)
  then have n: "saturating_mul 64 (subsec_nanos d) f = subsec_nanos d * f" by (simp add: saturating_mul_def)
  have e: "as_secs d * f + subsec_nanos d * f div 10 ^ 9 = d * f div 10 ^ 9"
    by (simp only: as_secs_def subsec_nanos_def split_ticks)
  then have "as_secs d * f < 2 ^ 64" using assms(2) by linarith
  then have "saturating_mul 64 (as_secs d) f = as_secs d * f" by (simp add: saturating_mul_def)
  with n e assms(2) show ?thesis by (simp add: timeout_ticks_def saturating_add_def)
qed

lemma timeout_ticks_zero: "timeout_ticks f d = 0 \<longleftrightarrow> d * f < 10 ^ 9"
proof
  assume "timeout_ticks f d = 0"
  then have z: "saturating_mul 64 (as_secs d) f = 0" "saturating_mul 64 (subsec_nanos d) f < 10 ^ 9"
    by (auto simp: timeout_ticks_def saturating_add_def min_def div_eq_0_iff split: if_splits)
  then have "as_secs d * f = 0" "subsec_nanos d * f div 10 ^ 9 = 0" by (auto simp: saturating_mul_def min_def split: if_splits)
  then have "d * f div 10 ^ 9 = 0" using split_ticks [of d f] by (simp only: as_secs_def subsec_nanos_def)
  then show "d * f < 10 ^ 9" by (simp add: div_eq_0_iff)
next
  assume "d * f < 10 ^ 9"
  then have "d * f div 10 ^ 9 = 0" by simp
  then show "timeout_ticks f d = 0" using timeout_ticks_le [of f d] by linarith
qed

lemma count_bounds:
  "case set_timeout frequency d of (c, n) \<Rightarrow>
     n < 2 ^ 32 \<and> n * divisor c \<le> timeout_ticks frequency d \<and>
     (timeout_ticks frequency d < 2 ^ 39 \<longrightarrow> timeout_ticks frequency d < (n + 1) * divisor c) \<and>
     (n = 0 \<longleftrightarrow> timeout_ticks frequency d = 0)"
proof -
  let ?T = "timeout_ticks frequency d"
  consider "?T < 2 ^ 32" | "2 ^ 32 \<le> ?T" "?T < 2 ^ 33" | "2 ^ 33 \<le> ?T" "?T < 2 ^ 34" | "2 ^ 34 \<le> ?T" "?T < 2 ^ 35"
    | "2 ^ 35 \<le> ?T" "?T < 2 ^ 36" | "2 ^ 36 \<le> ?T" "?T < 2 ^ 37" | "2 ^ 37 \<le> ?T" "?T < 2 ^ 38"
    | "2 ^ 38 \<le> ?T" "?T < 2 ^ 39" | "2 ^ 39 \<le> ?T" by linarith
  then show ?thesis
    by cases (use divided_count [of 2 ?T "2 ^ 32"] divided_count [of 4 ?T "2 ^ 32"] divided_count [of 8 ?T "2 ^ 32"]
        divided_count [of 16 ?T "2 ^ 32"] divided_count [of 32 ?T "2 ^ 32"] divided_count [of 64 ?T "2 ^ 32"]
        divided_count [of 128 ?T "2 ^ 32"] in \<open>simp_all add: set_timeout_ranges divisor_def\<close>)
qed

text \<open>C27: The timer never fires after the requested duration: the programmed count times the divisor is a number of
  ticks of at most \<open>d\<close> nanoseconds at \<open>f\<close> ticks per second, and the count fits its 32-bit register. For
  frequencies below \<open>2 ^ 64 / 10 ^ 9\<close> and durations below \<open>2 ^ 39\<close> ticks it is exact up to one step of the divided clock.
  The count is 0, which stops the timer instead of starting it, exactly when the duration is
  shorter than one tick.\<close>

theorem set_timeout_bounds:
  "case set_timeout f d of (c, n) \<Rightarrow>
     n < 2 ^ 32 \<and> n * divisor c * 10 ^ 9 \<le> d * f \<and>
     (f * 10 ^ 9 < 2 ^ 64 \<and> d * f < 2 ^ 39 * 10 ^ 9 \<longrightarrow> d * f < (n + 1) * divisor c * 10 ^ 9) \<and>
     (n = 0 \<longleftrightarrow> d * f < 10 ^ 9)"
proof -
  obtain c n where s: "set_timeout f d = (c, n)" by (cases "set_timeout f d")
  note b = count_bounds [of f d, unfolded s prod.case]
  have "n * divisor c * 10 ^ 9 \<le> d * f div 10 ^ 9 * 10 ^ 9"
    using b timeout_ticks_le [of f d] by (intro mult_le_mono1) linarith
  then have le: "n * divisor c * 10 ^ 9 \<le> d * f" using div_times_less_eq_dividend [of "d * f" "10 ^ 9"] by linarith
  have lt: "d * f < (n + 1) * divisor c * 10 ^ 9" if "f * 10 ^ 9 < 2 ^ 64" "d * f < 2 ^ 39 * 10 ^ 9"
  proof -
    have "d * f div 10 ^ 9 < 2 ^ 39" using that(2) by (rule less_mult_imp_div_less)
    then have "timeout_ticks f d = d * f div 10 ^ 9" "timeout_ticks f d < 2 ^ 39"
      using timeout_ticks_exact [OF that(1), of d] by simp_all
    then have "Suc (d * f div 10 ^ 9) \<le> (n + 1) * divisor c" using b by simp
    then have "Suc (d * f div 10 ^ 9) * 10 ^ 9 \<le> (n + 1) * divisor c * 10 ^ 9" by (rule mult_le_mono1)
    moreover have "d * f < Suc (d * f div 10 ^ 9) * 10 ^ 9" using dividend_less_div_times [of "10 ^ 9" "d * f"] by simp
    ultimately show ?thesis by linarith
  qed
  show ?thesis
    unfolding s prod.case timeout_ticks_zero [symmetric]
  proof (intro conjI impI)
    show "n < 2 ^ 32" "(n = 0) = (timeout_ticks f d = 0)" using b by blast+
  qed (use le lt in blast)+
qed

theorem set_timeout_bounds_witness:
  "\<exists>c n. set_timeout 1000000000 5000000000 = (c, n) \<and> n * divisor c \<le> 5000000000 \<and> 5000000000 < (n + 1) * divisor c"
proof -
  obtain c n where s: "set_timeout 1000000000 5000000000 = (c, n)" by (cases "set_timeout 1000000000 5000000000")
  from set_timeout_bounds [where f = 1000000000 and d = 5000000000, unfolded s prod.case]
  have "n * divisor c * 10 ^ 9 \<le> 5000000000 * 10 ^ 9" "5000000000 * 10 ^ 9 < (n + 1) * divisor c * (10 ^ 9 :: nat)" by simp_all
  with s show ?thesis by (intro exI [of _ c] exI [of _ n]) (simp only: mult_le_cancel2 mult_less_cancel2)
qed

section \<open>Events run in order\<close>

definition queue_wf :: "'c event_queue \<Rightarrow> bool" where
  "queue_wf q \<longleftrightarrow> sorted_wrt (\<lambda>a b. ev_time a \<le> ev_time b) (scheduled_events q)"

lemma run_due_split:
  assumes "run_due clk k es done = (k', rest, done')"
  shows "\<exists>due. es = due @ rest \<and> done' = done @ map ev_callback due \<and> k' = k + length due \<and>
    (\<forall>i<length due. ev_time (due ! i) \<le> clk (k + i)) \<and> (\<forall>e es'. rest = e # es' \<longrightarrow> clk k' < ev_time e)"
  using assms
proof (induction clk k es "done" arbitrary: k' rest done' rule: run_due.induct)
  case (2 clk k e es d)
  show ?case
  proof (cases "clk k < ev_time e")
    case True
    with 2 show ?thesis by (intro exI [of _ "[]"]) auto
  next
    case False
    with 2 obtain due where due: "es = due @ rest" "done' = (d @ [ev_callback e]) @ map ev_callback due" "k' = k + 1 + length due"
      "\<forall>i<length due. ev_time (due ! i) \<le> clk (k + 1 + i)" "\<forall>e es'. rest = e # es' \<longrightarrow> clk k' < ev_time e" by auto
    have "ev_time ((e # due) ! i) \<le> clk (k + i)" if "i < length (e # due)" for i
      using False due(4) that by (cases i) auto
    with due show ?thesis by (intro exI [of _ "e # due"]) auto
  qed
qed auto

lemma handle_events:
  assumes "queue_wf q"
  shows "\<exists>q' due. handle_scheduled_events clk frequency q = Some q' \<and> queue_wf q' \<and>
    scheduled_events q = due @ scheduled_events q' \<and> fired q' = fired q @ map ev_callback due \<and>
    clock_reads q' = clock_reads q + length due + 1 \<and> event_id_counter q' = event_id_counter q \<and>
    (\<forall>i<length due. ev_time (due ! i) \<le> clk (clock_reads q + i)) \<and>
    (\<forall>e es. scheduled_events q' = e # es \<longrightarrow> clk (clock_reads q' - 1) < ev_time e \<and>
       timer_setting q' = set_timeout frequency (ev_time e - clk (clock_reads q' - 1)))"
proof -
  obtain k rest d where r: "run_due clk (clock_reads q) (scheduled_events q) (fired q) = (k, rest, d)"
    by (metis prod_cases3)
  from run_due_split [OF r] obtain due where due: "scheduled_events q = due @ rest" "d = fired q @ map ev_callback due"
    "k = clock_reads q + length due" "\<forall>i<length due. ev_time (due ! i) \<le> clk (clock_reads q + i)"
    "\<forall>e es. rest = e # es \<longrightarrow> clk k < ev_time e" by blast
  have wf: "sorted_wrt (\<lambda>a b. ev_time a \<le> ev_time b) rest" using assms due(1) by (simp add: queue_wf_def sorted_wrt_append)
  show ?thesis
  proof (cases rest)
    case Nil
    with r due wf show ?thesis by (simp add: handle_scheduled_events_def queue_wf_def)
  next
    case (Cons e es)
    with due(5) have "instant_sub (ev_time e) (clk k) = Some (ev_time e - clk k)"
      by (simp add: instant_sub_def checked_sub_def)
    with Cons r due wf show ?thesis by (simp add: handle_scheduled_events_def queue_wf_def)
  qed
qed

lemma insert_at_mset: "mset (insert_at p x xs) = add_mset x (mset xs)"
proof -
  have "mset (insert_at p x xs) = add_mset x (mset (take p xs @ drop p xs))" 
    unfolding insert_at_def by (simp only: mset_append mset.simps) simp
  then show ?thesis by (simp only: append_take_drop_id)
qed

text \<open>C26: Scheduling an event keeps the events ordered by time, runs all events that are due, each once and in
  the order of their times, keeps all others, and programs the timer for the first of them. It panics only
  when the counter of event ids is exhausted.\<close>

theorem schedule_event_correct:
  assumes "queue_wf q" and "event_id_counter q < 2 ^ 64 - 1"
  shows "\<exists>q' due. schedule_event clk frequency t cb q = Some (event_id_counter q, q') \<and> queue_wf q' \<and>
    mset (due @ scheduled_events q') =
      add_mset \<lparr>ev_time = t, ev_callback = cb, ev_id = event_id_counter q\<rparr> (mset (scheduled_events q)) \<and>
    sorted_wrt (\<lambda>a b. ev_time a \<le> ev_time b) (due @ scheduled_events q') \<and>
    fired q' = fired q @ map ev_callback due \<and>
    (\<forall>i<length due. ev_time (due ! i) \<le> clk (clock_reads q + i)) \<and>
    (\<forall>e es. scheduled_events q' = e # es \<longrightarrow> clk (clock_reads q' - 1) < ev_time e \<and>
       timer_setting q' = set_timeout frequency (ev_time e - clk (clock_reads q' - 1)))"
proof -
  let ?e = "\<lparr>ev_time = t, ev_callback = cb, ev_id = event_id_counter q\<rparr>"
  let ?p = "case binary_search_by_key t ev_time (scheduled_events q) of Inl p \<Rightarrow> p | Inr p \<Rightarrow> p"
  let ?q = "q\<lparr>event_id_counter := event_id_counter q + 1, scheduled_events := insert_at ?p ?e (scheduled_events q)\<rparr>"
  have sorted: "sorted_wrt (\<lambda>a b. ev_time a \<le> ev_time b) (insert_at ?p ?e (scheduled_events q))"
    using insert_key_sorted [of ev_time "scheduled_events q" ?e] assms(1) by (simp add: queue_wf_def)
  note ms = insert_at_mset [of ?p ?e "scheduled_events q"]
  have wf: "queue_wf ?q" using sorted by (simp add: queue_wf_def)
  from handle_events [OF wf, of clk frequency] obtain q' due where
    h: "handle_scheduled_events clk frequency ?q = Some q'" "queue_wf q'" "scheduled_events ?q = due @ scheduled_events q'"
    "fired q' = fired ?q @ map ev_callback due" "\<forall>i<length due. ev_time (due ! i) \<le> clk (clock_reads ?q + i)"
    "\<forall>e es. scheduled_events q' = e # es \<longrightarrow> clk (clock_reads q' - 1) < ev_time e \<and>
       timer_setting q' = set_timeout frequency (ev_time e - clk (clock_reads q' - 1))" by blast
  have split: "due @ scheduled_events q' = insert_at ?p ?e (scheduled_events q)" using h(3) by simp
  have "schedule_event clk frequency t cb q = Some (event_id_counter q, q')"
    using h(1) assms(2) by (simp add: schedule_event_def checked_add_def Let_def)
  with h(2,4,5,6) sorted ms show ?thesis unfolding split [symmetric] by (intro exI [of _ q'] exI [of _ due]) simp
qed

theorem schedule_event_correct_witness:
  "\<exists>q' due. schedule_event (\<lambda>k. 100 + k) 1000000 50 ''wake''
       \<lparr>event_id_counter = 0, scheduled_events = [], fired = [], clock_reads = 0, timer_setting = (0, 0)\<rparr> = Some (0, q') \<and>
     mset (due @ scheduled_events q') = {#\<lparr>ev_time = 50, ev_callback = ''wake'', ev_id = 0\<rparr>#}"
  using schedule_event_correct [of "\<lparr>event_id_counter = 0, scheduled_events = [], fired = [], clock_reads = 0,
      timer_setting = (0, 0)\<rparr>" "\<lambda>k. 100 + k" 1000000 50 "''wake''"]
  by (auto simp: queue_wf_def)

end
