(* ===== verification/Syscalls.thy ===== *)
theory Syscalls
  imports Namespaces Scheduler Timers
begin

text \<open>
  System calls from the entry to the return (\<open>proc/syscall/mod.rs\<close>) and the handlers of four packs:
  \<open>proc/namespaces/namespace_management_pack.rs\<close>, \<open>proc/syscall/syscall_management_pack.rs\<close>,
  \<open>proc/memory_syscall_pack.rs\<close> and \<open>proc/proc_syscall_pack.rs\<close>. The state joins the processes of the
  scheduler, the namespaces with their reference counts, the registry, the timed events and the memory
  of the calling process. A handler that panics, or that takes a lock it already holds, is \<open>None\<close>.
\<close>

section \<open>State\<close>

datatype namespace = NsSyscall SyscallNamespace | NsMem MemoryNamespace | NsFs FilesystemNamespace

datatype event_callback = WakeProcess nat | Preemption

text \<open>\<open>k_refs\<close> are the strong counts of the namespaces, \<open>k_alloc_limit\<close> is the largest block the kernel heap
  can give, and \<open>k_padding\<close> are the bytes in the padding of structures that are copied out.\<close>

record kernel =
  k_procs :: "ProcNamespaces proc_sys"
  k_registry :: syscall_registry
  k_ns :: "nat \<Rightarrow> namespace option"
  k_refs :: "nat \<Rightarrow> nat"
  k_ns_counter :: nat
  k_heap :: ns_heap
  k_next_arc :: nat
  k_events :: "event_callback event_queue"
  k_preemption :: "nat option"
  k_hooks :: "nat list"
  k_clock :: "nat \<Rightarrow> Instant"
  k_frequency :: nat
  k_boot :: Instant
  k_readable :: "nat \<Rightarrow> bool"
  k_writable :: "nat \<Rightarrow> bool"
  k_user :: "nat \<Rightarrow> u8"
  k_alloc_limit :: nat
  k_padding :: "u8 list"

type_synonym handler = "SyscallCpuState \<Rightarrow> nat \<Rightarrow> kernel \<Rightarrow> kernel option"

text \<open>The handlers that always hold the lock of the process when they call \<open>set_syscall_return\<close> take the
  operation that stores the results as their argument \<open>ret\<close>, so that a lemma can say in which state they
  call it; the kernel runs them with \<open>set_return\<close>.\<close>

type_synonym store = "u64 list \<Rightarrow> nat \<Rightarrow> kernel \<Rightarrow> kernel option"

section \<open>The calling process\<close>

definition with_process ::
  "nat \<Rightarrow> (ProcNamespaces ProcessData \<Rightarrow> ProcNamespaces ProcessData option) \<Rightarrow> kernel \<Rightarrow> kernel option" where
  "with_process a f k =
     objects (k_procs k) a \<bind> f \<bind> (\<lambda>d.
     Some (k\<lparr>k_procs := (k_procs k)\<lparr>objects := (objects (k_procs k))(a \<mapsto> d)\<rparr>\<rparr>))"

definition lock_process :: "nat \<Rightarrow> kernel \<Rightarrow> kernel option" where
  "lock_process a = with_process a get_mutable"

definition unlock_process :: "nat \<Rightarrow> kernel \<Rightarrow> kernel option" where
  "unlock_process a = with_process a (\<lambda>p. Some (drop_mutable p))"

definition set_return :: "u64 list \<Rightarrow> nat \<Rightarrow> kernel \<Rightarrow> kernel option" where
  "set_return vs a = with_process a (set_syscall_return vs)"

definition process_namespaces :: "nat \<Rightarrow> kernel \<Rightarrow> ProcNamespaces option" where
  "process_namespaces a k = map_option namespaces (objects (k_procs k) a)"

definition set_process_namespaces :: "ProcNamespaces \<Rightarrow> nat \<Rightarrow> kernel \<Rightarrow> kernel option" where
  "set_process_namespaces ns a = with_process a (\<lambda>p. Some (p\<lparr>namespaces := ns\<rparr>))"

definition arg :: "SyscallCpuState \<Rightarrow> nat \<Rightarrow> nat option" where
  "arg st i = map_option unat (get_arg st i)"

abbreviation namespace_arg :: "SyscallCpuState \<Rightarrow> nat" where
  "namespace_arg st \<equiv> unat (get_namespace_id st)"

section \<open>Copies from and to user memory\<close>

text \<open>\<open>probe_memcpy\<close> copies byte by byte until an access faults, so a failed copy to the user leaves the
  bytes before the fault.\<close>

definition copy_from_user :: "nat \<Rightarrow> nat \<Rightarrow> kernel \<Rightarrow> u8 list option option" where
  "copy_from_user src len k =
     safe_memcpy_from_user (\<lambda>_ s n. list_all (k_readable k) [s..<s + n]) 0 src len \<bind> (\<lambda>valid.
     Some (if valid then Some (map (k_user k) [src..<src + len]) else None))"

definition store_bytes :: "nat \<Rightarrow> u8 list \<Rightarrow> (nat \<Rightarrow> u8) \<Rightarrow> nat \<Rightarrow> u8" where
  "store_bytes dst bs m = (\<lambda>i. if dst \<le> i \<and> i < dst + length bs then bs ! (i - dst) else m i)"

definition copy_to_user :: "nat \<Rightarrow> u8 list \<Rightarrow> kernel \<Rightarrow> (bool \<times> kernel) option" where
  "copy_to_user dst bs k =
     user_range_ok dst (length bs) \<bind> (\<lambda>ok.
     if \<not> ok then Some (False, k)
     else let n = length (takeWhile (k_writable k) [dst..<dst + length bs])
          in Some (n = length bs, k\<lparr>k_user := store_bytes dst (take n bs) (k_user k)\<rparr>))"

definition le_bytes :: "nat \<Rightarrow> nat \<Rightarrow> u8 list" where
  "le_bytes n v = map (\<lambda>i. word_of_nat (v div 256 ^ i)) [0..<n]"

primrec from_le :: "u8 list \<Rightarrow> nat" where
  "from_le [] = 0"
| "from_le (b # bs) = unat b + 256 * from_le bs"

text \<open>A Rust string is its UTF-8 bytes; a character of the model is one byte.\<close>

abbreviation continuation :: "nat \<Rightarrow> bool" where
  "continuation b \<equiv> 0x80 \<le> b \<and> b \<le> 0xBF"

fun utf8_valid :: "nat list \<Rightarrow> bool" where
  "utf8_valid [] \<longleftrightarrow> True"
| "utf8_valid (a # bs) \<longleftrightarrow>
     (if a < 0x80 then utf8_valid bs
      else case bs of
        [] \<Rightarrow> False
      | b # cs \<Rightarrow>
          if 0xC2 \<le> a \<and> a \<le> 0xDF then continuation b \<and> utf8_valid cs
          else case cs of
            [] \<Rightarrow> False
          | c # ds \<Rightarrow>
              if 0xE0 \<le> a \<and> a \<le> 0xEF
              then continuation b \<and> (a = 0xE0 \<longrightarrow> 0xA0 \<le> b) \<and> (a = 0xED \<longrightarrow> b \<le> 0x9F) \<and> continuation c \<and>
                   utf8_valid ds
              else case ds of
                [] \<Rightarrow> False
              | d # es \<Rightarrow>
                  0xF0 \<le> a \<and> a \<le> 0xF4 \<and> continuation b \<and> (a = 0xF0 \<longrightarrow> 0x90 \<le> b) \<and> (a = 0xF4 \<longrightarrow> b \<le> 0x8F) \<and>
                  continuation c \<and> continuation d \<and> utf8_valid es)"

definition string_of_bytes :: "u8 list \<Rightarrow> string" where
  "string_of_bytes bs = map (\<lambda>b. char_of (unat b)) bs"

definition bytes_of_string :: "string \<Rightarrow> u8 list" where
  "bytes_of_string s = map (\<lambda>c. word_of_nat (of_char c)) s"

definition string_from_args :: "nat \<Rightarrow> nat \<Rightarrow> kernel \<Rightarrow> string option option" where
  "string_from_args ptr len k =
     panic_unless (len \<le> k_alloc_limit k) \<bind> (\<lambda>_.
     copy_from_user ptr len k \<bind> (\<lambda>res.
     Some (case res of
             None \<Rightarrow> None
           | Some bs \<Rightarrow> if utf8_valid (map unat bs) then Some (string_of_bytes bs) else None)))"

section \<open>Namespace objects\<close>

fun namespace_type :: "namespace \<Rightarrow> NamespaceType" where
  "namespace_type (NsSyscall _) = TSyscall"
| "namespace_type (NsMem _) = TMem"
| "namespace_type (NsFs _) = TFs"

definition sys_namespace :: "nat \<Rightarrow> kernel \<Rightarrow> SyscallNamespace option" where
  "sys_namespace i k = (case k_ns k i of Some (NsSyscall ns) \<Rightarrow> Some ns | _ \<Rightarrow> None)"

definition mem_namespace :: "nat \<Rightarrow> kernel \<Rightarrow> MemoryNamespace option" where
  "mem_namespace i k = (case k_ns k i of Some (NsMem ns) \<Rightarrow> Some ns | _ \<Rightarrow> None)"

text \<open>the counter \<open>NAMESPACE_ID_COUNTER\<close> counts all calls; its value is a \<open>u64\<close>.\<close>

definition new_namespace_id :: "kernel \<Rightarrow> nat \<times> kernel" where
  "new_namespace_id k = (k_ns_counter k mod 2 ^ 64, k\<lparr>k_ns_counter := k_ns_counter k + 1\<rparr>)"

definition new_namespace :: "nat \<Rightarrow> namespace \<Rightarrow> kernel \<Rightarrow> kernel" where
  "new_namespace i n k = k\<lparr>k_ns := (k_ns k)(i \<mapsto> n), k_refs := (k_refs k)(i := 1)\<rparr>"

definition clone_namespace :: "nat \<Rightarrow> kernel \<Rightarrow> kernel" where
  "clone_namespace i k = k\<lparr>k_refs := (k_refs k)(i := k_refs k i + 1)\<rparr>"

definition drop_namespace_ref :: "nat \<Rightarrow> kernel \<Rightarrow> kernel option" where
  "drop_namespace_ref i k =
     k_ns k i \<bind> (\<lambda>n.
     if k_refs k i > 1 then Some (k\<lparr>k_refs := (k_refs k)(i := k_refs k i - 1)\<rparr>)
     else let k1 = k\<lparr>k_ns := (k_ns k)(i := None), k_refs := (k_refs k)(i := 0)\<rparr>
          in case n of
               NsMem m \<Rightarrow> drop_namespace m (k_heap k) \<bind> (\<lambda>h. Some (k1\<lparr>k_heap := h\<rparr>))
             | _ \<Rightarrow> Some k1)"

fun create_empty_namespace :: "NamespaceType \<Rightarrow> nat \<Rightarrow> kernel \<Rightarrow> (NamespaceHolder option \<times> kernel) option" where
  "create_empty_namespace TSyscall i k =
     Some (Some (HSyscall i), new_namespace i (NsSyscall (sys_create_empty i)) k)"
| "create_empty_namespace TMem i k =
     create_empty i (k_heap k) \<bind> (\<lambda>(ns, h). Some (Some (HMem i), new_namespace i (NsMem ns) (k\<lparr>k_heap := h\<rparr>)))"
| "create_empty_namespace TFs i k =
     Some (case fs_create_empty i of
             Inl _ \<Rightarrow> (None, k)
           | Inr ns \<Rightarrow> (Some (HFs i), new_namespace i (NsFs ns) k))"

text \<open>\<open>NamespaceHolder::create_from\<close>; a holder always refers to an object of its type.\<close>

definition namespace_create_from :: "nat \<Rightarrow> NamespaceHolder \<Rightarrow> kernel \<Rightarrow> (NamespaceHolder kresult \<times> kernel) option" where
  "namespace_create_from i other k =
     (case (other, k_ns k (holder_id other)) of
        (HSyscall _, Some (NsSyscall ns)) \<Rightarrow>
          Some (Inr (HSyscall i), new_namespace i (NsSyscall (sys_create_from i ns)) k)
      | (HMem _, Some (NsMem ns)) \<Rightarrow>
          create_from i ns (k_heap k) \<bind> (\<lambda>(res, h).
          Some (case res of
                  Inl _ \<Rightarrow> (Inl InvalidArgument, k\<lparr>k_heap := h\<rparr>)
                | Inr new \<Rightarrow> (Inr (HMem i), new_namespace i (NsMem new) (k\<lparr>k_heap := h\<rparr>))))
      | (HFs _, Some (NsFs ns)) \<Rightarrow> Some (Inr (HFs i), new_namespace i (NsFs (fs_create_from i ns)) k)
      | _ \<Rightarrow> None)"

section \<open>Namespace management\<close>

text \<open>Handlers are numbered in the order in which \<open>proc::init\<close> registers the packs.\<close>

definition init_namespace_management_syscalls :: "syscall_registry \<Rightarrow> syscall_registry option" where
  "init_namespace_management_syscalls =
     register_syscall_pack ''namespace_management''
       \<lparr>handlers = [(0, ''mknamespace''), (1, ''rmnamespace''), (2, ''chnamespace''), (3, ''lsnamespace'')]\<rparr>"

definition add_new_namespace :: "NamespaceHolder \<Rightarrow> nat \<Rightarrow> kernel \<Rightarrow> kernel option" where
  "add_new_namespace h a k =
     lock_process a k \<bind> (\<lambda>k1.
     process_namespaces a k1 \<bind> (\<lambda>ns.
     set_process_namespaces (add_namespace h ns) a k1 \<bind> unlock_process a \<bind> set_return [0] a))"

definition mknamespace :: handler where
  "mknamespace st a k =
     arg st 0 \<bind> (\<lambda>ty. arg st 1 \<bind> (\<lambda>existing.
     case type_from_id ty of
       None \<Rightarrow> set_return [- 1] a k
     | Some t \<Rightarrow>
         if existing = 0
         then (case new_namespace_id k of (i, k1) \<Rightarrow>
               create_empty_namespace t i k1 \<bind> (\<lambda>(res, k2).
               case res of None \<Rightarrow> set_return [- 1] a k2 | Some h \<Rightarrow> add_new_namespace h a k2))
         else lock_process a k \<bind> (\<lambda>k1.
              process_namespaces a k1 \<bind> (\<lambda>ns.
              case get_namespace_holder existing ns of
                None \<Rightarrow> set_return [- 1] a k1
              | Some other \<Rightarrow>
                  (case new_namespace_id k1 of (i, k2) \<Rightarrow>
                   namespace_create_from i other k2 \<bind> (\<lambda>(res, k3).
                   case res of
                     Inl _ \<Rightarrow> set_return [- 1] a k3
                   | Inr h \<Rightarrow> unlock_process a k3 \<bind> add_new_namespace h a))))))"

definition rmnamespace :: handler where
  "rmnamespace st a k =
     arg st 0 \<bind> (\<lambda>i.
     lock_process a k \<bind> (\<lambda>k1.
     process_namespaces a k1 \<bind> (\<lambda>ns.
     case remove_namespace i ns of
       (True, ns') \<Rightarrow>
         set_process_namespaces ns' a k1 \<bind> drop_namespace_ref i \<bind> unlock_process a \<bind> set_return [0] a
     | (False, _) \<Rightarrow> unlock_process a k1 \<bind> set_return [- 1] a)))"

text \<open>The assignment in \<open>change_namespace\<close> drops the default that was there; the handler ignores the
  returned function, so the page tree of the process is not changed.\<close>

definition chnamespace :: handler where
  "chnamespace st a k =
     arg st 0 \<bind> (\<lambda>i.
     lock_process a k \<bind> (\<lambda>k1.
     process_namespaces a k1 \<bind> (\<lambda>ns.
     case get_namespace_holder i ns of
       None \<Rightarrow> unlock_process a k1 \<bind> set_return [- 1] a
     | Some h \<Rightarrow>
         set_process_namespaces (snd (change_namespace i ns)) a (clone_namespace i k1) \<bind>
         drop_namespace_ref (get_default_namespace (holder_type h) ns) \<bind> unlock_process a \<bind> set_return [0] a)))"

text \<open>the loop of the three listings over entries of \<open>size'\<close> bytes.\<close>

fun copy_listing :: "nat \<Rightarrow> nat \<Rightarrow> nat \<Rightarrow> nat \<Rightarrow> u8 list list \<Rightarrow> kernel \<Rightarrow> (bool \<times> kernel) option" where
  "copy_listing size' buf_size buf_ptr i [] k = Some (True, k)"
| "copy_listing size' buf_size buf_ptr i (e # es) k =
     (if buf_size \<le> i then Some (True, k)
      else checked_mul 64 i size' \<bind> (\<lambda>offset.
           checked_add 64 buf_ptr offset \<bind> (\<lambda>dst.
           copy_to_user dst e k \<bind> (\<lambda>(valid, k').
           if valid then copy_listing size' buf_size buf_ptr (i + 1) es k' else Some (False, k')))))"

definition list_entries :: "store \<Rightarrow> nat \<Rightarrow> nat \<Rightarrow> nat \<Rightarrow> u8 list list \<Rightarrow> nat \<Rightarrow> kernel \<Rightarrow> kernel option" where
  "list_entries ret size' buf_size buf_ptr es a k =
     copy_listing size' buf_size buf_ptr 0 es k \<bind> (\<lambda>(valid, k').
     if valid then ret [word_of_nat (min (length es) buf_size), word_of_nat (length es)] a k'
     else ret [- 1] a k')"

definition namespace_info_bytes :: "u8 list \<Rightarrow> ProcNamespaces \<Rightarrow> NamespaceHolder \<Rightarrow> u8 list" where
  "namespace_info_bytes pad ns h =
     le_bytes 8 (holder_id h) @ le_bytes 4 (type_to_id (holder_type h)) @
     [of_bool (is_in_use (holder_id h) ns)] @ take 3 pad"

definition lsnamespace :: "store \<Rightarrow> handler" where
  "lsnamespace ret st a k =
     arg st 0 \<bind> (\<lambda>buf_size. arg st 1 \<bind> (\<lambda>buf_ptr.
     lock_process a k \<bind> (\<lambda>k1.
     process_namespaces a k1 \<bind> (\<lambda>ns.
     list_entries ret 16 buf_size buf_ptr (map (namespace_info_bytes (k_padding k) ns) (owned_namespaces ns)) a k1))))"

section \<open>System call management\<close>

definition init_syscall_management_syscalls :: "syscall_registry \<Rightarrow> syscall_registry option" where
  "init_syscall_management_syscalls =
     register_syscall_pack ''syscall_management''
       \<lparr>handlers = [(14, ''lspacks''), (15, ''lsallpacks''), (16, ''map_pack''), (17, ''unmap_pack''), (18, ''restrict'')]\<rparr>"

definition pack_info_bytes :: "string \<Rightarrow> u8 list" where
  "pack_info_bytes name =
     word_of_nat (length name) # take 31 (bytes_of_string name) @ replicate (31 - length name) 0"

definition mapped_pack_info_bytes :: "nat \<times> u32 \<times> nat \<Rightarrow> string \<Rightarrow> u8 list" where
  "mapped_pack_info_bytes m name =
     (case m of (b, msk, _) \<Rightarrow> pack_info_bytes name @ le_bytes 4 b @ le_bytes 4 (unat msk))"

fun decimal :: "nat \<Rightarrow> string" where
  "decimal n = (if n < 10 then [char_of (48 + n)] else decimal (n div 10) @ [char_of (48 + n mod 10)])"

declare decimal.simps [simp del]

definition lspacks :: handler where
  "lspacks st a k =
     arg st 0 \<bind> (\<lambda>buf_size. arg st 1 \<bind> (\<lambda>buf_ptr.
     lock_process a k \<bind> (\<lambda>k1.
     process_namespaces a k1 \<bind> (\<lambda>ns.
     case get_namespace TSyscall (namespace_arg st) ns of
       None \<Rightarrow> set_return [- 1] a k1
     | Some i \<Rightarrow>
         unlock_process a k1 \<bind> (\<lambda>k2.
         sys_namespace i k2 \<bind> (\<lambda>sys.
         let mapped = get_mapped_syscalls sys;
             names = get_names (\<lambda>j. ''unknown('' @ decimal j @ '')'') (map (\<lambda>m. snd (snd m)) mapped) (k_registry k2)
         in list_entries set_return 40 buf_size buf_ptr (map2 mapped_pack_info_bytes mapped names) a k2))))))"

definition lsallpacks :: handler where
  "lsallpacks st a k =
     arg st 0 \<bind> (\<lambda>buf_size. arg st 1 \<bind> (\<lambda>buf_ptr.
     list_entries set_return 32 buf_size buf_ptr
       (map (\<lambda>(name, _). pack_info_bytes name) (get_all_pack_info (k_registry k))) a k))"

definition map_pack :: handler where
  "map_pack st a k =
     arg st 0 \<bind> (\<lambda>name_len. arg st 1 \<bind> (\<lambda>name_ptr. arg st 2 \<bind> (\<lambda>base_index.
     checked_add 64 base_index 32 \<bind> (\<lambda>end'.
     if end' > 2 ^ 32 - 1 then set_return [- 1] a k
     else string_from_args name_ptr name_len k \<bind> (\<lambda>res.
     case res of
       None \<Rightarrow> set_return [- 1] a k
     | Some pack_name \<Rightarrow>
         (case get_syscall_pack pack_name (k_registry k) of
            None \<Rightarrow> set_return [- 1] a k
          | Some (p, pid) \<Rightarrow>
              lock_process a k \<bind> (\<lambda>k1.
              process_namespaces a k1 \<bind> (\<lambda>ns.
              case get_namespace TSyscall (namespace_arg st) ns of
                None \<Rightarrow> set_return [- 1] a k1
              | Some i \<Rightarrow>
                  unlock_process a k1 \<bind> (\<lambda>k2.
                  sys_namespace i k2 \<bind> (\<lambda>sys.
                  case map_syscall_pack base_index p pid sys of
                    (Inl _, _) \<Rightarrow> set_return [- 1] a k2
                  | (Inr _, sys') \<Rightarrow> set_return [0] a (k2\<lparr>k_ns := (k_ns k2)(i \<mapsto> NsSyscall sys')\<rparr>)))))))))))"

definition unmap_pack :: "store \<Rightarrow> handler" where
  "unmap_pack ret st a k =
     arg st 0 \<bind> (\<lambda>offset.
     lock_process a k \<bind> (\<lambda>k1.
     process_namespaces a k1 \<bind> (\<lambda>ns.
     case get_namespace TSyscall (namespace_arg st) ns of
       None \<Rightarrow> ret [- 1] a k1
     | Some i \<Rightarrow>
         sys_namespace i k1 \<bind> (\<lambda>sys.
         case unmap_syscall_pack_by_offset offset sys of
           (Inl _, _) \<Rightarrow> ret [- 1] a k1
         | (Inr _, sys') \<Rightarrow>
             ret [0] a (k1\<lparr>k_ns := (k_ns k1)(i \<mapsto> NsSyscall sys')\<rparr>) \<bind> unlock_process a))))"

definition restrict :: "store \<Rightarrow> handler" where
  "restrict ret st a k =
     arg st 0 \<bind> (\<lambda>offset. arg st 1 \<bind> (\<lambda>msk.
     lock_process a k \<bind> (\<lambda>k1.
     process_namespaces a k1 \<bind> (\<lambda>ns.
     case get_namespace TSyscall (namespace_arg st) ns of
       None \<Rightarrow> ret [- 1] a k1
     | Some i \<Rightarrow>
         sys_namespace i k1 \<bind> (\<lambda>sys.
         case disable_syscall_by_mask (offset mod 2 ^ 32) (word_of_nat msk) sys of
           (Inl _, _) \<Rightarrow> ret [- 1] a k1
         | (Inr _, sys') \<Rightarrow>
             ret [0] a (k1\<lparr>k_ns := (k_ns k1)(i \<mapsto> NsSyscall sys')\<rparr>) \<bind> unlock_process a)))))"

section \<open>Memory\<close>

definition init_mem_syscalls :: "syscall_registry \<Rightarrow> syscall_registry option" where
  "init_mem_syscalls =
     register_syscall_pack ''memory''
       \<lparr>handlers = [(8, ''make_reagion''), (9, ''remove_region''), (10, ''list_regions''), (11, ''set_prot''),
                   (12, ''mmap''), (13, ''munmap'')]\<rparr>"

text \<open>the last part of \<open>make_region\<close>, after the checks: the new range is an object of its own.\<close>

definition map_region ::
  "VirtualMemoryRangeCapacity \<Rightarrow> VirtualMemoryRangePermissions \<Rightarrow> VirtualMemoryRangeManagementMode \<Rightarrow> string \<Rightarrow>
   MemoryRangeType \<Rightarrow> nat \<Rightarrow> nat \<Rightarrow> MemoryNamespace \<Rightarrow> nat \<Rightarrow> kernel \<Rightarrow> kernel option" where
  "map_region capacity p mode name ty start_addr i mem a k =
     create capacity p mode (ns_pt (k_heap k)) \<bind> (\<lambda>(range, m).
     let arc = k_next_arc k; h = (k_heap k)\<lparr>ns_pt := m, arcs := (arcs (k_heap k))(arc \<mapsto> (range, 1))\<rparr>
     in add_mem_range arc name ty start_addr mem h \<bind> (\<lambda>(res, mem', h').
        let k' = k\<lparr>k_heap := h', k_next_arc := arc + 1, k_ns := (k_ns k)(i \<mapsto> NsMem mem')\<rparr>
        in case res of
             Inl _ \<Rightarrow> set_return [- 1] a k'
           | Inr n \<Rightarrow> set_return [word_of_nat n, word_of_nat start_addr] a k'))"

definition make_region :: handler where
  "make_region st a k =
     arg st 0 \<bind> (\<lambda>start. arg st 1 \<bind> (\<lambda>size_order. arg st 2 \<bind> (\<lambda>p. arg st 3 \<bind> (\<lambda>ty.
     get_arg st 4 \<bind> (\<lambda>mode. arg st 5 \<bind> (\<lambda>name_len. arg st 6 \<bind> (\<lambda>name_ptr.
     string_from_args name_ptr name_len k \<bind> (\<lambda>name'.
     case (name', from_level (size_order mod 2 ^ 8), range_type_from_u32 (ty mod 2 ^ 32), mode_from_u64 mode) of
       (Some name, Some capacity, Some region_type, Some management_mode) \<Rightarrow>
         lock_process a k \<bind> (\<lambda>k1.
         process_namespaces a k1 \<bind> (\<lambda>ns.
         unlock_process a k1 \<bind> (\<lambda>k2.
         case get_namespace TMem (namespace_arg st) ns of
           None \<Rightarrow> set_return [- 1] a k2
         | Some i \<Rightarrow>
             mem_namespace i k2 \<bind> (\<lambda>mem.
             let aligned = align_down capacity start;
                 permissions = \<lparr>perm_write = bit p 0, perm_execute = bit p 1\<rparr>
             in if aligned = 0
                then find_hole capacity mem (k_heap k2) \<bind> (\<lambda>hole.
                     case hole of
                       None \<Rightarrow> set_return [- 1] a k2
                     | Some addr \<Rightarrow> map_region capacity permissions management_mode name region_type addr i mem a k2)
                else map_region capacity permissions management_mode name region_type aligned i mem a k2))))
     | _ \<Rightarrow> set_return [- 1] a k))))))))"

definition remove_region :: "store \<Rightarrow> handler" where
  "remove_region ret st a k =
     arg st 0 \<bind> (\<lambda>region_id.
     lock_process a k \<bind> (\<lambda>k1.
     process_namespaces a k1 \<bind> (\<lambda>ns.
     case get_namespace TMem (namespace_arg st) ns of
       None \<Rightarrow> ret [- 1] a k1
     | Some i \<Rightarrow>
         mem_namespace i k1 \<bind> (\<lambda>mem.
         remove_mem_range_by_id (region_id mod 2 ^ 32) mem (k_heap k1) \<bind> (\<lambda>(res, mem', h).
         ret [case res of Inr _ \<Rightarrow> 0 | Inl _ \<Rightarrow> - 1] a
           (k1\<lparr>k_heap := h, k_ns := (k_ns k1)(i \<mapsto> NsMem mem')\<rparr>) \<bind> unlock_process a)))))"

text \<open>Two handlers are \<open>todo!()\<close>.\<close>

definition list_regions :: handler where
  "list_regions st a k = None"

definition sys_set_prot :: handler where
  "sys_set_prot st a k = None"

text \<open>\<open>mmap\<close> and \<open>munmap\<close> differ in the operation on the range.\<close>

definition manual_pages :: "(VirtualMemoryRange \<Rightarrow> nat \<Rightarrow> nat \<Rightarrow> pt_mem \<Rightarrow> vmr_result) \<Rightarrow> store \<Rightarrow> handler" where
  "manual_pages operation ret st a k =
     arg st 0 \<bind> (\<lambda>region_arg. arg st 1 \<bind> (\<lambda>offset. arg st 2 \<bind> (\<lambda>num_pages.
     lock_process a k \<bind> (\<lambda>k1.
     process_namespaces a k1 \<bind> (\<lambda>ns.
     case get_namespace TMem (namespace_arg st) ns of
       None \<Rightarrow> ret [- 1] a k1
     | Some i \<Rightarrow>
         mem_namespace i k1 \<bind> (\<lambda>mem.
         let region_id = region_arg mod 2 ^ 32
         in (if region_id = 0 then get_range_from_address offset mem (k_heap k1)
             else Some (get_range_from_id region_id mem)) \<bind> (\<lambda>found.
            case found of
              None \<Rightarrow> ret [- 1] a k1
            | Some (arc, base_addr) \<Rightarrow>
                (if region_id = 0 then checked_sub offset base_addr else Some offset) \<bind> (\<lambda>off.
                let pages_start = off mod 2 ^ 32 div 0x1000
                in checked_add 32 pages_start (num_pages mod 2 ^ 32) \<bind> (\<lambda>pages_end.
                   arcs (k_heap k1) arc \<bind> (\<lambda>(range, n).
                   operation range pages_start pages_end (ns_pt (k_heap k1)) \<bind> (\<lambda>(res, range', m).
                   ret [case res of Inr _ \<Rightarrow> 0 | Inl _ \<Rightarrow> - 1] a
                     (k1\<lparr>k_heap := (k_heap k1)\<lparr>arcs := (arcs (k_heap k1))(arc \<mapsto> (range', n)), ns_pt := m\<rparr>\<rparr>) \<bind>
                   unlock_process a)))))))))))"

definition mmap :: "store \<Rightarrow> handler" where
  "mmap = manual_pages allocate_manual_external"

definition munmap :: "store \<Rightarrow> handler" where
  "munmap = manual_pages free_manual_external"

section \<open>Processes and time\<close>

definition init_proc_syscalls :: "syscall_registry \<Rightarrow> syscall_registry option" where
  "init_proc_syscalls =
     register_syscall_pack ''proc''
       \<lparr>handlers = [(4, ''exec''), (5, ''exit''), (6, ''sleep''), (7, ''time'')]\<rparr>"

record ExecArgs =
  ea_namespaces :: NamespaceIds
  ea_registers :: RegisterState
  ea_start_ptr :: u64
  ea_name_len :: nat
  ea_name_ptr :: nat

definition field :: "nat \<Rightarrow> u8 list \<Rightarrow> nat" where
  "field j bs = from_le (take 8 (drop (8 * j) bs))"

definition exec_args_from_bytes :: "u8 list \<Rightarrow> ExecArgs" where
  "exec_args_from_bytes bs =
     (let w = (\<lambda>j. word_of_nat (field j bs))
      in \<lparr>ea_namespaces = \<lparr>ids_memory = field 0 bs, ids_syscall = field 1 bs, ids_filesystem = field 2 bs\<rparr>,
          ea_registers = \<lparr>rs_rax = w 3, rs_rbx = w 4, rs_rcx = w 5, rs_rdx = w 6, rs_rsi = w 7, rs_rdi = w 8,
            rs_rsp = w 9, rs_rbp = w 10, rs_r8 = w 11, rs_r9 = w 12, rs_r10 = w 13, rs_r11 = w 14,
            rs_r12 = w 15, rs_r13 = w 16, rs_r14 = w 17, rs_r15 = w 18\<rparr>,
          ea_start_ptr = w 19, ea_name_len = field 20 bs, ea_name_ptr = field 21 bs\<rparr>)"

text \<open>\<open>ProcNamespaces::new\<close> stores each namespace twice, as an owned one and as the default.\<close>

definition create_process_from_parts :: "RegisterState \<Rightarrow> u64 \<Rightarrow> ProcNamespaces \<Rightarrow> string \<Rightarrow> kernel \<Rightarrow> (nat \<times> kernel) option" where
  "create_process_from_parts registers start_ptr ns name k =
     mem_namespace (memory_namespace ns) k \<bind> (\<lambda>mem.
     case create_process (state_from_registers registers start_ptr) name (page_tree_root mem) ns (k_procs k) of
       (pid, procs) \<Rightarrow>
         Some (pid, k\<lparr>k_procs := procs,
           k_refs := (\<lambda>i. k_refs k i + 2 * count_list [memory_namespace ns, syscall_namespace ns, filesystem_namespace ns] i)\<rparr>))"

definition exec :: handler where
  "exec st a k =
     arg st 0 \<bind> (\<lambda>args_ptr.
     copy_from_user args_ptr 176 k \<bind> (\<lambda>res.
     case res of
       None \<Rightarrow> set_return [- 1] a k
     | Some bs \<Rightarrow>
         let ea = exec_args_from_bytes bs
         in panic_unless (ea_name_len ea \<le> k_alloc_limit k) \<bind> (\<lambda>_.
            copy_from_user (ea_name_ptr ea) (ea_name_len ea) k \<bind> (\<lambda>name_res.
            case name_res of
              None \<Rightarrow> set_return [- 1] a k
            | Some name_buf \<Rightarrow>
                if \<not> utf8_valid (map unat name_buf) then set_return [- 1] a k
                else lock_process a k \<bind> (\<lambda>k1.
                     process_namespaces a k1 \<bind> (\<lambda>ns.
                     unlock_process a k1 \<bind> (\<lambda>k2.
                     case clone_from_ids (ea_namespaces ea) ns of
                       Inl _ \<Rightarrow> set_return [- 1] a k2
                     | Inr new_ns \<Rightarrow>
                         create_process_from_parts (ea_registers ea) (ea_start_ptr ea) new_ns (string_of_bytes name_buf) k2 \<bind>
                         (\<lambda>(pid, k3). set_return [word_of_nat pid] a k3))))))))"

definition kill :: "nat \<Rightarrow> kernel \<Rightarrow> kernel option" where
  "kill a k =
     objects (k_procs k) a \<bind> (\<lambda>d.
     case kill_process (pd_pid d) (k_procs k) of
       (hooks, procs) \<Rightarrow> Some (k\<lparr>k_procs := procs, k_hooks := k_hooks k @ hooks\<rparr>))"

definition sys_exit :: handler where
  "sys_exit st a k = kill a k"

text \<open>the callbacks of events that were due run at once, in order; the preemption callback does nothing.\<close>

fun run_callback :: "event_callback \<Rightarrow> ProcNamespaces proc_sys \<Rightarrow> ProcNamespaces proc_sys" where
  "run_callback (WakeProcess pid) s = wake_proc pid s"
| "run_callback Preemption s = s"

definition settle_events :: "event_callback event_queue \<Rightarrow> kernel \<Rightarrow> kernel" where
  "settle_events q k =
     k\<lparr>k_events := q, k_procs := fold run_callback (drop (length (fired (k_events k))) (fired q)) (k_procs k)\<rparr>"

definition read_clock :: "kernel \<Rightarrow> Instant \<times> kernel" where
  "read_clock k =
     (k_clock k (clock_reads (k_events k)),
      k\<lparr>k_events := (k_events k)\<lparr>clock_reads := clock_reads (k_events k) + 1\<rparr>\<rparr>)"

definition sys_sleep :: handler where
  "sys_sleep st a k =
     arg st 0 \<bind> (\<lambda>sec. arg st 1 \<bind> (\<lambda>ns.
     duration_new sec (ns mod 2 ^ 32) \<bind> (\<lambda>sleep_time.
     case read_clock k of (now, k1) \<Rightarrow>
       instant_add now sleep_time \<bind> (\<lambda>until.
       objects (k_procs k1) a \<bind> (\<lambda>d.
       with_process a (\<lambda>p. Some (set_sleeping True p)) k1 \<bind> (\<lambda>k2.
       schedule_event (k_clock k2) (k_frequency k2) until (WakeProcess (pd_pid d)) (k_events k2) \<bind> (\<lambda>(_, q).
       Some (settle_events q k2))))))))"

definition ffi_bytes :: "u8 list \<Rightarrow> Duration \<Rightarrow> u8 list" where
  "ffi_bytes pad d = le_bytes 8 (ffi_seconds (ffi_from_duration d)) @ le_bytes 4 (ffi_nanos (ffi_from_duration d)) @ take 4 pad"

definition sys_time :: handler where
  "sys_time st a k =
     arg st 0 \<bind> (\<lambda>ptr.
     case read_clock k of (now, k1) \<Rightarrow>
       duration_since now 0 \<bind> (\<lambda>epoch.
       duration_since now (k_boot k1) \<bind> (\<lambda>boot.
       copy_to_user ptr (concat (map (ffi_bytes (k_padding k1)) [epoch, boot, epoch, epoch, epoch])) k1 \<bind> (\<lambda>(valid, k2).
       set_return [if valid then 0 else - 1] a k2))))"

section \<open>The entry\<close>

definition init_syscalls :: "syscall_registry \<Rightarrow> syscall_registry option" where
  "init_syscalls reg =
     init_namespace_management_syscalls reg \<bind> init_proc_syscalls \<bind> init_mem_syscalls \<bind> init_syscall_management_syscalls"

text \<open>The function that a handler number stands for; the handlers of the file system pack, which start
  asynchronous tasks, are the argument \<open>fs_handler\<close>.\<close>

definition run_handler :: "(nat \<Rightarrow> handler) \<Rightarrow> nat \<Rightarrow> handler" where
  "run_handler fs_handler n =
     (if n < 19
      then [mknamespace, rmnamespace, chnamespace, lsnamespace set_return, exec, sys_exit, sys_sleep, sys_time, make_region,
            remove_region set_return, list_regions, sys_set_prot, mmap set_return, munmap set_return, lspacks,
            lsallpacks, map_pack, unmap_pack set_return, restrict set_return] ! n
      else fs_handler n)"

definition cancel_preemption :: "kernel \<Rightarrow> kernel option" where
  "cancel_preemption k =
     (case k_preemption k of
        None \<Rightarrow> Some k
      | Some e \<Rightarrow>
          cancel_scheduled_event (k_clock k) (k_frequency k) e (k_events k) \<bind> (\<lambda>(_, q).
          Some (settle_events q (k\<lparr>k_preemption := None\<rparr>))))"

definition main_syscall_handler :: "(nat \<Rightarrow> handler) \<Rightarrow> nat \<Rightarrow> SyscallCpuState \<Rightarrow> kernel \<Rightarrow> kernel option" where
  "main_syscall_handler fs_handler c st k =
     current_process (k_procs k) c \<bind> (\<lambda>a.
     cancel_preemption (k\<lparr>k_procs := (k_procs k)\<lparr>int_depth := (int_depth (k_procs k))(c := 1),
       current_process := (current_process (k_procs k))(c := None)\<rparr>\<rparr>) \<bind> (\<lambda>k1.
     save_cpu_state (Syscall st) a (k_procs k1) \<bind> (\<lambda>procs.
     let k2 = k1\<lparr>k_procs := procs\<rparr>
     in lock_process a k2 \<bind> (\<lambda>k3.
        process_namespaces a k3 \<bind> (\<lambda>ns.
        (case get_namespace TSyscall 0 ns of
           Some i \<Rightarrow>
             sys_namespace i k3 \<bind> (\<lambda>sys.
             unlock_process a k3 \<bind> (\<lambda>k4.
             case get_syscall_handler (unat (get_syscall_number st) mod 2 ^ 32) sys of
               Some n \<Rightarrow> run_handler fs_handler n st a k4
             | None \<Rightarrow> set_return [- 1, 0] a k4))
         | None \<Rightarrow> kill a k3) \<bind> (\<lambda>k5.
        release_current_proc a c (k_procs k5) \<bind> (\<lambda>procs'. Some (k5\<lparr>k_procs := procs'\<rparr>))))))))"

end
