(* ===== verification/SyscallSafety.thy ===== *)
theory SyscallSafety
  imports Syscalls
begin

text \<open>
  What the system call handlers do: six of them never return, and all others move the namespaces of the
  processes only by the steps of a small abstract machine, from which typing, reference counts and
  confinement follow.
\<close>

section \<open>Handlers that lock themselves out\<close>

definition process_locked :: "nat \<Rightarrow> kernel \<Rightarrow> bool" where
  "process_locked a k \<longleftrightarrow> (\<exists>d. objects (k_procs k) a = Some d \<and> internal_locked d)"

lemma lock_process_locked: "lock_process a k = Some k1 \<Longrightarrow> process_locked a k1"
  by (cases "objects (k_procs k) a")
    (auto simp: lock_process_def with_process_def get_mutable_def process_locked_def split: if_splits)

lemma set_return_locked [simp]: "process_locked a k \<Longrightarrow> set_return vs a k = None"
  by (auto simp: process_locked_def set_return_def with_process_def set_syscall_return_def get_mutable_def)

lemma process_locked_upd [simp]:
  "process_locked a (k\<lparr>k_ns := x\<rparr>) = process_locked a k" "process_locked a (k\<lparr>k_heap := h\<rparr>) = process_locked a k"
  by (simp_all add: process_locked_def)

lemma copy_to_user_procs: "copy_to_user dst bs k = Some (v, k') \<Longrightarrow> k_procs k' = k_procs k"
  by (auto simp: copy_to_user_def bind_eq_Some_conv Let_def split: if_splits)

lemma copy_listing_procs: "copy_listing sz n p i es k = Some (v, k') \<Longrightarrow> k_procs k' = k_procs k"
proof (induction es arbitrary: i k)
  case (Cons e es)
  show ?case
  proof (cases "n \<le> i")
    case False
    with Cons.prems obtain dst v1 k1 where c: "copy_to_user dst e k = Some (v1, k1)"
      and "v1 \<Longrightarrow> copy_listing sz n p (i + 1) es k1 = Some (v, k')" "\<not> v1 \<Longrightarrow> k' = k1"
      by (auto simp: bind_eq_Some_conv split: if_splits)
    with Cons.IH [of "i + 1" k1] copy_to_user_procs [OF c] show ?thesis by (cases v1) auto
  qed (use Cons.prems in simp)
qed simp

text \<open>A call, as a function of the operation \<open>ret\<close> that stores its results, locks itself out when it panics
  before it stores anything, or when it is \<open>ret\<close> in a state in which the lock of its own process is taken.
  \<open>set_syscall_return\<close> takes that lock, so with \<open>set_return\<close> for \<open>ret\<close> the second case spins for ever.\<close>

definition locks_itself_out :: "nat \<Rightarrow> (store \<Rightarrow> kernel option) \<Rightarrow> bool" where
  "locks_itself_out a call \<longleftrightarrow>
     (\<forall>ret. call ret = None) \<or>
     (\<exists>vs k' f. process_locked a k' \<and> call = (\<lambda>ret. ret vs a k' \<bind> f))"

lemma locks_itself_out_None: "locks_itself_out a call \<Longrightarrow> call set_return = None"
  by (auto simp: locks_itself_out_def)

lemma lio_store: "process_locked a k \<Longrightarrow> locks_itself_out a (\<lambda>ret. ret vs a k \<bind> f)"
  unfolding locks_itself_out_def by blast

lemma lio_store_last: "process_locked a k \<Longrightarrow> locks_itself_out a (\<lambda>ret. ret vs a k)"
  using lio_store [of a k vs Some] by simp

lemma lio_bind:
  "(\<And>x. m = Some x \<Longrightarrow> locks_itself_out a (\<lambda>ret. g x ret)) \<Longrightarrow> locks_itself_out a (\<lambda>ret. m \<bind> (\<lambda>x. g x ret))"
  by (cases m) (auto simp: locks_itself_out_def)

lemma lio_option:
  "(x = None \<Longrightarrow> locks_itself_out a A) \<Longrightarrow> (\<And>y. x = Some y \<Longrightarrow> locks_itself_out a (B y)) \<Longrightarrow>
   locks_itself_out a (\<lambda>ret. case x of None \<Rightarrow> A ret | Some y \<Rightarrow> B y ret)"
  by (cases x) auto

lemma lio_sum:
  "(\<And>y. x = Inl y \<Longrightarrow> locks_itself_out a (A y)) \<Longrightarrow> (\<And>y. x = Inr y \<Longrightarrow> locks_itself_out a (B y)) \<Longrightarrow>
   locks_itself_out a (\<lambda>ret. case x of Inl y \<Rightarrow> A y ret | Inr y \<Rightarrow> B y ret)"
  by (cases x) auto

lemma lio_prod:
  "(\<And>y z. x = (y, z) \<Longrightarrow> locks_itself_out a (A y z)) \<Longrightarrow> locks_itself_out a (\<lambda>ret. case x of (y, z) \<Rightarrow> A y z ret)"
  by (cases x) auto

lemma lio_if:
  "(c \<Longrightarrow> locks_itself_out a A) \<Longrightarrow> (\<not> c \<Longrightarrow> locks_itself_out a B) \<Longrightarrow>
   locks_itself_out a (\<lambda>ret. if c then A ret else B ret)"
  by (cases c) auto

lemmas lio_intros = lio_store lio_store_last lio_bind lio_option lio_sum lio_prod lio_if

lemma list_entries_lio:
  assumes "process_locked a k"
  shows "locks_itself_out a (\<lambda>ret. list_entries ret sz n p es a k)"
  unfolding list_entries_def
proof (intro lio_bind lio_prod)
  fix x v k2
  assume "copy_listing sz n p 0 es k = Some x" "x = (v, k2)"
  then have "process_locked a k2" using copy_listing_procs assms by (auto simp: process_locked_def)
  then show "locks_itself_out a (\<lambda>ret.
     if v then ret [word_of_nat (min (length es) n), word_of_nat (length es)] a k2 else ret [- 1] a k2)"
    by (intro lio_intros)
qed

lemma lsnamespace_lio: "locks_itself_out a (\<lambda>ret. lsnamespace ret st a k)"
  unfolding lsnamespace_def by (intro lio_bind list_entries_lio) (rule lock_process_locked)

lemma unmap_pack_lio: "locks_itself_out a (\<lambda>ret. unmap_pack ret st a k)"
  unfolding unmap_pack_def by (intro lio_intros) (simp_all add: lock_process_locked)

lemma restrict_lio: "locks_itself_out a (\<lambda>ret. restrict ret st a k)"
  unfolding restrict_def by (intro lio_intros) (simp_all add: lock_process_locked)

lemma remove_region_lio: "locks_itself_out a (\<lambda>ret. remove_region ret st a k)"
  unfolding remove_region_def by (intro lio_intros) (simp_all add: lock_process_locked)

lemma manual_pages_lio: "locks_itself_out a (\<lambda>ret. manual_pages f ret st a k)"
  unfolding manual_pages_def Let_def by (intro lio_intros) (simp_all add: lock_process_locked)

lemmas lio_handlers = lsnamespace_lio unmap_pack_lio restrict_lio remove_region_lio manual_pages_lio

text \<open>C20: Six system calls never return, whatever their arguments and the state of the process. Each call
  of \<open>lsnamespace\<close>, \<open>unmap_pack\<close>, \<open>restrict\<close>, \<open>remove_region\<close>, \<open>mmap\<close> and \<open>munmap\<close> either panics on
  its way or comes to \<open>set_syscall_return\<close>, which takes the lock of the process, in a state in which the call itself
  already holds that lock, so the processor spins for ever.\<close>

theorem six_handlers_never_return:
  "(locks_itself_out a (\<lambda>ret. lsnamespace ret st a k) \<and> lsnamespace set_return st a k = None) \<and>
   (locks_itself_out a (\<lambda>ret. unmap_pack ret st a k) \<and> unmap_pack set_return st a k = None) \<and>
   (locks_itself_out a (\<lambda>ret. restrict ret st a k) \<and> restrict set_return st a k = None) \<and>
   (locks_itself_out a (\<lambda>ret. remove_region ret st a k) \<and> remove_region set_return st a k = None) \<and>
   (locks_itself_out a (\<lambda>ret. mmap ret st a k) \<and> mmap set_return st a k = None) \<and>
   (locks_itself_out a (\<lambda>ret. munmap ret st a k) \<and> munmap set_return st a k = None)"
  unfolding mmap_def munmap_def by (intro conjI lio_handlers lio_handlers [THEN locks_itself_out_None])

section \<open>The abstract machine of namespaces\<close>

text \<open>What matters of the state: which namespaces each process holds, the type of each live namespace, its
  reference count, and the counters that give new identities.\<close>

record ns_view =
  v_procs :: "nat \<Rightarrow> ProcNamespaces option"
  v_next :: nat
  v_types :: "nat \<Rightarrow> NamespaceType option"
  v_refs :: "nat \<Rightarrow> nat"
  v_counter :: nat

definition view :: "kernel \<Rightarrow> ns_view" where
  "view k =
     \<lparr>v_procs = (\<lambda>b. map_option namespaces (objects (k_procs k) b)), v_next = next_object (k_procs k),
      v_types = (\<lambda>i. map_option namespace_type (k_ns k i)), v_refs = k_refs k, v_counter = k_ns_counter k\<rparr>"

definition v_drop :: "nat \<Rightarrow> ns_view \<Rightarrow> ns_view" where
  "v_drop i v =
     (if v_refs v i > 1 then v\<lparr>v_refs := (v_refs v)(i := v_refs v i - 1)\<rparr>
      else v\<lparr>v_refs := (v_refs v)(i := 0), v_types := (v_types v)(i := None)\<rparr>)"

inductive namespace_step :: "nat \<Rightarrow> ns_view \<Rightarrow> ns_view \<Rightarrow> bool" for a where
  stay: "namespace_step a v v"
| lose_id: "namespace_step a v (v\<lparr>v_counter := v_counter v + 1\<rparr>)"
| make: "v_procs v a = Some ns \<Longrightarrow> holder_id h = v_counter v mod 2 ^ 64 \<Longrightarrow>
    namespace_step a v (v\<lparr>v_procs := (v_procs v)(a \<mapsto> add_namespace h ns), v_counter := v_counter v + 1,
      v_types := (v_types v)(holder_id h \<mapsto> holder_type h), v_refs := (v_refs v)(holder_id h := 1)\<rparr>)"
| remove: "v_procs v a = Some ns \<Longrightarrow> remove_namespace i ns = (True, ns') \<Longrightarrow>
    namespace_step a v (v_drop i (v\<lparr>v_procs := (v_procs v)(a \<mapsto> ns')\<rparr>))"
| change: "v_procs v a = Some ns \<Longrightarrow> get_namespace_holder i ns = Some h \<Longrightarrow>
    namespace_step a v (v_drop (get_default_namespace (holder_type h) ns)
      (v\<lparr>v_refs := (v_refs v)(i := v_refs v i + 1), v_procs := (v_procs v)(a \<mapsto> snd (change_namespace i ns))\<rparr>))"
| spawn: "v_procs v a = Some ns \<Longrightarrow> clone_from_ids ids ns = Inr new \<Longrightarrow>
    namespace_step a v (v\<lparr>v_procs := (v_procs v)(v_next v \<mapsto> new), v_next := v_next v + 1,
      v_refs := (\<lambda>i. v_refs v i + 2 * count_list [memory_namespace new, syscall_namespace new, filesystem_namespace new] i)\<rparr>)"

section \<open>The handlers are steps of the machine\<close>

lemma view_with_process:
  assumes "with_process a f k = Some k'" and "\<And>d d'. f d = Some d' \<Longrightarrow> namespaces d' = namespaces d"
  shows "view k' = view k"
proof -
  from assms(1) obtain d d' where d: "objects (k_procs k) a = Some d" "f d = Some d'"
    "k' = k\<lparr>k_procs := (k_procs k)\<lparr>objects := (objects (k_procs k))(a \<mapsto> d')\<rparr>\<rparr>"
    by (auto simp: with_process_def bind_eq_Some_conv)
  with assms(2) [OF d(2)] show ?thesis by (auto simp: view_def)
qed

lemma view_lock: "lock_process a k = Some k' \<Longrightarrow> view k' = view k"
  unfolding lock_process_def by (erule view_with_process) (auto simp: get_mutable_def split: if_splits)

lemma view_unlock: "unlock_process a k = Some k' \<Longrightarrow> view k' = view k"
  unfolding unlock_process_def by (erule view_with_process) (auto simp: drop_mutable_def)

lemma view_return: "set_return vs a k = Some k' \<Longrightarrow> view k' = view k"
  unfolding set_return_def
  by (erule view_with_process)
    (auto simp: set_syscall_return_def get_mutable_def drop_mutable_def bind_eq_Some_conv split: if_splits CpuStateType.splits)

lemma view_set_namespaces:
  "set_process_namespaces ns a k = Some k' \<Longrightarrow> view k' = (view k)\<lparr>v_procs := (v_procs (view k))(a \<mapsto> ns)\<rparr>"
  by (auto simp: set_process_namespaces_def with_process_def bind_eq_Some_conv view_def)

lemma process_namespaces_view: "process_namespaces a k = v_procs (view k) a"
  by (simp add: process_namespaces_def view_def)

lemma view_copy_to_user: "copy_to_user dst bs k = Some (v, k') \<Longrightarrow> view k' = view k"
  by (auto simp: copy_to_user_def bind_eq_Some_conv Let_def view_def split: if_splits)

lemma view_copy_listing: "copy_listing sz n p i es k = Some (v, k') \<Longrightarrow> view k' = view k"
proof (induction es arbitrary: i k)
  case (Cons e es)
  show ?case
  proof (cases "n \<le> i")
    case False
    with Cons.prems obtain dst v1 k1 where c: "copy_to_user dst e k = Some (v1, k1)"
      and "v1 \<Longrightarrow> copy_listing sz n p (i + 1) es k1 = Some (v, k')" "\<not> v1 \<Longrightarrow> k' = k1"
      by (auto simp: bind_eq_Some_conv split: if_splits)
    with Cons.IH [of "i + 1" k1] view_copy_to_user [OF c] show ?thesis by (cases v1) auto
  qed (use Cons.prems in simp)
qed simp

lemma view_list_entries: "list_entries set_return sz n p es a k = Some k' \<Longrightarrow> view k' = view k"
  by (auto simp: list_entries_def bind_eq_Some_conv split: if_splits dest!: view_copy_listing view_return)

lemmas view_frames = view_lock view_unlock view_return view_list_entries

lemma view_drop_ref: "drop_namespace_ref i k = Some k' \<Longrightarrow> view k' = v_drop i (view k)"
proof (cases "k_refs k i > 1")
  case True
  then show "drop_namespace_ref i k = Some k' \<Longrightarrow> view k' = v_drop i (view k)"
    by (auto simp: drop_namespace_ref_def bind_eq_Some_conv view_def v_drop_def)
next
  case False
  then have r: "v_drop i (view k) = (view k)\<lparr>v_refs := (k_refs k)(i := 0), v_types := (v_types (view k))(i := None)\<rparr>"
    by (simp add: v_drop_def view_def)
  assume d: "drop_namespace_ref i k = Some k'"
  then obtain n where "k_ns k i = Some n" by (auto simp: drop_namespace_ref_def bind_eq_Some_conv)
  with d False show "view k' = v_drop i (view k)"
    unfolding r by (cases n) (auto simp: drop_namespace_ref_def Let_def bind_eq_Some_conv view_def fun_eq_iff)
qed

lemma view_new_namespace:
  "view (new_namespace i n k) =
     (view k)\<lparr>v_types := (v_types (view k))(i \<mapsto> namespace_type n), v_refs := (v_refs (view k))(i := 1)\<rparr>"
  by (auto simp: view_def new_namespace_def)

lemma view_heap [simp]: "view (k\<lparr>k_heap := h\<rparr>) = view k" "view (k\<lparr>k_next_arc := n\<rparr>) = view k"
  by (simp_all add: view_def)

lemma view_clone [simp]: "view (clone_namespace i k) = (view k)\<lparr>v_refs := (v_refs (view k))(i := v_refs (view k) i + 1)\<rparr>"
  by (simp add: view_def clone_namespace_def)

lemma view_add_new:
  assumes "add_new_namespace h a k = Some k'"
  shows "\<exists>ns. v_procs (view k) a = Some ns \<and> view k' = (view k)\<lparr>v_procs := (v_procs (view k))(a \<mapsto> add_namespace h ns)\<rparr>"
  using assms
  by (auto simp: add_new_namespace_def bind_eq_Some_conv process_namespaces_view dest!: view_frames view_set_namespaces)

lemma create_empty_view:
  assumes "create_empty_namespace t i k = Some (res, k')"
  shows "case res of
      None \<Rightarrow> view k' = view k
    | Some h \<Rightarrow> holder_id h = i \<and>
        view k' = (view k)\<lparr>v_types := (v_types (view k))(i \<mapsto> holder_type h), v_refs := (v_refs (view k))(i := 1)\<rparr>"
  using assms by (cases t) (auto simp: bind_eq_Some_conv view_new_namespace split: sum.splits)

lemma create_from_view:
  assumes "namespace_create_from i other k = Some (res, k')"
  shows "case res of
      Inl _ \<Rightarrow> view k' = view k
    | Inr h \<Rightarrow> holder_id h = i \<and>
        view k' = (view k)\<lparr>v_types := (v_types (view k))(i \<mapsto> holder_type h), v_refs := (v_refs (view k))(i := 1)\<rparr>"
proof (cases other)
  case (HMem j)
  with assms obtain ns where ns: "k_ns k j = Some (NsMem ns)"
    by (auto simp: namespace_create_from_def split: option.splits namespace.splits)
  with HMem assms obtain r h where "create_from i ns (k_heap k) = Some (r, h)"
    by (auto simp: namespace_create_from_def bind_eq_Some_conv)
  with ns HMem assms show ?thesis by (cases r) (auto simp: namespace_create_from_def view_new_namespace)
qed (use assms in \<open>auto simp: namespace_create_from_def view_new_namespace split: option.splits namespace.splits\<close>)

lemma view_new_id: "new_namespace_id k = (i, k') \<Longrightarrow> i = v_counter (view k) mod 2 ^ 64 \<and>
    view k' = (view k)\<lparr>v_counter := v_counter (view k) + 1\<rparr>"
  by (auto simp: new_namespace_id_def view_def)

lemma make_step:
  assumes "view k1 = (view k)\<lparr>v_counter := v_counter (view k) + 1\<rparr>" and "holder_id h = v_counter (view k) mod 2 ^ 64"
    and "view k2 = (view k1)\<lparr>v_types := (v_types (view k1))(holder_id h \<mapsto> holder_type h),
      v_refs := (v_refs (view k1))(holder_id h := 1)\<rparr>"
    and "add_new_namespace h a k2 = Some k'"
  shows "namespace_step a (view k) (view k')"
proof -
  from view_add_new [OF assms(4)] assms(1,3) obtain ns where ns: "v_procs (view k) a = Some ns"
    "view k' = (view k)\<lparr>v_procs := (v_procs (view k))(a \<mapsto> add_namespace h ns), v_counter := v_counter (view k) + 1,
      v_types := (v_types (view k))(holder_id h \<mapsto> holder_type h), v_refs := (v_refs (view k))(holder_id h := 1)\<rparr>"
    by auto
  show ?thesis unfolding ns(2) by (rule make [where h = h, OF ns(1) assms(2)])
qed

lemma mknamespace_empty_step:
  assumes "new_namespace_id k = (i, k1)" and "create_empty_namespace t i k1 = Some (res, k2)"
    and "(case res of None \<Rightarrow> set_return [- 1] a k2 | Some h \<Rightarrow> add_new_namespace h a k2) = Some k'"
  shows "namespace_step a (view k) (view k')"
proof (cases res)
  case None
  with assms view_new_id [OF assms(1)] create_empty_view [OF assms(2)]
  have "view k' = (view k)\<lparr>v_counter := v_counter (view k) + 1\<rparr>" by (auto dest: view_return)
  with lose_id [of a "view k"] show ?thesis by simp
next
  case (Some h)
  with create_empty_view [OF assms(2)] view_new_id [OF assms(1)] assms(3) show ?thesis
    by (intro make_step [of k1 k h k2]) auto
qed

lemma mknamespace_copy_step:
  assumes "view k0 = view k" and "new_namespace_id k0 = (i, k1)"
    and "namespace_create_from i other k1 = Some (Inr h, k2)" and "view k3 = view k2"
    and "add_new_namespace h a k3 = Some k'"
  shows "namespace_step a (view k) (view k')"
  by (rule make_step [of k1 k h k3]) (use assms view_new_id [OF assms(2)] create_from_view [OF assms(3)] in auto)

lemma mknamespace_step:
  assumes "mknamespace st a k = Some k'"
  shows "namespace_step a (view k) (view k')"
proof -
  from assms obtain ty ex where args: "arg st 0 = Some ty" "arg st 1 = Some ex"
    by (auto simp: mknamespace_def bind_eq_Some_conv)
  consider "type_from_id ty = None" | t where "type_from_id ty = Some t" "ex = 0" | t where "type_from_id ty = Some t" "ex \<noteq> 0"
    by (cases "type_from_id ty") auto
  then show ?thesis
  proof cases
    case 1
    with args assms have "view k' = view k" by (auto simp: mknamespace_def dest: view_return)
    then show ?thesis by (simp add: stay)
  next
    case 2
    obtain i k1 where new: "new_namespace_id k = (i, k1)" by fastforce
    with 2 args assms obtain res k2 where "create_empty_namespace t i k1 = Some (res, k2)"
      "(case res of None \<Rightarrow> set_return [- 1] a k2 | Some h \<Rightarrow> add_new_namespace h a k2) = Some k'"
      by (auto simp: mknamespace_def bind_eq_Some_conv)
    with new show ?thesis by (intro mknamespace_empty_step)
  next
    case 3
    with args assms obtain k0 ns where k0: "lock_process a k = Some k0" "process_namespaces a k0 = Some ns"
      by (auto simp: mknamespace_def bind_eq_Some_conv)
    with lock_process_locked [OF k0(1)] 3 args assms obtain other where other: "get_namespace_holder ex ns = Some other"
      by (auto simp: mknamespace_def split: option.splits)
    obtain i k1 where new: "new_namespace_id k0 = (i, k1)" by fastforce
    with k0 other 3 args assms obtain res k2 where from': "namespace_create_from i other k1 = Some (res, k2)"
      and rest: "(case res of Inl _ \<Rightarrow> set_return [- 1] a k2 | Inr h \<Rightarrow> unlock_process a k2 \<bind> add_new_namespace h a) = Some k'"
      by (auto simp: mknamespace_def bind_eq_Some_conv)
    show ?thesis
    proof (cases res)
      case (Inl e)
      with rest from' create_from_view [OF from'] view_new_id [OF new] view_lock [OF k0(1)]
      have "view k' = (view k)\<lparr>v_counter := v_counter (view k) + 1\<rparr>" by (auto dest: view_return)
      with lose_id [of a "view k"] show ?thesis by simp
    next
      case (Inr h)
      with rest obtain k3 where "unlock_process a k2 = Some k3" "add_new_namespace h a k3 = Some k'"
        by (auto simp: bind_eq_Some_conv)
      with Inr from' new view_lock [OF k0(1)] show ?thesis
        by (intro mknamespace_copy_step [of k0 k i k1 other h k2 k3]) (auto dest: view_unlock)
    qed
  qed
qed

lemma rmnamespace_step:
  assumes "rmnamespace st a k = Some k'"
  shows "namespace_step a (view k) (view k')"
proof -
  from assms obtain i k1 ns where 1: "arg st 0 = Some i" "lock_process a k = Some k1" "process_namespaces a k1 = Some ns"
    by (auto simp: rmnamespace_def bind_eq_Some_conv)
  from view_lock [OF 1(2)] 1(3) have ns: "v_procs (view k) a = Some ns" by (simp add: process_namespaces_view)
  obtain b ns' where r: "remove_namespace i ns = (b, ns')" by fastforce
  show ?thesis
  proof (cases b)
    case True
    with 1 r assms obtain k2 k3 k4 where "set_process_namespaces ns' a k1 = Some k2" "drop_namespace_ref i k2 = Some k3"
      "unlock_process a k3 = Some k4" "set_return [0] a k4 = Some k'"
      by (auto simp: rmnamespace_def bind_eq_Some_conv)
    with view_lock [OF 1(2)] have e: "view k' = v_drop i ((view k)\<lparr>v_procs := (v_procs (view k))(a \<mapsto> ns')\<rparr>)"
      by (auto dest!: view_frames view_set_namespaces view_drop_ref)
    show ?thesis unfolding e by (rule remove [where ns = ns]) (use ns r True in auto)
  next
    case False
    with 1 r assms have "view k' = view k" by (auto simp: rmnamespace_def bind_eq_Some_conv dest!: view_frames)
    then show ?thesis by (simp add: stay)
  qed
qed

lemma chnamespace_step:
  assumes "chnamespace st a k = Some k'"
  shows "namespace_step a (view k) (view k')"
proof -
  from assms obtain i k1 ns where 1: "arg st 0 = Some i" "lock_process a k = Some k1" "process_namespaces a k1 = Some ns"
    by (auto simp: chnamespace_def bind_eq_Some_conv)
  from view_lock [OF 1(2)] 1(3) have ns: "v_procs (view k) a = Some ns" by (simp add: process_namespaces_view)
  show ?thesis
  proof (cases "get_namespace_holder i ns")
    case (Some h)
    let ?old = "get_default_namespace (holder_type h) ns" and ?new = "snd (change_namespace i ns)"
    from Some 1 assms obtain k2 k3 k4 where "set_process_namespaces ?new a (clone_namespace i k1) = Some k2"
      "drop_namespace_ref ?old k2 = Some k3" "unlock_process a k3 = Some k4" "set_return [0] a k4 = Some k'"
      by (auto simp: chnamespace_def bind_eq_Some_conv)
    with view_lock [OF 1(2)] have e: "view k' = v_drop ?old ((view k)\<lparr>v_refs := (v_refs (view k))(i := v_refs (view k) i + 1),
        v_procs := (v_procs (view k))(a \<mapsto> ?new)\<rparr>)"
      by (auto dest!: view_frames view_set_namespaces view_drop_ref)
    show ?thesis unfolding e by (rule change) (use ns Some in auto)
  next
    case None
    with 1 assms have "view k' = view k" by (auto simp: chnamespace_def bind_eq_Some_conv dest!: view_frames)
    then show ?thesis by (simp add: stay)
  qed
qed

text \<open>The scheduler's operations leave the namespaces of all processes alone.\<close>

definition same_namespaces :: "ProcNamespaces proc_sys \<Rightarrow> ProcNamespaces proc_sys \<Rightarrow> bool" where
  "same_namespaces s t \<longleftrightarrow> next_object t = next_object s \<and>
     (\<forall>b. map_option namespaces (objects t b) = map_option namespaces (objects s b))"

lemma view_procs: "same_namespaces (k_procs k) s \<Longrightarrow> view (k\<lparr>k_procs := s\<rparr>) = view k"
  by (simp add: view_def same_namespaces_def)

lemma wake_proc_same: "same_namespaces s (wake_proc pid s)"
  by (auto simp: same_namespaces_def wake_proc_def upd_process_def set_sleeping_def remove_process_def Let_def
      option.map_comp comp_def split: option.splits)

lemma run_callbacks_same: "same_namespaces s (fold run_callback cs s)"
proof (induction cs arbitrary: s)
  case (Cons c cs)
  have "same_namespaces s (run_callback c s)" by (cases c) (simp_all add: wake_proc_same, simp add: same_namespaces_def)
  with Cons.IH [of "run_callback c s"] show ?case by (simp add: same_namespaces_def)
qed (simp add: same_namespaces_def)

lemma view_settle: "view (settle_events q k) = view k"
  using run_callbacks_same by (simp add: settle_events_def view_def same_namespaces_def)

lemma kill_process_same: "same_namespaces s (snd (kill_process pid s))"
proof (cases "tasks s pid")
  case (Some b)
  then show ?thesis
    by (cases "objects s b") (auto simp: same_namespaces_def kill_process_def remove_process_def call_exit_hooks_def)
qed (simp add: same_namespaces_def kill_process_def remove_process_def)

lemma view_kill:
  assumes "kill a k = Some k'"
  shows "view k' = view k"
proof -
  from assms obtain d where d: "objects (k_procs k) a = Some d" by (auto simp: kill_def bind_eq_Some_conv)
  obtain hooks s where s: "kill_process (pd_pid d) (k_procs k) = (hooks, s)" by fastforce
  with d assms kill_process_same [of "k_procs k" "pd_pid d"] show ?thesis
    by (auto simp: kill_def view_def same_namespaces_def)
qed

lemma view_read_clock: "read_clock k = (t, k') \<Longrightarrow> view k' = view k"
  by (auto simp: read_clock_def view_def)

lemma sys_sleep_view:
  assumes "sys_sleep st a k = Some k'"
  shows "view k' = view k"
proof -
  obtain now k1 where c: "read_clock k = (now, k1)" by fastforce
  with assms obtain k2 q where w: "with_process a (\<lambda>p. Some (set_sleeping True p)) k1 = Some k2" "k' = settle_events q k2"
    by (auto simp: sys_sleep_def bind_eq_Some_conv)
  from w(1) have "view k2 = view k1" by (rule view_with_process) (auto simp: set_sleeping_def)
  with w(2) c show ?thesis by (simp add: view_settle view_read_clock)
qed

lemma sys_time_view:
  assumes "sys_time st a k = Some k'"
  shows "view k' = view k"
proof -
  obtain now k1 where c: "read_clock k = (now, k1)" by fastforce
  with assms obtain v k2 vs bs dst where "copy_to_user dst bs k1 = Some (v, k2)" "set_return vs a k2 = Some k'"
    by (auto simp: sys_time_def bind_eq_Some_conv simp del: concat.simps list.map)
  with c show ?thesis by (metis view_copy_to_user view_read_clock view_return)
qed

lemma lspacks_view:
  assumes "lspacks st a k = Some k'"
  shows "view k' = view k"
proof -
  from assms obtain k1 ns where 1: "lock_process a k = Some k1" "process_namespaces a k1 = Some ns"
    by (auto simp: lspacks_def bind_eq_Some_conv)
  with assms lock_process_locked [OF 1(1)] obtain k2 n p es where "unlock_process a k1 = Some k2"
    "list_entries set_return 40 n p es a k2 = Some k'"
    by (auto simp: lspacks_def bind_eq_Some_conv Let_def split: option.splits)
  with 1 show ?thesis by (auto dest!: view_frames)
qed

lemma lsallpacks_view: "lsallpacks st a k = Some k' \<Longrightarrow> view k' = view k"
  by (auto simp: lsallpacks_def bind_eq_Some_conv dest!: view_list_entries)

lemma view_update_ns: "map_option namespace_type (k_ns k i) = Some (namespace_type n) \<Longrightarrow>
    view (k\<lparr>k_ns := (k_ns k)(i \<mapsto> n)\<rparr>) = view k"
  by (auto simp: view_def fun_eq_iff)

lemma sys_namespaceD: "sys_namespace i k = Some ns \<Longrightarrow> k_ns k i = Some (NsSyscall ns)"
  by (auto simp: sys_namespace_def split: option.splits namespace.splits)

lemma mem_namespaceD: "mem_namespace i k = Some ns \<Longrightarrow> k_ns k i = Some (NsMem ns)"
  by (auto simp: mem_namespace_def split: option.splits namespace.splits)

text \<open>What a successful \<open>map_pack\<close> has done, and what a failed one.\<close>

lemma map_pack_cases:
  assumes "map_pack st a k = Some k'"
  obtains "set_return [- 1] a k = Some k'"
  | k1 k2 where "lock_process a k = Some k1" "unlock_process a k1 = Some k2" "set_return [- 1] a k2 = Some k'"
  | name p pid k1 ns i k2 sys sys' b nl np where "arg st 2 = Some b" "b + 32 < 2 ^ 32" "arg st 0 = Some nl" "arg st 1 = Some np"
      "string_from_args np nl k = Some (Some name)" "get_syscall_pack name (k_registry k) = Some (p, pid)"
      "lock_process a k = Some k1" "process_namespaces a k1 = Some ns"
      "get_namespace TSyscall (namespace_arg st) ns = Some i" "unlock_process a k1 = Some k2" "sys_namespace i k2 = Some sys"
      "map_syscall_pack b p pid sys = (Inr (), sys')"
      "set_return [0] a (k2\<lparr>k_ns := (k_ns k2)(i \<mapsto> NsSyscall sys')\<rparr>) = Some k'"
proof -
  from assms obtain nl np b where args: "arg st 0 = Some nl" "arg st 1 = Some np" "arg st 2 = Some b" "b + 32 < 2 ^ 64"
    by (auto simp: map_pack_def bind_eq_Some_conv)
  show thesis
  proof (cases "b + 32 < 2 ^ 32")
    case False
    with args assms that(1) show thesis by (auto simp: map_pack_def checked_add_def)
  next
    case True
    with args assms obtain res where res: "string_from_args np nl k = Some res"
      by (auto simp: map_pack_def checked_add_def bind_eq_Some_conv)
    show thesis
    proof (cases "res \<bind> (\<lambda>name. get_syscall_pack name (k_registry k))")
      case None
      with args res assms that(1) True show thesis
        by (cases res) (auto simp: map_pack_def checked_add_def split: option.splits)
    next
      case (Some q)
      obtain p pid where q: "q = (p, pid)" by fastforce
      from Some q obtain name where name: "res = Some name" "get_syscall_pack name (k_registry k) = Some (p, pid)"
        by (auto simp: bind_eq_Some_conv)
      with args res assms True obtain k1 ns where k1: "lock_process a k = Some k1" "process_namespaces a k1 = Some ns"
        by (auto simp: map_pack_def checked_add_def bind_eq_Some_conv)
      with lock_process_locked [OF k1(1)] args res name assms True obtain i where
        i: "get_namespace TSyscall (namespace_arg st) ns = Some i"
        by (auto simp: map_pack_def checked_add_def split: option.splits)
      with k1 args res name assms True obtain k2 sys where k2: "unlock_process a k1 = Some k2" "sys_namespace i k2 = Some sys"
        by (auto simp: map_pack_def checked_add_def bind_eq_Some_conv)
      obtain r sys' where r: "map_syscall_pack b p pid sys = (r, sys')" by fastforce
      with i k1 k2 args res name assms True
      have "(case r of Inl _ \<Rightarrow> set_return [- 1] a k2
             | Inr _ \<Rightarrow> set_return [0] a (k2\<lparr>k_ns := (k_ns k2)(i \<mapsto> NsSyscall sys')\<rparr>)) = Some k'"
        by (cases r) (auto simp: map_pack_def checked_add_def)
      with that(2) [OF k1(1) k2(1)] that(3) [OF args(3) True args(1,2) _ name(2) k1 i k2] r res name show thesis
        by (cases r) auto
    qed
  qed
qed

lemma map_pack_view:
  assumes "map_pack st a k = Some k'"
  shows "view k' = view k"
  using assms
proof (cases rule: map_pack_cases)
  case (3 name p pid k1 ns i k2 sys sys' b nl np)
  then have "view (k2\<lparr>k_ns := (k_ns k2)(i \<mapsto> NsSyscall sys')\<rparr>) = view k2"
    by (intro view_update_ns) (simp add: sys_namespaceD)
  with 3 show ?thesis by (auto dest!: view_frames)
qed (auto dest!: view_frames)

lemma map_region_view:
  assumes "map_region c p mode name ty addr i mem a k = Some k'" and "mem_namespace i k = Some mem"
  shows "view k' = view k"
proof -
  from assms(1) obtain h h0 arc res mem' where add: "add_mem_range arc name ty addr mem h0 = Some (res, mem', h)"
    and ret: "(case res of Inl _ \<Rightarrow> set_return [- 1] a (k\<lparr>k_heap := h, k_next_arc := arc + 1, k_ns := (k_ns k)(i \<mapsto> NsMem mem')\<rparr>)
       | Inr n \<Rightarrow> set_return [word_of_nat n, word_of_nat addr] a
           (k\<lparr>k_heap := h, k_next_arc := arc + 1, k_ns := (k_ns k)(i \<mapsto> NsMem mem')\<rparr>)) = Some k'"
    unfolding map_region_def Let_def by (auto simp: bind_eq_Some_conv)
  define n where "n = arc + 1"
  from ret obtain vs where "set_return vs a (k\<lparr>k_heap := h, k_next_arc := n, k_ns := (k_ns k)(i \<mapsto> NsMem mem')\<rparr>) = Some k'"
    unfolding n_def by (cases res) auto
  moreover have "view (k\<lparr>k_heap := h, k_next_arc := n, k_ns := (k_ns k)(i \<mapsto> NsMem mem')\<rparr>) = view k"
    using view_update_ns [of "k\<lparr>k_heap := h, k_next_arc := n\<rparr>" i "NsMem mem'"] mem_namespaceD [OF assms(2)] by simp
  ultimately show ?thesis by (auto dest: view_return)
qed

lemma make_region_view:
  assumes "make_region st a k = Some k'"
  shows "view k' = view k"
proof -
  from assms obtain start so pm ty mode nl np name' where
    args: "arg st 0 = Some start" "arg st 1 = Some so" "arg st 2 = Some pm" "arg st 3 = Some ty" "get_arg st 4 = Some mode"
    "arg st 5 = Some nl" "arg st 6 = Some np" "string_from_args np nl k = Some name'"
    by (auto simp: make_region_def bind_eq_Some_conv)
  show ?thesis
  proof (cases "set_return [- 1] a k = Some k'")
    case False
    with assms args obtain name c rt mm where v: "name' = Some name" "from_level (so mod 2 ^ 8) = Some c"
      "range_type_from_u32 (ty mod 2 ^ 32) = Some rt" "mode_from_u64 mode = Some mm"
      by (auto simp: make_region_def split: option.splits)
    with assms args obtain k1 ns k2 where k: "lock_process a k = Some k1" "process_namespaces a k1 = Some ns"
      "unlock_process a k1 = Some k2"
      by (auto simp: make_region_def bind_eq_Some_conv)
    from k have "view k2 = view k" by (auto dest!: view_frames)
    moreover have "view k' = view k2"
    proof (cases "get_namespace TMem (namespace_arg st) ns")
      case (Some i)
      with assms args v k obtain mem where "mem_namespace i k2 = Some mem" by (auto simp: make_region_def bind_eq_Some_conv)
      with assms args v k Some show ?thesis
        by (auto simp: make_region_def bind_eq_Some_conv Let_def split: if_splits option.splits
            dest: map_region_view view_return)
    qed (use assms args v k in \<open>auto simp: make_region_def dest: view_return\<close>)
    ultimately show ?thesis by simp
  qed (simp add: view_return)
qed

lemma create_process_view:
  assumes "create_process_from_parts r p ns name k = Some (pid, k')"
  shows "view k' = (view k)\<lparr>v_procs := (v_procs (view k))(v_next (view k) \<mapsto> ns), v_next := v_next (view k) + 1,
    v_refs := (\<lambda>i. v_refs (view k) i + 2 * count_list [memory_namespace ns, syscall_namespace ns, filesystem_namespace ns] i)\<rparr>"
  using assms
  by (auto simp: create_process_from_parts_def bind_eq_Some_conv create_process_def accept_new_process_def process_new_def
      view_def Let_def fun_eq_iff)

lemma exec_step:
  assumes "exec st a k = Some k'"
  shows "namespace_step a (view k) (view k')"
proof (cases "set_return [- 1] a k = Some k'")
  case True
  from view_return [OF this] stay [of a "view k"] show ?thesis by simp
next
  case False
  from assms obtain ptr res where res: "arg st 0 = Some ptr" "copy_from_user ptr 176 k = Some res"
    by (auto simp: exec_def bind_eq_Some_conv)
  from res assms False obtain bs where bs: "res = Some bs" by (cases res) (auto simp: exec_def)
  define ea where "ea = exec_args_from_bytes bs"
  from res bs assms obtain nres where nres: "ea_name_len ea \<le> k_alloc_limit k"
    "copy_from_user (ea_name_ptr ea) (ea_name_len ea) k = Some nres"
    by (auto simp: exec_def bind_eq_Some_conv ea_def Let_def)
  from res bs nres assms False obtain nb where nb: "nres = Some nb" "utf8_valid (map unat nb)"
    by (cases nres) (auto simp: exec_def ea_def [symmetric] panic_unless_def split: if_splits)
  with res bs nres assms obtain k1 ns k2 where k: "lock_process a k = Some k1" "process_namespaces a k1 = Some ns"
    "unlock_process a k1 = Some k2"
    by (auto simp: exec_def ea_def [symmetric] panic_unless_def bind_eq_Some_conv)
  from k have v2: "view k2 = view k" by (auto dest!: view_frames)
  from k(2) view_lock [OF k(1)] have ns: "v_procs (view k) a = Some ns" by (simp add: process_namespaces_view)
  show ?thesis
  proof (cases "clone_from_ids (ea_namespaces ea) ns")
    case (Inl e)
    with res bs nres nb k assms have "set_return [- 1] a k2 = Some k'"
      by (simp add: exec_def ea_def [symmetric] panic_unless_def)
    from view_return [OF this] v2 stay [of a "view k"] show ?thesis by simp
  next
    case (Inr new)
    with res bs nres nb k assms obtain pid k3 vs where
      c: "create_process_from_parts (ea_registers ea) (ea_start_ptr ea) new (string_of_bytes nb) k2 = Some (pid, k3)"
      "set_return vs a k3 = Some k'"
      by (auto simp: exec_def ea_def [symmetric] panic_unless_def bind_eq_Some_conv)
    have "view k' = view k3" using c(2) by (rule view_return)
    then show ?thesis unfolding create_process_view [OF c(1)] v2 by (simp only:) (rule spawn [OF ns Inr])
  qed
qed

lemma run_handler_step:
  assumes "run_handler fs_handler n st a k = Some k'" and "n < 19"
  shows "namespace_step a (view k) (view k')"
proof -
  note diverge = lio_handlers [THEN locks_itself_out_None] mmap_def munmap_def list_regions_def sys_set_prot_def
  have same: "view k' = view k \<Longrightarrow> namespace_step a (view k) (view k')" using stay [of a "view k"] by simp
  note still = view_kill [THEN same] sys_sleep_view [THEN same] sys_time_view [THEN same] make_region_view [THEN same]
    lspacks_view [THEN same] lsallpacks_view [THEN same] map_pack_view [THEN same]
  from assms(2) have "n \<in> {0,1,2,3,4,5,6,7,8,9,10,11,12,13,14,15,16,17,18}" by simp presburger
  with assms(1) show ?thesis
    by (auto simp: run_handler_def diverge sys_exit_def
        intro: mknamespace_step rmnamespace_step chnamespace_step exec_step still)
qed

section \<open>Typing and reference counts\<close>

definition holds :: "ProcNamespaces \<Rightarrow> NamespaceHolder list" where
  "holds ns = owned_namespaces ns @ [HMem (memory_namespace ns), HSyscall (syscall_namespace ns), HFs (filesystem_namespace ns)]"

definition uses :: "ProcNamespaces option \<Rightarrow> nat \<Rightarrow> nat" where
  "uses p i = (case p of None \<Rightarrow> 0 | Some ns \<Rightarrow> count_list (map holder_id (holds ns)) i)"

text \<open>The type invariant: what a process holds is a live namespace of the type it is held as, the owned
  ones are ordered by identity, live identities are below the counter and not 0, and the count of a
  namespace is the number of times that processes hold it.\<close>

definition typed :: "ns_view \<Rightarrow> bool" where
  "typed v \<longleftrightarrow> (\<forall>b ns. v_procs v b = Some ns \<longrightarrow> b < v_next v \<and> ids_sorted ns \<and>
     (\<forall>h\<in>set (holds ns). v_types v (holder_id h) = Some (holder_type h)))"

definition fresh :: "ns_view \<Rightarrow> bool" where
  "fresh v \<longleftrightarrow> 0 < v_counter v \<and> (\<forall>i. v_types v i \<noteq> None \<longrightarrow> 0 < i \<and> i < v_counter v)"

definition total_uses :: "ns_view \<Rightarrow> nat \<Rightarrow> nat" where
  "total_uses v i = (\<Sum>b<v_next v. uses (v_procs v b) i)"

definition view_ok :: "ns_view \<Rightarrow> bool" where
  "view_ok v \<longleftrightarrow> typed v \<and> fresh v \<and> (\<forall>i. v_refs v i = total_uses v i)"

lemma typedD:
  assumes "typed v" and "v_procs v b = Some ns"
  shows "b < v_next v" and "ids_sorted ns" and "h \<in> set (holds ns) \<Longrightarrow> v_types v (holder_id h) = Some (holder_type h)"
  using assms by (auto simp: typed_def)

lemma total_uses_update:
  assumes "v_procs v a = Some ns" and "a < v_next v" and "v_next w = v_next v" and "v_procs w = (v_procs v)(a \<mapsto> ns')"
  shows "total_uses w i + uses (Some ns) i = total_uses v i + uses (Some ns') i"
proof -
  have "total_uses u i = uses (v_procs u a) i + (\<Sum>b\<in>{..<v_next u} - {a}. uses (v_procs u b) i)" if "a < v_next u" for u
    unfolding total_uses_def using that by (intro sum.remove) auto
  from this [of v] this [of w] assms show ?thesis by simp
qed

lemma total_uses_zero:
  assumes "typed v" and "v_types v i = None"
  shows "total_uses v i = 0"
  unfolding total_uses_def
proof (rule sum.neutral, rule ballI)
  fix b
  show "uses (v_procs v b) i = 0"
  proof (cases "v_procs v b")
    case (Some ns)
    with typedD(3) [OF assms(1) Some] assms(2) have "i \<notin> holder_id ` set (holds ns)" by fastforce
    with Some show ?thesis by (simp add: uses_def count_list_0_iff)
  qed (simp add: uses_def)
qed

lemma unheld:
  assumes "total_uses v i = 0" and "v_procs v b = Some ns" and "b < v_next v" and "h \<in> set (holds ns)"
  shows "holder_id h \<noteq> i"
proof -
  have "uses (v_procs v b) i = 0" using assms(1,3) by (simp add: total_uses_def)
  with assms(2,4) show ?thesis by (auto simp: uses_def count_list_0_iff)
qed

text \<open>Giving back one reference too many of \<open>j\<close> restores the invariant, and nothing that is still held is
  freed.\<close>

lemma v_drop_ok:
  assumes "typed v" and "fresh v" and "\<And>i. v_refs v i = total_uses v i + of_bool (i = j)"
  shows "view_ok (v_drop j v)"
proof (cases "v_refs v j > 1")
  case True
  then have "v_drop j v = v\<lparr>v_refs := (v_refs v)(j := v_refs v j - 1)\<rparr>" by (simp add: v_drop_def)
  then show ?thesis using assms by (simp add: view_ok_def typed_def fresh_def total_uses_def)
next
  case False
  with assms(3) [of j] have z: "total_uses v j = 0" by simp
  have "v_drop j v = v\<lparr>v_refs := (v_refs v)(j := 0), v_types := (v_types v)(j := None)\<rparr>"
    using False by (simp add: v_drop_def)
  moreover have "typed (v\<lparr>v_refs := (v_refs v)(j := 0), v_types := (v_types v)(j := None)\<rparr>)"
    using assms(1) unheld [OF z] by (fastforce simp: typed_def)
  ultimately show ?thesis using assms z by (auto simp: view_ok_def fresh_def total_uses_def)
qed

lemma uses_add_namespace:
  assumes "ids_sorted ns" and "holder_id h \<notin> holder_id ` set (owned_namespaces ns)"
  shows "ids_sorted (add_namespace h ns)" and "set (holds (add_namespace h ns)) = insert h (set (holds ns))"
    and "uses (Some (add_namespace h ns)) i = uses (Some ns) i + of_bool (i = holder_id h)"
proof -
  from search_key_absent [OF assms, of h] obtain p where
    p: "binary_search_by_key (holder_id h) holder_id (owned_namespaces ns) = Inl p"
    "sorted_wrt (\<lambda>a b. holder_id a < holder_id b) (insert_at p h (owned_namespaces ns))" by auto
  have m: "mset (insert_at p h xs) = add_mset h (mset xs)" for xs
    unfolding insert_at_def by (metis append_take_drop_id mset.simps(2) mset_append union_mset_add_mset_right)
  from p show "ids_sorted (add_namespace h ns)" by (simp add: add_namespace_def)
  from p(1) have e: "holds (add_namespace h ns) = insert_at p h (owned_namespaces ns) @
      [HMem (memory_namespace ns), HSyscall (syscall_namespace ns), HFs (filesystem_namespace ns)]"
    by (simp add: holds_def add_namespace_def)
  with m have mh: "mset (holds (add_namespace h ns)) = add_mset h (mset (holds ns))" by (simp add: holds_def)
  then show "set (holds (add_namespace h ns)) = insert h (set (holds ns))" by (metis set_mset_add_mset_insert set_mset_mset)
  from mh show "uses (Some (add_namespace h ns)) i = uses (Some ns) i + of_bool (i = holder_id h)"
    unfolding uses_def option.case count_mset [symmetric] mset_map by simp
qed

lemma v_make_ok:
  assumes ok: "view_ok v" and p: "v_procs v a = Some ns" and h: "holder_id h = v_counter v"
  shows "view_ok (v\<lparr>v_procs := (v_procs v)(a \<mapsto> add_namespace h ns), v_counter := v_counter v + 1,
      v_types := (v_types v)(holder_id h \<mapsto> holder_type h), v_refs := (v_refs v)(holder_id h := 1)\<rparr>)" (is "view_ok ?w")
proof -
  have t: "typed v" and f: "fresh v" and r: "\<And>i. v_refs v i = total_uses v i" using ok by (auto simp: view_ok_def)
  from f h have none: "v_types v (holder_id h) = None" by (auto simp: fresh_def)
  have old: "v_procs v b = Some ms \<Longrightarrow> g \<in> set (holds ms) \<Longrightarrow> holder_id g \<noteq> holder_id h" for b ms g
    using typedD(3) [OF t] none by force
  from old [OF p] have new: "holder_id h \<notin> holder_id ` set (owned_namespaces ns)" by (fastforce simp: holds_def)
  note add = uses_add_namespace [OF typedD(2) [OF t p] new]
  have "typed ?w" unfolding typed_def using typedD [OF t] old p add(1,2) by (auto split: if_splits)
  moreover have "fresh ?w" using f h by (auto simp: fresh_def less_Suc_eq split: if_splits)
  moreover have "v_refs ?w i = total_uses ?w i" for i
    using total_uses_update [OF p typedD(1) [OF t p], of ?w "add_namespace h ns" i] add(3) [of i] r
      total_uses_zero [OF t none] by simp
  ultimately show ?thesis by (simp add: view_ok_def)
qed

lemma uses_remove:
  assumes "ids_sorted ns" and "remove_namespace i ns = (True, ns')"
  shows "ids_sorted ns'" and "set (holds ns') \<subseteq> set (holds ns)" and "uses (Some ns) j = uses (Some ns') j + of_bool (j = i)"
proof -
  let ?xs = "owned_namespaces ns"
  from assms(2) obtain p where p: "binary_search_by_key i holder_id ?xs = Inr p"
    "ns' = ns\<lparr>owned_namespaces := take p ?xs @ drop (p + 1) ?xs\<rparr>"
    by (auto simp: remove_namespace_def split: sum.splits if_splits)
  with search_key [OF sorted_by_key_weak [OF assms(1)], of i] have q: "p < length ?xs" "holder_id (?xs ! p) = i" by auto
  from remove_at_sorted [OF assms(1) q(1)] p(2) show "ids_sorted ns'" "set (holds ns') \<subseteq> set (holds ns)"
    by (auto simp: holds_def)
  have "mset ?xs = add_mset (?xs ! p) (mset (take p ?xs @ drop (p + 1) ?xs))"
    by (subst id_take_nth_drop [OF q(1)]) simp
  then have "mset (holds ns) = add_mset (?xs ! p) (mset (holds ns'))" by (simp add: holds_def p(2))
  then show "uses (Some ns) j = uses (Some ns') j + of_bool (j = i)"
    unfolding uses_def option.case count_mset [symmetric] mset_map using q(2) by simp
qed

lemma v_remove_ok:
  assumes ok: "view_ok v" and p: "v_procs v a = Some ns" and r: "remove_namespace i ns = (True, ns')"
  shows "view_ok (v_drop i (v\<lparr>v_procs := (v_procs v)(a \<mapsto> ns')\<rparr>))"
proof (rule v_drop_ok)
  let ?w = "v\<lparr>v_procs := (v_procs v)(a \<mapsto> ns')\<rparr>"
  have t: "typed v" and f: "fresh v" and c: "\<And>i. v_refs v i = total_uses v i" using ok by (auto simp: view_ok_def)
  note rm = uses_remove [OF typedD(2) [OF t p] r]
  show "typed ?w" unfolding typed_def using typedD [OF t] p rm(1,2) by (auto split: if_splits)
  show "fresh ?w" using f by (simp add: fresh_def)
  show "v_refs ?w j = total_uses ?w j + of_bool (j = i)" for j
    using total_uses_update [OF p typedD(1) [OF t p], of ?w ns' j] rm(3) [of j] c [of j] by simp
qed

lemma uses_change:
  assumes "ids_sorted ns" and "get_namespace_holder i ns = Some h"
  shows "ids_sorted (snd (change_namespace i ns))" and "set (holds (snd (change_namespace i ns))) \<subseteq> set (holds ns)"
    and "uses (Some (snd (change_namespace i ns))) j + of_bool (j = get_default_namespace (holder_type h) ns) =
      uses (Some ns) j + of_bool (j = i)"
proof -
  from get_namespace_holder_iff [OF assms(1)] assms(2) have h: "h \<in> set (owned_namespaces ns)" "holder_id h = i" by auto
  from assms show "ids_sorted (snd (change_namespace i ns))" by (cases h) (auto simp: change_namespace_def)
  from assms(2) h show "set (holds (snd (change_namespace i ns))) \<subseteq> set (holds ns)"
    by (cases h) (auto simp: change_namespace_def holds_def)
  from assms(2) h(2) show "uses (Some (snd (change_namespace i ns))) j + of_bool (j = get_default_namespace (holder_type h) ns) =
      uses (Some ns) j + of_bool (j = i)"
    by (cases h) (auto simp: change_namespace_def holds_def uses_def)
qed

lemma v_change_ok:
  assumes ok: "view_ok v" and p: "v_procs v a = Some ns" and g: "get_namespace_holder i ns = Some h"
  shows "view_ok (v_drop (get_default_namespace (holder_type h) ns)
      (v\<lparr>v_refs := (v_refs v)(i := v_refs v i + 1), v_procs := (v_procs v)(a \<mapsto> snd (change_namespace i ns))\<rparr>))"
proof (rule v_drop_ok)
  let ?ns' = "snd (change_namespace i ns)"
  let ?w = "v\<lparr>v_refs := (v_refs v)(i := v_refs v i + 1), v_procs := (v_procs v)(a \<mapsto> ?ns')\<rparr>"
  have t: "typed v" and f: "fresh v" and c: "\<And>i. v_refs v i = total_uses v i" using ok by (auto simp: view_ok_def)
  note ch = uses_change [OF typedD(2) [OF t p] g]
  show "typed ?w" unfolding typed_def using typedD [OF t] p ch(1,2) by (auto split: if_splits)
  show "fresh ?w" using f by (simp add: fresh_def)
  show "v_refs ?w j = total_uses ?w j + of_bool (j = get_default_namespace (holder_type h) ns)" for j
    using total_uses_update [OF p typedD(1) [OF t p], of ?w ?ns' j] ch(3) [of j] c [of j] by (cases "j = i") simp_all
qed

lemma mset_holds_new:
  "mset (holds (proc_namespaces_new m s f)) = mset [HMem m, HSyscall s, HFs f] + mset [HMem m, HSyscall s, HFs f]"
  unfolding holds_def proc_namespaces_new_def by (simp only: mset_append mset_sort ProcNamespaces.simps)

lemma set_holds_new: "set (holds (proc_namespaces_new m s f)) = {HMem m, HSyscall s, HFs f}"
  unfolding set_mset_mset [symmetric] mset_holds_new by auto

lemma clone_from_ids_Inr:
  assumes "ids_sorted ns" and "clone_from_ids ids ns = Inr new"
  shows "set (holds new) \<subseteq> set (owned_namespaces ns)"
    and "\<exists>m s f. new = proc_namespaces_new m s f \<and> {HMem m, HSyscall s, HFs f} \<subseteq> set (owned_namespaces ns)"
proof -
  show *: "\<exists>m s f. new = proc_namespaces_new m s f \<and> {HMem m, HSyscall s, HFs f} \<subseteq> set (owned_namespaces ns)"
    using assms(2) unfolding clone_from_ids_def Let_def
    by (auto simp: get_namespace_holder_iff [OF assms(1)] split: option.splits NamespaceHolder.splits)
  then show "set (holds new) \<subseteq> set (owned_namespaces ns)" by (auto simp: set_holds_new)
qed

lemma uses_new: "uses (Some (proc_namespaces_new m s f)) i = 2 * count_list [m, s, f] i"
  unfolding uses_def option.case count_mset [symmetric] mset_map mset_holds_new by simp

lemma v_spawn_ok:
  assumes ok: "view_ok v" and p: "v_procs v a = Some ns" and c: "clone_from_ids ids ns = Inr new"
  shows "view_ok (v\<lparr>v_procs := (v_procs v)(v_next v \<mapsto> new), v_next := v_next v + 1,
      v_refs := (\<lambda>i. v_refs v i + 2 * count_list [memory_namespace new, syscall_namespace new, filesystem_namespace new] i)\<rparr>)"
    (is "view_ok ?w")
proof -
  have t: "typed v" and f: "fresh v" and r: "\<And>i. v_refs v i = total_uses v i" using ok by (auto simp: view_ok_def)
  note cl = clone_from_ids_Inr [OF typedD(2) [OF t p] c]
  from cl(2) obtain m s g where new: "new = proc_namespaces_new m s g"
    and own: "HMem m \<in> set (owned_namespaces ns)" "HSyscall s \<in> set (owned_namespaces ns)" "HFs g \<in> set (owned_namespaces ns)"
    by auto
  have ty: "h \<in> set (owned_namespaces ns) \<Longrightarrow> v_types v (holder_id h) = Some (holder_type h)" for h
    using typedD(3) [OF t p] by (simp add: holds_def)
  from ty [OF own(1)] ty [OF own(2)] ty [OF own(3)] have "distinct [m, s, g]" by auto
  then have srt: "ids_sorted new" using new_wf new by (simp add: namespaces_wf_def)
  have "typed ?w" unfolding typed_def using typedD [OF t] srt cl(1) ty by (auto simp: less_Suc_eq split: if_splits)
  moreover have "fresh ?w" using f by (simp add: fresh_def)
  moreover have "v_refs ?w i = total_uses ?w i" for i
  proof -
    have "(\<Sum>b<v_next v. uses (((v_procs v)(v_next v \<mapsto> new)) b) i) = (\<Sum>b<v_next v. uses (v_procs v b) i)"
      by (rule sum.cong) auto
    then show ?thesis using r [of i] uses_new [of m s g i] by (simp add: total_uses_def new proc_namespaces_new_def)
  qed
  ultimately show ?thesis unfolding view_ok_def by blast
qed

lemma namespace_step_ok:
  assumes "namespace_step a v w" and "view_ok v" and "v_counter v < 2 ^ 64"
  shows "view_ok w"
  using assms
proof (cases rule: namespace_step.cases)
  case lose_id
  with assms(2) show ?thesis by (auto simp: view_ok_def typed_def fresh_def total_uses_def less_Suc_eq)
next
  case (make ns h)
  with v_make_ok [OF assms(2), of a ns h] assms(3) show ?thesis by simp
next
  case (remove ns i ns')
  then show ?thesis using v_remove_ok [OF assms(2)] by blast
next
  case (change ns i h)
  then show ?thesis using v_change_ok [OF assms(2)] by blast
next
  case (spawn ns ids new)
  then show ?thesis using v_spawn_ok [OF assms(2)] by blast
qed (use assms in simp)

text \<open>C7: The namespaces of all processes stay well typed and counted under every system call of the four
  packs: what a process holds is a live namespace of the type it is held as, so no handler can meet
  a freed object or one of another type, identities stay unique, and the count of a namespace stays the
  number of references to it, so it is freed exactly when nobody holds it. The only assumption is that
  the 64-bit counter of identities has not wrapped around.\<close>

theorem namespaces_stay_typed:
  assumes "view_ok (view k)" and "k_ns_counter k < 2 ^ 64" and "n < 19" and "run_handler fs_handler n st a k = Some k'"
  shows "view_ok (view k')"
  using namespace_step_ok [OF run_handler_step [OF assms(4,3)] assms(1)] assms(2) by (simp add: view_def)

section \<open>A concrete kernel\<close>

definition demo_namespaces :: ProcNamespaces where
  "demo_namespaces =
     \<lparr>owned_namespaces = [HMem 1, HSyscall 2, HFs 3], memory_namespace = 1, syscall_namespace = 2, filesystem_namespace = 3\<rparr>"

definition demo_kernel :: "SyscallCpuState \<Rightarrow> kernel" where
  "demo_kernel st =
     \<lparr>k_procs = (scheduler_new 0)\<lparr>objects := [0 \<mapsto> process_new 7 False ''init'' (Syscall st) 0x1000 demo_namespaces],
        next_object := 1, tasks := [7 \<mapsto> 0], active_tasks := [(7, 0)], current_process := [0 \<mapsto> 0]\<rparr>,
      k_registry = \<lparr>registered_packs = [(''proc'', 0, \<lparr>handlers = [(4, ''exec''), (5, ''exit'')]\<rparr>)], pack_id_counter = 1\<rparr>,
      k_ns = [1 \<mapsto> NsMem \<lparr>ns_id = 1, page_tree_root = 0x1000, range_counter = 1, memory_ranges = []\<rparr>,
              2 \<mapsto> NsSyscall (sys_create_empty 2), 3 \<mapsto> NsFs (fs_namespace_new 3 root_handle)],
      k_refs = (\<lambda>i. if i \<in> {1, 2, 3} then 2 else 0), k_ns_counter = 4,
      k_heap = \<lparr>arcs = (\<lambda>_. None), ns_pt = bare_mem\<rparr>, k_next_arc = 0,
      k_events = \<lparr>event_id_counter = 0, scheduled_events = [], fired = [], clock_reads = 0, timer_setting = (0, 0)\<rparr>,
      k_preemption = None, k_hooks = [], k_clock = (\<lambda>n. n), k_frequency = 1, k_boot = 0, k_readable = (\<lambda>_. True),
      k_writable = (\<lambda>_. True), k_user = (\<lambda>i. [0x70, 0x72, 0x6F, 0x63] ! (i mod 4)), k_alloc_limit = 4096,
      k_padding = [0, 0, 0, 0]\<rparr>"

lemma demo_view:
  "view (demo_kernel st) = \<lparr>v_procs = [0 \<mapsto> demo_namespaces], v_next = 1, v_types = [1 \<mapsto> TMem, 2 \<mapsto> TSyscall, 3 \<mapsto> TFs],
     v_refs = (\<lambda>i. if i \<in> {1, 2, 3} then 2 else 0), v_counter = 4\<rparr>"
  by (simp add: view_def demo_kernel_def process_new_def fun_eq_iff)

lemma demo_ok: "view_ok (view (demo_kernel st))"
proof -
  have "typed (view (demo_kernel st))"
    by (auto simp: typed_def demo_view demo_namespaces_def holds_def split: if_splits)
  moreover have "fresh (view (demo_kernel st))" by (auto simp: fresh_def demo_view split: if_splits)
  moreover have "v_refs (view (demo_kernel st)) i = total_uses (view (demo_kernel st)) i" for i
    by (simp add: demo_view total_uses_def uses_def holds_def demo_namespaces_def)
  ultimately show ?thesis by (simp add: view_ok_def)
qed

abbreviation idle_state :: SyscallCpuState where
  "idle_state \<equiv> syscall_entry zero_regs"

lemmas demo_run = with_process_def process_namespaces_def set_process_namespaces_def arg_def get_arg_def
  lock_process_def unlock_process_def set_return_def set_syscall_return_def get_mutable_def drop_mutable_def
  write_arg_def process_new_def syscall_entry_def zero_regs_def

text \<open>On an empty namespace none of the six calls panics on its way: with a store that needs no lock they
  all return.\<close>

lemma six_handlers_never_return_witness:
  "\<exists>st k. k = demo_kernel st \<and>
     lsnamespace (\<lambda>_ _. Some) st 0 k \<noteq> None \<and> lsnamespace set_return st 0 k = None \<and>
     unmap_pack (\<lambda>_ _. Some) st 0 k \<noteq> None \<and> unmap_pack set_return st 0 k = None \<and>
     restrict (\<lambda>_ _. Some) st 0 k \<noteq> None \<and> restrict set_return st 0 k = None \<and>
     remove_region (\<lambda>_ _. Some) st 0 k \<noteq> None \<and> remove_region set_return st 0 k = None \<and>
     mmap (\<lambda>_ _. Some) st 0 k \<noteq> None \<and> mmap set_return st 0 k = None \<and>
     munmap (\<lambda>_ _. Some) st 0 k \<noteq> None \<and> munmap set_return st 0 k = None"
proof -
  let ?k = "demo_kernel idle_state"
  note run = demo_run demo_kernel_def demo_namespaces_def get_namespace_def get_namespace_id_def sys_namespace_def
    mem_namespace_def sys_create_empty_def
  have "lsnamespace (\<lambda>_ _. Some) idle_state 0 ?k \<noteq> None" by (simp add: lsnamespace_def list_entries_def run)
  moreover have "unmap_pack (\<lambda>_ _. Some) idle_state 0 ?k \<noteq> None"
    by (simp add: unmap_pack_def run unmap_syscall_pack_by_offset_def binary_search_by_def)
  moreover have "restrict (\<lambda>_ _. Some) idle_state 0 ?k \<noteq> None"
    by (simp add: restrict_def run disable_syscall_by_mask_def binary_search_by_def)
  moreover have "remove_region (\<lambda>_ _. Some) idle_state 0 ?k \<noteq> None"
    by (simp add: remove_region_def run remove_mem_range_by_id_def remove_where_def)
  moreover have "manual_pages f (\<lambda>_ _. Some) idle_state 0 ?k \<noteq> None" for f
    by (simp add: manual_pages_def run get_range_from_address_def)
  ultimately show ?thesis using six_handlers_never_return [of 0 idle_state ?k]
    by (intro exI [of _ idle_state] exI [of _ ?k]) (simp add: mmap_def munmap_def)
qed

lemma demo_mknamespace:
  "\<exists>k'. run_handler (\<lambda>_ _ _ _. None) 0 idle_state 0 (demo_kernel idle_state) = Some k' \<and>
     process_namespaces 0 k' = Some (add_namespace (HSyscall 4) demo_namespaces)"
  by (simp add: run_handler_def mknamespace_def demo_run type_from_id_def new_namespace_id_def demo_kernel_def new_namespace_def
      add_new_namespace_def)

theorem namespaces_stay_typed_witness:
  "\<exists>k'. run_handler (\<lambda>_ _ _ _. None) 0 idle_state 0 (demo_kernel idle_state) = Some k' \<and> view_ok (view k')"
proof -
  obtain k' where k': "run_handler (\<lambda>_ _ _ _. None) 0 idle_state 0 (demo_kernel idle_state) = Some k'"
    using demo_mknamespace by metis
  have "view_ok (view k')"
    by (rule namespaces_stay_typed [OF demo_ok _ _ k']) (simp_all add: demo_kernel_def)
  with k' show ?thesis by blast
qed

section \<open>Confinement\<close>

lemma step_confined:
  assumes "namespace_step a v w" and "view_ok v" and "v_counter v < 2 ^ 64" and "v_procs w b = Some ns'" and "h \<in> set (holds ns')"
  shows "(\<exists>ns. v_procs v b = Some ns \<and> h \<in> set (holds ns)) \<or> b = a \<and> holder_id h = v_counter v \<or>
    b = v_next v \<and> (\<exists>ns. v_procs v a = Some ns \<and> h \<in> set (owned_namespaces ns))"
  using assms(1)
proof (cases rule: namespace_step.cases)
  case (make ns g)
  have t: "typed v" using assms(2) by (simp add: view_ok_def)
  from make(3) assms(3) have g: "holder_id g = v_counter v" by simp
  have "v_types v (holder_id g) = None" using assms(2) g by (auto simp: view_ok_def fresh_def)
  with typedD(3) [OF t make(2)] have "holder_id g \<notin> holder_id ` set (owned_namespaces ns)"
    by (force simp: holds_def)
  from uses_add_namespace(2) [OF typedD(2) [OF t make(2)] this] make assms(4,5) g show ?thesis
    by (cases "b = a") auto
next
  case (remove ns i ns1)
  have t: "typed v" using assms(2) by (simp add: view_ok_def)
  from uses_remove(2) [OF typedD(2) [OF t remove(2)] remove(3)] remove assms(4,5) show ?thesis
    by (cases "b = a") (auto simp: v_drop_def split: if_splits)
next
  case (change ns i g)
  have t: "typed v" using assms(2) by (simp add: view_ok_def)
  from uses_change(2) [OF typedD(2) [OF t change(2)] change(3)] change assms(4,5) show ?thesis
    by (cases "b = a") (auto simp: v_drop_def split: if_splits)
next
  case (spawn ns ids new)
  have t: "typed v" using assms(2) by (simp add: view_ok_def)
  from clone_from_ids_Inr(1) [OF typedD(2) [OF t spawn(2)] spawn(3)] spawn assms(4,5) show ?thesis
    by (cases "b = v_next v") auto
qed (use assms(4,5) in auto)

text \<open>C6: Confinement. A system call of the four packs gives a process a namespace only in three ways:
  it held it before, it is a new one that the calling process has just made, or the process is the one
  that the caller has just started and the caller owns the namespace. In particular no call reaches
  the namespaces of another process.\<close>

theorem namespace_confinement:
  assumes "view_ok (view k)" and "k_ns_counter k < 2 ^ 64" and "n < 19" and "run_handler fs_handler n st a k = Some k'"
    and "process_namespaces b k' = Some ns'" and "h \<in> set (holds ns')"
  shows "(\<exists>ns. process_namespaces b k = Some ns \<and> h \<in> set (holds ns)) \<or>
    b = a \<and> holder_id h = k_ns_counter k \<or>
    b = next_object (k_procs k) \<and> (\<exists>ns. process_namespaces a k = Some ns \<and> h \<in> set (owned_namespaces ns))"
proof -
  have v: "v_counter (view k) = k_ns_counter k" "v_next (view k) = next_object (k_procs k)" by (simp_all add: view_def)
  show ?thesis
    using step_confined [OF run_handler_step [OF assms(4,3)] assms(1), of b ns' h] assms(2,5,6)
    by (simp add: process_namespaces_view v)
qed

theorem namespace_confinement_witness:
  "\<exists>k' ns' h. run_handler (\<lambda>_ _ _ _. None) 0 idle_state 0 (demo_kernel idle_state) = Some k' \<and>
     process_namespaces 0 k' = Some ns' \<and> h \<in> set (holds ns') \<and> h \<notin> set (holds demo_namespaces) \<and> holder_id h = 4"
proof -
  let ?k = "demo_kernel idle_state" and ?ns = "add_namespace (HSyscall 4) demo_namespaces"
  obtain k' where k': "run_handler (\<lambda>_ _ _ _. None) 0 idle_state 0 ?k = Some k'" "process_namespaces 0 k' = Some ?ns"
    using demo_mknamespace by blast
  have h: "HSyscall 4 \<in> set (holds ?ns)"
    by (subst uses_add_namespace(2)) (simp_all add: demo_namespaces_def)
  have d: "process_namespaces 0 ?k = Some demo_namespaces" "next_object (k_procs ?k) = 1" "k_ns_counter ?k = 4"
    by (simp_all add: demo_kernel_def process_namespaces_def process_new_def)
  have new: "HSyscall 4 \<notin> set (holds demo_namespaces)" by (simp add: holds_def demo_namespaces_def)
  have "holder_id (HSyscall 4) = 4" using namespace_confinement [OF demo_ok _ _ k' h] d new by simp
  with k' h new show ?thesis by blast
qed

section \<open>Mapping a pack\<close>

lemma handler_of_pack:
  assumes "sys_wf ns" and "q \<in> set (mapped_syscalls ns)" and "base q \<le> m" and "m < base q + 32"
  shows "get_syscall_handler m ns = pack_handler m q"
proof -
  from assms(2) obtain pos where "pos < length (mapped_syscalls ns)" "q = mapped_syscalls ns ! pos" by (auto simp: in_set_conv_nth)
  with get_pack_iff [OF assms(1), of m pos] assms(3,4) show ?thesis by (simp add: get_syscall_handler_def)
qed

lemma handler_of_no_pack:
  assumes "sys_wf ns" and "\<And>q. q \<in> set (mapped_syscalls ns) \<Longrightarrow> \<not> (base q \<le> m \<and> m < base q + 32)"
  shows "get_syscall_handler m ns = None"
proof -
  have "get_pack m (mapped_syscalls ns) = None"
  proof (cases "get_pack m (mapped_syscalls ns)")
    case (Some pos)
    with get_pack_iff [OF assms(1)] assms(2) [of "mapped_syscalls ns ! pos"] show ?thesis by auto
  qed
  then show ?thesis by (simp add: get_syscall_handler_def)
qed

lemma map_syscall_pack_effect:
  assumes wf: "sys_wf ns" and m: "map_syscall_pack b p i ns = (Inr (), ns')"
  shows "sys_wf ns'" and "set (mapped_syscalls ns') = insert \<lparr>base = b, mask = - 1, pack_id = i, pack = p\<rparr> (set (mapped_syscalls ns))"
proof -
  let ?ms = "mapped_syscalls ns" and ?new = "\<lparr>base = b, mask = - 1, pack_id = i, pack = p\<rparr> :: MappedSyscallPack"
  have sorted: "sorted_wrt (\<lambda>p q. base p < base q) ?ms" using wf by (simp add: sys_wf_def)
  from m obtain pos where b: "b \<le> 2 ^ 32 - 1 - 31" "b mod 32 = 0" "binary_search_by (base_cmp b) ?ms = Inl pos"
    and ns': "ns' = ns\<lparr>mapped_syscalls := insert_at pos ?new ?ms\<rparr>"
    by (auto simp: map_syscall_pack_def split: if_splits sum.splits)
  from binary_search_by_spec [OF base_cmp_monotone [OF sorted, of b]] b(3)
  have spec: "\<forall>q\<in>set (take pos ?ms). base q < b" "\<forall>q\<in>set (drop pos ?ms). b < base q"
    by (auto simp: base_cmp_def in_set_conv_nth)
  have "sorted_wrt (\<lambda>p q. base p < base q) (take pos ?ms @ drop pos ?ms)" using sorted by simp
  then have "sorted_wrt (\<lambda>p q. base p < base q) (insert_at pos ?new ?ms)"
    using spec by (auto simp: insert_at_def sorted_wrt_append intro: less_trans)
  moreover have s: "set (insert_at pos ?new ?ms) = insert ?new (set ?ms)"
    by (metis Un_insert_right append_take_drop_id insert_at_def list.simps(15) set_append)
  ultimately show "sys_wf ns'" using wf b by (auto simp: sys_wf_def ns' list_all_iff)
  show "set (mapped_syscalls ns') = insert ?new (set ?ms)" using s ns' by simp
qed

lemma new_pack_handler:
  assumes "b \<le> m" and "m < b + 32"
  shows "pack_handler m \<lparr>base = b, mask = - 1, pack_id = i, pack = p\<rparr> = map_option fst (get_handler p (m - b))"
proof -
  have "(push_bit (m - b) 1 :: u32) \<noteq> 0" using assms by auto
  with assms show ?thesis by (simp add: pack_handler_def)
qed

lemma map_syscall_pack_lookup:
  assumes wf: "sys_wf ns" and m: "map_syscall_pack b p i ns = (Inr (), ns')"
  shows "get_syscall_handler m ns' =
    (if b \<le> m \<and> m < b + 32 then map_option fst (get_handler p (m - b)) else get_syscall_handler m ns)"
proof -
  note eff = map_syscall_pack_effect [OF wf m]
  show ?thesis
  proof (cases "b \<le> m \<and> m < b + 32")
    case True
    with handler_of_pack [OF eff(1), of "\<lparr>base = b, mask = - 1, pack_id = i, pack = p\<rparr>" m] eff(2) new_pack_handler show ?thesis by simp
  next
    case False
    show ?thesis
    proof (cases "\<exists>q\<in>set (mapped_syscalls ns). base q \<le> m \<and> m < base q + 32")
      case True
      then obtain q where q: "q \<in> set (mapped_syscalls ns)" "base q \<le> m" "m < base q + 32" by blast
      with eff(2) handler_of_pack [OF eff(1), of q m] handler_of_pack [OF wf q] False show ?thesis by auto
    next
      case none: False
      have "get_syscall_handler m ns = None" by (rule handler_of_no_pack [OF wf]) (use none in blast)
      moreover have "get_syscall_handler m ns' = None" by (rule handler_of_no_pack [OF eff(1)]) (use none False eff(2) in auto)
      ultimately show ?thesis using False by auto
    qed
  qed
qed

definition return_value :: "nat \<Rightarrow> nat \<Rightarrow> kernel \<Rightarrow> u64 option" where
  "return_value i a k =
     objects (k_procs k) a \<bind> (\<lambda>d. case cpu_state d of Syscall s \<Rightarrow> get_arg s i | _ \<Rightarrow> None)"

lemma return_value_set:
  assumes "set_return vs a k = Some k'" and "i < length vs"
  shows "return_value i a k' = Some (vs ! i)"
proof -
  from assms(1) obtain d q r where q: "objects (k_procs k) a = Some d" "get_mutable d = Some q"
    "k' = k\<lparr>k_procs := (k_procs k)\<lparr>objects := (objects (k_procs k))(a \<mapsto> r)\<rparr>\<rparr>" "set_syscall_return vs d = Some r"
    by (auto simp: set_return_def with_process_def set_syscall_return_def bind_eq_Some_conv)
  then obtain s where s: "cpu_state q = Syscall s" by (cases "cpu_state q") (auto simp: set_syscall_return_def)
  with q obtain s' where "length vs \<le> 10" "write_args 0 vs s = Some s'" "r = drop_mutable (q\<lparr>cpu_state := Syscall s'\<rparr>)"
    by (auto simp: set_syscall_return_def bind_eq_Some_conv)
  with write_args_spec [of 0 vs s] assms(2) q show ?thesis by (auto simp: return_value_def drop_mutable_def)
qed

lemma set_return_ns: "set_return vs a k = Some k' \<Longrightarrow> k_ns k' = k_ns k"
  by (auto simp: set_return_def with_process_def bind_eq_Some_conv)

lemma lock_ns: "lock_process a k = Some k' \<Longrightarrow> k_ns k' = k_ns k" "unlock_process a k = Some k' \<Longrightarrow> k_ns k' = k_ns k"
  by (auto simp: lock_process_def unlock_process_def with_process_def bind_eq_Some_conv)

text \<open>C21: When \<open>map_pack\<close> returns 0, the numbers from \<open>base_index\<close> on call the functions of the named pack in
  the chosen namespace, every other number calls what it called before, the namespace stays well
  formed, and no other namespace has changed.  The pack is mapped without restrictions, also when the
  namespace already maps it with some of its calls disabled, and the base is below \<open>2^32 - 32\<close>.\<close>

theorem map_pack_installs:
  assumes "map_pack st a k = Some k'" and "return_value 0 a k' = Some 0" and "process_namespaces a k = Some ns"
    and "get_namespace TSyscall (namespace_arg st) ns = Some i" and "sys_namespace i k = Some sys" and "sys_wf sys"
  shows "\<exists>np nl name p pid b sys'. arg st 0 = Some nl \<and> arg st 1 = Some np \<and> arg st 2 = Some b \<and>
    string_from_args np nl k = Some (Some name) \<and> get_syscall_pack name (k_registry k) = Some (p, pid) \<and>
    sys_namespace i k' = Some sys' \<and> sys_wf sys' \<and> b < 2 ^ 32 - 32 \<and>
    set (mapped_syscalls sys') = insert \<lparr>base = b, mask = - 1, pack_id = pid, pack = p\<rparr> (set (mapped_syscalls sys)) \<and>
    (\<forall>m. get_syscall_handler m sys' =
       (if b \<le> m \<and> m < b + 32 then map_option fst (get_handler p (m - b)) else get_syscall_handler m sys)) \<and>
    (\<forall>j. j \<noteq> i \<longrightarrow> k_ns k' j = k_ns k j)"
  using assms(1)
proof (cases rule: map_pack_cases)
  case (3 name p pid k1 ns1 i1 k2 sys1 sys' b nl np)
  have "ns1 = ns" using view_lock [OF 3(7)] 3(8) assms(3) by (simp add: process_namespaces_view)
  then have i1: "i1 = i" using 3(9) assms(4) by simp
  have n: "k_ns k2 = k_ns k" "k_ns k' = (k_ns k2)(i \<mapsto> NsSyscall sys')"
    using lock_ns(1) [OF 3(7)] lock_ns(2) [OF 3(10)] set_return_ns [OF 3(13)] i1 by simp_all
  then have "sys1 = sys" using 3(11) i1 assms(5) by (simp add: sys_namespace_def)
  with 3(12) have m: "map_syscall_pack b p pid sys = (Inr (), sys')" by simp
  have s': "sys_namespace i k' = Some sys'" using n by (simp add: sys_namespace_def)
  show ?thesis
    using 3(1,3,4,5,6) s' map_syscall_pack_effect [OF assms(6) m] map_syscall_pack_lookup [OF assms(6) m] n 3(2) by auto
qed (use assms(2) return_value_set [of "[- 1]" a _ k' 0] in auto)

text \<open>A namespace that maps the pack \<open>proc\<close> at 0 with its second call disabled.\<close>

abbreviation proc_pack :: SyscallPack where
  "proc_pack \<equiv> \<lparr>handlers = [(4, ''exec''), (5, ''exit'')]\<rparr>"

definition restricted_sys :: SyscallNamespace where
  "restricted_sys = (sys_create_empty 2)\<lparr>mapped_syscalls := [\<lparr>base = 0, mask = 1, pack_id = 0, pack = proc_pack\<rparr>]\<rparr>"

definition restricted_kernel :: "SyscallCpuState \<Rightarrow> kernel" where
  "restricted_kernel st = (demo_kernel st)\<lparr>k_ns := (k_ns (demo_kernel st))(2 \<mapsto> NsSyscall restricted_sys)\<rparr>"

abbreviation map_state :: SyscallCpuState where
  "map_state \<equiv> idle_state\<lparr>sc_rdx := 4, sc_rdi := 0x1000, sc_rsi := 64\<rparr>"

lemma demo_name: "string_from_args 4096 4 (restricted_kernel st) = Some (Some ''proc'')"
  by (simp add: string_from_args_def copy_from_user_def safe_memcpy_from_user_def safe_memcpy_kernel_def user_range_ok_def
      checked_simps is_userspace_ptr_def restricted_kernel_def demo_kernel_def string_of_bytes_def char_of_def bit_0)

lemma demo_pack: "get_syscall_pack ''proc'' (k_registry (restricted_kernel st)) = Some (proc_pack, 0)"
  by (simp add: get_syscall_pack_def restricted_kernel_def demo_kernel_def)

lemma map_state_args: "arg map_state 0 = Some 4" "arg map_state 1 = Some 4096" "arg map_state (Suc 0) = Some 4096"
  "arg map_state 2 = Some 64" "namespace_arg map_state = 0"
  by (simp_all add: arg_def get_arg_def syscall_entry_def zero_regs_def get_namespace_id_def)

lemma demo_map_pack: "\<exists>k'. map_pack map_state 0 (restricted_kernel map_state) = Some k' \<and> return_value 0 0 k' = Some 0"
  unfolding map_pack_def
  by (simp add: map_state_args demo_name demo_pack checked_simps)
    (simp add: restricted_kernel_def demo_kernel_def demo_run get_namespace_def demo_namespaces_def sys_namespace_def
      restricted_sys_def sys_create_empty_def map_syscall_pack_def binary_search_by_def bs_loop.simps Let_def base_cmp_def
      nat_cmp_def return_value_def)

theorem map_pack_installs_witness:
  "get_syscall_handler 1 restricted_sys = None \<and>
   (\<exists>k' sys'. map_pack map_state 0 (restricted_kernel map_state) = Some k' \<and> sys_namespace 2 k' = Some sys' \<and>
      get_syscall_handler 65 sys' = Some 5)"
proof
  show "get_syscall_handler 1 restricted_sys = None"
    by (simp add: get_syscall_handler_def restricted_sys_def get_pack_def pack_handler_def
        binary_search_by_def bs_loop.simps Let_def index_at_def base_cmp_def nat_cmp_def)
next
  let ?k = "restricted_kernel map_state"
  obtain k' where k': "map_pack map_state 0 ?k = Some k'" "return_value 0 0 k' = Some 0" using demo_map_pack by blast
  have d: "process_namespaces 0 ?k = Some demo_namespaces" "get_namespace TSyscall (namespace_arg map_state) demo_namespaces = Some 2"
    "sys_namespace 2 ?k = Some restricted_sys" "sys_wf restricted_sys"
    by (simp_all add: restricted_kernel_def demo_kernel_def demo_run demo_namespaces_def get_namespace_def get_namespace_id_def
        sys_namespace_def restricted_sys_def sys_wf_def)
  from map_pack_installs [OF k' d] map_state_args demo_name demo_pack obtain sys' where "sys_namespace 2 k' = Some sys'"
    "get_syscall_handler 65 sys' = map_option fst (get_handler proc_pack 1)" by fastforce
  with k' show "\<exists>k' sys'. map_pack map_state 0 ?k = Some k' \<and> sys_namespace 2 k' = Some sys' \<and> get_syscall_handler 65 sys' = Some 5"
    by (auto simp: get_handler_def index_at_def)
qed

section \<open>Unknown numbers\<close>

text \<open>C22: A system call with a number that is not mapped, or whose bit is masked, comes back to the caller:
  the first two return registers are \<open>u64::MAX\<close> and 0, the other arguments are as they were, the pending
  preemption is cancelled, the process is queued as ready behind the others, and no namespace is touched.
  (The hypotheses describe a processor in user mode: it runs the process and holds none of its locks;
  no other event is due.)\<close>

theorem unknown_syscall_returns_error:
  assumes cur: "current_process (k_procs k) c = Some a" and d: "objects (k_procs k) a = Some d" "\<not> internal_locked d" "\<not> sleeping d"
    and sys: "sys_namespace (syscall_namespace (namespaces d)) k = Some sys"
      "get_syscall_handler (unat (get_syscall_number st) mod 2 ^ 32) sys = None"
    and task: "tasks (k_procs k) (pd_pid d) = Some a" "(pd_pid d, c) \<in> set (active_tasks (k_procs k))"
    and ev: "k_preemption k = Some e" "cancel_scheduled_event (k_clock k) (k_frequency k) e (k_events k) = Some (b, q)"
      "fired q = fired (k_events k)"
  shows "\<exists>k'. main_syscall_handler fs_handler c st k = Some k' \<and> return_value 0 a k' = Some (- 1) \<and> return_value 1 a k' = Some 0 \<and>
    (\<forall>i. 2 \<le> i \<longrightarrow> return_value i a k' = get_arg st i) \<and> k_events k' = q \<and> k_preemption k' = None \<and>
    ready_to_run (k_procs k') = ready_to_run (k_procs k) @ [pd_pid d] \<and> k_ns k' = k_ns k \<and> view k' = view k"
proof -
  let ?d = "d\<lparr>cpu_state := Syscall (st\<lparr>sc_rdx := - 1, sc_rdi := 0\<rparr>), internal_locked := False\<rparr>"
  let ?p = "(k_procs k)\<lparr>int_depth := (int_depth (k_procs k))(c := 1),
      current_process := (current_process (k_procs k))(c := None), objects := (objects (k_procs k))(a \<mapsto> ?d)\<rparr>"
  let ?k' = "k\<lparr>k_preemption := None, k_events := q, k_procs := release_process (pd_pid d) c ?p\<rparr>"
  obtain pos where pos: "position (\<lambda>(p, _). p = pd_pid d) (active_tasks (k_procs k)) = Some pos"
    using task(2) by (cases "position (\<lambda>(p, _). p = pd_pid d) (active_tasks (k_procs k))") (auto simp: position_None)
  have main: "main_syscall_handler fs_handler c st k = Some ?k'"
    using assms by (simp add: main_syscall_handler_def cancel_preemption_def settle_events_def save_cpu_state_def set_cpu_data_def
        get_mutable_def drop_mutable_def lock_process_def unlock_process_def with_process_def process_namespaces_def
        get_namespace_def sys_namespace_def set_return_def set_syscall_return_def write_arg_def release_current_proc_def Let_def)
  moreover have "objects (release_process (pd_pid d) c ?p) = objects ?p"
      "ready_to_run (release_process (pd_pid d) c ?p) = ready_to_run (k_procs k) @ [pd_pid d]"
      "next_object (release_process (pd_pid d) c ?p) = next_object (k_procs k)"
    using pos task(1) d by (simp_all add: release_process_def Let_def switch_to_generic_mem_tree_def)
  ultimately show ?thesis using d
    by (intro exI [of _ ?k']) (auto simp: return_value_def get_arg_def view_def fun_eq_iff)
qed

definition user_kernel :: kernel where
  "user_kernel = (demo_kernel idle_state)\<lparr>k_preemption := Some 0, k_events := (k_events (demo_kernel idle_state))
     \<lparr>event_id_counter := 1, scheduled_events := [\<lparr>ev_time = 100, ev_callback = Preemption, ev_id = 0\<rparr>]\<rparr>\<rparr>"

theorem unknown_syscall_returns_error_witness:
  "\<exists>k'. main_syscall_handler (\<lambda>_ _ _ _. None) 0 (idle_state\<lparr>sc_rax := 99\<rparr>) user_kernel = Some k' \<and>
     return_value 0 0 k' = Some (- 1) \<and> ready_to_run (k_procs k') = [7]"
proof -
  let ?q = "\<lparr>event_id_counter = 1, scheduled_events = [], fired = [], clock_reads = 1, timer_setting = (0, 0)\<rparr>"
  let ?d = "process_new 7 False ''init'' (Syscall idle_state) 0x1000 demo_namespaces"
  have "sys_namespace (syscall_namespace (namespaces ?d)) user_kernel = Some (sys_create_empty 2)"
    "get_syscall_handler (unat (get_syscall_number (idle_state\<lparr>sc_rax := 99\<rparr>)) mod 2 ^ 32) (sys_create_empty 2) = None"
    by (simp_all add: user_kernel_def demo_kernel_def process_new_def demo_namespaces_def sys_namespace_def
        get_syscall_handler_def get_pack_def sys_create_empty_def binary_search_by_def index_at_def get_syscall_number_def)
  moreover have "cancel_scheduled_event (k_clock user_kernel) (k_frequency user_kernel) 0 (k_events user_kernel) = Some (True, ?q)"
    by (simp add: cancel_scheduled_event_def handle_scheduled_events_def user_kernel_def demo_kernel_def)
  ultimately show ?thesis
    using unknown_syscall_returns_error [where k = user_kernel and c = 0 and a = 0 and d = ?d and st = "idle_state\<lparr>sc_rax := 99\<rparr>"
        and sys = "sys_create_empty 2" and e = 0 and b = True and q = ?q and fs_handler = "\<lambda>_ _ _ _. None"]
    by (auto simp: user_kernel_def demo_kernel_def process_new_def scheduler_new_def)
qed

end
