(* ===== verification/ElfLoader.thy ===== *)
theory ElfLoader
  imports Syscalls
begin

text \<open>
  From the bytes of a program file to the description of a process: the ELF parser
  (\<open>parsers/elf\<close>), the loader (\<open>proc/loaders\<close>), the description of the memory of a process and the splitting
  of command lines (\<open>proc/context/info.rs\<close>). The file lies in memory at a page boundary, as
  \<open>run_process_default_env\<close> reads it, so a table is aligned when its offset is. Every unchecked index,
  overflow and misaligned slice of a file is a panic (\<open>None\<close>). A character of the model is one byte of UTF-8.
\<close>

section \<open>ELF files\<close>

datatype ParseError =
    InvalidMagic | InvalidClass | InvalidDataEncoding | InvalidVersion | IncompleteData | InvalidData | OtherParseError

record Elf64_Ehdr =
  e_ident :: "u8 list"
  e_type :: nat
  e_machine :: nat
  e_version :: nat
  e_entry :: nat
  e_phoff :: nat
  e_shoff :: nat
  e_flags :: nat
  e_ehsize :: nat
  e_phentsize :: nat
  e_phnum :: nat
  e_shentsize :: nat
  e_shnum :: nat
  e_shstrndx :: nat

definition le_at :: "u8 list \<Rightarrow> nat \<Rightarrow> nat \<Rightarrow> nat" where
  "le_at data offset n = from_le (take n (drop offset data))"

definition ident_verify :: "u8 list \<Rightarrow> ParseError + unit" where
  "ident_verify data =
     (if take 4 data \<noteq> [0x7F, 0x45, 0x4C, 0x46] then Inl InvalidMagic
      else if le_at data 4 1 \<noteq> 2 then Inl InvalidClass
      else if le_at data 5 1 \<noteq> 1 then Inl InvalidDataEncoding
      else if le_at data 6 1 \<noteq> 1 then Inl InvalidVersion
      else Inr ())"

definition ehdr_parse :: "u8 list \<Rightarrow> ParseError + Elf64_Ehdr" where
  "ehdr_parse data =
     (if length data < 64 then Inl IncompleteData
      else case ident_verify data of
        Inl e \<Rightarrow> Inl e
      | Inr _ \<Rightarrow>
          (let h = \<lparr>e_ident = take 16 data, e_type = le_at data 16 2, e_machine = le_at data 18 2,
                 e_version = le_at data 20 4, e_entry = le_at data 24 8, e_phoff = le_at data 32 8,
                 e_shoff = le_at data 40 8, e_flags = le_at data 48 4, e_ehsize = le_at data 52 2,
                 e_phentsize = le_at data 54 2, e_phnum = le_at data 56 2, e_shentsize = le_at data 58 2,
                 e_shnum = le_at data 60 2, e_shstrndx = le_at data 62 2\<rparr>
           in if e_ehsize h \<noteq> 64 then Inl OtherParseError else Inr h))"

record Elf64_Phdr =
  p_type :: nat
  p_flags :: nat
  p_offset :: nat
  p_vaddr :: nat
  p_paddr :: nat
  p_filesz :: nat
  p_memsz :: nat
  p_align :: nat

record Elf64_Shdr =
  sh_name :: nat
  sh_type :: nat
  sh_flags :: nat
  sh_addr :: nat
  sh_offset :: nat
  sh_size :: nat
  sh_link :: nat
  sh_info :: nat
  sh_addralign :: nat
  sh_entsize :: nat

definition phdr_at :: "u8 list \<Rightarrow> nat \<Rightarrow> Elf64_Phdr" where
  "phdr_at data o' =
     \<lparr>p_type = le_at data o' 4, p_flags = le_at data (o' + 4) 4, p_offset = le_at data (o' + 8) 8,
      p_vaddr = le_at data (o' + 16) 8, p_paddr = le_at data (o' + 24) 8, p_filesz = le_at data (o' + 32) 8,
      p_memsz = le_at data (o' + 40) 8, p_align = le_at data (o' + 48) 8\<rparr>"

definition shdr_at :: "u8 list \<Rightarrow> nat \<Rightarrow> Elf64_Shdr" where
  "shdr_at data o' =
     \<lparr>sh_name = le_at data o' 4, sh_type = le_at data (o' + 4) 4, sh_flags = le_at data (o' + 8) 4,
      sh_addr = le_at data (o' + 16) 8, sh_offset = le_at data (o' + 24) 8, sh_size = le_at data (o' + 32) 8,
      sh_link = le_at data (o' + 40) 4, sh_info = le_at data (o' + 44) 4, sh_addralign = le_at data (o' + 48) 8,
      sh_entsize = le_at data (o' + 56) 8\<rparr>"

text \<open>The product of the two 16-bit numbers is computed in 16 bits.\<close>

definition get_segment_table :: "u8 list \<Rightarrow> nat \<Rightarrow> nat \<Rightarrow> nat \<Rightarrow> (ParseError + Elf64_Phdr list) option" where
  "get_segment_table data off entsize n =
     (if entsize \<noteq> 56 then Some (Inl InvalidData)
      else checked_mul 16 entsize n \<bind> (\<lambda>size'.
           checked_add 64 off size' \<bind> (\<lambda>end'.
           if end' > length data then Some (Inl InvalidData)
           else panic_unless (off mod 8 = 0) \<bind> (\<lambda>_.
                Some (Inr (map (\<lambda>i. phdr_at data (off + 56 * i)) [0..<n]))))))"

definition get_section_table :: "u8 list \<Rightarrow> nat \<Rightarrow> nat \<Rightarrow> nat \<Rightarrow> (ParseError + Elf64_Shdr list) option" where
  "get_section_table data off entsize n =
     (if entsize \<noteq> 64 then Some (Inl InvalidData)
      else checked_mul 16 entsize n \<bind> (\<lambda>size'.
           checked_add 64 off size' \<bind> (\<lambda>end'.
           if end' > length data then Some (Inl InvalidData)
           else panic_unless (off mod 8 = 0) \<bind> (\<lambda>_.
                Some (Inr (map (\<lambda>i. shdr_at data (off + 64 * i)) [0..<n]))))))"

primrec collect_segments :: "u8 list \<Rightarrow> Elf64_Phdr list \<Rightarrow> (ParseError + (Elf64_Phdr \<times> u8 list) list) option" where
  "collect_segments data [] = Some (Inr [])"
| "collect_segments data (p # ps) =
     checked_add 64 (p_offset p) (p_filesz p) \<bind> (\<lambda>end'.
     if end' > length data then Some (Inl IncompleteData)
     else slice_range data (p_offset p) end' \<bind> (\<lambda>bs.
          collect_segments data ps \<bind> (\<lambda>res.
          Some (case res of Inl e \<Rightarrow> Inl e | Inr segs \<Rightarrow> Inr ((p, bs) # segs)))))"

definition elf_parse :: "u8 list \<Rightarrow> (ParseError + Elf64_Ehdr \<times> (Elf64_Phdr \<times> u8 list) list) option" where
  "elf_parse data =
     (case ehdr_parse data of
        Inl e \<Rightarrow> Some (Inl e)
      | Inr h \<Rightarrow>
          get_section_table data (e_shoff h) (e_shentsize h) (e_shnum h) \<bind> (\<lambda>sections.
          case sections of Inl e \<Rightarrow> Some (Inl e) | Inr shs \<Rightarrow>
          get_segment_table data (e_phoff h) (e_phentsize h) (e_phnum h) \<bind> (\<lambda>segments.
          case segments of Inl e \<Rightarrow> Some (Inl e) | Inr phs \<Rightarrow>
          index_at shs (e_shstrndx h) \<bind> (\<lambda>s.
          checked_add 64 (sh_offset s) (sh_size s) \<bind> (\<lambda>end_shstr.
          slice_range data (sh_offset s) end_shstr \<bind> (\<lambda>_.
          collect_segments data phs \<bind> (\<lambda>res.
          Some (case res of Inl e \<Rightarrow> Inl e | Inr segs \<Rightarrow> Inr (h, segs)))))))))"

section \<open>Memory regions of a process\<close>

record MemoryRegionDescriptor =
  mr_start :: nat
  size_pages :: nat
  mr_flags :: nat

definition region_new :: "nat \<Rightarrow> nat \<Rightarrow> nat \<Rightarrow> unit + MemoryRegionDescriptor" where
  "region_new addr n flags =
     (if addr mod 0x1000 \<noteq> 0 then Inl () else Inr \<lparr>mr_start = addr, size_pages = n, mr_flags = flags\<rparr>)"

definition region_end :: "MemoryRegionDescriptor \<Rightarrow> nat option" where
  "region_end r = checked_mul 64 (size_pages r) 0x1000 \<bind> checked_add 64 (mr_start r)"

definition spans_overlap :: "nat \<Rightarrow> nat \<Rightarrow> nat \<Rightarrow> nat \<Rightarrow> bool" where
  "spans_overlap self_start self_end other_start other_end \<longleftrightarrow>
     other_start < self_end \<and> other_start \<ge> self_start \<or> self_start < other_end \<and> self_start \<ge> other_start"

definition region_overlaps :: "MemoryRegionDescriptor \<Rightarrow> MemoryRegionDescriptor \<Rightarrow> bool option" where
  "region_overlaps r other =
     region_end r \<bind> (\<lambda>self_end. region_end other \<bind> (\<lambda>other_end.
     Some (spans_overlap (mr_start r) self_end (mr_start other) other_end)))"

datatype ContextInfoError =
    MemoryRegionOverlap | StackSizeTooBig | EntryPointNotMapped | InitRegionNotMapped | InvalidCmdLine

text \<open>the inner loop of \<open>ContextInfo::new\<close>: the first region that overlaps is extended.\<close>

primrec extend_first ::
  "MemoryRegionDescriptor \<Rightarrow> MemoryRegionDescriptor list \<Rightarrow> (ContextInfoError + MemoryRegionDescriptor list) option" where
  "extend_first r [] = Some (Inr [])"
| "extend_first r (other # os) =
     region_overlaps r other \<bind> (\<lambda>overlap.
     if overlap
     then (if mr_flags r \<noteq> mr_flags other then Some (Inl MemoryRegionOverlap)
           else checked_sub (mr_start r) (mr_start other) \<bind> (\<lambda>start_diff.
                checked_add 64 (size_pages r) (start_diff div 0x1000) \<bind> (\<lambda>n.
                Some (Inr (other\<lparr>size_pages := max (size_pages other) n\<rparr> # os)))))
     else extend_first r os \<bind> (\<lambda>res.
          Some (case res of Inl e \<Rightarrow> Inl e | Inr os' \<Rightarrow> Inr (other # os'))))"

fun fix_regions ::
  "MemoryRegionDescriptor list \<Rightarrow> MemoryRegionDescriptor list \<Rightarrow> (ContextInfoError + MemoryRegionDescriptor list) option" where
  "fix_regions fixed [] = Some (Inr fixed)"
| "fix_regions fixed (r # rs) =
     extend_first r fixed \<bind> (\<lambda>res.
     case res of Inl e \<Rightarrow> Some (Inl e) | Inr fixed' \<Rightarrow> fix_regions (fixed' @ [r]) rs)"

type_synonym mem_init = "nat \<times> u8 list"

definition init_end :: "mem_init \<Rightarrow> nat option" where
  "init_end i = checked_add 64 (fst i) (length (snd i))"

primrec init_overlaps_any :: "mem_init \<Rightarrow> mem_init list \<Rightarrow> bool option" where
  "init_overlaps_any i [] = Some False"
| "init_overlaps_any i (j # js) =
     init_end i \<bind> (\<lambda>self_end. init_end j \<bind> (\<lambda>other_end.
     if spans_overlap (fst i) self_end (fst j) other_end then Some True else init_overlaps_any i js))"

primrec inits_overlap :: "mem_init list \<Rightarrow> bool option" where
  "inits_overlap [] = Some False"
| "inits_overlap (i # is) =
     init_overlaps_any i is \<bind> (\<lambda>overlap. if overlap then Some True else inits_overlap is)"

primrec init_in_regions :: "nat \<Rightarrow> nat \<Rightarrow> MemoryRegionDescriptor list \<Rightarrow> bool option" where
  "init_in_regions init_start init_end' [] = Some False"
| "init_in_regions init_start init_end' (r # rs) =
     region_end r \<bind> (\<lambda>e.
     if init_start \<ge> mr_start r \<and> init_end' \<le> e then Some True else init_in_regions init_start init_end' rs)"

primrec inits_mapped :: "MemoryRegionDescriptor list \<Rightarrow> mem_init list \<Rightarrow> bool option" where
  "inits_mapped rs [] = Some True"
| "inits_mapped rs (i # is) =
     init_end i \<bind> (\<lambda>e. init_in_regions (fst i) e rs \<bind> (\<lambda>found.
     if found then inits_mapped rs is else Some False))"

section \<open>Command lines\<close>

definition unescape :: "char \<Rightarrow> char" where
  "unescape c =
     (if c = CHR ''n'' then CHR 0x0A else if c = CHR ''t'' then CHR 0x09 else if c = CHR ''r'' then CHR 0x0D
      else if c = CHR ''0'' then CHR 0x00 else c)"

text \<open>\<open>CommandSplitter::next\<close>: the next word and the characters behind it.\<close>

fun command_loop :: "string \<Rightarrow> bool \<Rightarrow> string \<Rightarrow> (string \<times> string) option" where
  "command_loop build pulled [] = (if pulled then Some (build, []) else None)"
| "command_loop build pulled [c] =
     (if c = CHR 0x5C then Some (build, []) else if c = CHR '' '' then Some (build, [])
      else command_loop (build @ [c]) True [])"
| "command_loop build pulled (c # d # cs) =
     (if c = CHR 0x5C then command_loop (build @ [unescape d]) True cs
      else if c = CHR '' '' then Some (build, d # cs)
      else command_loop (build @ [c]) True (d # cs))"

definition command_next :: "string \<Rightarrow> (string \<times> string) option" where
  "command_next s = command_loop [] False s"

lemma command_loop_shorter: "command_loop b p s = Some (w, s') \<Longrightarrow> length s' \<le> length s \<and> (s \<noteq> [] \<longrightarrow> length s' < length s)"
  by (induction b p s rule: command_loop.induct) (auto split: if_splits)

lemma command_next_shorter: "command_next s = Some (w, s') \<Longrightarrow> length s' < length s"
  by (cases s) (use command_loop_shorter in \<open>fastforce simp: command_next_def\<close>)+

function command_split :: "string \<Rightarrow> string list" where
  "command_split s = (case command_next s of None \<Rightarrow> [] | Some (w, s') \<Rightarrow> w # command_split s')"
  by pat_completeness auto

termination
  by (relation "measure length") (auto dest: command_next_shorter)

declare command_split.simps [simp del]

section \<open>Process contexts\<close>

record ContextInfo =
  ci_is_32_bit :: bool
  mem_regions :: "MemoryRegionDescriptor list"
  mem_init :: "mem_init list"
  entry_point :: nat
  ci_cmdline :: string
  ci_args :: "string list"
  ci_path :: string

definition context_info_new ::
  "bool \<Rightarrow> MemoryRegionDescriptor list \<Rightarrow> mem_init list \<Rightarrow> nat \<Rightarrow> string \<Rightarrow> (ContextInfoError + ContextInfo) option" where
  "context_info_new b regions inits entry cmd =
     fix_regions [] (sort_key mr_start regions) \<bind> (\<lambda>res.
     case res of Inl e \<Rightarrow> Some (Inl e) | Inr fixed \<Rightarrow>
     let sorted_inits = sort_key fst inits
     in inits_overlap sorted_inits \<bind> (\<lambda>overlap.
        if overlap then Some (Inl MemoryRegionOverlap)
        else inits_mapped fixed sorted_inits \<bind> (\<lambda>mapped.
        if \<not> mapped then Some (Inl InitRegionNotMapped)
        else case command_next cmd of
          None \<Rightarrow> Some (Inl InvalidCmdLine)
        | Some (path, rest) \<Rightarrow>
            Some (Inr \<lparr>ci_is_32_bit = b, mem_regions = fixed, mem_init = sorted_inits, entry_point = entry, ci_cmdline = cmd,
                       ci_args = path # command_split rest, ci_path = path\<rparr>))))"

section \<open>The loader\<close>

datatype ProcessLoadError = UnparseableFile | InvalidFile | UnsupportedProcessFormat

definition is_elf :: "u8 list \<Rightarrow> bool" where
  "is_elf data \<longleftrightarrow> length data \<ge> 4 \<and> take 4 data = [0x7F, 0x45, 0x4C, 0x46]"

fun load_error :: "ParseError \<Rightarrow> ProcessLoadError" where
  "load_error InvalidMagic = InvalidFile"
| "load_error InvalidClass = UnsupportedProcessFormat"
| "load_error InvalidDataEncoding = UnsupportedProcessFormat"
| "load_error InvalidVersion = InvalidFile"
| "load_error IncompleteData = UnparseableFile"
| "load_error InvalidData = UnparseableFile"
| "load_error OtherParseError = UnparseableFile"

text \<open>The flags of a region are bit 0 for writing and bit 1 for execution; those of a segment are bit 0 for
  execution and bit 1 for writing.\<close>

primrec load_segments ::
  "(Elf64_Phdr \<times> u8 list) list \<Rightarrow> (ProcessLoadError + MemoryRegionDescriptor list \<times> mem_init list) option" where
  "load_segments [] = Some (Inr ([], []))"
| "load_segments (s # ss) =
     (let p = fst s; bs = snd s
      in if p_type p \<noteq> 1 then load_segments ss
         else let page_start = p_vaddr p div 0x1000 * 0x1000; start_extended = p_vaddr p - page_start
              in checked_add 64 (p_memsz p) start_extended \<bind> (\<lambda>size'.
                 case region_new page_start (div_ceil size' 0x1000) (of_bool (bit (p_flags p) 1) + 2 * of_bool (bit (p_flags p) 0)) of
                   Inl _ \<Rightarrow> Some (Inl InvalidFile)
                 | Inr region \<Rightarrow>
                     load_segments ss \<bind> (\<lambda>res.
                     Some (case res of
                             Inl e \<Rightarrow> Inl e
                           | Inr (rs, is) \<Rightarrow> Inr (region # rs, if bs = [] then is else (page_start + start_extended, bs) # is)))))"

definition load_elf_process :: "u8 list \<Rightarrow> string \<Rightarrow> (ProcessLoadError + ContextInfo) option" where
  "load_elf_process data cmd =
     elf_parse data \<bind> (\<lambda>parsed.
     case parsed of
       Inl e \<Rightarrow> Some (Inl (load_error e))
     | Inr (h, segs) \<Rightarrow>
         load_segments segs \<bind> (\<lambda>res.
         case res of
           Inl e \<Rightarrow> Some (Inl e)
         | Inr (regions, inits) \<Rightarrow>
             if regions = [] then Some (Inl InvalidFile)
             else context_info_new False regions inits (e_entry h) cmd \<bind> (\<lambda>ctx.
                  Some (case ctx of Inl _ \<Rightarrow> Inl InvalidFile | Inr c \<Rightarrow> Inr c))))"

definition load_process_context :: "u8 list \<Rightarrow> string \<Rightarrow> (ProcessLoadError + ContextInfo) option" where
  "load_process_context data cmd =
     (if is_elf data then load_elf_process data cmd else Some (Inl UnsupportedProcessFormat))"

section \<open>What a loaded file describes\<close>

text \<open>The question mark operator on the result of a fallible step, when the whole succeeds.\<close>

lemma try_Inr [simp]:
  "m \<bind> case_sum (\<lambda>e. Some (Inl (g e))) f = Some (Inr y) \<longleftrightarrow> (\<exists>x. m = Some (Inr x) \<and> f x = Some (Inr y))"
  by (cases m) (auto split: sum.splits)

lemma map_Inr [simp]:
  "m \<bind> (\<lambda>res. Some (case_sum (\<lambda>e. Inl (g e)) (\<lambda>x. Inr (f x)) res)) = Some (Inr y) \<longleftrightarrow> (\<exists>x. m = Some (Inr x) \<and> y = f x)"
  by (cases m) (auto split: sum.splits)

lemma collect_segments_slices:
  "collect_segments data ps = Some (Inr segs) \<Longrightarrow> (q, bs) \<in> set segs \<Longrightarrow>
     p_offset q + p_filesz q \<le> length data \<and> bs = take (p_filesz q) (drop (p_offset q) data)"
proof (induction ps arbitrary: segs)
  case (Cons p ps)
  from Cons.prems(1) obtain ss where bound: "p_offset p + p_filesz p \<le> length data"
    and rest: "collect_segments data ps = Some (Inr ss)" "segs = (p, take (p_filesz p) (drop (p_offset p) data)) # ss"
    by (auto simp: bind_eq_Some_conv [of "checked_add _ _ _"] bind_eq_Some_conv [of "slice_range _ _ _"] slice_range_def split: if_splits)
  with Cons.IH [OF rest(1)] Cons.prems(2) show ?case by auto
qed simp

lemma elf_parse_slices:
  assumes "elf_parse data = Some (Inr (h, segs))" and "(q, bs) \<in> set segs"
  shows "p_offset q + p_filesz q \<le> length data \<and> bs = take (p_filesz q) (drop (p_offset q) data)"
proof -
  from assms(1) obtain h' where "ehdr_parse data = Inr h'" by (cases "ehdr_parse data") (auto simp: elf_parse_def)
  with assms(1) obtain phs where "collect_segments data phs = Some (Inr segs)"
    by (auto simp: elf_parse_def bind_eq_Some_conv [of "checked_add _ _ _"] bind_eq_Some_conv [of "slice_range _ _ _"]
        bind_eq_Some_conv [of "index_at _ _"])
  from collect_segments_slices [OF this assms(2)] show ?thesis .
qed

lemma load_segments_parts:
  "load_segments segs = Some (Inr (rs, is)) \<Longrightarrow> (\<forall>r\<in>set rs. mr_start r mod 0x1000 = 0) \<and>
     (\<forall>(a, bs)\<in>set is. bs \<noteq> [] \<and> (\<exists>p. (p, bs) \<in> set segs \<and> a = p_vaddr p))"
proof (induction segs arbitrary: rs "is")
  case (Cons s ss)
  show ?case
  proof (cases "p_type (fst s) = 1")
    case False
    with Cons.prems have "load_segments ss = Some (Inr (rs, is))" by (simp add: Let_def)
    from Cons.IH [OF this] show ?thesis by fastforce
  next
    case True
    let ?ps = "p_vaddr (fst s) div 0x1000 * 0x1000"
    from True Cons.prems obtain res where res: "load_segments ss = Some res"
      by (auto simp: Let_def bind_eq_Some_conv region_new_def)
    with True Cons.prems obtain rs1 is1 where ri: "res = Inr (rs1, is1)"
      by (cases res) (auto simp: Let_def bind_eq_Some_conv region_new_def)
    with res have rec: "load_segments ss = Some (Inr (rs1, is1))" by simp
    from True Cons.prems rec obtain n fl where r: "rs = \<lparr>mr_start = ?ps, size_pages = n, mr_flags = fl\<rparr> # rs1"
      and i: "is = (if snd s = [] then is1 else (p_vaddr (fst s), snd s) # is1)"
      by (auto simp: Let_def bind_eq_Some_conv region_new_def)
    from Cons.IH [OF rec] r i show ?thesis by (cases s) (fastforce split: if_splits)
  qed
qed simp

lemma extend_first_starts:
  "extend_first r os = Some (Inr os') \<Longrightarrow> map mr_start os' = map mr_start os"
proof (induction os arbitrary: os')
  case (Cons x os)
  from Cons.prems obtain ov where ov: "region_overlaps r x = Some ov" by (cases "region_overlaps r x") auto
  show ?case
  proof (cases ov)
    case True
    with ov Cons.prems show ?thesis by (auto simp: bind_eq_Some_conv split: if_splits)
  qed (use ov Cons in auto)
qed simp

lemma fix_regions_Cons:
  "fix_regions fixed (r # rs) = Some (Inr out) \<longleftrightarrow>
     (\<exists>fixed'. extend_first r fixed = Some (Inr fixed') \<and> fix_regions (fixed' @ [r]) rs = Some (Inr out))"
  by simp

lemma fix_regions_starts:
  "fix_regions fixed rs = Some (Inr out) \<Longrightarrow> map mr_start out = map mr_start (fixed @ rs)"
proof (induction rs arbitrary: fixed)
  case (Cons r rs)
  from Cons.prems obtain fixed' where "extend_first r fixed = Some (Inr fixed')" "fix_regions (fixed' @ [r]) rs = Some (Inr out)"
    by (auto simp only: fix_regions_Cons)
  with Cons.IH [of "fixed' @ [r]"] extend_first_starts [of r fixed fixed'] show ?case by simp
qed simp

lemma inits_apart:
  assumes "inits_overlap is = Some False" and "sorted_wrt (\<lambda>i j. fst i \<le> fst j) is"
  shows "sorted_wrt (\<lambda>i j. fst i + length (snd i) \<le> fst j) is"
  using assms
proof (induction "is")
  case (Cons i "is")
  have "init_overlaps_any i js = Some False \<Longrightarrow> \<forall>j\<in>set js. fst i \<le> fst j \<longrightarrow> fst i + length (snd i) \<le> fst j" for js
    by (induction js) (auto simp: bind_eq_Some_conv init_end_def spans_overlap_def split: if_splits)
  note any = this [of "is"]
  from Cons.prems(1) have "init_overlaps_any i is = Some False" "inits_overlap is = Some False"
    by (auto simp: bind_eq_Some_conv split: if_splits)
  with any Cons show ?case by simp
qed simp

lemma init_in_regions_True:
  "init_in_regions a e rs = Some True \<Longrightarrow> \<exists>r\<in>set rs. mr_start r \<le> a \<and> e \<le> mr_start r + size_pages r * 0x1000"
  by (induction rs) (auto simp: bind_eq_Some_conv region_end_def split: if_splits)

lemma inits_mapped_True:
  "inits_mapped rs is = Some True \<Longrightarrow> (a, bs) \<in> set is \<Longrightarrow>
     \<exists>r\<in>set rs. mr_start r \<le> a \<and> a + length bs \<le> mr_start r + size_pages r * 0x1000"
proof (induction "is")
  case (Cons i "is")
  then show ?case
    by (auto simp: bind_eq_Some_conv init_end_def split: if_splits dest!: init_in_regions_True)
qed simp

lemma context_info_new_Inr:
  assumes "context_info_new b regions inits entry cmd = Some (Inr ctx)"
  shows "fix_regions [] (sort_key mr_start regions) = Some (Inr (mem_regions ctx))" and "mem_init ctx = sort_key fst inits"
    and "inits_overlap (mem_init ctx) = Some False" and "inits_mapped (mem_regions ctx) (mem_init ctx) = Some True"
    and "\<exists>rest. command_next cmd = Some (ci_path ctx, rest) \<and> ci_args ctx = ci_path ctx # command_split rest"
proof -
  from assms obtain fixed where fixed: "fix_regions [] (sort_key mr_start regions) = Some (Inr fixed)"
    unfolding context_info_new_def try_Inr by blast
  with assms obtain ov mp where "inits_overlap (sort_key fst inits) = Some ov" "\<not> ov"
    "inits_mapped fixed (sort_key fst inits) = Some mp" "mp"
    by (auto simp: context_info_new_def Let_def bind_eq_Some_conv [of "inits_overlap _"] bind_eq_Some_conv [of "inits_mapped _ _"]
        split: if_splits)
  moreover with fixed assms obtain path rest where "command_next cmd = Some (path, rest)"
    by (cases "command_next cmd") (auto simp: context_info_new_def Let_def)
  ultimately show "fix_regions [] (sort_key mr_start regions) = Some (Inr (mem_regions ctx))" "mem_init ctx = sort_key fst inits"
    "inits_overlap (mem_init ctx) = Some False" "inits_mapped (mem_regions ctx) (mem_init ctx) = Some True"
    "\<exists>rest. command_next cmd = Some (ci_path ctx, rest) \<and> ci_args ctx = ci_path ctx # command_split rest"
    using fixed assms by (auto simp: context_info_new_def Let_def)
qed

text \<open>C10: What the loader accepts is a description that can be carried out: the initial contents are non-empty
  parts of the file, at increasing addresses without overlap, each inside one memory region; regions start at
  page boundaries in ascending order; and the first argument is the path of the program.\<close>

theorem loaded_context_sound:
  assumes "load_process_context data cmd = Some (Inr ctx)"
  shows "(\<forall>(a, bs)\<in>set (mem_init ctx). bs \<noteq> [] \<and>
       (\<exists>off. off + length bs \<le> length data \<and> bs = take (length bs) (drop off data)) \<and>
       (\<exists>r\<in>set (mem_regions ctx). mr_start r \<le> a \<and> a + length bs \<le> mr_start r + size_pages r * 0x1000)) \<and>
     sorted_wrt (\<lambda>i j. fst i + length (snd i) \<le> fst j) (mem_init ctx) \<and>
     sorted (map mr_start (mem_regions ctx)) \<and> (\<forall>r\<in>set (mem_regions ctx). mr_start r mod 0x1000 = 0) \<and>
     mem_regions ctx \<noteq> [] \<and> ci_args ctx \<noteq> [] \<and> hd (ci_args ctx) = ci_path ctx"
proof -
  from assms obtain h segs where p: "elf_parse data = Some (Inr (h, segs))" and "is_elf data"
    by (auto simp: load_process_context_def load_elf_process_def split: if_splits)
  with assms obtain rs "is" where l: "load_segments segs = Some (Inr (rs, is))" and "rs \<noteq> []"
    and c: "context_info_new False rs is (e_entry h) cmd = Some (Inr ctx)"
    by (auto simp: load_process_context_def load_elf_process_def split: if_splits)
  note ctx = context_info_new_Inr [OF c] and parts = load_segments_parts [OF l]
  have starts: "map mr_start (mem_regions ctx) = map mr_start (sort_key mr_start rs)"
    using fix_regions_starts [OF ctx(1)] by simp
  have slices: "\<exists>off. off + length bs \<le> length data \<and> bs = take (length bs) (drop off data)" if "(q, bs) \<in> set segs" for q bs
    using elf_parse_slices [OF p that] by (intro exI [of _ "p_offset q"]) auto
  have "\<forall>(a, bs)\<in>set (mem_init ctx). bs \<noteq> [] \<and> (\<exists>off. off + length bs \<le> length data \<and> bs = take (length bs) (drop off data)) \<and>
       (\<exists>r\<in>set (mem_regions ctx). mr_start r \<le> a \<and> a + length bs \<le> mr_start r + size_pages r * 0x1000)"
    using parts slices inits_mapped_True [OF ctx(4)] ctx(2) by fastforce
  moreover have "sorted_wrt (\<lambda>i j. fst i + length (snd i) \<le> fst j) (mem_init ctx)"
    using inits_apart [OF ctx(3)] sorted_sort_key [of fst "is"] unfolding ctx(2) sorted_map by blast
  moreover have "sorted (map mr_start (mem_regions ctx))" unfolding starts by simp
  moreover have "\<forall>r\<in>set (mem_regions ctx). mr_start r mod 0x1000 = 0"
  proof -
    have "\<forall>x\<in>mr_start ` set rs. x mod 0x1000 = 0" using parts [THEN conjunct1] by simp
    moreover have "mr_start ` set (mem_regions ctx) = mr_start ` set rs" using arg_cong [OF starts, of set] by simp
    ultimately show ?thesis by (metis imageI)
  qed
  moreover have "mem_regions ctx \<noteq> []" using arg_cong [OF starts, of length] \<open>rs \<noteq> []\<close> by auto
  ultimately show ?thesis using ctx(5) by auto
qed

definition tiny_elf :: "u8 list" where
  "tiny_elf = [0x7F, 0x45, 0x4C, 0x46, 2, 1, 1, 0, 0, 0, 0, 0, 0, 0, 0, 0, 2, 0, 62, 0, 1, 0, 0, 0,
     0, 0x10, 0, 0, 0, 0, 0, 0, 64, 0, 0, 0, 0, 0, 0, 0, 120, 0, 0, 0, 0, 0, 0, 0,
     0, 0, 0, 0, 64, 0, 56, 0, 1, 0, 64, 0, 1, 0, 0, 0] @
    [1, 0, 0, 0, 5, 0, 0, 0, 0, 0, 0, 0, 0, 0, 0, 0, 0, 0x10, 0, 0, 0, 0, 0, 0, 0, 0, 0, 0, 0, 0, 0, 0,
     4, 0, 0, 0, 0, 0, 0, 0, 4, 0, 0, 0, 0, 0, 0, 0, 8, 0, 0, 0, 0, 0, 0, 0] @ replicate 64 0"

lemma from_le_zeros [simp]: "from_le (replicate n 0) = 0"
  by (induction n) auto

lemma tiny_elf_parse:
  "elf_parse tiny_elf = Some (Inr (\<lparr>e_ident = take 16 tiny_elf, e_type = 2, e_machine = 62, e_version = 1, e_entry = 0x1000,
     e_phoff = 64, e_shoff = 120, e_flags = 0, e_ehsize = 64, e_phentsize = 56, e_phnum = 1, e_shentsize = 64, e_shnum = 1,
     e_shstrndx = 0\<rparr>, [(\<lparr>p_type = 1, p_flags = 5, p_offset = 0, p_vaddr = 0x1000, p_paddr = 0, p_filesz = 4, p_memsz = 4,
     p_align = 8\<rparr>, [0x7F, 0x45, 0x4C, 0x46])]))"
  by (simp add: elf_parse_def ehdr_parse_def ident_verify_def le_at_def get_section_table_def get_segment_table_def checked_simps
      phdr_at_def shdr_at_def slice_range_def index_at_def tiny_elf_def)

lemma tiny_elf_loads:
  "load_process_context tiny_elf ''init a'' = Some (Inr \<lparr>ci_is_32_bit = False,
     mem_regions = [\<lparr>mr_start = 0x1000, size_pages = 1, mr_flags = 2\<rparr>],
     mem_init = [(0x1000, [0x7F, 0x45, 0x4C, 0x46])], entry_point = 0x1000, ci_cmdline = ''init a'',
     ci_args = [''init'', ''a''], ci_path = ''init''\<rparr>)"
proof -
  have b: "bit (5 :: nat) 0" "\<not> bit (5 :: nat) 1" by (simp_all add: bit_0 bit_Suc_0_iff)
  have "is_elf tiny_elf" by (simp add: is_elf_def tiny_elf_def)
  then show ?thesis
    by (simp add: load_process_context_def load_elf_process_def tiny_elf_parse Let_def checked_simps region_new_def b div_ceil_def
        context_info_new_def init_end_def region_end_def command_next_def command_split.simps)
qed

theorem loaded_context_sound_witness:
  "\<exists>ctx. load_process_context tiny_elf ''init a'' = Some (Inr ctx) \<and> mem_regions ctx \<noteq> [] \<and> hd (ci_args ctx) = ci_path ctx"
  using loaded_context_sound [OF tiny_elf_loads] tiny_elf_loads by blast

section \<open>Overlapping regions\<close>

definition region_hits :: "MemoryRegionDescriptor \<Rightarrow> MemoryRegionDescriptor \<Rightarrow> bool" where
  "region_hits a b \<longleftrightarrow>
     spans_overlap (mr_start a) (mr_start a + size_pages a * 0x1000) (mr_start b) (mr_start b + size_pages b * 0x1000)"

definition grows :: "MemoryRegionDescriptor \<Rightarrow> MemoryRegionDescriptor \<Rightarrow> bool" where
  "grows a b \<longleftrightarrow> mr_start b = mr_start a \<and> size_pages a \<le> size_pages b \<and> mr_flags b = mr_flags a"

lemma region_hits_sym: "region_hits a b = region_hits b a"
  by (auto simp: region_hits_def spans_overlap_def)

lemma region_hits_grows:
  assumes "region_hits a b" and "grows a a'" and "grows b b'"
  shows "region_hits a' b'"
proof -
  have "mr_start a + size_pages a * 0x1000 \<le> mr_start a' + size_pages a' * 0x1000"
    "mr_start b + size_pages b * 0x1000 \<le> mr_start b' + size_pages b' * 0x1000"
    using assms(2,3) by (simp_all add: grows_def)
  with assms show ?thesis by (auto simp: region_hits_def spans_overlap_def grows_def)
qed

lemma region_overlaps_hits: "region_overlaps r x = Some v \<Longrightarrow> v = region_hits r x"
  by (auto simp: region_overlaps_def region_end_def region_hits_def bind_eq_Some_conv)

lemma extend_first_grows:
  "extend_first r os = Some (Inr os') \<Longrightarrow> list_all2 grows os os' \<and> ((\<forall>x\<in>set os. \<not> region_hits r x) \<longrightarrow> os' = os)"
proof (induction os arbitrary: os')
  case (Cons x os)
  from Cons.prems obtain ov where ov: "region_overlaps r x = Some ov" by (cases "region_overlaps r x") auto
  note hits = region_overlaps_hits [OF ov]
  have refl: "list_all2 grows xs xs" for xs by (rule list_all2_refl) (simp add: grows_def)
  show ?case
  proof (cases ov)
    case True
    with ov Cons.prems obtain n where "os' = x\<lparr>size_pages := max (size_pages x) n\<rparr> # os"
      by (auto simp: bind_eq_Some_conv split: if_splits)
    with True hits refl [of os] show ?thesis by (auto simp: grows_def [of x])
  next
    case False
    with ov Cons.prems obtain ys where "extend_first r os = Some (Inr ys)" "os' = x # ys" by auto
    with Cons.IH [of ys] show ?thesis by (simp add: grows_def)
  qed
qed simp

lemma grows_trans: "grows a b \<Longrightarrow> grows b c \<Longrightarrow> grows a c"
  by (simp add: grows_def)

definition clash_free :: "MemoryRegionDescriptor list \<Rightarrow> bool" where
  "clash_free rs \<longleftrightarrow> sorted_wrt (\<lambda>a b. \<not> region_hits a b) rs"

lemma fix_regions_grows:
  "fix_regions fixed rs = Some (Inr out) \<Longrightarrow> list_all2 grows (fixed @ rs) out \<and> (clash_free (fixed @ rs) \<longrightarrow> out = fixed @ rs)"
proof (induction rs arbitrary: fixed)
  case Nil
  then show ?case by (auto intro: list_all2_refl simp: grows_def)
next
  case (Cons r rs)
  from Cons.prems obtain fixed' where e: "extend_first r fixed = Some (Inr fixed')"
    and f: "fix_regions (fixed' @ [r]) rs = Some (Inr out)"
    by (auto simp only: fix_regions_Cons)
  note g = extend_first_grows [OF e] and ih = Cons.IH [OF f]
  have refl: "list_all2 grows xs xs" for xs by (rule list_all2_refl) (simp add: grows_def)
  have "list_all2 grows (fixed @ r # rs) (fixed' @ r # rs)"
    using g refl [of "r # rs"] by (blast intro: list_all2_appendI)
  with ih have "list_all2 grows (fixed @ r # rs) out" using list_all2_trans [of grows grows grows] grows_trans by fastforce
  moreover have "out = fixed @ r # rs" if "clash_free (fixed @ r # rs)"
  proof -
    from that have "\<forall>x\<in>set fixed. \<not> region_hits r x" by (auto simp: clash_free_def sorted_wrt_append region_hits_sym)
    with g have "fixed' = fixed" by simp
    with ih that show ?thesis by simp
  qed
  ultimately show ?case by blast
qed

lemma clash_free_grows:
  assumes "list_all2 grows xs ys" and "clash_free ys"
  shows "clash_free xs"
  unfolding clash_free_def sorted_wrt_iff_nth_less
proof (intro allI impI)
  fix i j
  assume ij: "i < j" "j < length xs"
  with assms(1) have "grows (xs ! i) (ys ! i)" "grows (xs ! j) (ys ! j)" "j < length ys"
    by (auto simp: list_all2_conv_all_nth)
  with assms(2) ij region_hits_grows [of "xs ! i" "xs ! j" "ys ! i" "ys ! j"] show "\<not> region_hits (xs ! i) (xs ! j)"
    by (auto simp: clash_free_def sorted_wrt_iff_nth_less)
qed

text \<open>C32: The regions of a process context are in ascending order, as \<open>ContextInfo\<close> promises, but its second promise,
  that they do not overlap, holds exactly when the regions of the file did not overlap already: a
  region that overlaps an earlier one with the same flags extends that one and is then kept as well.\<close>

theorem context_regions_overlap_iff:
  assumes "context_info_new b regions inits entry cmd = Some (Inr ctx)"
  shows "length (mem_regions ctx) = length regions \<and> sorted (map mr_start (mem_regions ctx)) \<and>
    (clash_free (mem_regions ctx) \<longleftrightarrow> clash_free (sort_key mr_start regions))"
proof -
  note fix' = context_info_new_Inr(1) [OF assms]
  from fix_regions_grows [OF fix'] have g: "list_all2 grows (sort_key mr_start regions) (mem_regions ctx)"
    "clash_free (sort_key mr_start regions) \<Longrightarrow> mem_regions ctx = sort_key mr_start regions" by auto
  have "sorted (map mr_start (mem_regions ctx))" using fix_regions_starts [OF fix'] by simp
  with g clash_free_grows [OF g(1)] list_all2_lengthD [OF g(1)] show ?thesis by (auto simp del: sort_key_simps)
qed

theorem context_regions_overlap_iff_witness:
  "\<exists>ctx. context_info_new False [\<lparr>mr_start = 0x1000, size_pages = 1, mr_flags = 1\<rparr>, \<lparr>mr_start = 0x1000, size_pages = 2, mr_flags = 1\<rparr>]
     [] 0x1000 ''init'' = Some (Inr ctx) \<and> \<not> clash_free (mem_regions ctx)"
proof -
  let ?rs = "[\<lparr>mr_start = 0x1000, size_pages = 1, mr_flags = 1\<rparr>, \<lparr>mr_start = 0x1000, size_pages = 2, mr_flags = 1\<rparr>]"
  have "\<exists>ctx. context_info_new False ?rs [] 0x1000 ''init'' = Some (Inr ctx)"
    by (simp add: context_info_new_def region_overlaps_def region_end_def checked_simps spans_overlap_def command_next_def)
  then obtain ctx where c: "context_info_new False ?rs [] 0x1000 ''init'' = Some (Inr ctx)" by blast
  have "\<not> clash_free (sort_key mr_start ?rs)" by (simp add: clash_free_def region_hits_def spans_overlap_def)
  with context_regions_overlap_iff [OF c] c show ?thesis by blast
qed

section \<open>Splitting a command line\<close>

definition escape :: "char \<Rightarrow> string" where
  "escape c = (if c = CHR '' '' \<or> c = CHR 0x5C then [CHR 0x5C, c] else [c])"

primrec join_words :: "string list \<Rightarrow> string" where
  "join_words [] = []"
| "join_words (w # ws) = concat (map escape w) @ (if ws = [] then [] else CHR '' '' # join_words ws)"

lemma command_loop_escape: "command_loop b p (escape c @ s) = command_loop (b @ [c]) True s"
  by (cases s) (simp_all add: escape_def unescape_def)

lemma command_loop_word:
  "command_loop b p (concat (map escape w) @ s) = command_loop (b @ w) (p \<or> w \<noteq> []) s"
  by (induction w arbitrary: b p) (simp_all add: command_loop_escape)

lemma command_loop_space: "command_loop b p (CHR '' '' # s) = Some (b, s)"
  by (cases s) simp_all

lemma command_next_word:
  "command_next (concat (map escape w) @ CHR '' '' # s) = Some (w, s)"
  "w \<noteq> [] \<Longrightarrow> command_next (concat (map escape w)) = Some (w, [])"
  using command_loop_word [of "[]" False w "[]"] by (simp_all add: command_next_def command_loop_word command_loop_space)

text \<open>Splitting undoes quoting: words that are written with a backslash before spaces and backslashes,
  and joined by spaces, come back as they were, empty words in the middle included. Only an empty last word
  is lost.\<close>

theorem command_split_join:
  assumes "ws \<noteq> []" and "last ws \<noteq> []"
  shows "command_split (join_words ws) = ws"
  using assms
proof (induction ws)
  case (Cons w ws)
  show ?case
  proof (cases "ws = []")
    case True
    moreover have "command_split [] = []" by (simp add: command_split.simps [of "[]"] command_next_def)
    ultimately show ?thesis using Cons.prems command_next_word(2) [of w]
      by (simp add: command_split.simps [of "concat (map escape w)"])
  next
    case False
    with Cons show ?thesis
      by (simp add: command_split.simps [of "concat (map escape w) @ _"] command_next_word(1))
  qed
qed simp

end
