(* ===== verification/ProcessBuilder.thy ===== *)
theory ProcessBuilder
  imports ElfLoader
begin

text \<open>
  Building a process from a context (\<open>proc/context/builder.rs\<close>): an address space with the kernel's upper
  half, the segments, a stack and the arguments, and the process object that the scheduler takes over. The
  builder loads the new page tree into the processor to write through it, so the bytes of user memory are
  kept for every root table; a write to an address without a writeable page is \<open>None\<close>.
\<close>

section \<open>State\<close>

record builder =
  bd_kernel :: kernel
  bd_space :: "nat \<Rightarrow> nat \<Rightarrow> u8"

abbreviation bd_heap :: "builder \<Rightarrow> ns_heap" where
  "bd_heap s \<equiv> k_heap (bd_kernel s)"

abbreviation bd_pt :: "builder \<Rightarrow> pt_mem" where
  "bd_pt s \<equiv> ns_pt (bd_heap s)"

definition current_root :: "nat \<Rightarrow> builder \<Rightarrow> nat" where
  "current_root c s = page_root (k_procs (bd_kernel s)) c"

definition set_page_tree_root :: "nat \<Rightarrow> nat \<Rightarrow> builder \<Rightarrow> builder" where
  "set_page_tree_root c root s =
     s\<lparr>bd_kernel := (bd_kernel s)\<lparr>k_procs := (k_procs (bd_kernel s))\<lparr>page_root := (page_root (k_procs (bd_kernel s)))(c := root)\<rparr>\<rparr>\<rparr>"

definition with_heap :: "ns_heap \<Rightarrow> builder \<Rightarrow> builder" where
  "with_heap h s = s\<lparr>bd_kernel := (bd_kernel s)\<lparr>k_heap := h\<rparr>\<rparr>"

definition with_pt :: "pt_mem \<Rightarrow> builder \<Rightarrow> builder" where
  "with_pt m s = with_heap ((bd_heap s)\<lparr>ns_pt := m\<rparr>) s"

text \<open>\<open>Arc::new\<close> of a range.\<close>

definition new_arc :: "VirtualMemoryRange \<Rightarrow> builder \<Rightarrow> nat \<times> builder" where
  "new_arc r s =
     (let a = k_next_arc (bd_kernel s)
      in (a, s\<lparr>bd_kernel := (bd_kernel s)\<lparr>k_heap := (bd_heap s)\<lparr>arcs := (arcs (bd_heap s))(a \<mapsto> (r, 1))\<rparr>, k_next_arc := a + 1\<rparr>\<rparr>))"

definition user_writeable :: "nat \<Rightarrow> pt_mem \<Rightarrow> nat \<Rightarrow> bool" where
  "user_writeable root m addr =
     (case get_page_table_entry_at_level root addr 1 False m of
        Some (Some (t, i), _) \<Rightarrow> (case read_entry m t i of Some e \<Rightarrow> present e \<and> writeable e | None \<Rightarrow> False)
      | _ \<Rightarrow> False)"

definition write_user :: "nat \<Rightarrow> nat \<Rightarrow> u8 list \<Rightarrow> builder \<Rightarrow> builder option" where
  "write_user c addr bs s =
     (let root = current_root c s
      in panic_unless (list_all (user_writeable root (bd_pt s)) [addr..<addr + length bs]) \<bind> (\<lambda>_.
         Some (s\<lparr>bd_space := (bd_space s)(root := store_bytes addr bs (bd_space s root))\<rparr>)))"

section \<open>The address space\<close>

definition build_empty_memory_namespace :: "nat \<Rightarrow> builder \<Rightarrow> (MemoryNamespace \<times> builder) option" where
  "build_empty_memory_namespace c s =
     (case new_namespace_id (bd_kernel s) of (i, k) \<Rightarrow>
      create_empty i (k_heap k) \<bind> (\<lambda>(ns, h).
      copy_higher_half (current_root c s) (page_tree_root ns) (ns_pt h) \<bind> (\<lambda>m.
      Some (ns, s\<lparr>bd_kernel := k\<lparr>k_heap := h\<lparr>ns_pt := m\<rparr>\<rparr>\<rparr>))))"

text \<open>The loop over the regions: the pages of each are allocated in the range of the process.\<close>

primrec map_regions ::
  "nat \<Rightarrow> MemoryRegionDescriptor list \<Rightarrow> VirtualMemoryRange \<Rightarrow> pt_mem \<Rightarrow> (unit kresult \<times> VirtualMemoryRange \<times> pt_mem) option" where
  "map_regions bound [] r m = Some (Inr (), r, m)"
| "map_regions bound (x # xs) r m =
     panic_unless (mr_start x mod 0x1000 = 0) \<bind> (\<lambda>_.
     region_end x \<bind> (\<lambda>e.
     if e > bound then Some (Inl InvalidProcessFile, r, m)
     else allocate_manual_external r (mr_start x div 0x1000 mod 2 ^ 32) (e div 0x1000 mod 2 ^ 32) m \<bind> (\<lambda>(res, r', m').
          case res of Inl err \<Rightarrow> Some (Inl err, r', m') | Inr _ \<Rightarrow> map_regions bound xs r' m')))"

primrec copy_inits :: "nat \<Rightarrow> mem_init list \<Rightarrow> builder \<Rightarrow> builder option" where
  "copy_inits c [] s = Some s"
| "copy_inits c (x # xs) s = write_user c (fst x) (snd x) s \<bind> copy_inits c xs"

primrec protect_regions :: "nat \<Rightarrow> MemoryRegionDescriptor list \<Rightarrow> pt_mem \<Rightarrow> pt_mem option" where
  "protect_regions root [] m = Some m"
| "protect_regions root (x # xs) m =
     region_end x \<bind> (\<lambda>e.
     vmm_set_prot root (mr_start x) e \<lparr>perm_write = bit (mr_flags x) 0, perm_execute = bit (mr_flags x) 1\<rparr> 4 0 m \<bind>
     protect_regions root xs)"

text \<open>The namespace is moved into \<open>build_initialized_memory_namespace\<close>: an early return drops it after the
  range that was not mapped yet.\<close>

definition build_initialized_memory_namespace ::
  "nat \<Rightarrow> ContextInfo \<Rightarrow> MemoryNamespace \<Rightarrow> builder \<Rightarrow> (MemoryNamespace kresult \<times> builder) option" where
  "build_initialized_memory_namespace c ctx ns s =
     create C05TB \<lparr>perm_write = True, perm_execute = False\<rparr> Manual (bd_pt s) \<bind> (\<lambda>(range0, m0).
     reserved_range range0 0 \<bind> (\<lambda>bounds.
     map_regions (snd bounds) (mem_regions ctx) range0 m0 \<bind> (\<lambda>(res, range, m1).
     case res of
       Inl e \<Rightarrow>
         drop_memory_range range m1 \<bind> (\<lambda>m2.
         drop_namespace ns ((bd_heap s)\<lparr>ns_pt := m2\<rparr>) \<bind> (\<lambda>h. Some (Inl e, with_heap h s)))
     | Inr _ \<Rightarrow>
         (case new_arc range (with_pt m1 s) of (a, s1) \<Rightarrow>
          arc_clone a (bd_heap s1) \<bind> (\<lambda>h1.
          add_mem_range a (ci_path ctx) Code 0 ns h1 \<bind> (\<lambda>(added, ns', h2).
          panic_unless (\<not> isl added) \<bind> (\<lambda>_.
          copy_inits c (mem_init ctx) (with_heap h2 s1) \<bind> (\<lambda>s2.
          protect_regions (current_root c s2) (mem_regions ctx) (bd_pt s2) \<bind> (\<lambda>m3.
          arc_drop a ((bd_heap s2)\<lparr>ns_pt := m3\<rparr>) \<bind> (\<lambda>h3. Some (Inr ns', with_heap h3 s2)))))))))))"

definition add_stack ::
  "nat \<Rightarrow> nat \<Rightarrow> MemoryNamespace \<Rightarrow> builder \<Rightarrow> (unit kresult \<times> MemoryNamespace \<times> builder) option" where
  "add_stack c stack_size_pages ns s =
     find_hole C1GB ns (bd_heap s) \<bind> (\<lambda>hole.
     case hole of
       None \<Rightarrow> Some (Inl OutOfMemory, ns, s)
     | Some area \<Rightarrow>
         create C1GB \<lparr>perm_write = True, perm_execute = False\<rparr> (Managed Down) (bd_pt s) \<bind> (\<lambda>(range0, m0).
         expand_to range0 stack_size_pages m0 \<bind> (\<lambda>(res, range, m1).
         panic_unless (\<not> isl res) \<bind> (\<lambda>_.
         reserved_range range area \<bind> (\<lambda>(_, stack_highest_addr).
         case new_arc range (with_pt m1 s) of (a, s1) \<Rightarrow>
         add_mem_range a ''[stack]'' Stack area ns (bd_heap s1) \<bind> (\<lambda>(added, ns', h).
         case added of
           Inl e \<Rightarrow> Some (Inl e, ns', with_heap h s1)
         | Inr _ \<Rightarrow>
             checked_sub stack_highest_addr 0x08 \<bind> (\<lambda>p. write_user c p (le_bytes 8 0) (with_heap h s1)) \<bind> (\<lambda>s2.
             checked_sub stack_highest_addr 0x10 \<bind> (\<lambda>p. write_user c p (le_bytes 8 0) s2) \<bind> (\<lambda>s3.
             Some (Inr (), ns', s3)))))))))"

section \<open>Arguments\<close>

definition args_capacity :: "nat \<Rightarrow> VirtualMemoryRangeCapacity" where
  "args_capacity combined_size =
     (if combined_size \<ge> 2 ^ 30 then C1GB else if combined_size \<ge> 2 ^ 21 then C2MB else C4KB)"

definition args_size :: "string list \<Rightarrow> nat" where
  "args_size args = sum_list (map (\<lambda>a. length a + 1) args)"

definition args_padding :: "string list \<Rightarrow> nat" where
  "args_padding args = (8 - args_size args mod 8) mod 8"

definition args_total :: "string list \<Rightarrow> nat option" where
  "args_total args =
     panic_unless (args_size args < 2 ^ 64) \<bind> (\<lambda>_.
     checked_mul 64 (length args) 8 \<bind> (\<lambda>table.
     checked_add 64 (args_size args) table \<bind> (\<lambda>n. checked_add 64 n (args_padding args))))"

fun write_arg_table :: "nat \<Rightarrow> string list \<Rightarrow> nat \<Rightarrow> nat \<Rightarrow> builder \<Rightarrow> builder option" where
  "write_arg_table c [] current_addr table_addr s = Some s"
| "write_arg_table c (x # args) current_addr table_addr s =
     write_user c table_addr (le_bytes 8 current_addr) s \<bind> (\<lambda>s1.
     checked_add 64 table_addr 8 \<bind> (\<lambda>table_addr'.
     write_user c current_addr (bytes_of_string x) s1 \<bind> (\<lambda>s2.
     checked_add 64 current_addr (length x) \<bind> (\<lambda>terminator.
     write_user c terminator [0] s2 \<bind> (\<lambda>s3.
     checked_add 64 terminator 1 \<bind> (\<lambda>current_addr'.
     write_arg_table c args current_addr' table_addr' s3))))))"

definition add_args ::
  "nat \<Rightarrow> string list \<Rightarrow> MemoryNamespace \<Rightarrow> builder \<Rightarrow> ((nat \<times> nat) kresult \<times> MemoryNamespace \<times> builder) option" where
  "add_args c args ns s =
     args_total args \<bind> (\<lambda>combined_size.
     if combined_size = 0 then Some (Inr (0, 0), ns, s)
     else let capacity = args_capacity combined_size
          in find_hole capacity ns (bd_heap s) \<bind> (\<lambda>hole.
             case hole of
               None \<Rightarrow> Some (Inl OutOfMemory, ns, s)
             | Some area \<Rightarrow>
                 create capacity \<lparr>perm_write = True, perm_execute = False\<rparr> Manual (bd_pt s) \<bind> (\<lambda>(range0, m0).
                 allocate_manual_external range0 0 (div_ceil combined_size 0x1000 mod 2 ^ 32) m0 \<bind> (\<lambda>(res, range, m1).
                 case res of
                   Inl e \<Rightarrow> drop_memory_range range m1 \<bind> (\<lambda>m2. Some (Inl e, ns, with_pt m2 s))
                 | Inr _ \<Rightarrow>
                     checked_add 64 area (args_size args) \<bind> (\<lambda>args_end_addr.
                     case new_arc range (with_pt m1 s) of (a, s1) \<Rightarrow>
                     add_mem_range a ''[args]'' StaticData area ns (bd_heap s1) \<bind> (\<lambda>(added, ns', h).
                     case added of
                       Inl e \<Rightarrow> Some (Inl e, ns', with_heap h s1)
                     | Inr _ \<Rightarrow>
                         checked_add 64 args_end_addr (args_padding args) \<bind> (\<lambda>table_start_addr.
                         write_arg_table c args area table_start_addr (with_heap h s1) \<bind> (\<lambda>s2.
                         Some (Inr (length args, table_start_addr), ns', s2)))))))))"

section \<open>The process\<close>

definition DEFAULT_PROC_STACK_SIZE :: nat where
  "DEFAULT_PROC_STACK_SIZE = 0x1000"

definition abandon ::
  "nat \<Rightarrow> nat \<Rightarrow> KernelErrorCode \<Rightarrow> MemoryNamespace \<Rightarrow> builder \<Rightarrow> ((MemoryNamespace \<times> nat \<times> nat) kresult \<times> builder) option" where
  "abandon c root e ns s =
     drop_namespace ns (bd_heap s) \<bind> (\<lambda>h. Some (Inl e, with_heap h (set_page_tree_root c root s)))"

definition build_mem_namespace_for_new_proc ::
  "nat \<Rightarrow> ContextInfo \<Rightarrow> builder \<Rightarrow> ((MemoryNamespace \<times> nat \<times> nat) kresult \<times> builder) option" where
  "build_mem_namespace_for_new_proc c ctx s =
     build_empty_memory_namespace c s \<bind> (\<lambda>(ns0, s1).
     let root = current_root c s1
     in build_initialized_memory_namespace c ctx ns0 (set_page_tree_root c (page_tree_root ns0) s1) \<bind> (\<lambda>(res, s2).
        case res of
          Inl e \<Rightarrow> Some (Inl e, s2)
        | Inr ns1 \<Rightarrow>
            add_stack c (div_ceil DEFAULT_PROC_STACK_SIZE 0x1000 mod 2 ^ 8) ns1 s2 \<bind> (\<lambda>(stack, ns2, s3).
            case stack of
              Inl e \<Rightarrow> abandon c root e ns2 s3
            | Inr _ \<Rightarrow>
                add_args c (ci_args ctx) ns2 s3 \<bind> (\<lambda>(args, ns3, s4).
                case args of
                  Inl e \<Rightarrow> abandon c root e ns3 s4
                | Inr argc_argv \<Rightarrow> Some (Inr (ns3, argc_argv), set_page_tree_root c root s4)))))"

text \<open>\<open>ProcNamespaces::new\<close> keeps two references to each namespace.\<close>

definition own_namespace :: "nat \<Rightarrow> namespace \<Rightarrow> kernel \<Rightarrow> kernel" where
  "own_namespace i n k = clone_namespace i (new_namespace i n k)"

definition create_process_from_context ::
  "nat \<Rightarrow> ContextInfo \<Rightarrow> FileHandle \<Rightarrow> builder \<Rightarrow> (nat kresult \<times> builder) option" where
  "create_process_from_context c ctx h s =
     (let procs = k_procs (bd_kernel s);
          pid = process_id_counter procs mod 2 ^ 32;
          s0 = s\<lparr>bd_kernel := (bd_kernel s)\<lparr>k_procs := procs\<lparr>process_id_counter := process_id_counter procs + 1\<rparr>\<rparr>\<rparr>
      in build_mem_namespace_for_new_proc c ctx s0 \<bind> (\<lambda>(res, s1).
         case res of
           Inl e \<Rightarrow> Some (Inl e, s1)
         | Inr (mem, argc, argv) \<Rightarrow>
             find (\<lambda>r. range_type r = Stack) (memory_ranges mem) \<bind> (\<lambda>stack.
             owned_range (bd_heap s1) stack \<bind> (\<lambda>(_, stack_end).
             checked_sub stack_end 16 \<bind> (\<lambda>rsp.
             case new_namespace_id (bd_kernel s1) of (sys_id, k1) \<Rightarrow>
             sys_default sys_id (k_registry k1) \<bind> (\<lambda>sys.
             case new_namespace_id k1 of (fs_id, k2) \<Rightarrow>
             let k3 = own_namespace fs_id (NsFs (fs_namespace_new fs_id h))
                        (own_namespace sys_id (NsSyscall sys) (own_namespace (ns_id mem) (NsMem mem) k2));
                 st = set_arg_registers (word_of_nat argc) (word_of_nat argv) 0
                        (interrupt_state_new (word_of_nat (entry_point ctx)) (word_of_nat rsp));
                 d = process_new pid (ci_is_32_bit ctx) (ci_cmdline ctx) (Interrupt st) (page_tree_root mem)
                       (proc_namespaces_new (ns_id mem) sys_id fs_id)
             in Some (Inr pid, s1\<lparr>bd_kernel := k3\<lparr>k_procs := accept_new_process pid d (k_procs k3)\<rparr>\<rparr>)))))))"

section \<open>Frames that are given back\<close>

definition released :: "nat \<Rightarrow> pt_mem \<Rightarrow> pt_mem \<Rightarrow> bool" where
  "released j m m' \<longleftrightarrow> tree_ok j (frames m') \<and> tables m' = tables m \<and> max_ram_addr m' = max_ram_addr m \<and>
     (\<forall>q. used j (frames m') q \<longrightarrow> used j (frames m) q)"

lemma released_refl: "tree_ok j (frames m) \<Longrightarrow> released j m m"
  by (simp add: released_def)

lemma released_trans: "released j m m1 \<Longrightarrow> released j m1 m2 \<Longrightarrow> released j m m2"
  by (simp add: released_def)

definition ram_ok :: "nat \<Rightarrow> pt_mem \<Rightarrow> bool" where
  "ram_ok j m \<longleftrightarrow> tree_ok j (frames m) \<and> max_ram_addr m < 2 ^ j * 4096"

lemma released_ram_ok: "released j m m' \<Longrightarrow> ram_ok j m \<Longrightarrow> ram_ok j m'"
  by (simp add: released_def ram_ok_def)

lemma deallocate_frame_used:
  assumes "tree_ok j b" and "p < 2 ^ j" and "deallocate_frame b (p * 4096) = Some b'"
  shows "tree_ok j b' \<and> used j b' = (used j b)(p := False)"
proof -
  have "binary_tree_size b = 2 * 2 ^ j" using assms(1) by (simp add: tree_ok_def)
  with mark_index_used [OF assms(1,2), of False] assms(3) show ?thesis
    by (auto simp: deallocate_frame_def mark_addr_def bind_eq_Some_conv add.commute tree_ok_def used_def fun_eq_iff)
qed

lemma drop_addr_released:
  assumes "ram_ok j m" and "drop_addr a m = Some m'"
  shows "released j m m'" and "a = p * 4096 \<Longrightarrow> p \<noteq> 0 \<Longrightarrow> a \<le> max_ram_addr m \<Longrightarrow> \<not> used j (frames m') p"
proof -
  from assms(2) obtain b where b: "drop_owned_addr (max_ram_addr m) a (frames m) = Some b" "m' = m\<lparr>frames := b\<rparr>"
    by (auto simp: drop_addr_def bind_eq_Some_conv)
  have ok: "tree_ok j (frames m)" "max_ram_addr m < 2 ^ j * 4096" using assms(1) by (simp_all add: ram_ok_def)
  have "released j m m' \<and> (a = p * 4096 \<and> p \<noteq> 0 \<and> a \<le> max_ram_addr m \<longrightarrow> \<not> used j (frames m') p)"
  proof (cases "a = 0 \<or> max_ram_addr m < a")
    case True
    with b ok show ?thesis
      by (auto simp: drop_owned_addr_def drop_owned_range_def deallocate_by_ref_def is_on_ram_def released_def)
  next
    case False
    with b have d: "deallocate_frame (frames m) a = Some b"
      by (auto simp: drop_owned_addr_def drop_owned_range_def deallocate_by_ref_def is_on_ram_def deallocate_def
          bind_eq_Some_conv split: if_splits)
    then have "a mod 4096 = 0" by (auto simp: deallocate_frame_def mark_addr_def bind_eq_Some_conv)
    then obtain r where r: "a = r * 4096" by (metis mod_0_imp_dvd dvd_def mult.commute)
    with False ok have "r < 2 ^ j" by simp
    from deallocate_frame_used [OF ok(1) this d [unfolded r]] b r show ?thesis by (auto simp: released_def)
  qed
  then show "released j m m'" "a = p * 4096 \<Longrightarrow> p \<noteq> 0 \<Longrightarrow> a \<le> max_ram_addr m \<Longrightarrow> \<not> used j (frames m') p" by auto
qed

text \<open>Deleting a tree gives back the frame of its root and the tables its entries name; no frame
  becomes used.\<close>

lemma delete_entries_released:
  assumes lower: "\<And>t n n'. ram_ok j n \<Longrightarrow> lower t n = Some n' \<Longrightarrow> released j n n'"
    and frees: "\<And>p n n'. ram_ok j n \<Longrightarrow> lower (p * 4096) n = Some n' \<Longrightarrow> p \<noteq> 0 \<Longrightarrow> p * 4096 \<le> max_ram_addr n \<Longrightarrow>
      \<not> used j (frames n') p"
  shows "ram_ok j m \<Longrightarrow> delete_entries lower l False es m = Some m' \<Longrightarrow> released j m m' \<and>
    (\<forall>e p. e \<in> set es \<and> present e \<and> \<not> huge_page e \<and> l \<noteq> 0 \<and> unat (entry_address e) = p * 4096 \<and> p \<noteq> 0 \<and>
       p * 4096 \<le> max_ram_addr m \<longrightarrow> \<not> used j (frames m') p)"
proof (induction es arbitrary: m)
  case Nil
  then show ?case by (simp add: released_refl ram_ok_def)
next
  case (Cons e es)
  from Cons.prems(2) obtain m1 where m1: "(if \<not> present e \<or> l = 0 \<or> huge_page e then Some m
      else lower (unat (entry_address e)) m) = Some m1" and r: "delete_entries lower l False es m1 = Some m'"
    by (auto simp: bind_eq_Some_conv split: if_splits)
  have rel: "released j m m1" using m1 lower [OF Cons.prems(1)] Cons.prems(1)
    by (auto simp: released_refl ram_ok_def split: if_splits)
  note ih = Cons.IH [OF released_ram_ok [OF rel Cons.prems(1)] r]
  have "\<not> used j (frames m') p" if "present e" "\<not> huge_page e" "l \<noteq> 0" "unat (entry_address e) = p * 4096" "p \<noteq> 0"
    "p * 4096 \<le> max_ram_addr m" for p
    using frees [OF Cons.prems(1), of p m1] m1 that ih by (auto simp: released_def)
  moreover have "max_ram_addr m1 = max_ram_addr m" using rel by (simp add: released_def)
  ultimately show ?case using ih released_trans [OF rel] by auto
qed

lemma delete_released:
  "(\<forall>t m m'. ram_ok j m \<longrightarrow> delete l False t m = Some m' \<longrightarrow> released j m m') \<and>
   (\<forall>p m m'. l \<noteq> 0 \<longrightarrow> ram_ok j m \<longrightarrow> delete l False (p * 4096) m = Some m' \<longrightarrow> p \<noteq> 0 \<longrightarrow>
     p * 4096 \<le> max_ram_addr m \<longrightarrow> \<not> used j (frames m') p)"
proof (induction l)
  case 0
  then show ?case by (simp add: released_refl ram_ok_def)
next
  case (Suc l)
  have step: "\<exists>m1. released j m m1 \<and> drop_addr t m1 = Some m'" if "ram_ok j m" "delete (Suc l) False t m = Some m'" for t m m'
  proof (cases "l = 0")
    case True
    with that show ?thesis by (auto simp: ram_ok_def intro: released_refl)
  next
    case False
    with that(2) obtain es m1 where "tables m t = Some es" "delete_entries (delete l False) l False es m = Some m1"
      "drop_addr t m1 = Some m'" by (auto simp: bind_eq_Some_conv)
    moreover have "released j m m1"
      using delete_entries_released [of j "delete l False" m l es m1] Suc False that(1) calculation by blast
    ultimately show ?thesis by blast
  qed
  have "released j m m'" if "ram_ok j m" "delete (Suc l) False t m = Some m'" for t m m'
    using step [OF that] drop_addr_released(1) released_ram_ok [OF _ that(1)] released_trans by blast
  moreover have "\<not> used j (frames m') p" if "ram_ok j m" "delete (Suc l) False (p * 4096) m = Some m'" "p \<noteq> 0"
    "p * 4096 \<le> max_ram_addr m" for p m m'
  proof -
    from step [OF that(1,2)] obtain m1 where m1: "released j m m1" "drop_addr (p * 4096) m1 = Some m'" by blast
    show ?thesis
      by (rule drop_addr_released(2) [OF released_ram_ok [OF m1(1) that(1)] m1(2)]) (use that m1(1) in \<open>auto simp: released_def\<close>)
  qed
  ultimately show ?case by blast
qed

lemma delete_root:
  "delete 4 False t m = tables m t \<bind> (\<lambda>es. delete_entries (delete 3 False) 3 False es m) \<bind> drop_addr t"
  using delete.simps(2) [of 3 False t m] by simp

lemma copy_entries_frames:
  "copy_entries t t' is m = Some m' \<Longrightarrow> frames m' = frames m \<and> max_ram_addr m' = max_ram_addr m"
proof (induction "is" arbitrary: m)
  case (Cons i "is")
  then obtain e m1 where "write_entry m t' i e = Some m1" "copy_entries t t' is m1 = Some m'" by (auto simp: bind_eq_Some_conv)
  with Cons.IH write_entry_frames show ?case by metis
qed simp

text \<open>A fresh address space: its root is a frame that was free, its upper half is that of the current tree.\<close>

lemma build_empty_fresh:
  assumes wf: "buddy_wf j (frames (bd_pt s))" and build: "build_empty_memory_namespace c s = Some (ns, s1)"
  shows "\<exists>q. page_tree_root ns = q * 4096 \<and> q \<in> free_frames j (frames (bd_pt s)) \<and> memory_ranges ns = [] \<and>
    buddy_wf j (frames (bd_pt s1)) \<and> used j (frames (bd_pt s1)) = (used j (frames (bd_pt s)))(q := True) \<and>
    max_ram_addr (bd_pt s1) = max_ram_addr (bd_pt s) \<and> k_procs (bd_kernel s1) = k_procs (bd_kernel s) \<and>
    copy_higher_half (current_root c s) (q * 4096) (clear_table ((bd_pt s)\<lparr>frames := frames (bd_pt s1)\<rparr>) (q * 4096)) = Some (bd_pt s1)"
proof -
  from build obtain a b m where a: "allocate_frame (frames (bd_pt s)) = Some (a, b)"
    and m: "copy_higher_half (current_root c s) a (clear_table ((bd_pt s)\<lparr>frames := b\<rparr>) a) = Some m"
    and ns: "page_tree_root ns = a" "memory_ranges ns = []" "bd_pt s1 = m" "k_procs (bd_kernel s1) = k_procs (bd_kernel s)"
    by (auto simp: build_empty_memory_namespace_def new_namespace_id_def create_empty_def alloc_zeroed_def alloc_frame_def
        bind_eq_Some_conv)
  have fr: "frames m = b" "max_ram_addr m = max_ram_addr (bd_pt s)"
    using copy_entries_frames [OF m [unfolded copy_higher_half_def]] by (simp_all add: clear_table_def)
  have ne: "free_frames j (frames (bd_pt s)) \<noteq> {}" using allocate_frame_wf [OF wf] a by (auto split: if_splits)
  then have "Max (free_frames j (frames (bd_pt s))) \<in> free_frames j (frames (bd_pt s))" by simp
  with allocate_frame_wf [OF wf] ne a m ns fr show ?thesis by (intro exI [of _ "Max (free_frames j (frames (bd_pt s)))"]) auto
qed

section \<open>A small machine\<close>

text \<open>Eight frames, of which the upper ones are in use.\<close>

definition holds :: "BuddyAllocator \<Rightarrow> nat set \<Rightarrow> bool" where
  "holds b U \<longleftrightarrow> buddy_wf 3 b \<and> taken_frames 3 b = U \<and> BuddyAllocator.allocated_pages b = card U"

lemma holds_tiny: "holds tiny_buddy {}"
  using tiny_wf tiny_bits by (auto simp: holds_def taken_frames_def used_def tiny_buddy_def)

lemma holds_used: "holds b U \<Longrightarrow> p < 8 \<Longrightarrow> used 3 b p \<longleftrightarrow> p \<in> U"
  by (auto simp: holds_def taken_frames_def)

lemma holds_insert:
  assumes "holds b U" and "p < 8" and "p \<notin> U" and "buddy_wf 3 b'" and "used 3 b' = (used 3 b)(p := True)"
    and "BuddyAllocator.allocated_pages b' = BuddyAllocator.allocated_pages b + 1"
  shows "holds b' (insert p U)"
proof -
  have "taken_frames 3 b = U" "finite U" using assms(1) by (auto simp: holds_def taken_frames_def)
  then show ?thesis using assms by (auto simp: holds_def taken_frames_def)
qed

lemma holds_alloc:
  assumes "holds b U" and "p < 8" and "p \<notin> U" and "\<forall>q. p < q \<and> q < 8 \<longrightarrow> q \<in> U"
  shows "\<exists>b'. allocate_frame b = Some (p * 4096, b') \<and> holds b' (insert p U)"
proof -
  have wf: "buddy_wf 3 b" using assms(1) by (simp add: holds_def)
  have free: "free_frames 3 b = {q. q < 8 \<and> q \<notin> U}" using holds_used [OF assms(1)] by (auto simp: free_frames_def)
  have "Max (free_frames 3 b) = p"
    unfolding free by (rule Max_eqI) (use assms(2-4) in \<open>auto simp: not_less [symmetric]\<close>)
  moreover have "free_frames 3 b \<noteq> {}" using assms(2,3) by (auto simp: free)
  ultimately obtain b' where "allocate_frame b = Some (p * 4096, b')" "buddy_wf 3 b'"
    "used 3 b' = (used 3 b)(p := True)" "BuddyAllocator.allocated_pages b' = BuddyAllocator.allocated_pages b + 1"
    using allocate_frame_wf [OF wf] by auto
  with holds_insert [OF assms(1-3)] show ?thesis by blast
qed

text \<open>Frame 0 is taken from below, the frames of the current tree from above.\<close>

lemma holds_boot: "\<exists>b. holds b {6, 7, 0}"
proof -
  have "Min {..<8::nat} = 0" by (rule Min_eqI) auto
  then obtain b0 where b0: "allocate_frame_low tiny_buddy = Some (0, b0)" "buddy_wf 3 b0" "used 3 b0 = (used 3 tiny_buddy)(0 := True)"
    "BuddyAllocator.allocated_pages b0 = BuddyAllocator.allocated_pages tiny_buddy + 1"
    using allocate_frame_low_wf [OF tiny_wf] tiny_free_ne by (auto simp: tiny_free)
  have "holds b0 {0}" using holds_insert [OF holds_tiny _ _ b0(2-4)] by simp
  from holds_alloc [OF this, of 7] obtain b1 where "holds b1 {7, 0}" by auto
  moreover have "\<forall>q::nat. 6 < q \<and> q < 8 \<longrightarrow> q \<in> {7, 0}" by auto
  ultimately show ?thesis using holds_alloc [of b1 "{7, 0}" 6] by auto
qed

lemma holds_drop:
  assumes "holds (frames m) U" and "p \<in> U" and "p \<noteq> 0" and "p * 4096 \<le> max_ram_addr m"
  shows "\<exists>b. drop_addr (p * 4096) m = Some (m\<lparr>frames := b\<rparr>) \<and> holds b (U - {p})"
proof -
  have wf: "buddy_wf 3 (frames m)" and u: "used 3 (frames m) p" "p < 8"
    using assms(1,2) by (auto simp: holds_def taken_frames_def)
  have fin: "finite U" using assms(1) by (auto simp: holds_def taken_frames_def)
  then have "1 \<le> BuddyAllocator.allocated_pages (frames m)" using assms(1,2) by (auto simp: holds_def Suc_le_eq card_gt_0_iff)
  moreover have "q < 2 ^ 3 \<and> used 3 (frames m) q" if "p \<le> q \<and> q < p + 1" for q
  proof -
    from that have "q = p" by simp
    with u show ?thesis by simp
  qed
  ultimately obtain b where b: "drop_owned_range (max_ram_addr m) \<lparr>start = p * 4096, n_pages = 1\<rparr> (frames m) = Some b"
    "buddy_wf 3 b" "used 3 b = (\<lambda>q. if p \<le> q \<and> q < p + 1 then False else used 3 (frames m) q)"
    "BuddyAllocator.allocated_pages b = BuddyAllocator.allocated_pages (frames m) - 1"
    using drop_owned_range_wf [OF wf assms(3,4), of 1] by auto
  have "taken_frames 3 b = U - {p}" using assms(1) unfolding taken_frames_def b(3) holds_def by auto
  with b assms(1,2) fin show ?thesis by (intro exI [of _ b]) (simp add: drop_addr_def drop_owned_addr_def holds_def)
qed

lemma new_empty_nth [simp]: "i < 512 \<Longrightarrow> new_empty ! i = blank" "length new_empty = 512" "new_empty \<noteq> []"
  by (simp_all add: new_empty_def)

lemma blank_absent [simp]: "\<not> present blank"
  by (simp_all add: blank_def present_def)

lemma delete_entries_absent: "\<forall>e\<in>set es. \<not> present e \<Longrightarrow> delete_entries lower l d es m = Some m"
  by (induction es arbitrary: m) auto

lemma delete_entries_append:
  "delete_entries lower l d (xs @ ys) = (\<lambda>m. delete_entries lower l d xs m \<bind> delete_entries lower l d ys)"
proof (induction xs)
  case (Cons e xs)
  show ?case by (rule ext) (simp only: append_Cons delete_entries.simps Cons.IH Option.bind_assoc)
qed (simp add: fun_eq_iff)

lemma delete_one_entry:
  assumes "i < 512" and "present e" and "\<not> huge_page e" and "l \<noteq> 0"
  shows "delete_entries lower l False (new_empty[i := e]) m = lower (unat (entry_address e)) m"
proof -
  have "new_empty[i := e] = replicate i blank @ e # replicate (511 - i) blank"
    using assms(1) by (intro nth_equalityI) (auto simp: nth_append nth_list_update nth_Cons split: nat.split)
  moreover have "delete_entries lower l False (replicate n blank) = Some" for n
    by (rule ext) (simp add: delete_entries_absent)
  ultimately show ?thesis using assms(2-4) by (simp add: delete_entries_append)
qed

lemma delete_empty_table:
  assumes "tables m t = Some new_empty" and "0 < l"
  shows "delete l False t m = drop_addr t m"
proof -
  have "\<forall>e\<in>set new_empty. \<not> present e" by (simp add: new_empty_def)
  with assms delete_entries_absent show ?thesis by (cases l) simp_all
qed

lemma copy_entries_fold:
  assumes "t \<noteq> t'" and "tables m t = Some es" and "tables m t' = Some ns"
    and "\<forall>i\<in>set is. i < length es \<and> i < length ns"
  shows "copy_entries t t' is m = Some (m\<lparr>tables := (tables m)(t' \<mapsto> fold (\<lambda>i xs. xs[i := es ! i]) is ns)\<rparr>)"
  using assms
proof (induction "is" arbitrary: m ns)
  case Nil
  then have "(tables m)(t' \<mapsto> ns) = tables m" by (simp add: fun_upd_idem)
  then show ?case by simp
next
  case (Cons i "is")
  then show ?case using Cons.IH [of "m\<lparr>tables := (tables m)(t' \<mapsto> ns[i := es ! i])\<rparr>" "ns[i := es ! i]"]
    by (simp add: read_entry_def write_entry_def index_at_def cong: if_cong)
qed

lemma fold_copy_nth:
  "\<forall>i\<in>set is. i < length ns \<Longrightarrow> length (fold (\<lambda>i xs. xs[i := f i]) is ns) = length ns \<and>
   (\<forall>j<length ns. fold (\<lambda>i xs. xs[i := f i]) is ns ! j = (if j \<in> set is then f j else ns ! j))"
proof (induction "is" arbitrary: ns)
  case (Cons i "is")
  then show ?case using Cons.IH [of "ns[i := f i]"] by (auto simp: nth_list_update)
qed simp

lemma copy_one_entry:
  assumes "t \<noteq> t'" and "tables m t = Some (new_empty[i := e])" and "tables m t' = Some new_empty" and "256 \<le> i" and "i < 512"
  shows "copy_higher_half t t' m = Some (m\<lparr>tables := (tables m)(t' \<mapsto> new_empty[i := e])\<rparr>)"
proof -
  let ?f = "fold (\<lambda>k xs. xs[k := new_empty[i := e] ! k]) [256..<512] new_empty"
  have "?f = new_empty[i := e]"
    using fold_copy_nth [of "[256..<512]" new_empty "\<lambda>k. new_empty[i := e] ! k"] assms(4,5)
    by (intro nth_equalityI) (auto simp: nth_list_update simp del: upt_rec_numeral)
  with copy_entries_fold [OF assms(1-3), of "[256..<512]"] show ?thesis
    by (simp add: copy_higher_half_def del: upt_rec_numeral)
qed

section \<open>Properties\<close>

text \<open>C3: Dropping the address space of a process destroys the kernel's own: the new root table shares the
  tables of the upper half with the current tree, and the destructor deletes every table the root names, so a
  kernel table is on the free list, to be handed out again, while the current tree still refers to it.\<close>

theorem dropped_namespace_frees_kernel_tables:
  assumes wf: "buddy_wf j (frames (bd_pt s))" and ram: "max_ram_addr (bd_pt s) < 2 ^ j * 4096"
    and root: "current_root c s = r * 4096" "used j (frames (bd_pt s)) r"
    and es: "tables (bd_pt s) (current_root c s) = Some es" "length es = 512"
    and i: "256 \<le> i" "i < 512" "present (es ! i)" "\<not> huge_page (es ! i)"
    and p: "unat (entry_address (es ! i)) = p * 4096" "p \<noteq> 0" "p * 4096 \<le> max_ram_addr (bd_pt s)"
    and build: "build_empty_memory_namespace c s = Some (ns, s1)"
    and drop: "drop_namespace ns (bd_heap s1) = Some h"
  shows "read_entry (ns_pt h) (current_root c s) i = Some (es ! i) \<and> p \<in> free_frames j (frames (ns_pt h))"
proof -
  from build_empty_fresh [OF wf build] obtain q where q: "page_tree_root ns = q * 4096" "q \<in> free_frames j (frames (bd_pt s))"
    "memory_ranges ns = []" "buddy_wf j (frames (bd_pt s1))" "max_ram_addr (bd_pt s1) = max_ram_addr (bd_pt s)"
    and copy: "copy_higher_half (current_root c s) (q * 4096) (clear_table ((bd_pt s)\<lparr>frames := frames (bd_pt s1)\<rparr>) (q * 4096)) = Some (bd_pt s1)"
    by blast
  let ?m = "clear_table ((bd_pt s)\<lparr>frames := frames (bd_pt s1)\<rparr>) (q * 4096)"
  have ne: "current_root c s \<noteq> q * 4096" using root q(2) by (auto simp: free_frames_def)
  then have t: "tables ?m (current_root c s) = Some es" "tables ?m (q * 4096) = Some new_empty" "length new_empty = 512"
    using es by (simp_all add: clear_table_def new_empty_def)
  from copy_higher_half_correct [OF ne t(1) es(2) t(2,3)] copy have rd: "read_entry (bd_pt s1) t i' =
      (if t = q * 4096 \<and> 256 \<le> i' \<and> i' < 512 then read_entry ?m (current_root c s) i' else read_entry ?m t i')" for t i'
    by auto
  have e: "read_entry ?m (current_root c s) i = Some (es ! i)" using t(1) es(2) i(2) by (simp add: read_entry_def index_at_def)
  then have e1: "read_entry (bd_pt s1) (current_root c s) i = Some (es ! i)" "read_entry (bd_pt s1) (q * 4096) i = Some (es ! i)"
    using rd i ne by auto
  have ok: "ram_ok j (bd_pt s1)" using q(4,5) ram by (simp add: ram_ok_def buddy_wf_def)
  from drop q(1,3) obtain m where del: "delete 4 False (q * 4096) (bd_pt s1) = Some m" and h: "ns_pt h = m"
    by (auto simp: drop_namespace_def remove_all_mem_ranges_def delete_page_table_def bind_eq_Some_conv)
  have rel: "released j (bd_pt s1) m" using delete_released [of j 4] ok del by blast
  from del obtain es' m1 where d: "tables (bd_pt s1) (q * 4096) = Some es'"
    "delete_entries (delete 3 False) 3 False es' (bd_pt s1) = Some m1" "drop_addr (q * 4096) m1 = Some m"
    by (auto simp: delete_root bind_eq_Some_conv)
  have "i < length es'" "es' ! i = es ! i" using e1(2) d(1) by (auto simp: read_entry_def index_at_def split: if_splits)
  then have in_es: "es ! i \<in> set es'" by (metis nth_mem)
  from delete_entries_released [of j "delete 3 False" "bd_pt s1" 3 es' m1] delete_released [of j 3] ok d(2)
  have gone: "released j (bd_pt s1) m1" "\<not> used j (frames m1) p" using in_es i p q(5) by auto
  with drop_addr_released(1) [OF released_ram_ok [OF gone(1) ok] d(3)] have "\<not> used j (frames m) p"
    by (auto simp: released_def)
  moreover have "p < 2 ^ j" using p(3) ram by simp
  moreover have "read_entry m (current_root c s) i = Some (es ! i)" using rel e1(1) by (simp add: released_def read_entry_def)
  ultimately show ?thesis using h by (simp add: free_frames_def)
qed

lemma kernel_entry:
  "present 0x6003" "\<not> huge_page 0x6003" "unat (entry_address 0x6003) = 0x6000"
  by (simp_all add: present_def huge_page_def entry_address_def)

definition loader_kernel :: "pt_mem \<Rightarrow> kernel" where
  "loader_kernel m =
     \<lparr>k_procs = scheduler_new 0x7000,
      k_registry = \<lparr>registered_packs = [(''syscall_management'', 0, \<lparr>handlers = [(0, ''lspacks'')]\<rparr>)], pack_id_counter = 1\<rparr>,
      k_ns = (\<lambda>_. None), k_refs = (\<lambda>_. 0), k_ns_counter = 1, k_heap = \<lparr>arcs = (\<lambda>_. None), ns_pt = m\<rparr>, k_next_arc = 0,
      k_events = \<lparr>event_id_counter = 0, scheduled_events = [], fired = [], clock_reads = 0, timer_setting = (0, 0)\<rparr>,
      k_preemption = None, k_hooks = [], k_clock = (\<lambda>n. n), k_frequency = 1, k_boot = 0, k_readable = (\<lambda>_. True),
      k_writable = (\<lambda>_. True), k_user = (\<lambda>_. 0), k_alloc_limit = 4096, k_padding = [0, 0, 0, 0]\<rparr>"

definition loader_state :: "pt_mem \<Rightarrow> builder" where
  "loader_state m = \<lparr>bd_kernel = loader_kernel m, bd_space = (\<lambda>_ _. 0)\<rparr>"

lemmas loader_defs = loader_state_def loader_kernel_def current_root_def scheduler_new_def

text \<open>The current tree at \<open>0x7000\<close> has one kernel table, at \<open>0x6000\<close>.\<close>

definition kernel_pt :: "BuddyAllocator \<Rightarrow> pt_mem" where
  "kernel_pt b = \<lparr>tables = [0x7000 \<mapsto> new_empty[256 := 0x6003], 0x6000 \<mapsto> new_empty], frames = b, max_ram_addr = 0x7000\<rparr>"

lemma kernel_pt_copy:
  "copy_higher_half 0x7000 0x5000 (clear_table (kernel_pt b) 0x5000) =
     Some (clear_table (kernel_pt b) 0x5000\<lparr>tables := (tables (kernel_pt b))(0x5000 \<mapsto> new_empty[256 := 0x6003])\<rparr>)"
  by (subst copy_one_entry [where i = 256 and e = "0x6003"]) (simp_all add: kernel_pt_def clear_table_def)

definition process_pt :: "BuddyAllocator \<Rightarrow> pt_mem" where
  "process_pt b = (kernel_pt b)\<lparr>tables := (tables (kernel_pt b))(0x5000 \<mapsto> new_empty[256 := 0x6003])\<rparr>"

lemma kernel_pt_empty:
  assumes b: "holds b {6, 7, 0}" and s: "bd_pt s = kernel_pt b" "current_root c s = 0x7000"
  shows "\<exists>ns s1 b'. build_empty_memory_namespace c s = Some (ns, s1) \<and> bd_pt s1 = process_pt b' \<and> holds b' {5, 6, 7, 0} \<and>
    page_tree_root ns = 0x5000 \<and> memory_ranges ns = [] \<and> range_counter ns = 1 \<and>
    k_procs (bd_kernel s1) = k_procs (bd_kernel s) \<and> k_registry (bd_kernel s1) = k_registry (bd_kernel s)"
proof -
  have "\<forall>q::nat. 5 < q \<and> q < 8 \<longrightarrow> q \<in> {6, 7, 0}" by auto
  with holds_alloc [OF b, of 5] obtain b' where b': "allocate_frame b = Some (0x5000, b')" "holds b' {5, 6, 7, 0}" by auto
  have f: "(kernel_pt b)\<lparr>frames := b'\<rparr> = kernel_pt b'" "frames (kernel_pt b) = b" by (simp_all add: kernel_pt_def)
  have m: "(clear_table (kernel_pt b') 0x5000)\<lparr>tables := (tables (kernel_pt b'))(0x5000 \<mapsto> new_empty[256 := 0x6003])\<rparr> = process_pt b'"
    by (simp add: process_pt_def clear_table_def)
  show ?thesis using b' s f m kernel_pt_copy [of b']
    by (auto simp: build_empty_memory_namespace_def new_namespace_id_def create_empty_def alloc_zeroed_def alloc_frame_def)
qed

lemma process_pt_delete:
  assumes b: "holds (frames m) {5, 6, 7, 0}" and t: "tables m 0x5000 = Some (new_empty[256 := 0x6003])"
    "tables m 0x6000 = Some new_empty" "max_ram_addr m = 0x7000"
  shows "\<exists>m'. delete_page_table 0x5000 4 False m = Some m'"
proof -
  have "\<exists>b1. drop_addr (6 * 4096) m = Some (m\<lparr>frames := b1\<rparr>) \<and> holds b1 ({5, 6, 7, 0} - {6})"
    by (rule holds_drop) (use b t in auto)
  then obtain b1 where b1: "drop_addr 0x6000 m = Some (m\<lparr>frames := b1\<rparr>)" "holds b1 ({5, 6, 7, 0} - {6})" by auto
  have "\<exists>b2. drop_addr (5 * 4096) (m\<lparr>frames := b1\<rparr>) = Some (m\<lparr>frames := b1, frames := b2\<rparr>) \<and>
      holds b2 ({5, 6, 7, 0} - {6} - {5})"
    by (rule holds_drop) (use b1(2) t in auto)
  then obtain m' where m': "drop_addr 0x5000 (m\<lparr>frames := b1\<rparr>) = Some m'" by auto
  have "delete 3 False 0x6000 m = Some (m\<lparr>frames := b1\<rparr>)"
    using b1(1) t(2) delete_empty_table [of m "0x6000" 3] by simp
  then have "delete_entries (delete 3 False) 3 False (new_empty[256 := 0x6003]) m = Some (m\<lparr>frames := b1\<rparr>)"
    by (simp add: delete_one_entry kernel_entry)
  with m' t(1) show ?thesis by (simp add: delete_page_table_def delete_root)
qed

lemma drop_empty_namespace:
  "memory_ranges ns = [] \<Longrightarrow> delete_page_table (page_tree_root ns) 4 False (ns_pt h) = Some m \<Longrightarrow>
   drop_namespace ns h = Some (h\<lparr>ns_pt := m\<rparr>)"
  by (simp add: drop_namespace_def remove_all_mem_ranges_def)

theorem dropped_namespace_frees_kernel_tables_witness:
  "\<exists>s ns s1 h. build_empty_memory_namespace 0 s = Some (ns, s1) \<and> drop_namespace ns (bd_heap s1) = Some h \<and>
     read_entry (ns_pt h) (current_root 0 s) 256 = Some 0x6003 \<and> 6 \<in> free_frames 3 (frames (ns_pt h))"
proof -
  from holds_boot obtain b where b: "holds b {6, 7, 0}" by blast
  let ?s = "loader_state (kernel_pt b)"
  have s: "bd_pt ?s = kernel_pt b" "current_root 0 ?s = 7 * 4096" by (simp_all add: loader_defs)
  from kernel_pt_empty [OF b s(1), of 0] s(2) obtain ns s1 b' where n: "build_empty_memory_namespace 0 ?s = Some (ns, s1)"
    "bd_pt s1 = process_pt b'" "holds b' {5, 6, 7, 0}" "page_tree_root ns = 0x5000" "memory_ranges ns = []" by auto
  have "\<exists>m'. delete_page_table 0x5000 4 False (bd_pt s1) = Some m'"
    by (rule process_pt_delete) (use n(2,3) in \<open>simp_all add: process_pt_def kernel_pt_def\<close>)
  with n(4) drop_empty_namespace [OF n(5), of "bd_heap s1"] obtain h
    where h: "drop_namespace ns (bd_heap s1) = Some h" by auto
  have k: "frames (kernel_pt b) = b" "max_ram_addr (kernel_pt b) = 0x7000"
    "tables (kernel_pt b) (7 * 4096) = Some (new_empty[256 := 0x6003])" by (simp_all add: kernel_pt_def)
  have "read_entry (ns_pt h) (current_root 0 ?s) 256 = Some (new_empty[256 := 0x6003] ! 256) \<and> 6 \<in> free_frames 3 (frames (ns_pt h))"
    by (rule dropped_namespace_frees_kernel_tables [OF _ _ s(2) _ _ _ _ _ _ _ _ _ _ n(1) h])
      (use b k holds_used [OF b, of 7] in \<open>simp_all add: s holds_def kernel_entry\<close>)
  with n(1) h show ?thesis by auto
qed

text \<open>C15: A program that is loaded above the 512 GB of its address range leaves the processor on a page tree that no
  longer exists: the error returns before the root is set back, the namespace is dropped on the way, and
  the frame of the loaded root table is free.\<close>

theorem failed_load_keeps_freed_page_tree:
  assumes wf: "buddy_wf j (frames (bd_pt s))" and ram: "max_ram_addr (bd_pt s) < 2 ^ j * 4096"
    and free: "\<forall>q\<in>free_frames j (frames (bd_pt s)). q \<noteq> 0 \<and> q * 4096 \<le> max_ram_addr (bd_pt s)"
    and region: "mem_regions ctx = r # rs" "region_end r = Some e" "2 ^ 39 < e"
    and load: "build_mem_namespace_for_new_proc c ctx s = Some (res, s')"
  shows "res = Inl InvalidProcessFile \<and> (\<exists>q\<in>free_frames j (frames (bd_pt s')). current_root c s' = q * 4096)"
proof -
  from load obtain ns s1 where b: "build_empty_memory_namespace c s = Some (ns, s1)"
    by (auto simp: build_mem_namespace_for_new_proc_def bind_eq_Some_conv)
  from build_empty_fresh [OF wf b] obtain q where q: "page_tree_root ns = q * 4096" "q \<in> free_frames j (frames (bd_pt s))"
    "memory_ranges ns = []" "buddy_wf j (frames (bd_pt s1))" "max_ram_addr (bd_pt s1) = max_ram_addr (bd_pt s)" by blast
  let ?s2 = "set_page_tree_root c (q * 4096) s1"
  have pt: "bd_pt ?s2 = bd_pt s1" "current_root c ?s2 = q * 4096" by (simp_all add: set_page_tree_root_def current_root_def)
  from load b q(1) obtain res1 s3 where i: "build_initialized_memory_namespace c ctx ns ?s2 = Some (res1, s3)"
    by (auto simp: build_mem_namespace_for_new_proc_def Let_def bind_eq_Some_conv)
  have bounds: "reserved_range range0 0 = Some (0, 2 ^ 39)" if "virt_tree_level range0 = 3" for range0
    using that by (simp add: reserved_range_def max_size_def from_level_def capacity_reserved_range_def capacity_bytes_def checked_simps)
  from i obtain range0 m0 m2 h where st: "create C05TB \<lparr>perm_write = True, perm_execute = False\<rparr> Manual (bd_pt s1) = Some (range0, m0)"
    "drop_memory_range range0 m0 = Some m2" "drop_namespace ns ((bd_heap ?s2)\<lparr>ns_pt := m2\<rparr>) = Some h" "res1 = Inl InvalidProcessFile"
    "s3 = with_heap h ?s2"
    using region pt(1) bounds
    by (auto simp: build_initialized_memory_namespace_def create_def bind_eq_Some_conv panic_unless_def split: if_splits)
  from st(1) obtain a bb where al: "allocate_frame (frames (bd_pt s1)) = Some (a, bb)" "frames m0 = bb" "max_ram_addr m0 = max_ram_addr (bd_pt s1)"
    by (auto simp: create_def alloc_zeroed_def alloc_frame_def clear_table_def bind_eq_Some_conv)
  have "buddy_wf j bb" using allocate_frame_wf [OF q(4)] al(1) by (auto split: if_splits)
  with al q(5) ram have "ram_ok j m0" by (simp add: ram_ok_def buddy_wf_def)
  moreover have "released j m0 m2" using delete_released [of j "virt_tree_level range0"] st(2) calculation by (auto simp: drop_memory_range_def)
  ultimately have ok: "ram_ok j m2" "max_ram_addr m2 = max_ram_addr (bd_pt s)"
    using al(3) q(5) by (auto simp: released_def ram_ok_def)
  from st(3) q(1,3) have d: "delete 4 False (q * 4096) m2 = Some (ns_pt h)"
    by (auto simp: drop_namespace_def remove_all_mem_ranges_def delete_page_table_def bind_eq_Some_conv)
  have "\<not> used j (frames (ns_pt h)) q" using delete_released [of j 4] ok d free q(2) by auto
  then have "q \<in> free_frames j (frames (ns_pt h))" using q(2) by (simp add: free_frames_def)
  moreover have "res = Inl InvalidProcessFile" "s' = s3" using load b i q(1) st(4) by (auto simp: build_mem_namespace_for_new_proc_def Let_def)
  ultimately show ?thesis using st(5) pt(2) by (auto simp: with_heap_def current_root_def)
qed

definition high_context :: ContextInfo where
  "high_context = \<lparr>ci_is_32_bit = False, mem_regions = [\<lparr>mr_start = 2 ^ 39, size_pages = 1, mr_flags = 3\<rparr>], mem_init = [],
     entry_point = 2 ^ 39, ci_cmdline = ''init'', ci_args = [''init''], ci_path = ''init''\<rparr>"

theorem failed_load_keeps_freed_page_tree_witness:
  "\<exists>s s'. build_mem_namespace_for_new_proc 0 high_context s = Some (Inl InvalidProcessFile, s') \<and>
     (\<exists>q\<in>free_frames 3 (frames (bd_pt s')). current_root 0 s' = q * 4096)"
proof -
  from holds_boot obtain b where b: "holds b {6, 7, 0}" by blast
  let ?s = "loader_state (kernel_pt b)" and ?r = "\<lparr>mr_start = 2 ^ 39, size_pages = 1, mr_flags = 3\<rparr>"
  have s: "bd_pt ?s = kernel_pt b" "current_root 0 ?s = 0x7000" by (simp_all add: loader_defs)
  from kernel_pt_empty [OF b s] obtain ns s1 b' where n: "build_empty_memory_namespace 0 ?s = Some (ns, s1)"
    "bd_pt s1 = process_pt b'" "holds b' {5, 6, 7, 0}" "page_tree_root ns = 0x5000" "memory_ranges ns = []" by auto
  have "\<forall>q::nat. 4 < q \<and> q < 8 \<longrightarrow> q \<in> {5, 6, 7, 0}" by auto
  with holds_alloc [OF n(3), of 4] obtain b4 where b4: "allocate_frame b' = Some (0x4000, b4)" "holds b4 {4, 5, 6, 7, 0}" by auto
  let ?m0 = "clear_table (process_pt b4) 0x4000"
  have f: "frames (process_pt b') = b'" "(process_pt b')\<lparr>frames := b4\<rparr> = process_pt b4" "frames ?m0 = b4" "max_ram_addr ?m0 = 0x7000"
    by (simp_all add: process_pt_def kernel_pt_def clear_table_def)
  have "\<exists>b5. drop_addr (4 * 4096) ?m0 = Some (?m0\<lparr>frames := b5\<rparr>) \<and> holds b5 ({4, 5, 6, 7, 0} - {4})"
    by (rule holds_drop) (use b4 f in auto)
  then obtain b5 where b5: "drop_addr 0x4000 ?m0 = Some (?m0\<lparr>frames := b5\<rparr>)" "holds b5 {5, 6, 7, 0}" by auto
  let ?range = "\<lparr>virt_tree_node = 0x4000, virt_tree_level = 3, mem_range_type = Manual,
    perms = \<lparr>perm_write = True, perm_execute = False\<rparr>, allocated_pages = 0\<rparr>"
  have "create C05TB \<lparr>perm_write = True, perm_execute = False\<rparr> Manual (process_pt b') = Some (?range, ?m0)"
    using b4(1) f by (simp add: create_def alloc_zeroed_def alloc_frame_def)
  moreover have "drop_memory_range ?range ?m0 = Some (?m0\<lparr>frames := b5\<rparr>)"
    using b5(1) delete_empty_table [of ?m0 "0x4000" 3] by (simp add: drop_memory_range_def clear_table_def)
  moreover obtain m' where "delete_page_table 0x5000 4 False (?m0\<lparr>frames := b5\<rparr>) = Some m'"
    using process_pt_delete [of "?m0\<lparr>frames := b5\<rparr>"] b5(2) by (auto simp: process_pt_def kernel_pt_def clear_table_def)
  moreover have "region_end ?r = Some (2 ^ 39 + 0x1000)" by (simp add: region_end_def checked_simps)
  moreover have "reserved_range ?range 0 = Some (0, 2 ^ 39)"
    by (simp add: reserved_range_def max_size_def from_level_def capacity_reserved_range_def capacity_bytes_def checked_simps)
  ultimately obtain res s' where l: "build_mem_namespace_for_new_proc 0 high_context ?s = Some (res, s')"
    using n drop_empty_namespace [OF n(5)]
    by (simp add: build_mem_namespace_for_new_proc_def build_initialized_memory_namespace_def high_context_def set_page_tree_root_def)
  have "\<forall>q\<in>free_frames 3 b. q \<noteq> 0 \<and> q * 4096 \<le> 0x7000" using holds_used [OF b] by (auto simp: free_frames_def)
  with failed_load_keeps_freed_page_tree [of 3 ?s high_context ?r "[]" "2 ^ 39 + 0x1000" 0 res s'] b l s(1) show ?thesis
    by (auto simp: holds_def kernel_pt_def high_context_def region_end_def checked_simps)
qed

section \<open>The arguments of a process\<close>

lemma write_user_Some:
  "write_user c a bs s = Some s' \<Longrightarrow> bd_kernel s' = bd_kernel s \<and> current_root c s' = current_root c s \<and>
     bd_space s' (current_root c s) = store_bytes a bs (bd_space s (current_root c s))"
  by (auto simp: write_user_def Let_def panic_unless_def current_root_def bind_eq_Some_conv split: if_splits)

lemma store_bytes_outside: "x < d \<or> d + length bs \<le> x \<Longrightarrow> store_bytes d bs f x = f x"
  by (auto simp: store_bytes_def)

lemma store_bytes_map: "map (store_bytes d bs f) [d..<d + length bs] = bs"
  by (rule nth_equalityI) (auto simp: store_bytes_def)

lemma map_upt_eq: "(\<And>x. a \<le> x \<Longrightarrow> x < b \<Longrightarrow> f x = g x) \<Longrightarrow> map f [a..<b] = map g [a..<b]"
  by simp

lemma le_bytes_length [simp]: "length (le_bytes n v) = n"
  by (simp add: le_bytes_def)

text \<open>What the memory holds once the table is written: entry \<open>i\<close> is the address of argument \<open>i\<close>, the
  argument is there and ends with a zero byte.\<close>

definition arg_at :: "(nat \<Rightarrow> u8) \<Rightarrow> string list \<Rightarrow> nat \<Rightarrow> nat \<Rightarrow> nat \<Rightarrow> bool" where
  "arg_at f args cur tab i \<longleftrightarrow>
     (let p = cur + args_size (take i args)
      in map f [tab + 8 * i..<tab + 8 * i + 8] = le_bytes 8 p \<and>
         map f [p..<p + length (args ! i) + 1] = bytes_of_string (args ! i) @ [0])"

lemma bytes_of_string_length [simp]: "length (bytes_of_string w) = length w"
  by (simp add: bytes_of_string_def)

lemma args_size_simps [simp]: "args_size [] = 0" "args_size (x # xs) = length x + 1 + args_size xs"
  by (simp_all add: args_size_def)

lemma write_arg_table_correct:
  assumes "write_arg_table c args cur tab s = Some s'" and "cur + args_size args \<le> tab"
  shows "bd_kernel s' = bd_kernel s \<and>
    (\<forall>x. (x < cur \<or> cur + args_size args \<le> x) \<and> (x < tab \<or> tab + 8 * length args \<le> x) \<longrightarrow>
       bd_space s' (current_root c s) x = bd_space s (current_root c s) x) \<and>
    (\<forall>i<length args. arg_at (bd_space s' (current_root c s)) args cur tab i)"
  using assms
proof (induction args arbitrary: cur tab s)
  case (Cons w args)
  let ?R = "current_root c s"
  from Cons.prems(1) obtain s1 s2 s3 where w: "write_user c tab (le_bytes 8 cur) s = Some s1"
    "write_user c cur (bytes_of_string w) s1 = Some s2" "write_user c (cur + length w) [0] s2 = Some s3"
    and rest: "write_arg_table c args (cur + length w + 1) (tab + 8) s3 = Some s'"
    by (auto simp: bind_eq_Some_conv checked_simps split: if_splits)
  note k = write_user_Some [OF w(1)] write_user_Some [OF w(2)] write_user_Some [OF w(3)]
  have le: "cur + length w + 1 + args_size args \<le> tab + 8" using Cons.prems(2) by simp
  note ih = Cons.IH [OF rest le]
  let ?f3 = "bd_space s3 ?R" and ?f' = "bd_space s' ?R"
  have root: "current_root c s3 = ?R" "bd_kernel s3 = bd_kernel s" using k by simp_all
  have f3: "?f3 = store_bytes (cur + length w) [0] (store_bytes cur (bytes_of_string w)
      (store_bytes tab (le_bytes 8 cur) (bd_space s ?R)))" using k by simp
  have frame: "?f' x = ?f3 x" if "x < cur + length w + 1 \<or> cur + length w + 1 + args_size args \<le> x"
    "x < tab + 8 \<or> tab + 8 + 8 * length args \<le> x" for x
    using ih that root(1) by auto
  have sep: "cur + length w + 1 \<le> tab" using Cons.prems(2) by simp
  have "map ?f' [tab..<tab + 8] = map (store_bytes tab (le_bytes 8 cur) (bd_space s ?R)) [tab..<tab + 8]"
    by (rule map_upt_eq) (use sep frame Cons.prems(2) in \<open>auto simp: f3 store_bytes_outside\<close>)
  also have "\<dots> = le_bytes 8 cur" using store_bytes_map [of tab "le_bytes 8 cur"] by simp
  finally have t0: "map ?f' [tab..<tab + 8] = le_bytes 8 cur" .
  have "map ?f' [cur..<cur + length w] = map (store_bytes cur (bytes_of_string w) (store_bytes tab (le_bytes 8 cur) (bd_space s ?R)))
      [cur..<cur + length w]"
    by (rule map_upt_eq) (use sep frame in \<open>auto simp: f3 store_bytes_outside\<close>)
  also have "\<dots> = bytes_of_string w" using store_bytes_map [of cur "bytes_of_string w"] by simp
  finally have "map ?f' [cur..<cur + length w] = bytes_of_string w" .
  moreover have "?f' (cur + length w) = 0" using frame [of "cur + length w"] sep by (simp add: f3 store_bytes_def)
  ultimately have s0: "map ?f' [cur..<cur + length w + 1] = bytes_of_string w @ [0]" by simp
  have "arg_at ?f' (w # args) cur tab i" if "i < length (w # args)" for i
  proof (cases i)
    case 0
    with t0 s0 show ?thesis by (simp add: arg_at_def)
  next
    case (Suc i')
    with ih that root(1) have "arg_at ?f' args (cur + length w + 1) (tab + 8) i'" by simp
    with Suc show ?thesis by (simp add: arg_at_def Let_def add.assoc add.commute add.left_commute)
  qed
  moreover have "?f' x = bd_space s ?R x" if "x < cur \<or> cur + args_size (w # args) \<le> x" "x < tab \<or> tab + 8 * length (w # args) \<le> x" for x
    using that frame [of x] sep by (auto simp: f3 store_bytes_outside)
  ultimately show ?case using ih root by auto
qed simp

lemma find_hole_aligned: "find_hole_from c h rs a = Some (Some x) \<Longrightarrow> capacity_bytes c dvd x"
proof (induction c h rs a rule: find_hole_from.induct)
  case (1 c h rs a)
  from 1(2) obtain cur where cur: "align_up c a = Some cur" by (cases "align_up c a") (auto simp: find_hole_from.simps [of c h rs a])
  have dv: "capacity_bytes c dvd cur" using cur align_up_eq [of a c] align_up_ge [OF cur] by auto
  from 1(2) cur obtain new where new: "capacity_reserved_range c cur = Some new"
    by (cases "capacity_reserved_range c cur") (auto simp: find_hole_from.simps [of c h rs a])
  show ?case
  proof (cases "2 ^ 48 \<le> snd new")
    case False
    with 1(2) cur new obtain o' where ov: "first_overlap h new rs = Some o'"
      by (cases "first_overlap h new rs") (auto simp: find_hole_from.simps [of c h rs a] split: prod.splits)
    show ?thesis
    proof (cases o')
      case None
      with 1(2) cur new False ov dv show ?thesis by (auto simp: find_hole_from.simps [of c h rs a] split: prod.splits)
    next
      case (Some old)
      with 1(2) cur new False ov have "find_hole_from c h rs (snd old) = Some (Some x)"
        by (auto simp: find_hole_from.simps [of c h rs a] split: prod.splits)
      with 1(1) cur new False ov Some show ?thesis by auto
    qed
  qed (use 1(2) cur new in \<open>auto simp: find_hole_from.simps [of c h rs a] split: prod.splits\<close>)
qed

lemma args_total_Some:
  "args_total args = Some n \<Longrightarrow> n = args_size args + args_padding args + 8 * length args \<and> n < 2 ^ 64"
  by (auto simp: args_total_def bind_eq_Some_conv)

text \<open>A range of one page takes page 0 and nothing else.\<close>

lemma one_page_range:
  assumes "create C4KB p Manual m = Some (r, m0)" and "allocate_manual_external r 0 n m0 = Some (Inr u, r', m1)"
  shows "n = 1"
  using assms
  by (auto simp: create_def allocate_manual_external_def allocate_manual_def vmm_userspace_map_def bind_eq_Some_conv
      split: if_splits sum.splits)

lemma args_fit:
  assumes "create (args_capacity n) p Manual m = Some (r, m0)"
    and "allocate_manual_external r 0 (div_ceil n 0x1000 mod 2 ^ 32) m0 = Some (Inr u, r', m1)"
  shows "n \<le> 0x1000 \<or> 2 ^ 21 \<le> n"
proof (rule ccontr)
  assume "\<not> (n \<le> 0x1000 \<or> 2 ^ 21 \<le> n)"
  then have n: "0x1000 < n" "n < 2 ^ 21" by auto
  then have c: "args_capacity n = C4KB" by (simp add: args_capacity_def)
  have "1 < div_ceil n 0x1000" "div_ceil n 0x1000 < 2 ^ 32" using n by (auto simp: div_ceil_def)
  then have "div_ceil n 0x1000 mod 2 ^ 32 \<noteq> 1" by simp
  with one_page_range [OF assms(1) [unfolded c] assms(2)] show False by simp
qed

text \<open>A returned value did not come from an error branch.\<close>

lemma fails_with:
  "case_sum (\<lambda>e. Some (Inl e, g e)) f x = Some (Inr r, b) \<longleftrightarrow> (\<exists>y. x = Inr y \<and> f y = Some (Inr r, b))"
  by (cases x) simp_all

lemma fails_after:
  "case_sum (\<lambda>e. d \<bind> (\<lambda>m. Some (Inl e, k e m))) f x = Some (Inr r, b) \<longleftrightarrow> (\<exists>y. x = Inr y \<and> f y = Some (Inr r, b))"
  by (cases x) (auto simp: bind_eq_Some_conv)

lemma fails_without:
  "case_option (Some (Inl e, v)) f z = Some (Inr r, b) \<longleftrightarrow> (\<exists>y. z = Some y \<and> f y = Some (Inr r, b))"
  by (cases z) simp_all

lemmas fails_Inr = fails_with fails_after fails_without

lemma padded: "8 dvd x + (8 - x mod 8) mod 8" for x :: nat
proof -
  define q r where "q = x div 8" and "r = x mod 8"
  then have "x = 8 * q + r" "r < 8" by simp_all
  then have "x + (8 - r) = 8 * (q + 1)" by (simp add: algebra_simps)
  then have "x + (8 - x mod 8) = 8 * (q + 1)" by (simp only: r_def)
  then have "8 dvd x + (8 - x mod 8)" by (rule dvdI)
  then show ?thesis by (simp add: dvd_eq_mod_eq_0 mod_add_right_eq)
qed

text \<open>C14: The arguments of a new process are where its entry point expects them: \<open>argv\<close> is a table aligned to 8 bytes
  with one pointer for each argument, and behind each pointer are the bytes of the argument and a zero.
  Only arguments that fit one page with their table, or that need 2 MB and more, are ever accepted.\<close>

theorem add_args_layout:
  assumes args: "args \<noteq> []" and add: "add_args c args ns s = Some (Inr (argc, argv), ns', s')"
  shows "\<exists>cur. argc = length args \<and> argv = cur + args_size args + args_padding args \<and> argv mod 8 = 0 \<and>
    (\<forall>i<argc. arg_at (bd_space s' (current_root c s)) args cur argv i) \<and> current_root c s' = current_root c s \<and>
    (let n = args_size args + args_padding args + 8 * argc in n \<le> 0x1000 \<or> 2 ^ 21 \<le> n)"
proof -
  from add obtain n where n: "args_total args = Some n" by (auto simp: add_args_def bind_eq_Some_conv)
  note total = args_total_Some [OF n]
  then have n0: "n \<noteq> 0" using args by (cases args) auto
  from add n n0 obtain cur r m0 u r' m1 s2 where st: "find_hole (args_capacity n) ns (bd_heap s) = Some (Some cur)"
    "create (args_capacity n) \<lparr>perm_write = True, perm_execute = False\<rparr> Manual (bd_pt s) = Some (r, m0)"
    "allocate_manual_external r 0 (div_ceil n 0x1000 mod 2 ^ 32) m0 = Some (Inr u, r', m1)"
    "write_arg_table c args cur argv s2 = Some s'" "argv = cur + args_size args + args_padding args" "argc = length args"
    "k_procs (bd_kernel s2) = k_procs (bd_kernel s)" "bd_space s2 = bd_space s"
    by (auto simp: add_args_def Let_def bind_eq_Some_conv new_arc_def with_heap_def with_pt_def fails_Inr)
  have root: "current_root c s2 = current_root c s" using st(7) by (simp add: current_root_def)
  note w = write_arg_table_correct [OF st(4)]
  have "8 dvd capacity_bytes (args_capacity n)"
    using le_imp_power_dvd [of 3 "12 + 9 * into_level (args_capacity n)" "2::nat"] unfolding capacity_bytes_power by simp
  then have "8 dvd cur" using find_hole_aligned [OF st(1) [unfolded find_hole_def]] by (rule dvd_trans)
  moreover have "8 dvd args_size args + args_padding args" unfolding args_padding_def by (rule padded)
  ultimately have "argv mod 8 = 0" using st(5) by (metis add.assoc dvd_add mod_0_imp_dvd dvd_imp_mod_0)
  moreover have "current_root c s' = current_root c s" using w st(5) root by (simp add: current_root_def)
  moreover have "\<forall>i<argc. arg_at (bd_space s' (current_root c s)) args cur argv i" using w st(5,6) root by simp
  ultimately show ?thesis using st(5,6) args_fit [OF st(2,3)] total by (auto simp: Let_def)
qed

lemma walk_down:
  assumes "node \<le> virt" and "read_entry m t (level_index l (virt - node)) = Some e" and "present e" and "\<not> huge_page e"
    and "Suc l \<noteq> desired"
  shows "PageTable.get_page_table_entry (Suc l) t virt node desired alloc m =
    PageTable.get_page_table_entry l (unat (entry_address e)) virt (node + level_index l (virt - node) * 2 ^ (12 + 9 * l)) desired alloc m"
  using assms by (simp add: checked_simps)

text \<open>A tree whose first tables exist, down to the one that maps the first 2 MB.\<close>

definition low_pt :: "u64 list \<Rightarrow> BuddyAllocator \<Rightarrow> pt_mem" where
  "low_pt es b = \<lparr>tables = [0x7000 \<mapsto> new_empty[0 := 0x6003], 0x6000 \<mapsto> new_empty[0 := 0x5003], 0x5000 \<mapsto> new_empty[0 := 0x4003],
     0x4000 \<mapsto> es, 0x3000 \<mapsto> new_empty], frames = b, max_ram_addr = 0x7000\<rparr>"

lemma table_entries:
  "present 0x5003" "\<not> huge_page 0x5003" "unat (entry_address 0x5003) = 0x5000"
  "present 0x4003" "\<not> huge_page 0x4003" "unat (entry_address 0x4003) = 0x4000"
  by (simp_all add: present_def huge_page_def entry_address_def)

lemma low_walk:
  assumes "0x1000 \<le> x" and "x < 0x2000"
  shows "get_page_table_entry_at_level 0x7000 x 1 alloc (low_pt es b) = Some (Some (0x4000, 1), low_pt es b)"
proof -
  have ix: "level_index 3 x = 0" "level_index 2 x = 0" "level_index 1 x = 0" "level_index 0 x = 1"
    using assms by (simp_all add: level_index_def)
  have r: "read_entry (low_pt es b) 0x7000 0 = Some 0x6003" "read_entry (low_pt es b) 0x6000 0 = Some 0x5003"
    "read_entry (low_pt es b) 0x5000 0 = Some 0x4003"
    by (simp_all add: read_entry_def index_at_def low_pt_def)
  have "PageTable.get_page_table_entry 4 0x7000 x 0 1 alloc (low_pt es b) = PageTable.get_page_table_entry 3 0x6000 x 0 1 alloc (low_pt es b)"
    using ix(1) r(1) walk_down [of 0 x "low_pt es b" "0x7000" 3 "0x6003" 1 alloc] by (simp add: kernel_entry del: PageTable.get_page_table_entry.simps One_nat_def)
  moreover have "PageTable.get_page_table_entry 3 0x6000 x 0 1 alloc (low_pt es b) = PageTable.get_page_table_entry 2 0x5000 x 0 1 alloc (low_pt es b)"
    using ix(2) r(2) walk_down [of 0 x "low_pt es b" "0x6000" 2 "0x5003" 1 alloc] by (simp add: table_entries del: PageTable.get_page_table_entry.simps One_nat_def)
  moreover have "PageTable.get_page_table_entry 2 0x5000 x 0 1 alloc (low_pt es b) = PageTable.get_page_table_entry 1 0x4000 x 0 1 alloc (low_pt es b)"
    using ix(3) r(3) walk_down [of 0 x "low_pt es b" "0x5000" 1 "0x4003" 1 alloc] by (simp add: table_entries del: PageTable.get_page_table_entry.simps One_nat_def)
  moreover have "PageTable.get_page_table_entry 1 0x4000 x 0 1 alloc (low_pt es b) = Some (Some (0x4000, 1), low_pt es b)"
    using ix(4) by (simp add: checked_simps)
  ultimately show ?thesis by (simp add: get_page_table_entry_at_level_def)
qed

lemma write_user_ok:
  assumes "\<forall>x. lo \<le> x \<and> x < hi \<longrightarrow> user_writeable (current_root c s) (bd_pt s) x" and "lo \<le> a" and "a + length bs \<le> hi"
  shows "\<exists>s'. write_user c a bs s = Some s' \<and> bd_kernel s' = bd_kernel s \<and> current_root c s' = current_root c s"
proof -
  have "list_all (user_writeable (current_root c s) (bd_pt s)) [a..<a + length bs]" using assms by (auto simp: list_all_iff)
  then show ?thesis by (simp add: write_user_def Let_def panic_unless_def current_root_def)
qed

lemma write_arg_table_ok:
  assumes "\<forall>x. lo \<le> x \<and> x < hi \<longrightarrow> user_writeable (current_root c s) (bd_pt s) x" and "hi < 2 ^ 64"
    and "lo \<le> cur" and "cur + args_size args \<le> hi" and "lo \<le> tab" and "tab + 8 * length args \<le> hi"
  shows "\<exists>s'. write_arg_table c args cur tab s = Some s'"
  using assms
proof (induction args arbitrary: cur tab s)
  case (Cons w args)
  from write_user_ok [OF Cons.prems(1), of tab "le_bytes 8 cur"] Cons.prems(5,6) obtain s1 where
    s1: "write_user c tab (le_bytes 8 cur) s = Some s1" "bd_kernel s1 = bd_kernel s" "current_root c s1 = current_root c s" by auto
  from write_user_ok [of lo hi c s1 cur "bytes_of_string w"] Cons.prems(1,3,4) s1 obtain s2 where
    s2: "write_user c cur (bytes_of_string w) s1 = Some s2" "bd_kernel s2 = bd_kernel s" "current_root c s2 = current_root c s" by auto
  from write_user_ok [of lo hi c s2 "cur + length w" "[0]"] Cons.prems(1,3,4) s2 obtain s3 where
    s3: "write_user c (cur + length w) [0] s2 = Some s3" "bd_kernel s3 = bd_kernel s" "current_root c s3 = current_root c s" by auto
  from Cons.IH [of s3 "cur + length w + 1" "tab + 8"] Cons.prems s3 obtain s' where
    "write_arg_table c args (cur + length w + 1) (tab + 8) s3 = Some s'" by auto
  moreover have "tab + 8 < 2 ^ 64" "cur + length w + 1 < 2 ^ 64" using Cons.prems by auto
  ultimately show ?case using s1(1) s2(1) s3(1) by (simp add: checked_add_def)
qed simp

definition arg_entry :: u64 where
  "arg_entry = set_writeable True (set_executable True (entry_new (word_of_nat 0x3000) True))"

lemma arg_entry_bits: "present arg_entry" "writeable arg_entry"
  by (simp_all add: arg_entry_def present_def writeable_def entry_setter_defs bit_put_bit bit_entry_new)

theorem add_args_layout_witness:
  "\<exists>s ns ns' s' cur. add_args 0 [''init'', ''-x''] ns s = Some (Inr (2, cur + 8), ns', s') \<and>
     arg_at (bd_space s' (current_root 0 s)) [''init'', ''-x''] cur (cur + 8) 1"
proof -
  let ?args = "[''init'', ''-x'']" and ?ns = "\<lparr>ns_id = 1, page_tree_root = 0x7000, range_counter = 1, memory_ranges = []\<rparr>"
  from holds_boot obtain b0 where b0: "holds b0 {6, 7, 0}" by blast
  have "\<forall>q::nat. 5 < q \<and> q < 8 \<longrightarrow> q \<in> {6, 7, 0}" "\<forall>q::nat. 4 < q \<and> q < 8 \<longrightarrow> q \<in> {5, 6, 7, 0}"
    "\<forall>q::nat. 3 < q \<and> q < 8 \<longrightarrow> q \<in> {4, 5, 6, 7, 0}" by auto
  with holds_alloc [OF b0, of 5] holds_alloc [of _ "{5, 6, 7, 0}" 4] holds_alloc [of _ "{4, 5, 6, 7, 0}" 3]
  obtain b b' where b: "allocate_frame b = Some (0x3000, b')" by force
  let ?s = "loader_state (low_pt new_empty b)" and ?m = "low_pt (new_empty[1 := arg_entry]) b'"
  let ?r = "\<lparr>virt_tree_node = 0x3000, virt_tree_level = 0, mem_range_type = Manual,
    perms = \<lparr>perm_write = True, perm_execute = False\<rparr>, allocated_pages = 0\<rparr>"
  have total: "args_total ?args = Some 24" "args_size ?args = 8" "args_padding ?args = 0" "args_capacity 24 = C4KB"
    by (simp_all add: args_total_def args_padding_def args_capacity_def panic_unless_def checked_simps)
  have "align_up C4KB 1 = Some 0x1000" using align_up_eq [of 1 C4KB] by (simp add: capacity_bytes_def div_ceil_def)
  then have hole: "find_hole C4KB ?ns h = Some (Some 0x1000)" for h
    by (simp add: find_hole_def find_hole_from.simps [of _ _ _ "Suc 0"] capacity_reserved_range_def capacity_bytes_def checked_simps)
  have lp: "(low_pt new_empty b)\<lparr>frames := b'\<rparr> = low_pt new_empty b'" "frames (low_pt new_empty b) = b"
    "clear_table (low_pt new_empty b') 0x3000 = low_pt new_empty b'" "read_entry (low_pt new_empty b') 0x4000 1 = Some blank"
    "write_entry (low_pt new_empty b') 0x4000 1 arg_entry = Some ?m" "read_entry ?m 0x4000 1 = Some arg_entry"
    by (auto simp: low_pt_def clear_table_def read_entry_def write_entry_def index_at_def)
  have cr: "create C4KB \<lparr>perm_write = True, perm_execute = False\<rparr> Manual (low_pt new_empty b) = Some (?r, low_pt new_empty b')"
    using b lp(1-3) by (simp add: create_def alloc_zeroed_def alloc_frame_def)
  have al: "allocate_manual_external ?r 0 1 m = Some (Inr (), ?r\<lparr>allocated_pages := 1\<rparr>, m)" for m
    by (simp add: allocate_manual_external_def allocate_manual_def vmm_userspace_map_def checked_simps saturating_add_def)
  have "\<forall>x. 0x1000 \<le> x \<and> x < 0x2000 \<longrightarrow> user_writeable 0x7000 ?m x"
    using low_walk lp(6) arg_entry_bits by (simp add: user_writeable_def)
  then have wr: "\<exists>s'. write_arg_table 0 ?args 0x1000 0x1008 s = Some s'" if "current_root 0 s = 0x7000" "bd_pt s = ?m" for s
    using write_arg_table_ok [of "0x1000" "0x2000" 0 s "0x1000" ?args "0x1008"] that total by simp
  have "reserved_range (?r\<lparr>allocated_pages := 1\<rparr>) 0x1000 = Some (0x1000, 0x2000)"
    by (simp add: reserved_range_def max_size_def from_level_def capacity_reserved_range_def capacity_bytes_def checked_simps)
  then obtain ns' h where am: "add_mem_range 0 ''[args]'' StaticData 0x1000 ?ns
      \<lparr>arcs = [0 \<mapsto> (?r\<lparr>allocated_pages := 1\<rparr>, 1)], ns_pt = low_pt new_empty b'\<rparr> = Some (Inr 1, ns', h)" "ns_pt h = ?m"
    using low_walk [of "0x1000" True new_empty b'] lp(4,5)
    by (simp add: add_mem_range_def arc_get_def arg_entry_def checked_simps)
  define s1 where "s1 = with_heap h (snd (new_arc (?r\<lparr>allocated_pages := 1\<rparr>) (with_pt (low_pt new_empty b') ?s)))"
  have "current_root 0 s1 = 0x7000" "bd_pt s1 = ?m"
    by (simp_all add: s1_def with_heap_def new_arc_def with_pt_def loader_defs am(2))
  with wr obtain s' where s': "write_arg_table 0 ?args 0x1000 0x1008 s1 = Some s'" by blast
  have st: "bd_pt ?s = low_pt new_empty b" "k_next_arc (bd_kernel ?s) = 0" "arcs (bd_heap ?s) = Map.empty" by (simp_all add: loader_defs)
  have "bd_heap (snd (new_arc (?r\<lparr>allocated_pages := 1\<rparr>) (with_pt (low_pt new_empty b') ?s))) =
      \<lparr>arcs = [0 \<mapsto> (?r\<lparr>allocated_pages := 1\<rparr>, 1)], ns_pt = low_pt new_empty b'\<rparr>"
    "fst (new_arc (?r\<lparr>allocated_pages := 1\<rparr>) (with_pt (low_pt new_empty b') ?s)) = 0"
    by (simp_all add: new_arc_def with_pt_def with_heap_def loader_defs)
  with s' am(1) cr al hole total st have add: "add_args 0 ?args ?ns ?s = Some (Inr (2, 0x1008), ns', s')"
    by (simp add: add_args_def Let_def case_prod_beta checked_simps div_ceil_def s1_def del: write_arg_table.simps)
  from add_args_layout [OF _ add] total obtain cur where "cur + 8 = 0x1008" "arg_at (bd_space s' (current_root 0 ?s)) ?args cur 0x1008 1"
    by auto
  with add show ?thesis by metis
qed

end
