(* ===== verification/ProcessStart.thy ===== *)
theory ProcessStart
  imports ProcessBuilder
begin

text \<open>
  A process that \<open>create_process_from_context\<close> (\<open>proc/context/builder.rs\<close>) reports as started: what the scheduler, the
  namespaces and the processor hold afterwards.
\<close>

section \<open>What building an address space leaves alone\<close>

definition kernel_kept :: "builder \<Rightarrow> builder \<Rightarrow> bool" where
  "kernel_kept s s' \<longleftrightarrow>
     bd_kernel s' = (bd_kernel s)\<lparr>k_heap := k_heap (bd_kernel s'), k_next_arc := k_next_arc (bd_kernel s')\<rparr>"

lemma kept_refl: "kernel_kept s s"
  by (simp add: kernel_kept_def)

lemma kept_trans:
  assumes "kernel_kept s s1" and "kernel_kept s1 s2"
  shows "kernel_kept s s2"
proof -
  from assms obtain h n h' n' where "bd_kernel s1 = (bd_kernel s)\<lparr>k_heap := h, k_next_arc := n\<rparr>"
    "bd_kernel s2 = (bd_kernel s1)\<lparr>k_heap := h', k_next_arc := n'\<rparr>" unfolding kernel_kept_def by blast
  then show ?thesis by (simp add: kernel_kept_def)
qed

lemma kept_with_heap [simp]: "kernel_kept s (with_heap h s)" "kernel_kept s (with_pt m s)"
  by (simp_all add: kernel_kept_def with_heap_def with_pt_def)

lemma kept_new_arc: "kernel_kept s (snd (new_arc r s))"
  by (simp add: kernel_kept_def new_arc_def Let_def)

lemma kept_write_user: "write_user c a bs s = Some s' \<Longrightarrow> kernel_kept s s'"
  using write_user_Some [of c a bs s s'] by (simp add: kernel_kept_def)

lemma kept_copy_inits: "copy_inits c xs s = Some s' \<Longrightarrow> kernel_kept s s'"
proof (induction xs arbitrary: s)
  case (Cons x xs)
  then obtain s1 where "write_user c (fst x) (snd x) s = Some s1" "copy_inits c xs s1 = Some s'" by (auto simp: bind_eq_Some_conv)
  with Cons.IH kept_write_user kept_trans show ?case by blast
qed (simp add: kept_refl)

lemma kept_write_arg_table: "write_arg_table c args cur tab s = Some s' \<Longrightarrow> kernel_kept s s'"
proof (induction args arbitrary: cur tab s)
  case (Cons w args)
  from Cons.prems obtain s1 s2 s3 cur' tab' where w: "write_user c tab (le_bytes 8 cur) s = Some s1"
    "write_user c cur (bytes_of_string w) s1 = Some s2" "write_user c (cur + length w) [0] s2 = Some s3"
    "write_arg_table c args cur' tab' s3 = Some s'" by (auto simp: bind_eq_Some_conv split: if_splits)
  from kept_write_user [OF w(1)] kept_write_user [OF w(2)] have "kernel_kept s s2" by (rule kept_trans)
  then have "kernel_kept s s3" using kept_write_user [OF w(3)] by (rule kept_trans)
  then show ?case using Cons.IH [OF w(4)] by (rule kept_trans)
qed (simp add: kept_refl)

lemma kept_fresh_arc: "kernel_kept s (with_heap h (snd (new_arc r (with_pt m s))))"
  by (intro kept_trans [OF kept_with_heap(2) kept_trans [OF kept_new_arc kept_with_heap(1)]])

lemma fails_dropping:
  "case_sum (\<lambda>e. d \<bind> (\<lambda>m. d' m \<bind> (\<lambda>h. Some (Inl e, k e h)))) f x = Some (Inr r, b) \<longleftrightarrow>
   (\<exists>y. x = Inr y \<and> f y = Some (Inr r, b))"
  by (cases x) (auto simp: bind_eq_Some_conv)

lemma add_mem_range_id: "add_mem_range a nm ty addr ns h = Some (res, ns', h') \<Longrightarrow> ns_id ns' = ns_id ns"
  using add_mem_range_Inr [of a nm ty addr ns h _ ns' h'] add_mem_range_Inl [of a nm ty addr ns h _ ns' h'] by (cases res) auto

lemma kept_initialized:
  assumes "build_initialized_memory_namespace c ctx ns s = Some (Inr ns', s')"
  shows "kernel_kept s s' \<and> ns_id ns' = ns_id ns"
proof -
  from assms obtain m1 range a h1 added h2 s2 h3 where add: "add_mem_range a (ci_path ctx) Code 0 ns h1 = Some (added, ns', h2)" and
    c: "copy_inits c (mem_init ctx) (with_heap h2 (snd (new_arc range (with_pt m1 s)))) = Some s2" and s': "s' = with_heap h3 s2"
    by (auto simp: build_initialized_memory_namespace_def fails_dropping bind_eq_Some_conv case_prod_beta)
  from kept_trans [OF kept_fresh_arc kept_copy_inits [OF c]] have "kernel_kept s s2" .
  from kept_trans [OF this kept_with_heap(1)] add_mem_range_id [OF add] show ?thesis unfolding s' by simp
qed

lemma kept_add_stack:
  assumes "add_stack c n ns s = Some (Inr u, ns', s')"
  shows "kernel_kept s s' \<and> ns_id ns' = ns_id ns"
proof -
  from assms obtain m1 range a area h1 added h p p' s2 where add: "add_mem_range a ''[stack]'' Stack area ns h1 = Some (added, ns', h)"
    and w: "write_user c p (le_bytes 8 0) (with_heap h (snd (new_arc range (with_pt m1 s)))) = Some s2"
    "write_user c p' (le_bytes 8 0) s2 = Some s'"
    by (auto simp: add_stack_def fails_Inr bind_eq_Some_conv case_prod_beta)
  from kept_trans [OF kept_fresh_arc kept_write_user [OF w(1)]] have "kernel_kept s s2" .
  from kept_trans [OF this kept_write_user [OF w(2)]] add_mem_range_id [OF add] show ?thesis by simp
qed

lemma kept_add_args:
  assumes "add_args c args ns s = Some (Inr r, ns', s')"
  shows "kernel_kept s s' \<and> ns_id ns' = ns_id ns \<and> fst r = length args"
proof -
  from assms obtain n where n: "args_total args = Some n" by (auto simp: add_args_def bind_eq_Some_conv)
  show ?thesis
  proof (cases "n = 0")
    case True
    with args_total_Some [OF n] assms n show ?thesis by (auto simp: add_args_def kept_refl)
  next
    case False
    with assms n obtain m1 range a area h1 added h cur tab where add: "add_mem_range a ''[args]'' StaticData area ns h1 = Some (added, ns', h)"
      and w: "write_arg_table c args cur tab (with_heap h (snd (new_arc range (with_pt m1 s)))) = Some s'" and r: "r = (length args, tab)"
      by (auto simp: add_args_def Let_def fails_Inr bind_eq_Some_conv case_prod_beta)
    from kept_trans [OF kept_fresh_arc kept_write_arg_table [OF w]] add_mem_range_id [OF add] r show ?thesis by simp
  qed
qed

lemma abandoned_Inr:
  "(case r of Inl e \<Rightarrow> abandon c root e ns s | Inr x \<Rightarrow> g x) = Some (Inr v, s') \<longleftrightarrow> (\<exists>x. r = Inr x \<and> g x = Some (Inr v, s'))"
  by (cases r) (auto simp: abandon_def bind_eq_Some_conv)

text \<open>The whole address space: beside the heap only the counter of namespaces moves, and the processor is
  back on the page tree it had.\<close>

lemma built_kernel:
  assumes "build_mem_namespace_for_new_proc c ctx s = Some (Inr (mem, argc, argv), s')"
  shows "\<exists>h n. bd_kernel s' = (bd_kernel s)\<lparr>k_ns_counter := k_ns_counter (bd_kernel s) + 1, k_heap := h, k_next_arc := n\<rparr> \<and>
    ns_id mem = k_ns_counter (bd_kernel s) mod 2 ^ 64 \<and> argc = length (ci_args ctx)"
proof -
  from assms obtain ns0 s1 ns1 s2 u ns2 s3 s4 where b: "build_empty_memory_namespace c s = Some (ns0, s1)"
    "build_initialized_memory_namespace c ctx ns0 (set_page_tree_root c (page_tree_root ns0) s1) = Some (Inr ns1, s2)"
    "add_stack c (div_ceil DEFAULT_PROC_STACK_SIZE 0x1000 mod 2 ^ 8) ns1 s2 = Some (Inr u, ns2, s3)"
    "add_args c (ci_args ctx) ns2 s3 = Some (Inr (argc, argv), mem, s4)" "s' = set_page_tree_root c (current_root c s1) s4"
    by (auto simp: build_mem_namespace_for_new_proc_def abandoned_Inr fails_Inr Let_def bind_eq_Some_conv)
  have e: "\<exists>h. bd_kernel s1 = (bd_kernel s)\<lparr>k_ns_counter := k_ns_counter (bd_kernel s) + 1, k_heap := h\<rparr>"
    "ns_id ns0 = k_ns_counter (bd_kernel s) mod 2 ^ 64"
    using b(1) by (auto simp: build_empty_memory_namespace_def new_namespace_id_def create_empty_def bind_eq_Some_conv)
  note k2 = kept_initialized [OF b(2)] and k3 = kept_add_stack [OF b(3)] and k4 = kept_add_args [OF b(4)]
  from k2 k3 k4 have "kernel_kept (set_page_tree_root c (page_tree_root ns0) s1) s4" using kept_trans by blast
  then obtain h n where "bd_kernel s4 = (bd_kernel (set_page_tree_root c (page_tree_root ns0) s1))\<lparr>k_heap := h, k_next_arc := n\<rparr>"
    unfolding kernel_kept_def by blast
  with e(1) b(5) have "bd_kernel s' = (bd_kernel s)\<lparr>k_ns_counter := k_ns_counter (bd_kernel s) + 1, k_heap := h, k_next_arc := n\<rparr>"
    by (auto simp: set_page_tree_root_def current_root_def)
  with e(2) k2 k3 k4 show ?thesis by (intro exI [of _ h] exI [of _ n]) simp
qed

lemma mod_64_shift: "0 < d \<Longrightarrow> d < 2 ^ 64 \<Longrightarrow> n mod 2 ^ 64 \<noteq> (n + d) mod (2 ^ 64 :: nat)"
  using mod_eq_dvd_iff_nat [of n "n + d" "2 ^ 64"] by (auto dest: dvd_imp_le)

section \<open>Properties\<close>

text \<open>C11: A process that is reported as started is ready to run its program: it is the last of the ready queue, its
  saved state enters the program in user mode at the entry point with the number of arguments in \<open>rdi\<close>, it has a
  memory, a system call and a file system namespace of its own, each with the two references it
  holds, and the processor that started it is back on its own page tree.\<close>

theorem started_process_ready:
  assumes "create_process_from_context c ctx h s = Some (Inr pid, s')"
  shows "current_root c s' = current_root c s \<and>
    ready_to_run (k_procs (bd_kernel s')) = ready_to_run (k_procs (bd_kernel s)) @ [pid] \<and>
    (\<exists>a d st mem sys fs. tasks (k_procs (bd_kernel s')) pid = Some a \<and> objects (k_procs (bd_kernel s')) a = Some d \<and>
      pd_pid d = pid \<and> cmdline d = ci_cmdline ctx \<and> \<not> sleeping d \<and> cpu_state d = Interrupt st \<and>
      if_rip (interrupt_frame st) = word_of_nat (entry_point ctx) \<and> if_cs (interrupt_frame st) = 0x23 \<and>
      ip_rdi st = word_of_nat (length (ci_args ctx)) \<and> pd_page_tree_root d = page_tree_root mem \<and>
      k_ns (bd_kernel s') (memory_namespace (namespaces d)) = Some (NsMem mem) \<and>
      k_ns (bd_kernel s') (syscall_namespace (namespaces d)) = Some (NsSyscall sys) \<and>
      k_ns (bd_kernel s') (filesystem_namespace (namespaces d)) = Some (NsFs fs) \<and> cwd fs = h \<and>
      (\<forall>i\<in>{memory_namespace (namespaces d), syscall_namespace (namespaces d), filesystem_namespace (namespaces d)}.
         k_refs (bd_kernel s') i = 2))"
proof -
  let ?k = "bd_kernel s" and ?n = "k_ns_counter (bd_kernel s)"
  let ?s0 = "s\<lparr>bd_kernel := ?k\<lparr>k_procs := (k_procs ?k)\<lparr>process_id_counter := process_id_counter (k_procs ?k) + 1\<rparr>\<rparr>\<rparr>"
  from assms obtain mem argc argv s1 where b: "build_mem_namespace_for_new_proc c ctx ?s0 = Some (Inr (mem, argc, argv), s1)"
    by (auto simp: create_process_from_context_def Let_def fails_Inr bind_eq_Some_conv)
  from built_kernel [OF b] obtain hp na where k1: "bd_kernel s1 = (bd_kernel ?s0)\<lparr>k_ns_counter := ?n + 1, k_heap := hp, k_next_arc := na\<rparr>"
    and id: "ns_id mem = ?n mod 2 ^ 64" and argc: "argc = length (ci_args ctx)" by auto
  have ids: "?n mod 2 ^ 64 \<noteq> (?n + 1) mod 2 ^ 64" "?n mod 2 ^ 64 \<noteq> (?n + 2) mod 2 ^ 64" "(?n + 1) mod 2 ^ 64 \<noteq> (?n + 2) mod 2 ^ 64"
    using mod_64_shift [of 1 ?n] mod_64_shift [of 2 ?n] mod_64_shift [of 1 "?n + 1"] by (simp_all add: add.assoc)
  let ?i1 = "new_namespace_id (bd_kernel s1)"
  let ?i2 = "new_namespace_id (snd ?i1)"
  from assms b obtain rsp sys where fin: "pid = process_id_counter (k_procs ?k) mod 2 ^ 32"
    "bd_kernel s' = (let k3 = own_namespace (fst ?i2) (NsFs (fs_namespace_new (fst ?i2) h))
        (own_namespace (fst ?i1) (NsSyscall sys) (own_namespace (ns_id mem) (NsMem mem) (snd ?i2)))
      in k3\<lparr>k_procs := accept_new_process pid (process_new pid (ci_is_32_bit ctx) (ci_cmdline ctx)
        (Interrupt (set_arg_registers (word_of_nat argc) (word_of_nat argv) 0 (interrupt_state_new (word_of_nat (entry_point ctx)) rsp)))
        (page_tree_root mem) (proc_namespaces_new (ns_id mem) (fst ?i1) (fst ?i2))) (k_procs k3)\<rparr>)"
    by (auto simp: create_process_from_context_def Let_def bind_eq_Some_conv case_prod_beta)
  show ?thesis
    unfolding fin(2) k1 id argc current_root_def
    using ids by (auto simp: Let_def new_namespace_id_def own_namespace_def new_namespace_def clone_namespace_def accept_new_process_def process_new_def
        proc_namespaces_new_def set_arg_registers_def interrupt_state_new_def new_full_def fs_namespace_new_def)
qed

section \<open>A process that starts\<close>

text \<open>A machine of eight frames that hands out the highest free one: those from \<open>p\<close> on and frame 0 are taken.\<close>

definition space :: "(nat \<rightharpoonup> u64 list) \<Rightarrow> BuddyAllocator \<Rightarrow> pt_mem" where
  "space ts b = \<lparr>tables = ts, frames = b, max_ram_addr = 0x7000\<rparr>"

lemma space_simps:
  "tables (space ts b) = ts" "frames (space ts b) = b"
  "read_entry (space ts b) t i = ts t \<bind> (\<lambda>es. index_at es i)"
  "write_entry (space ts b) t i e = ts t \<bind> (\<lambda>es. if i < length es then Some (space (ts(t \<mapsto> es[i := e])) b) else None)"
  by (simp_all add: space_def read_entry_def write_entry_def cong: if_cong)

lemma space_alloc:
  assumes "holds b (insert 0 {Suc p..<8})" and "0 < p" and "p < 8"
  obtains b' where "alloc_frame (space ts b) = Some (p * 4096, space ts b')"
    "alloc_zeroed (space ts b) = Some (p * 4096, space (ts(p * 4096 \<mapsto> new_empty)) b')" "holds b' (insert 0 {p..<8})"
proof -
  have "insert p (insert 0 {Suc p..<8}) = insert 0 {p..<8}" using assms(3) by auto
  with holds_alloc [OF assms(1,3)] assms(2) obtain b' where "allocate_frame b = Some (p * 4096, b')" "holds b' (insert 0 {p..<8})"
    by auto
  then show thesis using that [of b'] by (simp add: alloc_frame_def alloc_zeroed_def clear_table_def space_def)
qed

lemma space_boot: "\<exists>b. holds b (insert 0 {7..<8})"
proof -
  from holds_boot obtain b where b: "holds b {6, 7, 0}" by blast
  have "\<exists>b'. drop_addr (6 * 4096) (space Map.empty b) = Some ((space Map.empty b)\<lparr>frames := b'\<rparr>) \<and> holds b' ({6, 7, 0} - {6})"
    by (rule holds_drop) (use b in \<open>simp_all add: space_def\<close>)
  moreover have "{6, 7, 0} - {6} = insert 0 {7..<8::nat}" by auto
  ultimately show ?thesis by auto
qed

text \<open>An entry that leads to the table or frame at \<open>a\<close>.\<close>

definition leads :: "u64 \<Rightarrow> nat \<Rightarrow> bool" where
  "leads e a \<longleftrightarrow> present e \<and> writeable e \<and> \<not> huge_page e \<and> unat (entry_address e) = a"

lemma leads_set [simp]:
  "leads e a \<Longrightarrow> leads (set_writeable True e) a"
  "leads (set_no_execute x e) a \<longleftrightarrow> leads e a"
  "leads (set_executable x e) a \<longleftrightarrow> leads e a"
proof -
  have "entry_address (put_bit n v e) = entry_address e" if "n = 1 \<or> n = 63" for n v
    by (rule bit_word_eqI) (use that in \<open>auto simp: bit_entry_address bit_put_bit\<close>)
  then show "leads e a \<Longrightarrow> leads (set_writeable True e) a"
    "leads (set_no_execute x e) a \<longleftrightarrow> leads e a" "leads (set_executable x e) a \<longleftrightarrow> leads e a"
    by (simp_all add: leads_def entry_setter_defs entry_field_defs bit_put_bit)
qed

lemma leads_new: "p < 8 \<Longrightarrow> leads (entry_new (word_of_nat (p * 4096)) u) (p * 4096)"
proof -
  assume p: "p < 8"
  let ?a = "word_of_nat (p * 4096) :: u64"
  have "unat ?a = p * 4096" using p unat_u64_of_nat [of "p * 4096"] by simp
  then have "entry_address (entry_new ?a u) = ?a"
    using entry_new_fields [of ?a u] p by (simp add: word_less_nat_alt word_unat_eq_iff take_bit_eq_mod unat_mod)
  then show ?thesis using \<open>unat ?a = p * 4096\<close> by (simp add: leads_def entry_field_defs bit_entry_new)
qed

lemmas space_tables = space_simps index_at_def level_index_def checked_simps

text \<open>The steps of the start: the root table at \<open>0x6000\<close>, the code range at \<open>0x5000\<close>, the stack range at
  \<open>0x4000\<close> with its last page and a table above it.\<close>

definition low_tables :: "nat \<rightharpoonup> u64 list" where
  "low_tables = [0x7000 \<mapsto> new_empty, 0x6000 \<mapsto> new_empty]"

definition init_context :: ContextInfo where
  "init_context = \<lparr>ci_is_32_bit = False, mem_regions = [], mem_init = [], entry_point = 0x1000, ci_cmdline = ''init'',
     ci_args = [], ci_path = ''init''\<rparr>"

abbreviation data_perms :: VirtualMemoryRangePermissions where
  "data_perms \<equiv> \<lparr>perm_write = True, perm_execute = False\<rparr>"

definition code_range :: VirtualMemoryRange where
  "code_range = \<lparr>virt_tree_node = 0x5000, virt_tree_level = 3, mem_range_type = Manual, perms = data_perms, allocated_pages = 0\<rparr>"

definition code_map :: OwnedVirtualMemoryRange where
  "code_map = \<lparr>shared_range = 0, range_name = ''init'', range_type = Code, map_address = 0, range_id = 1\<rparr>"

abbreviation boot_ns :: "nat \<Rightarrow> OwnedVirtualMemoryRange list \<Rightarrow> MemoryNamespace" where
  "boot_ns n rs \<equiv> \<lparr>ns_id = 1, page_tree_root = 0x6000, range_counter = n, memory_ranges = rs\<rparr>"

lemma boot_empty_namespace:
  assumes b: "holds b (insert 0 {7..<8})" and s: "bd_heap s = \<lparr>arcs = Map.empty, ns_pt = space [0x7000 \<mapsto> new_empty] b\<rparr>"
    "current_root 0 s = 0x7000" "k_next_arc (bd_kernel s) = 0" "k_ns_counter (bd_kernel s) = 1"
  shows "\<exists>b' s'. build_empty_memory_namespace 0 s = Some (boot_ns 1 [], s') \<and> holds b' (insert 0 {6..<8}) \<and>
    bd_heap s' = \<lparr>arcs = Map.empty, ns_pt = space low_tables b'\<rparr> \<and> k_next_arc (bd_kernel s') = 0"
proof -
  from space_alloc [of b 6 "[0x7000 \<mapsto> new_empty]"] b obtain b' where
    a: "alloc_zeroed (space [0x7000 \<mapsto> new_empty] b) = Some (0x6000, space low_tables b')" and b': "holds b' (insert 0 {6..<8})"
    by (auto simp: low_tables_def)
  have "new_empty[256 := blank] = new_empty" by (rule list_update_same_conv [THEN iffD2]) simp_all
  with copy_one_entry [of "0x7000" "0x6000" "space low_tables b'" 256 blank]
  have c: "copy_higher_half 0x7000 0x6000 (space low_tables b') = Some (space low_tables b')"
    by (simp add: low_tables_def space_def fun_upd_twist)
  show ?thesis using a b' c s
    by (auto simp: build_empty_memory_namespace_def new_namespace_id_def create_empty_def)
qed

lemma code_range_bounds: "reserved_range code_range 0 = Some (0, 2 ^ 39)"
  by (simp add: code_range_def reserved_range_def max_size_def from_level_def capacity_reserved_range_def capacity_bytes_def checked_simps)

lemma entry_here:
  "node \<le> virt \<Longrightarrow> PageTable.get_page_table_entry (Suc l) t virt node (Suc l) alloc m = Some (Some (t, level_index l (virt - node)), m)"
  by (simp add: checked_simps)

lemma boot_code:
  assumes b: "holds b (insert 0 {6..<8})" and s: "bd_heap s = \<lparr>arcs = Map.empty, ns_pt = space low_tables b\<rparr>" "k_next_arc (bd_kernel s) = 0"
  shows "\<exists>b' e s'. build_initialized_memory_namespace 0 init_context
      (boot_ns 1 []) s =
    Some (Inr (boot_ns 2 [code_map]), s') \<and>
    holds b' (insert 0 {5..<8}) \<and> k_next_arc (bd_kernel s') = 1 \<and>
    bd_heap s' = \<lparr>arcs = [0 \<mapsto> (code_range, 1)], ns_pt = space (low_tables(0x5000 \<mapsto> new_empty, 0x6000 \<mapsto> new_empty[0 := e])) b'\<rparr>"
proof -
  from space_alloc [of b 5 low_tables] b obtain b' where
    a: "alloc_zeroed (space low_tables b) = Some (0x5000, space (low_tables(0x5000 \<mapsto> new_empty)) b')" and b': "holds b' (insert 0 {5..<8})"
    by auto
  have c: "create C05TB data_perms Manual (space low_tables b) = Some (code_range, space (low_tables(0x5000 \<mapsto> new_empty)) b')"
    using a by (simp add: create_def code_range_def)
  let ?e = "set_writeable True (set_executable True (entry_new (word_of_nat 0x5000) True))"
  have add: "add_mem_range 0 ''init'' Code 0 (boot_ns 1 [])
      \<lparr>arcs = [0 \<mapsto> (code_range, Suc (Suc 0))], ns_pt = space (low_tables(0x5000 \<mapsto> new_empty)) b'\<rparr> =
    Some (Inr 1, (boot_ns 2 [code_map]),
      \<lparr>arcs = [0 \<mapsto> (code_range, Suc (Suc 0))], ns_pt = space (low_tables(0x5000 \<mapsto> new_empty, 0x6000 \<mapsto> new_empty[0 := ?e])) b'\<rparr>)"
    using code_range_bounds entry_here [of 0 0 3]
    by (simp add: add_mem_range_def arc_get_def get_page_table_entry_at_level_def space_tables low_tables_def code_map_def fun_upd_twist)
      (simp add: code_range_def space_tables)
  show ?thesis using b' c code_range_bounds add s
    by (auto simp: build_initialized_memory_namespace_def init_context_def new_arc_def with_pt_def with_heap_def arc_clone_def arc_drop_def)
qed

definition stack_range :: VirtualMemoryRange where
  "stack_range = \<lparr>virt_tree_node = 0x4000, virt_tree_level = 2, mem_range_type = Managed Down, perms = data_perms, allocated_pages = 1\<rparr>"

definition stack_map :: OwnedVirtualMemoryRange where
  "stack_map = \<lparr>shared_range = 1, range_name = ''[stack]'', range_type = Stack, map_address = 2 ^ 39, range_id = 2\<rparr>"

lemma stack_range_bounds: "reserved_range stack_range (2 ^ 39) = Some (2 ^ 39, 2 ^ 39 + 2 ^ 30)"
  by (simp add: stack_range_def reserved_range_def max_size_def from_level_def capacity_reserved_range_def capacity_bytes_def checked_simps)

text \<open>The last page of the stack takes a table and a frame.\<close>

lemma boot_stack_page:
  assumes "holds b (insert 0 {4..<8})" and t: "ts 0x4000 = Some new_empty"
  shows "\<exists>b' e2 e1. userspace_map 2 262143 262144 data_perms 0x4000 0 (space ts b) =
    Some (space (ts(0x4000 \<mapsto> new_empty[511 := e2], 0x3000 \<mapsto> new_empty[511 := e1])) b') \<and>
    leads e2 0x3000 \<and> leads e1 0x2000 \<and> holds b' (insert 0 {2..<8})"
proof -
  from space_alloc [of b 3 ts] assms(1) obtain b3 where
    a3: "alloc_zeroed (space ts b) = Some (0x3000, space (ts(0x3000 \<mapsto> new_empty)) b3)" "holds b3 (insert 0 {3..<8})" by auto
  define e e2 e1 where "e = entry_new 0x3000 True" and "e2 = set_no_execute (no_execute (set_writeable True e)) (set_writeable True e)"
    and "e1 = set_no_execute True (set_writeable True (entry_new 0x2000 True))"
  have l: "leads e 0x3000" "leads e1 0x2000" using leads_new [of 3 True] leads_new [of 2 True] by (simp_all add: e_def e1_def)
  then have e2: "leads e2 0x3000" by (simp add: e2_def)
  then have "unat (entry_address e2) = 0x3000" "present e" "writeable e" "\<not> huge_page e" using l(1) by (simp_all add: leads_def)
  note e2 = e2 this
  let ?ts = "ts(0x4000 \<mapsto> new_empty[511 := e2], 0x3000 \<mapsto> new_empty)"
  from space_alloc [of b3 2 ?ts] a3(2) obtain b2 where
    a2: "alloc_frame (space ?ts b3) = Some (0x2000, space ?ts b2)" "holds b2 (insert 0 {2..<8})" by auto
  have r: "entry_range 512 262143 262144 0 = Some [511]" "entry_range 1 262143 262144 261632 = Some [511]"
    by (simp_all add: entry_range_def checked_simps div_ceil_def Let_def)
  have none: "user_map_entries f l q t p [] = Some" for f l q t p by (rule ext) simp
  have "userspace_map 1 262143 262144 data_perms 0x3000 261632 (space ?ts b3) =
      Some (space (ts(0x4000 \<mapsto> new_empty[511 := e2], 0x3000 \<mapsto> new_empty[511 := e1])) b2)"
    using r(2) a2(1) by (simp add: space_tables e1_def)
  moreover have "userspace_map 2 262143 262144 data_perms 0x4000 0 (space ts b) =
      userspace_map 1 262143 262144 data_perms 0x3000 261632 (space ?ts b3)"
    using r(1) a3(1) t e2(2-)
    by (simp add: numeral_2_eq_2 userspace_map.simps(2) [of "Suc 0"] lower_table_def none space_tables e_def [symmetric] e2_def [symmetric] fun_upd_twist Let_def del: userspace_map.simps(2))
  ultimately show ?thesis using l e2 a2(2) by auto
qed

lemma boot_stack_create:
  assumes "holds b (insert 0 {5..<8})"
  shows "\<exists>r0 m0 b' e2 e1. create C1GB data_perms (Managed Down) (space ts b) = Some (r0, m0) \<and>
    expand_to r0 1 m0 = Some (Inr (), stack_range, space (ts(0x4000 \<mapsto> new_empty[511 := e2], 0x3000 \<mapsto> new_empty[511 := e1])) b') \<and>
    leads e2 0x3000 \<and> leads e1 0x2000 \<and> holds b' (insert 0 {2..<8})"
proof -
  from space_alloc [of b 4 ts] assms obtain b4 where
    a: "alloc_zeroed (space ts b) = Some (0x4000, space (ts(0x4000 \<mapsto> new_empty)) b4)" "holds b4 (insert 0 {4..<8})" by auto
  from boot_stack_page [OF a(2), of "ts(0x4000 \<mapsto> new_empty)"] obtain b' e2 e1 where
    u: "userspace_map 2 262143 262144 data_perms 0x4000 0 (space (ts(0x4000 \<mapsto> new_empty)) b4) =
      Some (space (ts(0x4000 \<mapsto> new_empty[511 := e2], 0x3000 \<mapsto> new_empty[511 := e1])) b')"
    "leads e2 0x3000" "leads e1 0x2000" "holds b' (insert 0 {2..<8})" by auto
  have "create C1GB data_perms (Managed Down) (space ts b) = Some (stack_range\<lparr>allocated_pages := 0\<rparr>, space (ts(0x4000 \<mapsto> new_empty)) b4)"
    using a(1) by (simp add: create_def stack_range_def)
  moreover have "expand_to (stack_range\<lparr>allocated_pages := 0\<rparr>) 1 (space (ts(0x4000 \<mapsto> new_empty)) b4) =
      Some (Inr (), stack_range, space (ts(0x4000 \<mapsto> new_empty[511 := e2], 0x3000 \<mapsto> new_empty[511 := e1])) b')"
    using u(1) by (simp add: expand_to_def stack_range_def max_size_def from_level_def capacity_pages_def allocate_manual_def
        vmm_userspace_map_def panic_unless_def checked_simps saturating_add_def del: userspace_map.simps)
  ultimately show ?thesis using u(2-) by blast
qed

lemma boot_stack_map:
  assumes b: "holds b (insert 0 {2..<8})" and t: "ts 0x6000 = Some (new_empty[0 := e])"
  shows "\<exists>b' e4 e3. add_mem_range 1 ''[stack]'' Stack (2 ^ 39)
      (boot_ns 2 [code_map])
      \<lparr>arcs = [0 \<mapsto> (code_range, 1), 1 \<mapsto> (stack_range, 1)], ns_pt = space ts b\<rparr> =
    Some (Inr 2, (boot_ns 3 [code_map, stack_map]),
      \<lparr>arcs = [0 \<mapsto> (code_range, 1), 1 \<mapsto> (stack_range, 1)],
       ns_pt = space (ts(0x6000 \<mapsto> new_empty[0 := e, 1 := e4], 0x1000 \<mapsto> new_empty[0 := e3])) b'\<rparr>) \<and>
    leads e4 0x1000 \<and> leads e3 0x4000"
proof -
  from space_alloc [of b 1 ts] b obtain b' where
    a: "alloc_zeroed (space ts b) = Some (0x1000, space (ts(0x1000 \<mapsto> new_empty)) b')" by (auto simp: numeral_2_eq_2)
  define e4 e3 where "e4 = set_no_execute False (set_writeable True (entry_new 0x1000 True))"
    and "e3 = set_writeable True (set_executable True (entry_new 0x4000 True))"
  have l: "leads e4 0x1000" "leads e3 0x4000" using leads_new [of 1 True] leads_new [of 4 True] by (simp_all add: e4_def e3_def)
  have i: "level_index 3 (2 ^ 39) = 1" "level_index 2 0 = 0" by (simp_all add: level_index_def)
  let ?m = "space (ts(0x6000 \<mapsto> new_empty[0 := e, 1 := e4], 0x1000 \<mapsto> new_empty)) b'"
  have "PageTable.get_page_table_entry 4 0x6000 (2 ^ 39) 0 3 True (space ts b) = PageTable.get_page_table_entry 3 0x1000 (2 ^ 39) (2 ^ 39) 3 True ?m"
    using i a t l(1) PageTable.get_page_table_entry.simps(2) [of 3 "0x6000" "2 ^ 39" 0 3 True "space ts b"]
    by (simp add: checked_simps space_simps index_at_def e4_def [symmetric] leads_def fun_upd_twist Let_def del: PageTable.get_page_table_entry.simps)
  also have "\<dots> = Some (Some (0x1000, 0), ?m)" using entry_here [of "2 ^ 39" "2 ^ 39" 2] i(2) by simp
  finally have g: "get_page_table_entry_at_level 0x6000 (2 ^ 39) 3 True (space ts b) = Some (Some (0x1000, 0), ?m)"
    by (simp add: get_page_table_entry_at_level_def del: PageTable.get_page_table_entry.simps)
  have "owned_range h code_map = Some (0, 2 ^ 39)" if "arcs h 0 = Some (code_range, 1)" for h
    using that code_range_bounds by (simp add: owned_range_def arc_get_def code_map_def)
  moreover have "virt_tree_level stack_range = 2" "word_of_nat (virt_tree_node stack_range) = (0x4000 :: u64)" "range_name code_map = ''init''"
    by (simp_all add: stack_range_def code_map_def)
  ultimately show ?thesis using g stack_range_bounds l
    by (intro exI [of _ b'] exI [of _ e4] exI [of _ e3])
      (simp add: add_mem_range_def arc_get_def overlaps_def space_simps index_at_def e3_def checked_simps stack_map_def fun_upd_twist)
qed

text \<open>Every byte of the last page can be written.\<close>

lemma boot_stack_writeable:
  assumes t: "ts 0x6000 = Some (new_empty[0 := e, 1 := e4])" "ts 0x1000 = Some (new_empty[0 := e3])"
      "ts 0x4000 = Some (new_empty[511 := e2])" "ts 0x3000 = Some (new_empty[511 := e1])"
    and l: "leads e4 0x1000" "leads e3 0x4000" "leads e2 0x3000" "leads e1 0x2000"
    and x: "2 ^ 39 + 2 ^ 30 - 0x1000 \<le> x" "x < 2 ^ 39 + 2 ^ 30"
  shows "user_writeable 0x6000 (space ts b) x"
proof -
  let ?m = "space ts b" and ?n = "2 ^ 39 + 511 * 2 ^ 21 :: nat"
  have i: "level_index 3 x = 1" "level_index 2 (x - 2 ^ 39) = 0" "level_index 1 (x - 2 ^ 39) = 511" "level_index 0 (x - ?n) = 511"
    using x by (simp_all add: level_index_def)
  have r: "read_entry ?m 0x6000 1 = Some e4" "read_entry ?m 0x1000 0 = Some e3" "read_entry ?m 0x4000 511 = Some e2" "read_entry ?m 0x3000 511 = Some e1"
    using t by (simp_all add: space_simps index_at_def)
  have "PageTable.get_page_table_entry 4 0x6000 x 0 1 False ?m = PageTable.get_page_table_entry 3 0x1000 x (2 ^ 39) 1 False ?m"
    using walk_down [of 0 x ?m "0x6000" 3 e4 1 False] i(1) r(1) l(1) by (simp add: leads_def del: PageTable.get_page_table_entry.simps)
  also have "\<dots> = PageTable.get_page_table_entry 2 0x4000 x (2 ^ 39) 1 False ?m"
    using walk_down [of "2 ^ 39" x ?m "0x1000" 2 e3 1 False] i(2) r(2) l(2) x by (simp add: leads_def del: PageTable.get_page_table_entry.simps)
  also have "\<dots> = PageTable.get_page_table_entry 1 0x3000 x ?n 1 False ?m"
    using walk_down [of "2 ^ 39" x ?m "0x4000" 1 e2 1 False] i(3) r(3) l(3) x
    by (simp add: leads_def del: PageTable.get_page_table_entry.simps One_nat_def)
  also have "\<dots> = Some (Some (0x3000, 511), ?m)" using entry_here [of ?n x 0] i(4) x by simp
  finally show ?thesis using r(4) l(4) by (simp add: user_writeable_def get_page_table_entry_at_level_def leads_def)
qed

lemma boot_hole:
  assumes "arcs h 0 = Some (code_range, 1)" and "memory_ranges ns = [code_map]"
  shows "find_hole C1GB ns h = Some (Some (2 ^ 39))"
proof -
  have o: "owned_range h code_map = Some (0, 2 ^ 39)"
    using assms(1) code_range_bounds by (simp add: owned_range_def arc_get_def code_map_def)
  have a: "align_up C1GB 1 = Some (2 ^ 30)" "align_up C1GB (2 ^ 39) = Some (2 ^ 39)"
    using align_up_eq [of 1 C1GB] align_up_eq [of "2 ^ 39" C1GB] by (simp_all add: capacity_bytes_def div_ceil_def)
  have c: "capacity_reserved_range C1GB (2 ^ 30) = Some (2 ^ 30, 2 ^ 31)" "capacity_reserved_range C1GB (2 ^ 39) = Some (2 ^ 39, 2 ^ 39 + 2 ^ 30)"
    by (simp_all add: capacity_reserved_range_def capacity_bytes_def checked_simps)
  have "find_hole_from C1GB h [code_map] 1 = find_hole_from C1GB h [code_map] (2 ^ 39)"
    by (subst find_hole_from.simps) (use o a(1) c(1) in \<open>simp add: overlaps_def\<close>)
  also have "\<dots> = Some (Some (2 ^ 39))"
    by (subst find_hole_from.simps) (use o a(2) c(2) in \<open>simp add: overlaps_def\<close>)
  finally show ?thesis using assms(2) by (simp add: find_hole_def)
qed

lemma boot_stack:
  assumes b: "holds b (insert 0 {5..<8})" and t: "ts 0x6000 = Some (new_empty[0 := e])" and s: "bd_heap s = \<lparr>arcs = [0 \<mapsto> (code_range, 1)], ns_pt = space ts b\<rparr>"
    "k_next_arc (bd_kernel s) = 1" "current_root 0 s = 0x6000"
  shows "\<exists>s'. add_stack 0 1 (boot_ns 2 [code_map]) s =
    Some (Inr (), (boot_ns 3 [code_map, stack_map]), s') \<and>
    arcs (bd_heap s') 1 = Some (stack_range, 1)"
proof -
  from boot_stack_create [OF b, of ts] obtain r0 m0 b1 e2 e1 where
    c: "create C1GB data_perms (Managed Down) (space ts b) = Some (r0, m0)"
      "expand_to r0 1 m0 = Some (Inr (), stack_range, space (ts(0x4000 \<mapsto> new_empty[511 := e2], 0x3000 \<mapsto> new_empty[511 := e1])) b1)"
      "leads e2 0x3000" "leads e1 0x2000" "holds b1 (insert 0 {2..<8})" by blast
  let ?ts = "ts(0x4000 \<mapsto> new_empty[511 := e2], 0x3000 \<mapsto> new_empty[511 := e1])"
  from boot_stack_map [OF c(5), of ?ts e] t obtain b2 e4 e3 where
    m: "add_mem_range 1 ''[stack]'' Stack (2 ^ 39) (boot_ns 2 [code_map])
      \<lparr>arcs = [0 \<mapsto> (code_range, 1), 1 \<mapsto> (stack_range, 1)], ns_pt = space ?ts b1\<rparr> =
    Some (Inr 2, (boot_ns 3 [code_map, stack_map]),
      \<lparr>arcs = [0 \<mapsto> (code_range, 1), 1 \<mapsto> (stack_range, 1)],
       ns_pt = space (?ts(0x6000 \<mapsto> new_empty[0 := e, 1 := e4], 0x1000 \<mapsto> new_empty[0 := e3])) b2\<rparr>)"
    and l: "leads e4 0x1000" "leads e3 0x4000" by auto
  let ?h = "\<lparr>arcs = [0 \<mapsto> (code_range, 1), 1 \<mapsto> (stack_range, 1)],
       ns_pt = space (?ts(0x6000 \<mapsto> new_empty[0 := e, 1 := e4], 0x1000 \<mapsto> new_empty[0 := e3])) b2\<rparr>"
  define s1 where "s1 = snd (new_arc stack_range (with_pt (space ?ts b1) s))"
  have s1: "new_arc stack_range (with_pt (space ?ts b1) s) = (1, s1)" "bd_heap s1 = \<lparr>arcs = [0 \<mapsto> (code_range, 1), 1 \<mapsto> (stack_range, 1)], ns_pt = space ?ts b1\<rparr>"
    "current_root 0 (with_heap ?h s1) = 0x6000" "bd_heap (with_heap ?h s1) = ?h"
    using s by (simp_all add: s1_def new_arc_def with_pt_def with_heap_def current_root_def)
  have w: "\<forall>x. 2 ^ 39 + 2 ^ 30 - 0x1000 \<le> x \<and> x < 2 ^ 39 + 2 ^ 30 \<longrightarrow> user_writeable 0x6000 (ns_pt ?h) x"
    using boot_stack_writeable [OF _ _ _ _ l c(3,4)] by simp
  from write_user_ok [of "2 ^ 39 + 2 ^ 30 - 0x1000" "2 ^ 39 + 2 ^ 30" 0 "with_heap ?h s1" "2 ^ 39 + 2 ^ 30 - 8" "le_bytes 8 0"] w s1 obtain s2 where
    s2: "write_user 0 (2 ^ 39 + 2 ^ 30 - 8) (le_bytes 8 0) (with_heap ?h s1) = Some s2" "bd_heap s2 = ?h" "current_root 0 s2 = 0x6000" by auto
  from write_user_ok [of "2 ^ 39 + 2 ^ 30 - 0x1000" "2 ^ 39 + 2 ^ 30" 0 s2 "2 ^ 39 + 2 ^ 30 - 16" "le_bytes 8 0"] w s2 obtain s3 where
    s3: "write_user 0 (2 ^ 39 + 2 ^ 30 - 16) (le_bytes 8 0) s2 = Some s3" "bd_heap s3 = ?h" by auto
  have "find_hole C1GB (boot_ns 2 [code_map]) (bd_heap s) = Some (Some (2 ^ 39))"
    by (rule boot_hole) (simp_all add: s(1))
  with c(1,2) m s(1) s1 s2(1) s3 stack_range_bounds show ?thesis
    by (intro exI [of _ s3]) (simp add: add_stack_def panic_unless_def checked_simps)
qed

lemma kept_root: "kernel_kept s s' \<Longrightarrow> current_root c s' = current_root c s"
proof -
  assume "kernel_kept s s'"
  then obtain h n where "bd_kernel s' = (bd_kernel s)\<lparr>k_heap := h, k_next_arc := n\<rparr>" unfolding kernel_kept_def by blast
  then show ?thesis by (simp add: current_root_def)
qed

lemma boot_process:
  assumes b: "holds b (insert 0 {7..<8})" and s: "bd_heap s = \<lparr>arcs = Map.empty, ns_pt = space [0x7000 \<mapsto> new_empty] b\<rparr>"
    "current_root 0 s = 0x7000" "k_next_arc (bd_kernel s) = 0" "k_ns_counter (bd_kernel s) = 1"
  shows "\<exists>s'. build_mem_namespace_for_new_proc 0 init_context s = Some (Inr (boot_ns 3 [code_map, stack_map], 0, 0), s') \<and>
     arcs (bd_heap s') 1 = Some (stack_range, 1)"
proof -
  from boot_empty_namespace [OF assms] obtain b1 s1 where
    e: "build_empty_memory_namespace 0 s = Some (boot_ns 1 [], s1)" "holds b1 (insert 0 {6..<8})"
      "bd_heap s1 = \<lparr>arcs = Map.empty, ns_pt = space low_tables b1\<rparr>" "k_next_arc (bd_kernel s1) = 0" by auto
  let ?s1 = "set_page_tree_root 0 0x6000 s1"
  have r: "bd_heap ?s1 = bd_heap s1" "k_next_arc (bd_kernel ?s1) = 0" "current_root 0 ?s1 = 0x6000"
    using e(4) by (simp_all add: set_page_tree_root_def current_root_def)
  from boot_code [OF e(2), of ?s1] e(3) r obtain b2 en s2 where
    i: "build_initialized_memory_namespace 0 init_context (boot_ns 1 []) ?s1 = Some (Inr (boot_ns 2 [code_map]), s2)"
      "holds b2 (insert 0 {5..<8})" "k_next_arc (bd_kernel s2) = 1"
      "bd_heap s2 = \<lparr>arcs = [0 \<mapsto> (code_range, 1)], ns_pt = space (low_tables(0x5000 \<mapsto> new_empty, 0x6000 \<mapsto> new_empty[0 := en])) b2\<rparr>" by auto
  have "current_root 0 s2 = 0x6000" using kept_initialized [OF i(1)] r(3) by (simp add: kept_root)
  with boot_stack [OF i(2) _ i(4,3), of en] obtain s3 where
    k: "add_stack 0 1 (boot_ns 2 [code_map]) s2 = Some (Inr (), boot_ns 3 [code_map, stack_map], s3)" "arcs (bd_heap s3) 1 = Some (stack_range, 1)" by auto
  have "add_args 0 [] n s = Some (Inr (0, 0), n, s)" for n s by (simp add: add_args_def args_total_def panic_unless_def args_padding_def checked_simps)
  moreover have "ci_args init_context = []" "div_ceil DEFAULT_PROC_STACK_SIZE 0x1000 mod 2 ^ 8 = 1"
    by (simp_all add: init_context_def DEFAULT_PROC_STACK_SIZE_def div_ceil_def)
  ultimately have "build_mem_namespace_for_new_proc 0 init_context s =
      Some (Inr (boot_ns 3 [code_map, stack_map], 0, 0), set_page_tree_root 0 (current_root 0 s1) s3)"
    using e(1) i(1) k(1) by (simp add: build_mem_namespace_for_new_proc_def Let_def)
  with k(2) show ?thesis by (auto simp: set_page_tree_root_def)
qed

theorem started_process_ready_witness:
  "\<exists>s s' pid a d. create_process_from_context 0 init_context root_handle s = Some (Inr pid, s') \<and>
     ready_to_run (k_procs (bd_kernel s')) = ready_to_run (k_procs (bd_kernel s)) @ [pid] \<and>
     tasks (k_procs (bd_kernel s')) pid = Some a \<and> objects (k_procs (bd_kernel s')) a = Some d \<and>
     (\<exists>st. cpu_state d = Interrupt st \<and> if_rip (interrupt_frame st) = 0x1000) \<and>
     k_refs (bd_kernel s') (memory_namespace (namespaces d)) = 2"
proof -
  from space_boot obtain b where b: "holds b (insert 0 {7..<8})" by blast
  define s where "s = loader_state (space [0x7000 \<mapsto> new_empty] b)"
  define s0 where "s0 = s\<lparr>bd_kernel := (bd_kernel s)\<lparr>k_procs := (k_procs (bd_kernel s))\<lparr>process_id_counter := process_id_counter (k_procs (bd_kernel s)) + 1\<rparr>\<rparr>\<rparr>"
  have init: "bd_heap s0 = \<lparr>arcs = Map.empty, ns_pt = space [0x7000 \<mapsto> new_empty] b\<rparr>"
    "current_root 0 s0 = 0x7000" "k_next_arc (bd_kernel s0) = 0" "k_ns_counter (bd_kernel s0) = 1" by (simp_all add: loader_defs s_def s0_def)
  from boot_process [OF b init] obtain s1 where p: "build_mem_namespace_for_new_proc 0 init_context s0 =
      Some (Inr (boot_ns 3 [code_map, stack_map], 0, 0), s1)" "arcs (bd_heap s1) 1 = Some (stack_range, 1)" by blast
  from built_kernel [OF p(1)] obtain hp n i where "bd_kernel s1 = (bd_kernel s0)\<lparr>k_ns_counter := i, k_heap := hp, k_next_arc := n\<rparr>"
    by blast
  then have reg: "k_registry (bd_kernel s1) = k_registry (loader_kernel m)" for m by (simp add: loader_defs s_def s0_def)
  have "\<exists>sys. sys_default i (k_registry (bd_kernel s1)) = Some sys" for i
    by (simp add: reg [of "space Map.empty b"] sys_default_def loader_kernel_def get_syscall_pack_def map_syscall_pack_def sys_create_empty_def
        binary_search_by_def split: unit.split)
  then obtain sys where sys: "\<And>i. sys_default i (k_registry (bd_kernel s1)) = Some (sys i)" by metis
  have "find (\<lambda>r. range_type r = Stack) [code_map, stack_map] = Some stack_map"
    "owned_range (bd_heap s1) stack_map = Some (2 ^ 39, 2 ^ 39 + 2 ^ 30)"
    using p(2) stack_range_bounds by (simp_all add: code_map_def stack_map_def owned_range_def arc_get_def)
  then have "\<exists>pid s'. create_process_from_context 0 init_context h s = Some (Inr pid, s')" for h
    using p(1) sys
    by (simp add: create_process_from_context_def s0_def new_namespace_id_def Let_def checked_simps)
  then obtain pid s' where c: "create_process_from_context 0 init_context root_handle s = Some (Inr pid, s')" by blast
  have "word_of_nat (entry_point init_context) = (0x1000 :: u64)" by (simp add: init_context_def)
  with started_process_ready [OF c] obtain a d st where
    "ready_to_run (k_procs (bd_kernel s')) = ready_to_run (k_procs (bd_kernel s)) @ [pid]" "tasks (k_procs (bd_kernel s')) pid = Some a"
    "objects (k_procs (bd_kernel s')) a = Some d" "cpu_state d = Interrupt st" "if_rip (interrupt_frame st) = 0x1000"
    "k_refs (bd_kernel s') (memory_namespace (namespaces d)) = 2" by auto
  with c show ?thesis by blast
qed

end
