(* ===== verification/Spec2Isabelle.thy ===== *)
theory Spec2Isabelle
  imports DataQueue BuddyInit MemoryNamespace NetScenarios AsyncLocks LockStatistics ArcCounts SchedulerSafety SyscallSafety
    ProcessStart
begin

text \<open>
  A verification development for meowOS, an operating system kernel for x86-64 written in Rust. File names
  below are relative to \<open>src/kernel/src\<close>, and to \<open>src/std/src\<close> where they begin with \<open>std\<close>.

  \<^bold>\<open>The program.\<close> The boot loader's memory map feeds the buddy allocator of physical frames. Page tables are
  made of such frames; the virtual memory manager and the allocator of virtual areas work on the kernel's half of
  a page tree, and ranges of user memory are subtrees that several address spaces can share. A process has three
  kinds of namespaces: memory, system calls and open files. The loader turns a program file into a
  description, the builder turns the description into an address space and a process, and the scheduler
  moves processes between its queues and the processors. A process enters the kernel through an interrupt or a
  system call; its number is looked up in the system call namespace, and the handler works on the
  namespaces of the caller. Timed events wake sleeping processes. The network stack receives
  frames in a queue and sends each through its layers, hooks and tables. Locks, reference counts and the
  queue come from the kernel's own standard library.

  \<^bold>\<open>Conventions.\<close> The kernel is built with overflow checks. A panic, a failed assertion, an overflow, an
  index out of range, a lock that is taken twice by one processor and a loop that does not end are all
  the value \<open>None\<close> of the option monad. \<open>Result<T, KernelError>\<close> is \<open>'a kresult\<close>, inside the option
  where both can happen. Words that are computed on bit by bit are of type \<open>u8\<close>, \<open>u32\<close> or \<open>u64\<close>; other unsigned
  integers are natural numbers with checked operations (\<open>checked_add 64\<close> and so on). Code that changes
  state takes the state and returns it. Objects that alias are kept in explicit heaps. Printing is left out.

  \<^bold>\<open>Shared theories.\<close>
    \<^item> \<open>Prelude\<close>: machine integers, error codes (\<open>std/error.rs\<close>), checked arithmetic, slices.
    \<^item> \<open>BinarySearch\<close>, \<open>BTreeSets\<close>: the search of Rust's slices and its ordered sets. The locale
      \<open>ordered_by\<close> is what the search asks of a comparison; it is interpreted on the orders of networks and routes.
    \<^item> \<open>BitStore\<close>: bits packed into bytes. The locale \<open>bit_array\<close> is interpreted on byte lists and on the tree of the
      buddy allocator.
    \<^item> \<open>Interleaving\<close>: threads that share memory, one atomic operation at a time. The locales \<open>counted_lock\<close> and
      \<open>exclusive_lock\<close> give mutual exclusion from a counter; they are interpreted on four locks.

  \<^bold>\<open>Physical memory.\<close> \<open>Addresses\<close> models \<open>memory/addresses\<close> and the copies from and to user memory of
  \<open>memory/mod.rs\<close>. \<open>BuddyAllocator\<close> translates \<open>memory/physical_allocator/buddy_allocator.rs\<close> at the level of the bytes of the
  tree; \<open>BuddyCorrect\<close> has the invariant \<open>buddy_wf\<close>, \<open>BuddyOps\<close> the behaviour of every request, the contract
  \<open>frame_allocator\<close> and that no frame is handed out twice, and \<open>BuddyInit\<close> that initialisation establishes the
  invariant. \<open>PhysAllocator\<close> models owned addresses and ranges (\<open>memory/physical_allocator/mod.rs\<close>).

  \<^bold>\<open>Virtual memory.\<close> \<open>PageTableEntry\<close> and \<open>PageTable\<close> model \<open>arch/x86_64/memory\<close>: entries as words, tables as lists of
  512 entries at physical addresses. \<open>AllocationArea\<close>, \<open>VirtMemManager\<close> and \<open>VirtualMemoryRange\<close> model
  \<open>memory/virt_mem_manager\<close>: a request for kernel pages fails exactly when no area is large enough, and user ranges
  grow and shrink inside their capacity. \<open>MemoryNamespace\<close> models
  \<open>proc/namespaces/memory_namespace.rs\<close>: its step relation \<open>ns_step\<close> keeps mapped ranges apart, \<open>find_hole\<close> finds
  the lowest hole, and page faults are resolved only where the range allows the access. Both stay below \<open>2 ^ 48\<close>, as
  the code checks; the user half ends at \<open>2 ^ 47\<close>, and the lemmas show that ranges and holes reach beyond it.

  \<^bold>\<open>Processes.\<close> \<open>ProcessState\<close> models the saved registers, the entry and exit code and process objects
  (\<open>arch/x86_64/syscall.rs\<close>, \<open>arch/x86_64/interrupts\<close>, \<open>proc/process_data.rs\<close>); registers survive a system call. \<open>Scheduler\<close> models
  \<open>proc/scheduler.rs\<close>, \<open>proc/context_switch.rs\<close> and \<open>proc/dispatcher.rs\<close> for any number of processors; \<open>SchedulerSafety\<close>
  shows that no process is lost, doubled or left asleep after its wake-up, and that waiting is bounded. \<open>Timers\<close> models
  \<open>std/time.rs\<close> and the events of \<open>arch/x86_64/interrupts/lapic_timer.rs\<close>, with the error of a programmed timer against
  the duration that was asked for.

  \<^bold>\<open>System calls.\<close> \<open>SyscallNamespace\<close> and \<open>Namespaces\<close> model \<open>proc/syscall/syscall_registry.rs\<close> and \<open>proc/namespaces\<close>.
  \<open>Syscalls\<close> has the entry of \<open>proc/syscall/mod.rs\<close> and the nineteen handlers of four packs. \<open>SyscallSafety\<close> simulates
  them by a small machine (\<open>namespace_step\<close>), from which follow that references are typed and counted and
  that a process reaches only namespaces it was given; it also shows that six handlers store their
  results with the lock of the process held, which never returns. These handlers take the storing operation as an
  argument (\<open>ret\<close>), so that the lemma can tell this from a panic on the way. A pack that is mapped again comes without the
  restrictions of its first mapping.

  \<^bold>\<open>Loading a program.\<close> \<open>ElfLoader\<close> models \<open>parsers/elf\<close>, \<open>proc/loaders\<close> and \<open>proc/context/info.rs\<close>: what is accepted is
  a description with ordered, aligned regions that contain the initial data. \<open>ProcessBuilder\<close> models
  \<open>proc/context/builder.rs\<close>: the layout of the arguments, what a refused program leaves behind, and what dropping an address
  space does to the kernel's page tables. \<open>ProcessStart\<close> shows what a started process has: its place in the ready queue, its
  saved state and its namespaces, with a complete start in a machine of eight frames.

  \<^bold>\<open>Network.\<close> \<open>NetChecksum\<close>, \<open>NetTypes\<close>, \<open>NetPacket\<close>, \<open>RoutingTables\<close>, \<open>NetProtocols\<close> and \<open>NetFlow\<close> follow the files of \<open>net\<close>.
  \<open>NetRoundtrip\<close> shows that written headers are read back, \<open>NetTermination\<close> that the loop over the layers
  ends, and \<open>NetScenarios\<close> runs whole packets through the stack. \<open>RoutingTables\<close> shows which route
  a lookup uses: the longest interface network, else the route with the longest prefix; and when the unsorted insertions of
  \<open>register_nic\<close> keep the order that it needs.

  \<^bold>\<open>Standard library.\<close> \<open>DataQueue\<close> models \<open>std/queue.rs\<close> over a heap of boxes, with the contract \<open>fifo_queue\<close>
  interpreted on it. \<open>SpinLocks\<close>, \<open>AsyncLocks\<close>, \<open>LockStatistics\<close> and \<open>ArcCounts\<close> model \<open>std/sync\<close>: locks exclude
  each other's holders, futures of blocking tasks spin where others park, a writer that waits for readers of the
  asynchronous lock is never woken, and reference counts free once, at the end. The trace lines of a debug build are
  part of \<open>ArcCounts\<close>; they are the only accesses to a freed object.

  \<^bold>\<open>Loops and bounds.\<close> There is no fuel. Loops over lists are structural; \<open>find_hole_from\<close> and \<open>command_split\<close> have
  termination proofs. Loops whose end depends on an invariant are \<open>partial_function (option)\<close>: the walks over the
  tree of the buddy allocator and the packet flow are shown to return under their invariants, and for the queue it is
  shown when they do not. The number of levels of a page tree is the argument of the recursion, at most
  four. The readers-writer locks are verified for at most 32767 threads, so that the count of readers
  does not reach the bit of the writer.

  \<^bold>\<open>Parameters.\<close> Handlers of the file system pack, the bytes of padding and of
  freshly allocated memory, the clock and the largest block of the kernel heap are arguments of the models. The functions
  that can be registered as network hooks are the five of the kernel; which of them are registered, and where, is arbitrary.

  \<^bold>\<open>Not modelled.\<close>
    \<^item> Drivers and hardware access (\<open>drivers\<close>, \<open>acpi\<close>, \<open>clocks\<close>, \<open>vga\<close>, the interrupt controllers, start-up of
      processors): their effect is on device registers, ports and firmware memory.
    \<^item> The virtual file system, its calls and the file systems (\<open>vfs\<close>, \<open>drivers/filesystem\<close>): asynchronous code over
      trait objects of drivers. Only the table of open files of a process is modelled. \<open>rfs\<close> is not compiled.
    \<^item> The task runner and the shell: an executor of opaque futures, and commands that print.
    \<^item> The kernel heap: it works in place on raw memory; collections are modelled as values instead.
    \<^item> Caches of translations and memory ordering: atomic operations are sequentially consistent.
    \<^item> Macros, build scripts, fonts and tables of codes.
\<close>

end
